(* ===== verification/Firmware_Prelude.thy ===== *)
theory Firmware_Prelude
  imports Main "HOL-Library.Word" "HOL-Library.Monad_Syntax"
begin

text \<open>
  Shared vocabulary of the development: the integer types of the RV32 target, C character
  strings as byte lists, bounds-checked access to C arrays, and the arithmetic of 32-bit
  addresses that the memory lemmas use.
\<close>

unbundle bit_operations_syntax

type_synonym u8 = "8 word"
type_synonym u32 = "32 word"
type_synonym u64 = "64 word"

text \<open>Facts about bounds-checked arrays, the rules that unfold the firmware monad, and the
  addresses of the memory map.\<close>

named_theorems array_simps
named_theorems fw_simps
named_theorems addr_defs

section \<open>C strings\<close>

text \<open>The bytes of a string literal, without its terminating NUL.\<close>

definition bytes :: "string \<Rightarrow> u8 list" where
  "bytes s = map of_char s"

text \<open>A string literal as the array the compiler makes of it.\<close>

definition cstr :: "string \<Rightarrow> u8 list" where
  "cstr s = bytes s @ [0]"

lemma length_bytes [simp]: "length (bytes s) = length s"
  by (simp add: bytes_def)

section \<open>Bounds-checked arrays\<close>

text \<open>A C array is a list of fixed length. An access outside of it is undefined
  behaviour, so it is \<open>None\<close>.\<close>

definition array_get :: "'a list \<Rightarrow> nat \<Rightarrow> 'a option" where
  "array_get xs i = (if i < length xs then Some (xs ! i) else None)"

definition array_put :: "'a list \<Rightarrow> nat \<Rightarrow> 'a \<Rightarrow> 'a list option" where
  "array_put xs i v = (if i < length xs then Some (xs[i := v]) else None)"

lemma array_get_Some [array_simps]: "i < length xs \<Longrightarrow> array_get xs i = Some (xs ! i)"
  by (simp add: array_get_def)

lemma array_put_Some [array_simps]: "i < length xs \<Longrightarrow> array_put xs i v = Some (xs[i := v])"
  by (simp add: array_put_def)

lemma array_get_append [array_simps]:
  "i = length xs \<Longrightarrow> array_get (xs @ y # ys) i = Some y"
  by (simp add: array_get_def)

lemma array_put_drop:
  "i = length xs \<Longrightarrow> k < length ys \<Longrightarrow> array_put (xs @ drop k ys) i v = Some (xs @ v # drop (Suc k) ys)"
  by (simp add: array_put_def list_update_append Cons_nth_drop_Suc [symmetric])

lemma take_array_put: "array_put xs i v = Some ys \<Longrightarrow> take i ys = take i xs"
  by (auto simp: array_put_def split: if_splits)

lemma take_list_update_Suc: "i < length xs \<Longrightarrow> take (Suc i) (xs[i := v]) = take i xs @ [v]"
  by (simp add: take_Suc_conv_app_nth)

text \<open>A counted loop over a state that can fail.\<close>

fun fold_option :: "('a \<Rightarrow> 's \<Rightarrow> 's option) \<Rightarrow> 'a list \<Rightarrow> 's \<Rightarrow> 's option" where
  "fold_option f [] s = Some s"
| "fold_option f (x # xs) s = do { s' \<leftarrow> f x s; fold_option f xs s' }"

lemma fold_option_append:
  "fold_option f (xs @ ys) s = do { s' \<leftarrow> fold_option f xs s; fold_option f ys s' }"
  by (induction xs arbitrary: s) (auto split: bind_splits)

section \<open>Address arithmetic\<close>

lemma unat_diff_neq:
  fixes a d :: u32
  shows "a \<noteq> d \<Longrightarrow> unat (a - (d + 1)) = unat (a - d) - 1"
  by unat_arith

lemma unat_diff_pos:
  fixes a d :: u32
  shows "a \<noteq> d \<Longrightarrow> 0 < unat (a - d)"
  by unat_arith

lemma unat_dec:
  fixes n :: u32
  shows "n \<noteq> 0 \<Longrightarrow> unat (n - 1) = unat n - 1"
  by unat_arith

text \<open>The measure of a counted loop over a 32-bit index.\<close>

lemma count_up:
  fixes i n :: u32
  shows "i < n \<Longrightarrow> unat n - unat (i + 1) < unat n - unat i"
  by unat_arith

lemma unat_of_nat_small: "k < 2 ^ 32 \<Longrightarrow> unat (of_nat k :: u32) = k"
  by (simp add: unat_of_nat)

lemma unat_Suc_less:
  fixes i n :: u32
  shows "i < n \<Longrightarrow> unat (i + 1) = Suc (unat i)"
  by unat_arith

lemma unat_gt_0: "(n :: u32) \<noteq> 0 \<Longrightarrow> 0 < unat n"
  by (simp add: unat_gt_0)

lemma word_less_4:
  fixes w :: u32
  assumes "unat w < 4"
  shows "w = 0 \<or> w = 1 \<or> w = 2 \<or> w = 3"
  using assms by unat_arith

lemma unat_add_no_wrap:
  fixes a b :: u32
  shows "unat a + unat b < 2 ^ 32 \<Longrightarrow> unat (a + b) = unat a + unat b"
  by (simp add: unat_word_ariths)

lemma unat_mod4: "unat ((a :: u32) AND 3) = unat a mod 4"
proof -
  have "a AND 3 = a mod 4"
    using word_mod_2p_is_mask [of 2 a] by (simp add: mask_eq_exp_minus_1)
  then show ?thesis
    by (simp add: unat_mod)
qed

lemma aligned4_add4: "((a :: u32) + 4) AND 3 = a AND 3"
proof -
  have "unat ((a + 4) AND 3) = unat (a AND 3)"
    by (simp add: unat_mod4 unat_word_ariths mod_mod_cancel)
  then show ?thesis by (simp only: unsigned_word_eqI)
qed

lemma div_adjacent:
  fixes a b N :: nat
  assumes "a \<le> b" "b < a + N"
  shows "b div N = a div N \<or> b div N = Suc (a div N)"
proof -
  have "0 < N" using assms by simp
  have "b div N \<le> (a + N) div N" using assms by (intro div_le_mono) simp
  also have "(a + N) div N = Suc (a div N)" using \<open>0 < N\<close> by (metis Suc_eq_plus1 div_add_self2 less_numeral_extra(3))
  finally have "b div N \<le> Suc (a div N)" .
  moreover have "a div N \<le> b div N" using assms by (intro div_le_mono)
  ultimately show ?thesis by linarith
qed

lemma div_carry_once:
  fixes a b c d N :: nat
  assumes "a \<le> b" "b \<le> c" "c \<le> d" "d < a + N" "a div N \<noteq> b div N"
  shows "c div N = d div N"
proof -
  have "a div N \<le> b div N" "b div N \<le> c div N" "c div N \<le> d div N"
    using assms by (simp_all add: div_le_mono)
  with div_adjacent [of a d N] assms show ?thesis by linarith
qed

section \<open>Little-endian words\<close>

definition byte_at :: "u32 \<Rightarrow> nat \<Rightarrow> u8" where
  "byte_at w k = ucast (drop_bit (8 * k) w)"

definition word_of_bytes :: "u8 \<Rightarrow> u8 \<Rightarrow> u8 \<Rightarrow> u8 \<Rightarrow> u32" where
  "word_of_bytes b0 b1 b2 b3 =
     ucast b0 OR push_bit 8 (ucast b1) OR push_bit 16 (ucast b2) OR push_bit 24 (ucast b3)"

lemma word_of_bytes_byte_at [simp]:
  "word_of_bytes (byte_at w 0) (byte_at w 1) (byte_at w 2) (byte_at w 3) = w"
proof (rule bit_word_eqI)
  fix n assume "n < LENGTH(32)"
  then have n: "n < 32" by simp
  consider "n < 8" | "8 \<le> n" "n < 16" | "16 \<le> n" "n < 24" | "24 \<le> n" by linarith
  then show "bit (word_of_bytes (byte_at w 0) (byte_at w 1) (byte_at w 2) (byte_at w 3)) n
      = bit w n"
    using n by cases (auto simp: word_of_bytes_def byte_at_def bit_simps)
qed

lemma byte_at_word_of_bytes [simp]:
  "byte_at (word_of_bytes b0 b1 b2 b3) 0 = b0"
  "byte_at (word_of_bytes b0 b1 b2 b3) 1 = b1"
  "byte_at (word_of_bytes b0 b1 b2 b3) (Suc 0) = b1"
  "byte_at (word_of_bytes b0 b1 b2 b3) 2 = b2"
  "byte_at (word_of_bytes b0 b1 b2 b3) 3 = b3"
  by (rule bit_word_eqI; auto simp: word_of_bytes_def byte_at_def bit_simps
      dest: bit_imp_le_length)+

end
