(* ===== verification/Machine.thy ===== *)
theory Machine
  imports Firmware_Prelude
begin

text \<open>
  The machine the firmware runs on, as the C code sees it: byte memory, and the ordered
  trace of observable accesses (the volatile reads and writes of \<open>drivers/mmio.h\<close> and
  the calls of functions that are not part of the repository). What a device answers is
  decided by a parameter \<open>hw\<close>, an arbitrary function of everything that was observed
  before, so a theorem about all \<open>hw\<close> holds for every device behaviour.

  A firmware function is a computation with four outcomes: it returns (\<open>Ret\<close>), it
  reaches one of the deliberate \<open>for (;;) {}\<close> loops (\<open>Stop\<close>), it does something
  undefined (\<open>Fault\<close>), or a polling loop never ends (\<open>None\<close>).
\<close>

section \<open>State and computations\<close>

datatype query = Reg u32 | Ext string "u32 list"

datatype access = Rd u32 u32 | Wr u32 u32 | Call string "u32 list" u32

type_synonym memory = "u32 \<Rightarrow> u8"
type_synonym hw = "access list \<Rightarrow> query \<Rightarrow> u32"

record machine =
  mem :: memory
  trace :: "access list"   \<comment> \<open>latest access first\<close>

datatype 'a outcome = Ret 'a machine | Stop machine | Fault

type_synonym 'a fw = "hw \<Rightarrow> machine \<Rightarrow> 'a outcome option"

definition return_fw :: "'a \<Rightarrow> 'a fw" where
  "return_fw a hw m = Some (Ret a m)"

definition hang_fw :: "'a fw" where
  "hang_fw hw m = Some (Stop m)"

definition of_option_fw :: "'a option \<Rightarrow> 'a fw" where
  "of_option_fw x hw m = (case x of None \<Rightarrow> Some Fault | Some a \<Rightarrow> Some (Ret a m))"

definition bind_fw :: "'a fw \<Rightarrow> ('a \<Rightarrow> 'b fw) \<Rightarrow> 'b fw" where
  "bind_fw f g hw m =
     (case f hw m of
        None \<Rightarrow> None
      | Some (Ret a m') \<Rightarrow> g a hw m'
      | Some (Stop m') \<Rightarrow> Some (Stop m')
      | Some Fault \<Rightarrow> Some Fault)"

definition then_fw :: "'a fw \<Rightarrow> 'b fw \<Rightarrow> 'b fw" where
  "then_fw f g = bind_fw f (\<lambda>_. g)"

fun seq_fw :: "unit fw list \<Rightarrow> unit fw" where
  "seq_fw [] = return_fw ()"
| "seq_fw (f # fs) = then_fw f (seq_fw fs)"

text \<open>The counted loops \<open>for (i = a; i < b; i++)\<close>, over the list of index values.\<close>

fun for_fw :: "nat list \<Rightarrow> (nat \<Rightarrow> unit fw) \<Rightarrow> unit fw" where
  "for_fw [] body = return_fw ()"
| "for_fw (i # is) body = then_fw (body i) (for_fw is body)"

fun fold_fw :: "nat list \<Rightarrow> (nat \<Rightarrow> 's \<Rightarrow> 's fw) \<Rightarrow> 's \<Rightarrow> 's fw" where
  "fold_fw [] body s = return_fw s"
| "fold_fw (i # is) body s = bind_fw (body i s) (\<lambda>s'. fold_fw is body s')"

lemma return_bind_fw [simp]: "bind_fw (return_fw a) g = g a"
  by (intro ext) (simp add: bind_fw_def return_fw_def)

lemma bind_return_fw [simp]: "bind_fw f return_fw = f"
  by (intro ext) (auto simp: bind_fw_def return_fw_def split: option.split outcome.split)

lemma bind_return_unit [simp]: "bind_fw f (\<lambda>_. return_fw ()) = f"
  by (intro ext) (auto simp: bind_fw_def return_fw_def split: option.split outcome.split)

lemma bind_assoc_fw: "bind_fw (bind_fw f g) h = bind_fw f (\<lambda>a. bind_fw (g a) h)"
  by (intro ext) (auto simp: bind_fw_def split: option.split outcome.split)

lemma hang_bind_fw [simp]: "bind_fw hang_fw g = hang_fw"
  by (intro ext) (simp add: bind_fw_def hang_fw_def)

lemma of_option_bind_fw [simp]: "bind_fw (of_option_fw (Some a)) g = g a"
  by (intro ext) (simp add: bind_fw_def of_option_fw_def)

lemma bind_fw_Ret [fw_simps]: "f hw m = Some (Ret a m') \<Longrightarrow> bind_fw f g hw m = g a hw m'"
  by (simp add: bind_fw_def)

lemma bind_fw_Stop [fw_simps]: "f hw m = Some (Stop m') \<Longrightarrow> bind_fw f g hw m = Some (Stop m')"
  by (simp add: bind_fw_def)

lemma then_fw_apply [fw_simps]: "then_fw f g hw m = bind_fw f (\<lambda>_. g) hw m"
  by (simp add: then_fw_def)

lemmas [fw_simps] = return_fw_def hang_fw_def of_option_fw_def

lemma for_fw_append: "for_fw (is @ js) body = then_fw (for_fw is body) (for_fw js body)"
  by (induction "is") (simp_all add: then_fw_def bind_assoc_fw)

lemma fold_fw_Nil [simp]: "fold_fw [] body = return_fw"
  by (rule ext) simp

lemma fold_fw_append: "fold_fw (is @ js) body s = bind_fw (fold_fw is body s) (fold_fw js body)"
proof (induction "is" arbitrary: s)
  case (Cons a "is")
  then have "fold_fw (is @ js) body = (\<lambda>s. bind_fw (fold_fw is body s) (fold_fw js body))"
    by blast
  then show ?case by (simp add: bind_assoc_fw)
qed simp

lemma fold_fw_snoc: "fold_fw [0..<Suc n] body s = bind_fw (fold_fw [0..<n] body s) (body n)"
proof -
  have "fold_fw [n] body = body n" by (rule ext) simp
  then show ?thesis by (simp add: fold_fw_append)
qed

section \<open>Volatile accesses\<close>

text \<open>\<open>mmio_read\<close>, \<open>mmio_write\<close> of \<open>drivers/mmio.h\<close>, and a call of an external function
  whose result the environment chooses.\<close>

definition mmio_write :: "u32 \<Rightarrow> u32 \<Rightarrow> unit fw" where
  "mmio_write addr v hw m = Some (Ret () (m\<lparr>trace := Wr addr v # trace m\<rparr>))"

definition mmio_read :: "u32 \<Rightarrow> u32 fw" where
  "mmio_read addr hw m =
     (let v = hw (trace m) (Reg addr) in Some (Ret v (m\<lparr>trace := Rd addr v # trace m\<rparr>)))"

definition extern_fw :: "string \<Rightarrow> u32 list \<Rightarrow> u32 fw" where
  "extern_fw f args hw m =
     (let r = hw (trace m) (Ext f args) in Some (Ret r (m\<lparr>trace := Call f args r # trace m\<rparr>)))"

text \<open>Byte accesses to plain memory through a pointer.\<close>

definition load8 :: "u32 \<Rightarrow> u8 fw" where
  "load8 a hw m = Some (Ret (mem m a) m)"

definition store8 :: "u32 \<Rightarrow> u8 \<Rightarrow> unit fw" where
  "store8 a v hw m = Some (Ret () (m\<lparr>mem := (mem m)(a := v)\<rparr>))"

text \<open>A busy wait \<open>while (!ok(mmio_read(addr))) {}\<close>; it may never return.\<close>

partial_function (option) poll_until ::
    "u32 \<Rightarrow> (u32 \<Rightarrow> bool) \<Rightarrow> hw \<Rightarrow> machine \<Rightarrow> u32 outcome option" where
  "poll_until addr ok hw m =
     (let v = hw (trace m) (Reg addr); m' = m\<lparr>trace := Rd addr v # trace m\<rparr>
      in if ok v then Some (Ret v m') else poll_until addr ok hw m')"

text \<open>The trace after \<open>n\<close> reads of the same register.\<close>

fun poll_trace :: "hw \<Rightarrow> u32 \<Rightarrow> nat \<Rightarrow> access list \<Rightarrow> access list" where
  "poll_trace hw addr 0 tr = tr"
| "poll_trace hw addr (Suc n) tr = poll_trace hw addr n (Rd addr (hw tr (Reg addr)) # tr)"

lemma poll_until_least:
  assumes "ok (hw (poll_trace hw addr n (trace m)) (Reg addr))"
    and "\<forall>k < n. \<not> ok (hw (poll_trace hw addr k (trace m)) (Reg addr))"
  shows "poll_until addr ok hw m =
      Some (Ret (hw (poll_trace hw addr n (trace m)) (Reg addr))
        (m\<lparr>trace := poll_trace hw addr (Suc n) (trace m)\<rparr>))"
  using assms
proof (induction n arbitrary: m)
  case 0
  then show ?case by (simp add: poll_until.simps Let_def)
next
  case (Suc n)
  let ?m = "m\<lparr>trace := Rd addr (hw (trace m) (Reg addr)) # trace m\<rparr>"
  from Suc.prems(2) have "\<not> ok (hw (trace m) (Reg addr))" by force
  moreover have "poll_until addr ok hw ?m =
      Some (Ret (hw (poll_trace hw addr n (trace ?m)) (Reg addr))
        (?m\<lparr>trace := poll_trace hw addr (Suc n) (trace ?m)\<rparr>))"
  proof (rule Suc.IH)
    show "ok (hw (poll_trace hw addr n (trace ?m)) (Reg addr))"
      using Suc.prems(1) by simp
    show "\<forall>k < n. \<not> ok (hw (poll_trace hw addr k (trace ?m)) (Reg addr))"
      using Suc.prems(2) by (metis Suc_mono poll_trace.simps(2) select_convs(2) update_convs(2) surjective)
  qed
  ultimately show ?case by (subst poll_until.simps) (simp add: Let_def)
qed

lemma poll_until_returns:
  assumes "ok (hw (poll_trace hw addr n (trace m)) (Reg addr))"
  obtains k where "ok (hw (poll_trace hw addr k (trace m)) (Reg addr))"
    and "poll_until addr ok hw m =
      Some (Ret (hw (poll_trace hw addr k (trace m)) (Reg addr))
        (m\<lparr>trace := poll_trace hw addr (Suc k) (trace m)\<rparr>))"
proof -
  define k where "k = (LEAST k. ok (hw (poll_trace hw addr k (trace m)) (Reg addr)))"
  have "ok (hw (poll_trace hw addr k (trace m)) (Reg addr))"
    unfolding k_def using assms by (rule LeastI)
  moreover have "\<forall>j < k. \<not> ok (hw (poll_trace hw addr j (trace m)) (Reg addr))"
    unfolding k_def using not_less_Least by blast
  ultimately show thesis using that poll_until_least by blast
qed

section \<open>Observable effects and their specification\<close>

fun is_read :: "access \<Rightarrow> bool" where
  "is_read (Rd a v) = True"
| "is_read _ = False"

text \<open>What the firmware did to its devices, in the order it did it.\<close>

definition effects :: "machine \<Rightarrow> access list" where
  "effects m = rev (filter (\<lambda>x. \<not> is_read x) (trace m))"

lemma effects_simps [simp]:
  "effects (m\<lparr>mem := x\<rparr>) = effects m"
  "effects (m\<lparr>trace := Rd a v # trace m\<rparr>) = effects m"
  "effects (m\<lparr>trace := Wr a v # trace m\<rparr>) = effects m @ [Wr a v]"
  "effects (m\<lparr>trace := Call f xs r # trace m\<rparr>) = effects m @ [Call f xs r]"
  by (simp_all add: effects_def)

lemma filter_poll_trace:
  "filter (\<lambda>x. \<not> is_read x) (poll_trace hw addr n tr) = filter (\<lambda>x. \<not> is_read x) tr"
  by (induction n arbitrary: tr) simp_all

text \<open>\<open>does hw f Q\<close>: from any machine, \<open>f\<close> returns, leaves the memory alone, and its
  result and the effects it adds satisfy \<open>Q\<close>. Total correctness.\<close>

definition does :: "hw \<Rightarrow> 'a fw \<Rightarrow> ('a \<Rightarrow> access list \<Rightarrow> bool) \<Rightarrow> bool" where
  "does hw f Q \<longleftrightarrow>
     (\<forall>m. \<exists>a m' es. f hw m = Some (Ret a m') \<and> mem m' = mem m \<and>
        effects m' = effects m @ es \<and> Q a es)"

definition emits :: "hw \<Rightarrow> unit fw \<Rightarrow> access list \<Rightarrow> bool" where
  "emits hw f es = does hw f (\<lambda>_ es'. es' = es)"

lemma does_return: "Q a [] \<Longrightarrow> does hw (return_fw a) Q"
  by (simp add: does_def return_fw_def)

lemma does_write: "Q () [Wr addr v] \<Longrightarrow> does hw (mmio_write addr v) Q"
  by (simp add: does_def mmio_write_def)

lemma does_read: "(\<And>v. Q v []) \<Longrightarrow> does hw (mmio_read addr) Q"
  by (simp add: does_def mmio_read_def Let_def)

lemma does_extern: "(\<And>r. Q r [Call f xs r]) \<Longrightarrow> does hw (extern_fw f xs) Q"
  by (simp add: does_def extern_fw_def Let_def)

lemma does_mono: "does hw f R \<Longrightarrow> (\<And>a es. R a es \<Longrightarrow> Q a es) \<Longrightarrow> does hw f Q"
  unfolding does_def by blast

lemma does_bind:
  assumes f: "does hw f R"
    and g: "\<And>a es. R a es \<Longrightarrow> does hw (g a) (\<lambda>b es'. Q b (es @ es'))"
  shows "does hw (bind_fw f g) Q"
  unfolding does_def
proof
  fix m
  from f obtain a m1 es where 1: "f hw m = Some (Ret a m1)" "mem m1 = mem m"
      "effects m1 = effects m @ es" "R a es"
    unfolding does_def by blast
  from g [OF 1(4)] obtain b m2 es' where 2: "g a hw m1 = Some (Ret b m2)" "mem m2 = mem m1"
      "effects m2 = effects m1 @ es'" "Q b (es @ es')"
    unfolding does_def by blast
  from 1 2 show "\<exists>b m' es''. bind_fw f g hw m = Some (Ret b m') \<and> mem m' = mem m \<and>
      effects m' = effects m @ es'' \<and> Q b es''"
    by (intro exI [of _ b] exI [of _ m2] exI [of _ "es @ es'"]) (simp add: bind_fw_def)
qed

lemma does_then:
  "does hw f R \<Longrightarrow> (\<And>a es. R a es \<Longrightarrow> does hw g (\<lambda>b es'. Q b (es @ es'))) \<Longrightarrow>
   does hw (then_fw f g) Q"
  unfolding then_fw_def by (rule does_bind)

lemma emits_return: "emits hw (return_fw ()) []"
  unfolding emits_def by (rule does_return) simp

lemma emits_write: "emits hw (mmio_write addr v) [Wr addr v]"
  unfolding emits_def by (rule does_write) simp

lemma emits_then: "emits hw f es \<Longrightarrow> emits hw g es' \<Longrightarrow> emits hw (then_fw f g) (es @ es')"
  unfolding emits_def by (erule does_then) (auto elim: does_mono)

lemma emits_seq_Nil: "emits hw (seq_fw []) []"
  by (simp add: emits_return)

lemma emits_seq_Cons:
  "emits hw f es \<Longrightarrow> emits hw (seq_fw fs) es' \<Longrightarrow> emits hw (seq_fw (f # fs)) (es @ es')"
  by (simp add: emits_then)

lemma emits_for:
  "(\<And>i. i \<in> set is \<Longrightarrow> emits hw (body i) (es i)) \<Longrightarrow>
   emits hw (for_fw is body) (concat (map es is))"
  by (induction "is") (auto intro: emits_return emits_then)

lemma emits_run:
  assumes "emits hw f es"
  obtains m' where "f hw m = Some (Ret () m')" and "mem m' = mem m"
    and "effects m' = effects m @ es"
proof -
  from assms obtain a m' where "f hw m = Some (Ret a m')" "mem m' = mem m"
      "effects m' = effects m @ es"
    unfolding emits_def does_def by blast
  then show thesis using that by simp
qed

lemma emits_unique: "emits hw f es \<Longrightarrow> emits hw f es' \<Longrightarrow> es = es'"
  unfolding emits_def does_def by (metis option.inject outcome.inject(1) same_append_eq)

text \<open>\<open>ends hw f es\<close>: from any machine, \<open>f\<close> reaches a deliberate endless loop after
  exactly the effects \<open>es\<close>.\<close>

definition ends :: "hw \<Rightarrow> 'a fw \<Rightarrow> access list \<Rightarrow> bool" where
  "ends hw f es \<longleftrightarrow>
     (\<forall>m. \<exists>m'. f hw m = Some (Stop m') \<and> mem m' = mem m \<and> effects m' = effects m @ es)"

lemma ends_hang: "ends hw hang_fw []"
  by (simp add: ends_def hang_fw_def)

lemma ends_then: "emits hw f es \<Longrightarrow> ends hw g es' \<Longrightarrow> ends hw (then_fw f g) (es @ es')"
  unfolding ends_def emits_def does_def
  by (metis append_assoc bind_fw_Ret then_fw_def)

lemma ends_bind_stop: "ends hw f es \<Longrightarrow> ends hw (bind_fw f g) es"
  unfolding ends_def by (metis bind_fw_Stop)

lemma ends_then_stop: "ends hw f es \<Longrightarrow> ends hw (then_fw f g) es"
  unfolding then_fw_def by (rule ends_bind_stop)

section \<open>Invariants of the machine\<close>

text \<open>\<open>keeps I f\<close>: whatever the devices answer, if \<open>f\<close> returns or stops, it preserves \<open>I\<close>.\<close>

definition keeps :: "(machine \<Rightarrow> bool) \<Rightarrow> 'a fw \<Rightarrow> bool" where
  "keeps I f \<longleftrightarrow>
     (\<forall>hw m. I m \<longrightarrow>
        (case f hw m of
           Some (Ret a m') \<Rightarrow> I m'
         | Some (Stop m') \<Rightarrow> I m'
         | _ \<Rightarrow> True))"

lemma keeps_return [intro]: "keeps I (return_fw a)"
  by (simp add: keeps_def return_fw_def)

lemma keeps_hang [intro]: "keeps I hang_fw"
  by (simp add: keeps_def hang_fw_def)

lemma keeps_of_option [intro]: "keeps I (of_option_fw x)"
  by (simp add: keeps_def of_option_fw_def split: option.split)

lemma keeps_bind [intro]:
  assumes f: "keeps I f" and g: "\<And>a. keeps I (g a)"
  shows "keeps I (bind_fw f g)"
  unfolding keeps_def
proof (intro allI impI)
  fix hw m assume m: "I m"
  with f have fm: "case f hw m of Some (Ret a m') \<Rightarrow> I m' | Some (Stop m') \<Rightarrow> I m' | _ \<Rightarrow> True"
    unfolding keeps_def by blast
  show "case bind_fw f g hw m of Some (Ret a m') \<Rightarrow> I m' | Some (Stop m') \<Rightarrow> I m' | _ \<Rightarrow> True"
  proof (cases "f hw m")
    case None
    then show ?thesis by (simp add: bind_fw_def)
  next
    case (Some r)
    with fm g show ?thesis
      by (cases r) (simp_all add: bind_fw_def keeps_def)
  qed
qed

lemma keeps_then [intro]: "keeps I f \<Longrightarrow> keeps I g \<Longrightarrow> keeps I (then_fw f g)"
  unfolding then_fw_def by (rule keeps_bind)

lemma keeps_seq: "(\<And>f. f \<in> set fs \<Longrightarrow> keeps I f) \<Longrightarrow> keeps I (seq_fw fs)"
  by (induction fs) auto

lemma keeps_for: "(\<And>i. i \<in> set is \<Longrightarrow> keeps I (body i)) \<Longrightarrow> keeps I (for_fw is body)"
  by (induction "is") auto

lemma keeps_Ret: "keeps I f \<Longrightarrow> I m \<Longrightarrow> f hw m = Some (Ret a m') \<Longrightarrow> I m'"
  unfolding keeps_def by (metis option.case(2) outcome.case(1))

text \<open>When a poll returns, its last access is the read that satisfied it.\<close>

lemma poll_until_last:
  assumes "poll_until addr ok hw m = Some r"
  shows "\<exists>v m'. r = Ret v m' \<and> ok v \<and> mem m' = mem m \<and>
    (\<exists>tr. trace m' = Rd addr v # tr \<and>
      (\<exists>rs. tr = rs @ trace m \<and> (\<forall>x \<in> set rs. \<exists>w. x = Rd addr w)))"
proof -
  let ?P = "\<lambda>addr ok hw m r. \<exists>v m'. r = Ret v m' \<and> ok v \<and> mem m' = mem m \<and>
    (\<exists>tr. trace m' = Rd addr v # tr \<and>
      (\<exists>rs. tr = rs @ trace m \<and> (\<forall>x \<in> set rs. \<exists>w. x = Rd addr w)))"
  show ?thesis
  proof (rule poll_until.raw_induct [where P = ?P, OF _ assms])
    fix f and addr :: u32 and ok and hw :: hw and m :: machine and r
    assume IH: "\<And>addr ok (hw :: hw) (m :: machine) r. f addr ok hw m = Some r \<Longrightarrow> ?P addr ok hw m r"
    let ?v = "hw (trace m) (Reg addr)" and ?m = "m\<lparr>trace := Rd addr (hw (trace m) (Reg addr)) # trace m\<rparr>"
    assume eq: "(let v = ?v; m' = m\<lparr>trace := Rd addr v # trace m\<rparr>
      in if ok v then Some (Ret v m') else f addr ok hw m') = Some r"
    show "?P addr ok hw m r"
    proof (cases "ok ?v")
      case True
      with eq show ?thesis by (auto simp: Let_def)
    next
      case False
      with eq have "f addr ok hw ?m = Some r" by (simp add: Let_def)
      from IH [OF this] obtain v m' rs where r: "r = Ret v m'" "ok v" "mem m' = mem ?m"
          "trace m' = Rd addr v # rs @ trace ?m" "\<forall>x \<in> set rs. \<exists>w. x = Rd addr w"
        by blast
      then show ?thesis
        by (intro exI [of _ v] exI [of _ m'])
          (auto intro!: exI [of _ "rs @ [Rd addr ?v]"])
    qed
  qed
qed

section \<open>Computations without undefined behaviour\<close>

text \<open>\<open>no_fault f Q\<close>: whatever the devices answer and the memory holds, \<open>f\<close> does not fault,
  and if it returns, its result satisfies \<open>Q\<close>.\<close>

definition no_fault :: "'a fw \<Rightarrow> ('a \<Rightarrow> bool) \<Rightarrow> bool" where
  "no_fault f Q \<longleftrightarrow>
     (\<forall>hw m. case f hw m of Some (Ret a m') \<Rightarrow> Q a | Some Fault \<Rightarrow> False | _ \<Rightarrow> True)"

named_theorems nf_intros

lemma nf_return [nf_intros]: "Q a \<Longrightarrow> no_fault (return_fw a) Q"
  by (simp add: no_fault_def return_fw_def)

lemma nf_hang [nf_intros]: "no_fault hang_fw Q"
  by (simp add: no_fault_def hang_fw_def)

lemma nf_of_option: "x = Some a \<Longrightarrow> Q a \<Longrightarrow> no_fault (of_option_fw x) Q"
  by (simp add: no_fault_def of_option_fw_def)

lemma nf_mono: "no_fault f R \<Longrightarrow> (\<And>a. R a \<Longrightarrow> Q a) \<Longrightarrow> no_fault f Q"
  unfolding no_fault_def by (fastforce split: option.splits outcome.splits)

lemma nf_bind:
  assumes f: "no_fault f R" and g: "\<And>a. R a \<Longrightarrow> no_fault (g a) Q"
  shows "no_fault (bind_fw f g) Q"
  unfolding no_fault_def
proof (intro allI)
  fix hw m
  have "case f hw m of Some (Ret a m') \<Rightarrow> R a | Some Fault \<Rightarrow> False | _ \<Rightarrow> True"
    using f by (simp add: no_fault_def)
  moreover have "case g a hw m' of Some (Ret a m') \<Rightarrow> Q a | Some Fault \<Rightarrow> False | _ \<Rightarrow> True" if "R a" for a m'
    using g [OF that] by (simp add: no_fault_def)
  ultimately show "case bind_fw f g hw m of Some (Ret a m') \<Rightarrow> Q a | Some Fault \<Rightarrow> False | _ \<Rightarrow> True"
    by (cases "f hw m"; cases "the (f hw m)") (simp_all add: bind_fw_def)
qed

lemma nf_bind_option:
  "x = Some a \<Longrightarrow> no_fault (g a) Q \<Longrightarrow> no_fault (bind_fw (of_option_fw x) g) Q"
  by simp

lemma nf_then: "no_fault f (\<lambda>_. True) \<Longrightarrow> no_fault g Q \<Longrightarrow> no_fault (then_fw f g) Q"
  unfolding then_fw_def by (rule nf_bind)

lemma nf_write [nf_intros]: "Q () \<Longrightarrow> no_fault (mmio_write addr v) Q"
  by (simp add: no_fault_def mmio_write_def)

lemma nf_read [nf_intros]: "(\<And>v. Q v) \<Longrightarrow> no_fault (mmio_read addr) Q"
  by (simp add: no_fault_def mmio_read_def Let_def)

lemma nf_extern [nf_intros]: "(\<And>v. Q v) \<Longrightarrow> no_fault (extern_fw f xs) Q"
  by (simp add: no_fault_def extern_fw_def Let_def)

lemma nf_load8 [nf_intros]: "(\<And>v. Q v) \<Longrightarrow> no_fault (load8 a) Q"
  by (simp add: no_fault_def load8_def)

lemma nf_store8 [nf_intros]: "Q () \<Longrightarrow> no_fault (store8 a v) Q"
  by (simp add: no_fault_def store8_def)

lemma nf_poll: "no_fault (poll_until addr ok) (\<lambda>_. True)"
  unfolding no_fault_def
  by (auto split: option.split outcome.split dest!: poll_until_last)

lemma nf_for: "(\<And>i. i \<in> set is \<Longrightarrow> no_fault (body i) (\<lambda>_. True)) \<Longrightarrow> no_fault (for_fw is body) (\<lambda>_. True)"
  by (induction "is") (auto intro: nf_return nf_then)

lemma nf_seq: "(\<And>f. f \<in> set fs \<Longrightarrow> no_fault f (\<lambda>_. True)) \<Longrightarrow> no_fault (seq_fw fs) (\<lambda>_. True)"
  by (induction fs) (auto intro: nf_return nf_then)

lemma nf_fold:
  assumes "J s" "\<And>i s. i \<in> set is \<Longrightarrow> J s \<Longrightarrow> no_fault (body i s) J"
  shows "no_fault (fold_fw is body s) J"
  using assms
proof (induction "is" arbitrary: s)
  case Nil
  then show ?case by (simp add: nf_return)
next
  case (Cons i "is")
  have "no_fault (body i s) J" using Cons.prems by simp
  moreover have "no_fault (fold_fw is body s') J" if "J s'" for s'
    using Cons.prems that by (intro Cons.IH) simp_all
  ultimately show ?case by (simp add: nf_bind)
qed

lemma nf_run: "no_fault f Q \<Longrightarrow> f hw m = Some r \<Longrightarrow> r \<noteq> Fault \<and> (\<forall>a m'. r = Ret a m' \<longrightarrow> Q a)"
  unfolding no_fault_def by (metis option.case(2) outcome.case outcome.exhaust)

end
