(* ===== verification/Tinybus.thy ===== *)
theory Tinybus
  imports Machine
begin

text \<open>
  The memory map of \<open>firmware/drivers/mmio.h\<close> and the devices behind it, modelled from
  \<open>rtl/soc/tecplus_minisoc_top.v\<close>, \<open>rtl/soc/tinybus_decode.v\<close> and \<open>rtl/periph\<close> at the
  granularity of bus accesses: an access takes a positive number of clock cycles, time
  passes only during accesses, and received bytes arrive at given clock cycles. The
  resulting \<open>soc_hw\<close> is the concrete device behaviour on which the interfaces of the
  driver theories are interpreted.
\<close>

section \<open>Memory map\<close>

definition TINYBUS_GPIO_LED :: u32 where [addr_defs]: "TINYBUS_GPIO_LED = 0x10000000"
definition TINYBUS_GPIO_KEY :: u32 where [addr_defs]: "TINYBUS_GPIO_KEY = 0x10000004"
definition TINYBUS_UART_DATA :: u32 where [addr_defs]: "TINYBUS_UART_DATA = 0x10000010"
definition TINYBUS_UART_STATUS :: u32 where [addr_defs]: "TINYBUS_UART_STATUS = 0x10000014"
definition TINYBUS_CYCLE :: u32 where [addr_defs]: "TINYBUS_CYCLE = 0x10000020"
definition TINYBUS_INSTRET :: u32 where [addr_defs]: "TINYBUS_INSTRET = 0x10000024"
definition TINYBUS_MEM_WAIT :: u32 where [addr_defs]: "TINYBUS_MEM_WAIT = 0x10000028"
definition TINYBUS_TEST_EXIT :: u32 where [addr_defs]: "TINYBUS_TEST_EXIT = 0x10000030"
definition TINYBUS_TRAFFIC_DATA :: u32 where [addr_defs]: "TINYBUS_TRAFFIC_DATA = 0x10000040"
definition TINYBUS_BUZZER_CTRL :: u32 where [addr_defs]: "TINYBUS_BUZZER_CTRL = 0x10000050"
definition TINYBUS_BUZZER_PERIOD :: u32 where [addr_defs]: "TINYBUS_BUZZER_PERIOD = 0x10000054"
definition TINYBUS_VGA_STATUS :: u32 where [addr_defs]: "TINYBUS_VGA_STATUS = 0x10000060"
definition TINYBUS_MTIME_LO :: u32 where [addr_defs]: "TINYBUS_MTIME_LO = 0x10000070"
definition TINYBUS_MTIME_HI :: u32 where [addr_defs]: "TINYBUS_MTIME_HI = 0x10000074"
definition TINYBUS_MTIMECMP_LO :: u32 where [addr_defs]: "TINYBUS_MTIMECMP_LO = 0x10000078"
definition TINYBUS_MTIMECMP_HI :: u32 where [addr_defs]: "TINYBUS_MTIMECMP_HI = 0x1000007c"
definition TINYBUS_VGA_TILE_BASE :: u32 where [addr_defs]: "TINYBUS_VGA_TILE_BASE = 0x10010000"
definition TINYBUS_VGA_FB_BASE :: u32 where [addr_defs]: "TINYBUS_VGA_FB_BASE = 0x10010000"
definition TINYBUS_SDRAM_BASE :: u32 where [addr_defs]: "TINYBUS_SDRAM_BASE = 0x80000000"

section \<open>Device state\<close>

text \<open>Board parameters: the clock cycles of an access beyond the first, the cycles the
  UART transmitter is busy with one 8N1 frame (ten bit times), and what the selected CPU
  core reports in its instruction and memory-wait counters at a given clock.\<close>

record soc_config =
  extra_cycles :: nat
  frame_cycles :: nat
  instret_at :: "nat \<Rightarrow> u32"
  mem_wait_at :: "nat \<Rightarrow> u32"

record soc =
  clock :: nat                  \<comment> \<open>\<open>mtime\<close> and the cycle counter\<close>
  led :: u32
  key_pins :: u32
  tx_ready_at :: nat            \<comment> \<open>when \<open>busy\<close> falls\<close>
  tx_log :: "u8 list"           \<comment> \<open>bytes sent, oldest first\<close>
  rx_line :: "(nat \<times> u8) list"  \<comment> \<open>arrival time and byte of frames still to come\<close>
  rx_data :: u8
  rx_valid :: bool
  rx_overrun :: bool
  rx_framing :: bool
  traffic :: u32
  buzzer_on :: bool
  buzzer_half :: u32
  mtimecmp :: u64
  framebuffer :: "u32 \<Rightarrow> u32"
  exit_code :: "u32 option"

definition vga_line_cycles :: nat where "vga_line_cycles = 1600"   \<comment> \<open>800 pixels, 2 clocks each\<close>
definition vga_frame_cycles :: nat where "vga_frame_cycles = 840000" \<comment> \<open>525 lines\<close>

text \<open>\<open>uart_rx.v\<close>: a completed frame is stored, or dropped with \<open>overrun\<close> when the byte
  before it is still unread.\<close>

fun rx_deliver :: "(nat \<times> u8) list \<Rightarrow> soc \<Rightarrow> soc" where
  "rx_deliver [] s = s\<lparr>rx_line := []\<rparr>"
| "rx_deliver ((t, b) # rest) s =
     (if clock s < t then s\<lparr>rx_line := (t, b) # rest\<rparr>
      else rx_deliver rest
        (if rx_valid s then s\<lparr>rx_overrun := True\<rparr> else s\<lparr>rx_data := b, rx_valid := True\<rparr>))"

definition soc_advance :: "nat \<Rightarrow> soc \<Rightarrow> soc" where
  "soc_advance n s = (let s' = s\<lparr>clock := clock s + n\<rparr> in rx_deliver (rx_line s') s')"

definition tx_ready :: "soc \<Rightarrow> bool" where
  "tx_ready s \<longleftrightarrow> tx_ready_at s \<le> clock s"

definition of_flag :: "bool \<Rightarrow> u32" where
  "of_flag b = (if b then 1 else 0)"

definition uart_status :: "soc \<Rightarrow> u32" where
  "uart_status s = of_flag (tx_ready s) OR push_bit 1 (of_flag (rx_valid s)) OR
     push_bit 2 (of_flag (rx_overrun s)) OR push_bit 3 (of_flag (rx_framing s))"

definition vga_status :: "soc \<Rightarrow> u32" where
  "vga_status s =
     push_bit 16 (of_nat (clock s div vga_frame_cycles)) OR
     push_bit 1 (of_flag (96 \<le> clock s)) OR
     of_flag (480 \<le> (clock s div vga_line_cycles) mod 525)"

text \<open>The read multiplexer of \<open>tinybus_decode.v\<close>; an address without a device reads 0.\<close>

definition soc_read :: "soc_config \<Rightarrow> soc \<Rightarrow> u32 \<Rightarrow> u32" where
  "soc_read cfg s addr =
     (if addr = TINYBUS_GPIO_KEY then key_pins s AND 15
      else if addr = TINYBUS_UART_DATA then ucast (rx_data s)
      else if addr = TINYBUS_UART_STATUS then uart_status s
      else if addr = TINYBUS_CYCLE then of_nat (clock s)
      else if addr = TINYBUS_INSTRET then instret_at cfg (clock s)
      else if addr = TINYBUS_MEM_WAIT then mem_wait_at cfg (clock s)
      else if addr = TINYBUS_TRAFFIC_DATA then traffic s
      else if addr = TINYBUS_BUZZER_CTRL then of_flag (buzzer_on s)
      else if addr = TINYBUS_BUZZER_PERIOD then buzzer_half s
      else if addr = TINYBUS_VGA_STATUS then vga_status s
      else if addr = TINYBUS_MTIME_LO then of_nat (clock s)
      else if addr = TINYBUS_MTIME_HI then of_nat (clock s div 2 ^ 32)
      else if addr = TINYBUS_MTIMECMP_LO then ucast (mtimecmp s)
      else if addr = TINYBUS_MTIMECMP_HI then ucast (drop_bit 32 (mtimecmp s))
      else 0)"

text \<open>A write of UART data stalls the bus until the transmitter is idle.\<close>

definition soc_write :: "soc_config \<Rightarrow> soc \<Rightarrow> u32 \<Rightarrow> u32 \<Rightarrow> soc" where
  "soc_write cfg s addr v =
     (if addr = TINYBUS_GPIO_LED then s\<lparr>led := v AND 15\<rparr>
      else if addr = TINYBUS_UART_DATA then
        (let s' = soc_advance (tx_ready_at s - clock s) s
         in s'\<lparr>tx_log := tx_log s' @ [ucast v], tx_ready_at := clock s' + frame_cycles cfg\<rparr>)
      else if addr = TINYBUS_UART_STATUS then
        s\<lparr>rx_overrun := rx_overrun s \<and> \<not> bit v 2, rx_framing := rx_framing s \<and> \<not> bit v 3\<rparr>
      else if addr = TINYBUS_TEST_EXIT then s\<lparr>exit_code := Some v\<rparr>
      else if addr = TINYBUS_TRAFFIC_DATA then s\<lparr>traffic := v AND 0xfff\<rparr>
      else if addr = TINYBUS_BUZZER_CTRL then s\<lparr>buzzer_on := bit v 0\<rparr>
      else if addr = TINYBUS_BUZZER_PERIOD then s\<lparr>buzzer_half := v\<rparr>
      else if addr = TINYBUS_MTIMECMP_LO then
        s\<lparr>mtimecmp := push_bit 32 (drop_bit 32 (mtimecmp s)) OR ucast v\<rparr>
      else if addr = TINYBUS_MTIMECMP_HI then
        s\<lparr>mtimecmp := push_bit 32 (ucast v) OR ucast (ucast (mtimecmp s) :: u32)\<rparr>
      else if TINYBUS_VGA_FB_BASE \<le> addr \<and> addr < TINYBUS_VGA_FB_BASE + 0x180 then
        s\<lparr>framebuffer := (framebuffer s)(drop_bit 2 (addr - TINYBUS_VGA_FB_BASE) := v)\<rparr>
      else s)"

fun soc_access :: "soc_config \<Rightarrow> access \<Rightarrow> soc \<Rightarrow> soc" where
  "soc_access cfg (Rd addr v) s =
     (let s' = soc_advance (Suc (extra_cycles cfg)) s
      in if addr = TINYBUS_UART_DATA then s'\<lparr>rx_valid := False\<rparr> else s')"
| "soc_access cfg (Wr addr v) s = soc_write cfg (soc_advance (Suc (extra_cycles cfg)) s) addr v"
| "soc_access cfg (Call f xs r) s = s"

text \<open>The state after a trace (latest access first), and the answers it gives.\<close>

fun soc_after :: "soc_config \<Rightarrow> soc \<Rightarrow> access list \<Rightarrow> soc" where
  "soc_after cfg s0 [] = s0"
| "soc_after cfg s0 (x # tr) = soc_access cfg x (soc_after cfg s0 tr)"

fun soc_hw :: "soc_config \<Rightarrow> soc \<Rightarrow> hw" where
  "soc_hw cfg s0 tr (Reg addr) =
     soc_read cfg (soc_advance (Suc (extra_cycles cfg)) (soc_after cfg s0 tr)) addr"
| "soc_hw cfg s0 tr (Ext f xs) = 0"

text \<open>The board at 50 MHz and 115200 baud after reset, with two-cycle accesses, four cycles per
  instruction and no waiting.\<close>

definition board_config :: soc_config where
  "board_config = \<lparr>extra_cycles = 1, frame_cycles = 4340,
     instret_at = (\<lambda>c. of_nat (c div 4)), mem_wait_at = (\<lambda>c. 0)\<rparr>"

definition board_reset :: soc where
  "board_reset = \<lparr>clock = 0, led = 0, key_pins = 15, tx_ready_at = 0, tx_log = [], rx_line = [],
     rx_data = 0, rx_valid = False, rx_overrun = False, rx_framing = False, traffic = 0,
     buzzer_on = False, buzzer_half = 0, mtimecmp = - 1, framebuffer = (\<lambda>_. 0), exit_code = None\<rparr>"

section \<open>What the devices promise\<close>

lemma rx_deliver_frame [simp]:
  "clock (rx_deliver l s) = clock s"
  "tx_ready_at (rx_deliver l s) = tx_ready_at s"
  "tx_log (rx_deliver l s) = tx_log s"
  "led (rx_deliver l s) = led s"
  "traffic (rx_deliver l s) = traffic s"
  "buzzer_on (rx_deliver l s) = buzzer_on s"
  "buzzer_half (rx_deliver l s) = buzzer_half s"
  "mtimecmp (rx_deliver l s) = mtimecmp s"
  "framebuffer (rx_deliver l s) = framebuffer s"
  "exit_code (rx_deliver l s) = exit_code s"
  by (induction l s rule: rx_deliver.induct) simp_all

lemma soc_advance_frame [simp]:
  "clock (soc_advance n s) = clock s + n"
  "tx_ready_at (soc_advance n s) = tx_ready_at s"
  "tx_log (soc_advance n s) = tx_log s"
  "led (soc_advance n s) = led s"
  "traffic (soc_advance n s) = traffic s"
  "buzzer_on (soc_advance n s) = buzzer_on s"
  "buzzer_half (soc_advance n s) = buzzer_half s"
  "mtimecmp (soc_advance n s) = mtimecmp s"
  "framebuffer (soc_advance n s) = framebuffer s"
  "exit_code (soc_advance n s) = exit_code s"
  by (simp_all add: soc_advance_def Let_def)

lemma uart_status_tx_ready: "uart_status s AND 1 \<noteq> 0 \<longleftrightarrow> tx_ready s"
proof -
  have "uart_status s AND 1 = of_flag (tx_ready s)"
    by (rule bit_word_eqI) (auto simp: uart_status_def of_flag_def bit_simps)
  then show ?thesis by (simp add: of_flag_def)
qed

text \<open>Polling only lets time pass, so the transmitter becomes ready.\<close>

lemma soc_after_polls:
  assumes "addr \<noteq> TINYBUS_UART_DATA"
  shows "clock (soc_after cfg s0 tr) + n \<le> clock (soc_after cfg s0 (poll_trace hw addr n tr)) \<and>
    tx_ready_at (soc_after cfg s0 (poll_trace hw addr n tr)) = tx_ready_at (soc_after cfg s0 tr)"
proof (induction n arbitrary: tr)
  case 0
  then show ?case by simp
next
  case (Suc n)
  have "clock (soc_after cfg s0 (Rd addr (hw tr (Reg addr)) # tr)) = clock (soc_after cfg s0 tr) + Suc (extra_cycles cfg)"
    using assms by (simp add: Let_def)
  moreover have "tx_ready_at (soc_after cfg s0 (Rd addr (hw tr (Reg addr)) # tr)) = tx_ready_at (soc_after cfg s0 tr)"
    using assms by (simp add: Let_def)
  ultimately show ?case
    using Suc.IH [of "Rd addr (hw tr (Reg addr)) # tr"] by simp
qed

lemma soc_tx_live:
  "\<exists>n. soc_hw cfg s0 (poll_trace (soc_hw cfg s0) TINYBUS_UART_STATUS n tr)
         (Reg TINYBUS_UART_STATUS) AND 1 \<noteq> 0"
proof -
  let ?n = "tx_ready_at (soc_after cfg s0 tr)"
  let ?tr = "poll_trace (soc_hw cfg s0) TINYBUS_UART_STATUS ?n tr"
  have "TINYBUS_UART_STATUS \<noteq> TINYBUS_UART_DATA" by (simp add: addr_defs)
  from soc_after_polls [OF this, of cfg s0 tr ?n "soc_hw cfg s0"]
  have "tx_ready (soc_advance (Suc (extra_cycles cfg)) (soc_after cfg s0 ?tr))"
    by (simp add: tx_ready_def)
  moreover have "soc_hw cfg s0 ?tr (Reg TINYBUS_UART_STATUS) =
      uart_status (soc_advance (Suc (extra_cycles cfg)) (soc_after cfg s0 ?tr))"
    by (simp add: soc_read_def addr_defs)
  ultimately show ?thesis
    using uart_status_tx_ready by (intro exI [of _ ?n]) simp
qed

end
