(* ===== verification/Uart.thy ===== *)
theory Uart
  imports Tinybus
begin

text \<open>
  The UART driver \<open>firmware/drivers/uart.c\<close> and its print-lite wrappers
  \<open>firmware/runtime/rt_print.c\<close>. The interface to the hardware is the locale \<open>uart_tx\<close>:
  whoever keeps polling the status register eventually sees \<open>TX_READY\<close>. Inside it every
  output function is total and its effects are the bytes of the text.
\<close>

section \<open>The driver\<close>

definition UART_STATUS_TX_READY :: u32 where [addr_defs]: "UART_STATUS_TX_READY = 1"
definition UART_STATUS_RX_VALID :: u32 where [addr_defs]: "UART_STATUS_RX_VALID = 2"
definition UART_STATUS_RX_OVERRUN :: u32 where [addr_defs]: "UART_STATUS_RX_OVERRUN = 4"
definition UART_STATUS_FRAME_ERROR :: u32 where [addr_defs]: "UART_STATUS_FRAME_ERROR = 8"
definition UART_STATUS_RX_ERROR_MASK :: u32 where
  [addr_defs]: "UART_STATUS_RX_ERROR_MASK = UART_STATUS_RX_OVERRUN OR UART_STATUS_FRAME_ERROR"

definition uart_flush :: "unit fw" where
  "uart_flush =
     then_fw (poll_until TINYBUS_UART_STATUS (\<lambda>s. s AND UART_STATUS_TX_READY \<noteq> 0)) (return_fw ())"

definition uart_putc :: "u8 \<Rightarrow> unit fw" where
  "uart_putc ch =
     then_fw (poll_until TINYBUS_UART_STATUS (\<lambda>s. s AND UART_STATUS_TX_READY \<noteq> 0))
       (mmio_write TINYBUS_UART_DATA (ucast ch))"

fun uart_puts :: "u8 list \<Rightarrow> unit fw" where
  "uart_puts [] = return_fw ()"
| "uart_puts (c # str) =
     (if c = 0 then return_fw ()
      else then_fw (if c = 10 then uart_putc 13 else return_fw ())
        (then_fw (uart_putc c) (uart_puts str)))"

definition hex_digits :: "u8 list" where
  "hex_digits = bytes ''0123456789abcdef''"

definition uart_put_hex :: "u32 \<Rightarrow> unit fw" where
  "uart_put_hex value =
     seq_fw [uart_putc 0x30, uart_putc 0x78,
       for_fw [28, 24, 20, 16, 12, 8, 4, 0]
         (\<lambda>shift. bind_fw (of_option_fw (array_get hex_digits (unat (drop_bit shift value AND 15))))
           uart_putc)]"

text \<open>The two loops of \<open>uart_put_dec\<close> over \<open>char buf[10]\<close>: the digits of the value, lowest
  first, then the buffer printed backwards.\<close>

function dec_fill :: "u32 \<Rightarrow> u8 list \<Rightarrow> nat \<Rightarrow> (u8 list \<times> nat) option" where
  "dec_fill value buf len =
     (if value = 0 then Some (buf, len)
      else do {
        buf' \<leftarrow> array_put buf len (0x30 + ucast (value mod 10));
        dec_fill (value div 10) buf' (len + 1)
      })"
  by pat_completeness auto
termination
proof (relation "measure (\<lambda>(value, buf, len). unat value)")
  fix v :: u32 and buf buf' :: "u8 list" and len :: nat
  assume "v \<noteq> 0"
  then show "((v div 10, buf', len + 1), v, buf, len)
      \<in> measure (\<lambda>(value, buf, len). unat value)"
    by (simp add: unat_div unat_gt_0)
qed simp

declare dec_fill.simps [simp del]

fun dec_print :: "u8 list \<Rightarrow> nat \<Rightarrow> unit fw" where
  "dec_print buf 0 = return_fw ()"
| "dec_print buf (Suc len) =
     bind_fw (of_option_fw (array_get buf len)) (\<lambda>c. then_fw (uart_putc c) (dec_print buf len))"

definition uart_put_dec :: "u32 \<Rightarrow> unit fw" where
  "uart_put_dec value =
     (if value = 0 then uart_putc 0x30
      else bind_fw (of_option_fw (dec_fill value (replicate 10 0) 0))
        (\<lambda>(buf, len). dec_print buf len))"

definition uart_try_getc :: "u8 option fw" where
  "uart_try_getc =
     bind_fw (mmio_read TINYBUS_UART_STATUS) (\<lambda>status.
       if status AND UART_STATUS_RX_VALID = 0 then return_fw None
       else bind_fw (mmio_read TINYBUS_UART_DATA) (\<lambda>v. return_fw (Some (ucast (v AND 0xff)))))"

partial_function (option) uart_getc :: "hw \<Rightarrow> machine \<Rightarrow> u8 outcome option" where
  "uart_getc hw m =
     (case uart_try_getc hw m of
        Some (Ret (Some ch) m') \<Rightarrow> Some (Ret ch m')
      | Some (Ret None m') \<Rightarrow> uart_getc hw m'
      | Some (Stop m') \<Rightarrow> Some (Stop m')
      | Some Fault \<Rightarrow> Some Fault
      | None \<Rightarrow> None)"

definition uart_get_and_clear_rx_errors :: "u32 fw" where
  "uart_get_and_clear_rx_errors =
     bind_fw (mmio_read TINYBUS_UART_STATUS) (\<lambda>status.
       let errors = status AND UART_STATUS_RX_ERROR_MASK
       in then_fw (if errors \<noteq> 0 then mmio_write TINYBUS_UART_STATUS errors else return_fw ())
            (return_fw errors))"

definition rt_puts :: "u8 list \<Rightarrow> unit fw" where
  "rt_puts str = uart_puts str"

definition rt_print_hex :: "u32 \<Rightarrow> unit fw" where
  "rt_print_hex value = uart_put_hex value"

definition rt_print_dec :: "u32 \<Rightarrow> unit fw" where
  "rt_print_dec value = uart_put_dec value"

section \<open>Reference texts\<close>

text \<open>The bus write that sends a byte, the CRLF translation of a C string, and the decimal
  and hexadecimal representation of a number.\<close>

definition tx :: "u8 \<Rightarrow> access" where
  "tx c = Wr TINYBUS_UART_DATA (ucast c)"

fun crlf :: "u8 list \<Rightarrow> u8 list" where
  "crlf [] = []"
| "crlf (c # str) = (if c = 0 then [] else (if c = 10 then [13, 10] else [c]) @ crlf str)"

fun decimal :: "nat \<Rightarrow> u8 list" where
  "decimal n = (if n < 10 then [0x30 + of_nat n] else decimal (n div 10) @ [0x30 + of_nat (n mod 10)])"

declare decimal.simps [simp del]

definition dec_value :: "u8 list \<Rightarrow> nat" where
  "dec_value ds = foldl (\<lambda>n d. 10 * n + (unat d - 0x30)) 0 ds"

definition hex8 :: "u32 \<Rightarrow> u8 list" where
  "hex8 v = map (\<lambda>shift. hex_digits ! unat (drop_bit shift v AND 15)) [28, 24, 20, 16, 12, 8, 4, 0]"

lemma dec_value_snoc: "dec_value (ds @ [d]) = 10 * dec_value ds + (unat d - 0x30)"
  by (simp add: dec_value_def)

lemma unat_digit: "n < 10 \<Longrightarrow> unat (0x30 + of_nat n :: u8) = 0x30 + n"
  by (simp add: unat_word_ariths unat_of_nat)

lemma dec_value_decimal: "dec_value (decimal n) = n"
proof (induction n rule: decimal.induct)
  case (1 n)
  show ?case
  proof (cases "n < 10")
    case True
    then show ?thesis by (subst decimal.simps) (simp add: dec_value_def unat_digit)
  next
    case False
    with 1 show ?thesis
      by (subst decimal.simps) (simp add: dec_value_snoc unat_digit)
  qed
qed

lemma decimal_digits: "d \<in> set (decimal n) \<Longrightarrow> 0x30 \<le> d \<and> d \<le> 0x39"
proof (induction n rule: decimal.induct)
  case (1 n)
  have digit: "0x30 \<le> (0x30 + of_nat k :: u8) \<and> (0x30 + of_nat k :: u8) \<le> 0x39" if "k < 10" for k
    using that by (simp add: word_le_nat_alt unat_digit)
  show ?case
  proof (cases "n < 10")
    case True
    with "1.prems" digit show ?thesis by (subst (asm) decimal.simps) simp
  next
    case False
    with "1.prems" have "d \<in> set (decimal (n div 10)) \<or> d = 0x30 + of_nat (n mod 10)"
      by (subst (asm) decimal.simps) auto
    with False "1.IH" digit [of "n mod 10"] show ?thesis by auto
  qed
qed

lemma length_decimal: "n < 10 ^ Suc k \<Longrightarrow> length (decimal n) \<le> Suc k"
proof (induction k arbitrary: n)
  case 0
  then show ?case by (subst decimal.simps) simp
next
  case (Suc k)
  show ?case
  proof (cases "n < 10")
    case True
    then show ?thesis by (subst decimal.simps) simp
  next
    case False
    from Suc.prems have "n div 10 < 10 ^ Suc k" by simp
    with False Suc.IH [of "n div 10"] show ?thesis by (subst decimal.simps) simp
  qed
qed

text \<open>The digits still to be produced for a value, none for 0.\<close>

definition digits_left :: "u32 \<Rightarrow> u8 list" where
  "digits_left v = (if v = 0 then [] else decimal (unat v))"

lemma unat_numeral_10: "unat (10 :: u32) = 10"
  by simp

lemma digits_left_step:
  assumes "v \<noteq> 0"
  shows "digits_left v = digits_left (v div 10) @ [0x30 + ucast (v mod 10)]"
proof -
  have digit: "(ucast (v mod 10) :: u8) = of_nat (unat v mod 10)"
    by (metis of_nat_unat unat_mod unat_numeral_10)
  show ?thesis
  proof (cases "unat v < 10")
    case True
    then have "v div 10 = 0" by (simp add: unat_eq_zero [symmetric] unat_div)
    with True assms digit show ?thesis
      by (simp add: digits_left_def) (subst decimal.simps, simp)
  next
    case False
    then have "v div 10 \<noteq> 0" by (simp add: unat_eq_zero [symmetric] unat_div)
    with False assms digit show ?thesis
      by (simp add: digits_left_def unat_div) (subst decimal.simps, simp)
  qed
qed

lemma dec_fill_spec:
  "len + length (digits_left v) \<le> length buf \<Longrightarrow>
   \<exists>buf'. dec_fill v buf len = Some (buf', len + length (digits_left v)) \<and>
     length buf' = length buf \<and>
     take (len + length (digits_left v)) buf' = take len buf @ rev (digits_left v)"
proof (induction v buf len rule: dec_fill.induct)
  case (1 v buf len)
  show ?case
  proof (cases "v = 0")
    case True
    then show ?thesis by (subst dec_fill.simps) (simp add: digits_left_def)
  next
    case False
    let ?d = "0x30 + ucast (v mod 10)" and ?k = "length (digits_left (v div 10))"
    have split: "digits_left v = digits_left (v div 10) @ [?d]"
      using False by (rule digits_left_step)
    with "1.prems" have len: "len < length buf" by simp
    then have put: "array_put buf len ?d = Some (buf[len := ?d])" by (rule array_put_Some)
    have "len + 1 + ?k \<le> length (buf[len := ?d])" using "1.prems" split by simp
    from "1.IH" [OF False put this] obtain buf' where buf':
        "dec_fill (v div 10) (buf[len := ?d]) (len + 1) = Some (buf', len + 1 + ?k)"
        "length buf' = length buf"
        "take (len + 1 + ?k) buf' = take (len + 1) (buf[len := ?d]) @ rev (digits_left (v div 10))"
      by auto
    with False put split len show ?thesis
      by (subst dec_fill.simps) (simp add: take_list_update_Suc)
  qed
qed

section \<open>The transmitter interface\<close>

locale uart_tx =
  fixes hw :: hw
  assumes tx_live: "\<exists>n. hw (poll_trace hw TINYBUS_UART_STATUS n tr) (Reg TINYBUS_UART_STATUS)
      AND UART_STATUS_TX_READY \<noteq> 0"
begin

lemma wait_ready:
  "does hw (poll_until TINYBUS_UART_STATUS (\<lambda>s. s AND UART_STATUS_TX_READY \<noteq> 0)) (\<lambda>_ es. es = [])"
  unfolding does_def
proof
  fix m :: machine
  from tx_live [of "trace m"] obtain n where
      "hw (poll_trace hw TINYBUS_UART_STATUS n (trace m)) (Reg TINYBUS_UART_STATUS)
        AND UART_STATUS_TX_READY \<noteq> 0" ..
  then obtain k where "poll_until TINYBUS_UART_STATUS (\<lambda>s. s AND UART_STATUS_TX_READY \<noteq> 0) hw m =
      Some (Ret (hw (poll_trace hw TINYBUS_UART_STATUS k (trace m)) (Reg TINYBUS_UART_STATUS))
        (m\<lparr>trace := poll_trace hw TINYBUS_UART_STATUS (Suc k) (trace m)\<rparr>))"
    by (rule poll_until_returns
        [where ok = "\<lambda>s. s AND UART_STATUS_TX_READY \<noteq> 0" and addr = TINYBUS_UART_STATUS])
  then show "\<exists>a m' es. poll_until TINYBUS_UART_STATUS (\<lambda>s. s AND UART_STATUS_TX_READY \<noteq> 0) hw m =
      Some (Ret a m') \<and> mem m' = mem m \<and> effects m' = effects m @ es \<and> es = []"
    by (simp add: effects_def filter_poll_trace del: poll_trace.simps)
qed

lemma emits_flush: "emits hw uart_flush []"
  unfolding uart_flush_def emits_def
  by (rule does_then [OF wait_ready]) (auto intro: does_return)

lemma emits_putc: "emits hw (uart_putc c) [tx c]"
  unfolding uart_putc_def emits_def tx_def
  by (rule does_then [OF wait_ready]) (auto intro: does_write)

lemma emits_puts: "emits hw (uart_puts str) (map tx (crlf str))"
proof (induction str)
  case Nil
  show ?case by (simp add: emits_return)
next
  case (Cons c str)
  have "emits hw (if c = 10 then uart_putc 13 else return_fw ()) (if c = 10 then [tx 13] else [])"
    by (simp add: emits_return emits_putc)
  from emits_then [OF this emits_then [OF emits_putc Cons.IH, of c]]
  show ?case by (cases "c = 0") (auto simp: emits_return)
qed

lemma emits_array_putc:
  assumes "i < length xs"
  shows "emits hw (bind_fw (of_option_fw (array_get xs i)) uart_putc) [tx (xs ! i)]"
  using emits_putc assms by (simp add: array_get_Some)

lemma nibble_index: "unat (drop_bit k v AND 15 :: u32) < length hex_digits"
proof -
  have "unat (drop_bit k v AND 15) \<le> unat (15 :: u32)"
    by (rule word_and_le1 [THEN word_le_nat_alt [THEN iffD1]])
  then show ?thesis by (simp add: hex_digits_def)
qed

lemma emits_put_hex: "emits hw (uart_put_hex v) (map tx ([0x30, 0x78] @ hex8 v))"
proof -
  let ?es = "\<lambda>shift. [tx (hex_digits ! unat (drop_bit shift v AND 15))]"
  have "emits hw (for_fw [28, 24, 20, 16, 12, 8, 4, 0]
      (\<lambda>shift. bind_fw (of_option_fw (array_get hex_digits (unat (drop_bit shift v AND 15)))) uart_putc))
      (concat (map ?es [28, 24, 20, 16, 12, 8, 4, 0]))"
    by (rule emits_for) (rule emits_array_putc [OF nibble_index])
  from emits_seq_Cons [OF emits_putc emits_seq_Cons [OF emits_putc emits_seq_Cons [OF this emits_seq_Nil]]]
  show ?thesis unfolding uart_put_hex_def by (simp add: hex8_def)
qed

lemma emits_dec_print: "len \<le> length buf \<Longrightarrow> emits hw (dec_print buf len) (map tx (rev (take len buf)))"
proof (induction len)
  case 0
  show ?case by (simp add: emits_return)
next
  case (Suc len)
  from emits_then [OF emits_putc Suc.IH, of "buf ! len"] Suc.prems
  show ?case by (simp add: array_get_Some take_Suc_conv_app_nth)
qed

lemma emits_put_dec: "emits hw (uart_put_dec v) (map tx (decimal (unat v)))"
proof (cases "v = 0")
  case True
  then show ?thesis
    unfolding uart_put_dec_def by (subst decimal.simps) (simp add: emits_putc)
next
  case False
  have "unat v < 2 ^ 32" using unsigned_less [of v, where 'a = nat] by simp
  then have "unat v < 10 ^ Suc 9" by simp
  then have "length (decimal (unat v)) \<le> 10" using length_decimal [of "unat v" 9] by simp
  with False dec_fill_spec [of 0 v "replicate 10 0"] obtain buf where
      "dec_fill v (replicate 10 0) 0 = Some (buf, length (decimal (unat v)))"
      "length buf = 10" "take (length (decimal (unat v))) buf = rev (decimal (unat v))"
    by (auto simp: digits_left_def)
  with False emits_dec_print [of "length (decimal (unat v))" buf]
    \<open>length (decimal (unat v)) \<le> 10\<close>
  show ?thesis unfolding uart_put_dec_def by simp
qed

lemma emits_rt:
  "emits hw (rt_puts str) (map tx (crlf str))"
  "emits hw (rt_print_hex v) (map tx ([0x30, 0x78] @ hex8 v))"
  "emits hw (rt_print_dec v) (map tx (decimal (unat v)))"
  unfolding rt_puts_def rt_print_hex_def rt_print_dec_def
  by (rule emits_puts emits_put_hex emits_put_dec)+

end

section \<open>Bytes are written only to a ready transmitter\<close>

text \<open>Every write of UART data directly follows a status read that showed \<open>TX_READY\<close>.\<close>

fun tx_guarded :: "access list \<Rightarrow> bool" where
  "tx_guarded [] = True"
| "tx_guarded (Wr a v # tr) =
     (tx_guarded tr \<and>
      (a = TINYBUS_UART_DATA \<longrightarrow>
        (case tr of
           Rd b s # _ \<Rightarrow> b = TINYBUS_UART_STATUS \<and> s AND UART_STATUS_TX_READY \<noteq> 0
         | _ \<Rightarrow> False)))"
| "tx_guarded (Rd a v # tr) = tx_guarded tr"
| "tx_guarded (Call f xs r # tr) = tx_guarded tr"

lemma tx_guarded_reads: "\<forall>x \<in> set rs. \<exists>w. x = Rd addr w \<Longrightarrow> tx_guarded (rs @ tr) = tx_guarded tr"
  by (induction rs) auto

lemma keeps_guarded_poll: "keeps (\<lambda>m. tx_guarded (trace m)) (poll_until addr ok)"
  unfolding keeps_def
  by (auto split: option.split outcome.split dest!: poll_until_last simp: tx_guarded_reads)

lemma keeps_guarded_read: "keeps (\<lambda>m. tx_guarded (trace m)) (mmio_read addr)"
  by (simp add: keeps_def mmio_read_def Let_def)

lemma keeps_guarded_write:
  "addr \<noteq> TINYBUS_UART_DATA \<Longrightarrow> keeps (\<lambda>m. tx_guarded (trace m)) (mmio_write addr v)"
  by (simp add: keeps_def mmio_write_def)

lemma keeps_guarded_putc: "keeps (\<lambda>m. tx_guarded (trace m)) (uart_putc c)"
  unfolding keeps_def uart_putc_def
proof (intro allI impI)
  fix hw :: hw and m :: machine assume m: "tx_guarded (trace m)"
  let ?wait = "poll_until TINYBUS_UART_STATUS (\<lambda>s. s AND UART_STATUS_TX_READY \<noteq> 0)"
  show "case then_fw ?wait (mmio_write TINYBUS_UART_DATA (ucast c)) hw m of
      Some (Ret a m') \<Rightarrow> tx_guarded (trace m') | Some (Stop m') \<Rightarrow> tx_guarded (trace m') | _ \<Rightarrow> True"
  proof (cases "?wait hw m")
    case None
    then show ?thesis by (simp add: then_fw_def bind_fw_def)
  next
    case (Some r)
    from poll_until_last [OF Some] obtain v m' rs where "r = Ret v m'"
        "v AND UART_STATUS_TX_READY \<noteq> 0" "trace m' = Rd TINYBUS_UART_STATUS v # rs @ trace m"
        "\<forall>x \<in> set rs. \<exists>w. x = Rd TINYBUS_UART_STATUS w"
      by blast
    with Some m show ?thesis
      by (simp add: then_fw_def bind_fw_def mmio_write_def tx_guarded_reads)
  qed
qed

lemma keeps_guarded_puts: "keeps (\<lambda>m. tx_guarded (trace m)) (uart_puts str)"
  by (induction str) (auto intro: keeps_guarded_putc)

lemma keeps_guarded_hex: "keeps (\<lambda>m. tx_guarded (trace m)) (uart_put_hex v)"
  unfolding uart_put_hex_def
  by (simp del: for_fw.simps)
    (intro keeps_then keeps_return keeps_guarded_putc keeps_for keeps_bind keeps_of_option)

lemma keeps_guarded_dec_print: "keeps (\<lambda>m. tx_guarded (trace m)) (dec_print buf len)"
  by (induction len) (auto intro: keeps_guarded_putc)

lemma keeps_guarded_dec: "keeps (\<lambda>m. tx_guarded (trace m)) (uart_put_dec v)"
  unfolding uart_put_dec_def
  by (auto intro: keeps_guarded_putc keeps_guarded_dec_print)

section \<open>No undefined behaviour\<close>

lemma nf_putc [nf_intros]: "Q () \<Longrightarrow> no_fault (uart_putc c) Q"
  unfolding uart_putc_def by (intro nf_then nf_poll nf_write)

lemma nf_try_getc: "no_fault uart_try_getc (\<lambda>_. True)"
  unfolding uart_try_getc_def
  by (rule nf_bind [OF nf_read]) (auto intro!: nf_return nf_bind [OF nf_read])

lemma uart_getc_no_fault: "uart_getc hw m = Some r \<Longrightarrow> r \<noteq> Fault"
proof (rule uart_getc.raw_induct [where P = "\<lambda>hw m r. r \<noteq> Fault"])
  fix f :: "hw \<Rightarrow> machine \<Rightarrow> u8 outcome option" and hw m r
  assume IH: "\<And>hw m r. f hw m = Some r \<Longrightarrow> r \<noteq> Fault"
    and eq: "(case uart_try_getc hw m of
        Some (Ret (Some ch) m') \<Rightarrow> Some (Ret ch m')
      | Some (Ret None m') \<Rightarrow> f hw m'
      | Some (Stop m') \<Rightarrow> Some (Stop m')
      | Some Fault \<Rightarrow> Some Fault
      | None \<Rightarrow> None) = Some r"
  have "uart_try_getc hw m \<noteq> Some Fault" using nf_run [OF nf_try_getc] by blast
  with eq IH show "r \<noteq> Fault" by (auto split: option.splits outcome.splits)
qed

lemma nf_getc: "no_fault uart_getc (\<lambda>_. True)"
  unfolding no_fault_def by (auto split: option.split outcome.split dest: uart_getc_no_fault)

lemma nf_clear_errors: "no_fault uart_get_and_clear_rx_errors (\<lambda>_. True)"
  unfolding uart_get_and_clear_rx_errors_def Let_def
  by (rule nf_bind [OF nf_read]) (auto intro!: nf_then nf_return nf_write)

text \<open>The board's transmitter provides the interface, whatever was sent before.\<close>

interpretation soc_uart: uart_tx "soc_hw cfg s0" for cfg s0
  by unfold_locales (simp only: UART_STATUS_TX_READY_def soc_tx_live)

section \<open>Properties\<close>

text \<open>On the board, from any device state, \<open>uart_puts\<close> returns after sending exactly the C
  string up to its NUL, with a carriage return before every line feed.\<close>

lemma uart_puts_correct:
  "emits (soc_hw cfg s0) (uart_puts str) (map tx (crlf str))"
  by (rule soc_uart.emits_puts)

text \<open>\<open>uart_put_dec\<close> never overruns its ten-byte buffer, returns, and sends the decimal
  digits of the value: at most ten bytes, all digits, that read back as the value.\<close>

lemma uart_put_dec_correct:
  "emits (soc_hw cfg s0) (uart_put_dec v) (map tx (decimal (unat v))) \<and>
   dec_value (decimal (unat v)) = unat v \<and> length (decimal (unat v)) \<le> 10 \<and>
   set (decimal (unat v)) \<subseteq> {0x30..0x39}"
proof -
  have "unat v < 10 ^ Suc 9" using unsigned_less [of v, where 'a = nat] by simp
  then have "length (decimal (unat v)) \<le> 10" using length_decimal [of "unat v" 9] by simp
  then show ?thesis
    using soc_uart.emits_put_dec dec_value_decimal decimal_digits by fastforce
qed

text \<open>A UART data write always directly follows a status read that showed the transmitter
  ready: no output function can write over a frame that is still being sent, whatever the
  hardware answers.\<close>

lemma uart_output_guarded:
  assumes "tx_guarded (trace m)"
    and "uart_puts str hw m = Some (Ret () m') \<or> uart_put_dec v hw m = Some (Ret () m') \<or>
      uart_put_hex w hw m = Some (Ret () m')"
  shows "tx_guarded (trace m')"
  using assms keeps_Ret [OF keeps_guarded_puts] keeps_Ret [OF keeps_guarded_dec]
    keeps_Ret [OF keeps_guarded_hex] by blast

lemma putc_ready_run:
  "(\<And>tr. hw tr (Reg TINYBUS_UART_STATUS) = 1) \<Longrightarrow>
   uart_putc c hw m = Some (Ret () (m\<lparr>trace := [tx c, Rd TINYBUS_UART_STATUS 1] @ trace m\<rparr>))"
  by (simp add: uart_putc_def then_fw_def bind_fw_def poll_until.simps mmio_write_def
      UART_STATUS_TX_READY_def tx_def)

theorem uart_output_guarded_witness:
  "tx_guarded [tx 65, Rd TINYBUS_UART_STATUS 1]"
proof -
  let ?m = "\<lparr>mem = (\<lambda>_. 0), trace = []\<rparr>"
  have "uart_puts [65] (\<lambda>_ _. 1) ?m =
      Some (Ret () (?m\<lparr>trace := [tx 65, Rd TINYBUS_UART_STATUS 1]\<rparr>))"
    by (simp add: then_fw_def bind_fw_def putc_ready_run return_fw_def)
  moreover have "tx_guarded (trace ?m)" by simp
  ultimately have "tx_guarded (trace (?m\<lparr>trace := [tx 65, Rd TINYBUS_UART_STATUS 1]\<rparr>))"
    using uart_output_guarded by blast
  then show ?thesis by simp
qed

end
