(* ===== verification/Devices.thy ===== *)
theory Devices
  imports Uart
begin

text \<open>
  The register drivers of \<open>firmware/drivers\<close>: \<open>gpio.c\<close>, \<open>traffic_light.c\<close>,
  \<open>buzzer.c\<close>, \<open>vga.c\<close>, \<open>machine_timer.c\<close> and \<open>perf.c\<close>. The locale
  \<open>machine_clock\<close> is what the timer code relies on: three consecutive register reads see
  one clock that moves forward by less than \<open>2^32\<close> in between.
\<close>

section \<open>GPIO, traffic light, buzzer\<close>

definition gpio_write_led :: "u32 \<Rightarrow> unit fw" where
  "gpio_write_led value = mmio_write TINYBUS_GPIO_LED value"

definition gpio_read_key :: "u32 fw" where
  "gpio_read_key = mmio_read TINYBUS_GPIO_KEY"

definition TRAFFIC_LIGHT_MASK :: u32 where [addr_defs]: "TRAFFIC_LIGHT_MASK = 0x0fff"

definition traffic_light_write :: "u32 \<Rightarrow> unit fw" where
  "traffic_light_write pattern = mmio_write TINYBUS_TRAFFIC_DATA (pattern AND TRAFFIC_LIGHT_MASK)"

definition traffic_light_read :: "u32 fw" where
  "traffic_light_read =
     bind_fw (mmio_read TINYBUS_TRAFFIC_DATA) (\<lambda>v. return_fw (v AND TRAFFIC_LIGHT_MASK))"

definition buzzer_set_half_period :: "u32 \<Rightarrow> unit fw" where
  "buzzer_set_half_period clock_ticks = mmio_write TINYBUS_BUZZER_PERIOD clock_ticks"

definition buzzer_get_half_period :: "u32 fw" where
  "buzzer_get_half_period = mmio_read TINYBUS_BUZZER_PERIOD"

definition buzzer_start :: "u32 \<Rightarrow> unit fw" where
  "buzzer_start half_period_ticks =
     then_fw (buzzer_set_half_period half_period_ticks) (mmio_write TINYBUS_BUZZER_CTRL 1)"

definition buzzer_stop :: "unit fw" where
  "buzzer_stop = mmio_write TINYBUS_BUZZER_CTRL 0"

definition buzzer_start_hz :: "u32 \<Rightarrow> u32 \<Rightarrow> unit fw" where
  "buzzer_start_hz clock_hz tone_hz =
     (if tone_hz = 0 then buzzer_stop
      else let half_period = (clock_hz div tone_hz) div 2
        in if half_period = 0 then buzzer_stop else buzzer_start half_period)"

definition buzzer_is_enabled :: "u32 fw" where
  "buzzer_is_enabled = bind_fw (mmio_read TINYBUS_BUZZER_CTRL) (\<lambda>v. return_fw (v AND 1))"

section \<open>VGA\<close>

definition VGA_TILE_WORDS :: u32 where [addr_defs]: "VGA_TILE_WORDS = 300"
definition VGA_BITMAP_HEIGHT :: u32 where [addr_defs]: "VGA_BITMAP_HEIGHT = 48"
definition VGA_BITMAP_WORDS :: u32 where [addr_defs]: "VGA_BITMAP_WORDS = 96"

definition vga_is_ready :: "u32 fw" where
  "vga_is_ready = bind_fw (mmio_read TINYBUS_VGA_STATUS) (\<lambda>v. return_fw (drop_bit 1 v AND 1))"

definition vga_is_vblank :: "u32 fw" where
  "vga_is_vblank = bind_fw (mmio_read TINYBUS_VGA_STATUS) (\<lambda>v. return_fw (v AND 1))"

definition vga_frame_count :: "u32 fw" where
  "vga_frame_count = bind_fw (mmio_read TINYBUS_VGA_STATUS) (\<lambda>v. return_fw (drop_bit 16 v))"

definition vga_write_word :: "u32 \<Rightarrow> u32 \<Rightarrow> unit fw" where
  "vga_write_word word_index value =
     (if word_index < VGA_TILE_WORDS
      then mmio_write (TINYBUS_VGA_TILE_BASE + word_index * 4) value else return_fw ())"

definition vga_bitmap_write_word :: "u32 \<Rightarrow> u32 \<Rightarrow> unit fw" where
  "vga_bitmap_write_word word_index value =
     (if word_index < VGA_BITMAP_WORDS
      then mmio_write (TINYBUS_VGA_FB_BASE + word_index * 4) value else return_fw ())"

section \<open>Machine timer\<close>

definition timer_sample :: "(u32 \<times> u32 \<times> u32) fw" where
  "timer_sample =
     bind_fw (mmio_read TINYBUS_MTIME_HI) (\<lambda>hi0.
     bind_fw (mmio_read TINYBUS_MTIME_LO) (\<lambda>lo.
     bind_fw (mmio_read TINYBUS_MTIME_HI) (\<lambda>hi1. return_fw (hi0, lo, hi1))))"

partial_function (option) machine_timer_now :: "hw \<Rightarrow> machine \<Rightarrow> u64 outcome option" where
  "machine_timer_now hw m =
     (case timer_sample hw m of
        Some (Ret (hi0, lo, hi1) m') \<Rightarrow>
          if hi0 \<noteq> hi1 then machine_timer_now hw m'
          else Some (Ret (push_bit 32 (ucast hi1) OR ucast lo) m')
      | Some (Stop m') \<Rightarrow> Some (Stop m')
      | Some Fault \<Rightarrow> Some Fault
      | None \<Rightarrow> None)"

definition machine_timer_set_compare :: "u64 \<Rightarrow> unit fw" where
  "machine_timer_set_compare value =
     seq_fw [mmio_write TINYBUS_MTIMECMP_LO 0xffffffff,
       mmio_write TINYBUS_MTIMECMP_HI (ucast (drop_bit 32 value)),
       mmio_write TINYBUS_MTIMECMP_LO (ucast value)]"

section \<open>Performance counters\<close>

record perf_snapshot =
  cycle :: u32
  instret :: u32
  mem_wait :: u32

definition perf_read_cycle :: "u32 fw" where
  "perf_read_cycle = mmio_read TINYBUS_CYCLE"

definition perf_read_instret :: "u32 fw" where
  "perf_read_instret = mmio_read TINYBUS_INSTRET"

definition perf_read_mem_wait :: "u32 fw" where
  "perf_read_mem_wait = mmio_read TINYBUS_MEM_WAIT"

definition perf_begin :: "perf_snapshot fw" where
  "perf_begin =
     bind_fw perf_read_cycle (\<lambda>c. bind_fw perf_read_instret (\<lambda>i. bind_fw perf_read_mem_wait (\<lambda>w.
       return_fw \<lparr>cycle = c, instret = i, mem_wait = w\<rparr>)))"

definition perf_end :: "perf_snapshot \<Rightarrow> perf_snapshot fw" where
  "perf_end snap =
     bind_fw perf_read_cycle (\<lambda>c. bind_fw perf_read_instret (\<lambda>i. bind_fw perf_read_mem_wait (\<lambda>w.
       return_fw \<lparr>cycle = c - cycle snap, instret = i - instret snap,
         mem_wait = w - mem_wait snap\<rparr>)))"

definition cpi_x100 :: "perf_snapshot \<Rightarrow> u32" where
  "cpi_x100 snap = (if instret snap \<noteq> 0 then (cycle snap * 100) div instret snap else 0)"

definition perf_report :: "u8 list \<Rightarrow> perf_snapshot \<Rightarrow> unit fw" where
  "perf_report label snap =
     (let cpi = cpi_x100 snap; frac = cpi mod 100
      in seq_fw [uart_puts (bytes ''[perf] ''), uart_puts label,
           uart_puts (bytes '': cycles=''), uart_put_dec (cycle snap),
           uart_puts (bytes '' instret=''), uart_put_dec (instret snap),
           uart_puts (bytes '' mem_wait=''), uart_put_dec (mem_wait snap),
           uart_puts (bytes '' CPI=''), uart_put_dec (cpi div 100), uart_putc 0x2e,
           (if frac < 10 then uart_putc 0x30 else return_fw ()), uart_put_dec frac,
           uart_putc 10])"

section \<open>Effects of the drivers\<close>

lemma emits_devices:
  "emits hw (gpio_write_led v) [Wr TINYBUS_GPIO_LED v]"
  "emits hw (traffic_light_write p) [Wr TINYBUS_TRAFFIC_DATA (p AND 0xfff)]"
  "emits hw buzzer_stop [Wr TINYBUS_BUZZER_CTRL 0]"
  "emits hw (buzzer_start h) [Wr TINYBUS_BUZZER_PERIOD h, Wr TINYBUS_BUZZER_CTRL 1]"
  using emits_write emits_then [OF emits_write emits_write]
  by (simp_all add: gpio_write_led_def traffic_light_write_def TRAFFIC_LIGHT_MASK_def buzzer_stop_def
      buzzer_start_def buzzer_set_half_period_def)

definition half_period :: "u32 \<Rightarrow> u32 \<Rightarrow> u32" where
  "half_period clock_hz tone_hz = (if tone_hz = 0 then 0 else (clock_hz div tone_hz) div 2)"

lemma emits_buzzer_start_hz:
  "emits hw (buzzer_start_hz c t)
     (if half_period c t = 0 then [Wr TINYBUS_BUZZER_CTRL 0]
      else [Wr TINYBUS_BUZZER_PERIOD (half_period c t), Wr TINYBUS_BUZZER_CTRL 1])"
  using emits_devices(3) emits_devices(4) [of hw "half_period c t"]
  by (auto simp: buzzer_start_hz_def half_period_def Let_def)

lemma half_round: "q + 1 \<le> 2 * (q div 2 + 1)" for q :: nat
  by presburger

lemma half_period_bounds:
  assumes "t \<noteq> 0"
  shows "2 * unat (half_period c t) * unat t \<le> unat c"
    and "unat c < 2 * (unat (half_period c t) + 1) * unat t"
proof -
  let ?q = "unat c div unat t"
  have h: "unat (half_period c t) = ?q div 2" using assms by (simp add: half_period_def unat_div)
  have t: "0 < unat t" using assms by (rule unat_gt_0)
  have "2 * (?q div 2) * unat t \<le> ?q * unat t" by (rule mult_le_mono1) simp
  also have "\<dots> \<le> unat c" by simp
  finally show "2 * unat (half_period c t) * unat t \<le> unat c" by (simp add: h)
  have "unat c < (?q + 1) * unat t" using t by (metis add.commute dividend_less_div_times mult_Suc plus_1_eq_Suc)
  also have "\<dots> \<le> 2 * (?q div 2 + 1) * unat t" by (rule mult_le_mono1 [OF half_round])
  finally show "unat c < 2 * (unat (half_period c t) + 1) * unat t" by (simp add: h)
qed

lemma emits_bitmap_write:
  "emits hw (vga_bitmap_write_word i v)
     (if i < VGA_BITMAP_WORDS then [Wr (TINYBUS_VGA_FB_BASE + i * 4) v] else [])"
  by (simp add: vga_bitmap_write_word_def emits_write emits_return)

section \<open>Reading a 64-bit clock with 32-bit reads\<close>

definition hi_half :: "nat \<Rightarrow> u32" where
  "hi_half t = of_nat (t div 2 ^ 32)"

lemma join_halves:
  "push_bit 32 (ucast (hi_half t)) OR ucast (of_nat t :: u32) = (of_nat t :: u64)"
proof (rule bit_word_eqI)
  fix n assume "n < LENGTH(64)"
  then have n: "n < 64" by simp
  have "t div 2 ^ 32 = drop_bit 32 t" by (simp add: drop_bit_eq_div)
  with n show "bit (push_bit 32 (ucast (hi_half t)) OR ucast (of_nat t :: u32) :: u64) n
      = bit (of_nat t :: u64) n"
    by (cases "n < 32") (auto simp: bit_simps hi_half_def)
qed

locale machine_clock =
  fixes hw :: hw and now :: "access list \<Rightarrow> nat" and step :: nat
  assumes lo: "hw tr (Reg TINYBUS_MTIME_LO) = of_nat (now (Rd TINYBUS_MTIME_LO v # tr))"
    and hi: "hw tr (Reg TINYBUS_MTIME_HI) = hi_half (now (Rd TINYBUS_MTIME_HI v # tr))"
    and forward: "now tr \<le> now (Rd a v # tr)"
    and bounded: "now (Rd a v # tr) \<le> now tr + step"
    and step_small: "6 * step < 2 ^ 32"
begin

lemma sample_run:
  obtains t1 t2 t3 m' where
    "timer_sample hw m = Some (Ret (hi_half t1, of_nat t2, hi_half t3) m')"
    "now (trace m) \<le> t1" "t1 \<le> t2" "t2 \<le> t3" "t3 = now (trace m')"
    "t3 \<le> now (trace m) + 3 * step" "mem m' = mem m" "effects m' = effects m"
proof -
  define a where "a = Rd TINYBUS_MTIME_HI (hw (trace m) (Reg TINYBUS_MTIME_HI)) # trace m"
  define b where "b = Rd TINYBUS_MTIME_LO (hw a (Reg TINYBUS_MTIME_LO)) # a"
  define c where "c = Rd TINYBUS_MTIME_HI (hw b (Reg TINYBUS_MTIME_HI)) # b"
  have "hw (trace m) (Reg TINYBUS_MTIME_HI) = hi_half (now a)"
      "hw a (Reg TINYBUS_MTIME_LO) = of_nat (now b)" "hw b (Reg TINYBUS_MTIME_HI) = hi_half (now c)"
    unfolding a_def b_def c_def by (rule hi lo)+
  moreover have "timer_sample hw m = Some (Ret (hw (trace m) (Reg TINYBUS_MTIME_HI),
      hw a (Reg TINYBUS_MTIME_LO), hw b (Reg TINYBUS_MTIME_HI)) (m\<lparr>trace := c\<rparr>))"
    by (simp add: timer_sample_def bind_fw_def mmio_read_def return_fw_def Let_def a_def b_def c_def)
  ultimately have run: "timer_sample hw m =
      Some (Ret (hi_half (now a), of_nat (now b), hi_half (now c)) (m\<lparr>trace := c\<rparr>))"
    by simp
  have le: "now (trace m) \<le> now a" "now a \<le> now b" "now b \<le> now c"
    unfolding a_def b_def c_def by (rule forward)+
  have "now a \<le> now (trace m) + step" "now b \<le> now a + step" "now c \<le> now b + step"
    unfolding a_def b_def c_def by (rule bounded)+
  then have far: "now c \<le> now (trace m) + 3 * step" by linarith
  have eff: "effects (m\<lparr>trace := c\<rparr>) = effects m"
    by (simp add: effects_def a_def b_def c_def)
  show thesis by (rule that [OF run le(1,2,3) _ far _ eff]) simp_all
qed

text \<open>Within one sample the high half changes at most once, so equal halves mean no change.\<close>

lemma hi_equal:
  assumes "t1 \<le> t3" "t3 \<le> t1 + 3 * step"
    and "(hi_half t1) = hi_half t3"
  shows "t1 div 2 ^ 32 = t3 div 2 ^ 32"
proof -
  have "t3 < t1 + 2 ^ 32" using assms(2) step_small by linarith
  with assms(1) have "t3 div 2 ^ 32 = t1 div 2 ^ 32 \<or> t3 div 2 ^ 32 = Suc (t1 div 2 ^ 32)"
    by (rule div_adjacent)
  moreover have "(of_nat (Suc k) :: u32) \<noteq> of_nat k" for k by simp
  ultimately show ?thesis using assms(3) unfolding hi_half_def by metis
qed

lemma joined_value:
  assumes "t1 \<le> t2" "t2 \<le> t3" "t3 \<le> t1 + 3 * step"
    and "(hi_half t1) = hi_half t3"
  shows "push_bit 32 (ucast (hi_half t3)) OR ucast (of_nat t2 :: u32) = (of_nat t2 :: u64)"
proof -
  have "t1 div 2 ^ 32 = t3 div 2 ^ 32" using assms hi_equal [of t1 t3] by simp
  moreover have "t1 div 2 ^ 32 \<le> t2 div 2 ^ 32" "t2 div 2 ^ 32 \<le> t3 div 2 ^ 32"
    using assms by (simp_all add: div_le_mono)
  ultimately have "t3 div 2 ^ 32 = t2 div 2 ^ 32" by simp
  then have "hi_half t3 = hi_half t2" by (simp only: hi_half_def)
  then show ?thesis by (simp only: join_halves)
qed

text \<open>The loop runs at most twice: after a carry into the high half the next carry is far away.\<close>

lemma timer_now_total:
  obtains t m' where "machine_timer_now hw m = Some (Ret (of_nat t) m')"
    "now (trace m) \<le> t" "t \<le> now (trace m')" "mem m' = mem m" "effects m' = effects m"
    "now (trace m') \<le> now (trace m) + 6 * step"
proof -
  obtain t1 t2 t3 m1 where s1:
    "timer_sample hw m = Some (Ret (hi_half t1, of_nat t2, hi_half t3) m1)"
    "now (trace m) \<le> t1" "t1 \<le> t2" "t2 \<le> t3" "t3 = now (trace m1)"
    "t3 \<le> now (trace m) + 3 * step" "mem m1 = mem m" "effects m1 = effects m"
    by (rule sample_run)
  show thesis
  proof (cases "(hi_half t1) = hi_half t3")
    case True
    have "push_bit 32 (ucast (hi_half t3)) OR ucast (of_nat t2 :: u32) = (of_nat t2 :: u64)"
      using s1(2-6) True by (intro joined_value [of t1]) linarith+
    with True s1 have "machine_timer_now hw m = Some (Ret (of_nat t2) m1)"
      by (subst machine_timer_now.simps) simp
    with s1 show ?thesis by (intro that [of t2 m1]) simp_all
  next
    case False
    obtain u1 u2 u3 m2 where s2:
      "timer_sample hw m1 = Some (Ret (hi_half u1, of_nat u2, hi_half u3) m2)"
      "now (trace m1) \<le> u1" "u1 \<le> u2" "u2 \<le> u3" "u3 = now (trace m2)"
      "u3 \<le> now (trace m1) + 3 * step" "mem m2 = mem m1" "effects m2 = effects m1"
      by (rule sample_run)
    from False have "t1 div 2 ^ 32 \<noteq> t3 div 2 ^ 32" by (auto simp: hi_half_def)
    moreover have "u3 < t1 + 2 ^ 32" using s1 s2 step_small by linarith
    ultimately have "u1 div 2 ^ 32 = u3 div 2 ^ 32" using s1(2-5) s2(2-5) by (intro div_carry_once [of t1 t3]) simp_all
    then have eq: "hi_half u1 = hi_half u3" by (simp only: hi_half_def)
    have val: "push_bit 32 (ucast (hi_half u3)) OR ucast (of_nat u2 :: u32) = (of_nat u2 :: u64)"
      using s2(2-6) eq by (intro joined_value [of u1]) linarith+
    have "machine_timer_now hw m1 = Some (Ret (of_nat u2) m2)"
      by (subst machine_timer_now.simps) (simp add: s2(1) eq val)
    with False s1(1) have "machine_timer_now hw m = Some (Ret (of_nat u2) m2)"
      by (subst machine_timer_now.simps) simp
    with s1 s2 show ?thesis by (intro that [of u2 m2]) simp_all
  qed
qed

end

text \<open>The board's timer is such a clock.\<close>

lemma soc_after_clock_read:
  "clock (soc_after cfg s0 (Rd a v # tr)) = clock (soc_after cfg s0 tr) + Suc (extra_cycles cfg)"
  by (simp add: Let_def)

lemma soc_hw_mtime:
  "soc_hw cfg s0 tr (Reg TINYBUS_MTIME_LO) = of_nat (clock (soc_after cfg s0 (Rd a v # tr)))"
  "soc_hw cfg s0 tr (Reg TINYBUS_MTIME_HI) = hi_half (clock (soc_after cfg s0 (Rd a v # tr)))"
  unfolding soc_after_clock_read by (simp_all add: soc_read_def addr_defs hi_half_def)

interpretation soc_clock: machine_clock "soc_hw board_config s0"
    "\<lambda>tr. clock (soc_after board_config s0 tr)" 2 for s0
proof unfold_locales
  fix tr :: "access list" and a v :: u32
  show "soc_hw board_config s0 tr (Reg TINYBUS_MTIME_LO) =
      of_nat (clock (soc_after board_config s0 (Rd TINYBUS_MTIME_LO v # tr)))"
    and "soc_hw board_config s0 tr (Reg TINYBUS_MTIME_HI) =
      hi_half (clock (soc_after board_config s0 (Rd TINYBUS_MTIME_HI v # tr)))"
    by (rule soc_hw_mtime)+
  show "clock (soc_after board_config s0 tr) \<le> clock (soc_after board_config s0 (Rd a v # tr))"
    and "clock (soc_after board_config s0 (Rd a v # tr)) \<le> clock (soc_after board_config s0 tr) + 2"
    unfolding soc_after_clock_read by (simp_all add: board_config_def)
qed simp

section \<open>Setting the compare register\<close>

lemma low_ones:
  "push_bit 32 (drop_bit 32 c) OR ucast (0xffffffff :: u32) = (c :: u64) OR 0xffffffff"
  "push_bit 32 (ucast (ucast (drop_bit 32 c) :: u32)) OR ucast (0xffffffff :: u32) = c OR 0xffffffff"
  "(ucast (c OR 0xffffffff) :: u32) = 0xffffffff"
proof -
  have m: "(0xffffffff :: u64) = mask 32" "(0xffffffff :: u32) = mask 32"
    by (simp_all add: mask_eq_exp_minus_1)
  show "push_bit 32 (drop_bit 32 c) OR ucast (0xffffffff :: u32) = c OR 0xffffffff"
    unfolding m by (rule bit_word_eqI) (auto simp: bit_simps)
  show "push_bit 32 (ucast (ucast (drop_bit 32 c) :: u32)) OR ucast (0xffffffff :: u32) = c OR 0xffffffff"
    unfolding m by (rule bit_word_eqI) (auto simp: bit_simps)
  show "(ucast (c OR 0xffffffff) :: u32) = 0xffffffff"
    unfolding m by (rule bit_word_eqI) (auto simp: bit_simps)
qed

lemma compare_final:
  "push_bit 32 (drop_bit 32 (v OR 0xffffffff)) OR ucast (ucast v :: u32) = (v :: u64)"
proof -
  have m: "(0xffffffff :: u64) = mask 32" by (simp add: mask_eq_exp_minus_1)
  show ?thesis unfolding m by (rule bit_word_eqI) (auto simp: bit_simps)
qed

lemma set_compare_run:
  "machine_timer_set_compare v hw m =
     Some (Ret () (m\<lparr>trace := [Wr TINYBUS_MTIMECMP_LO (ucast v),
       Wr TINYBUS_MTIMECMP_HI (ucast (drop_bit 32 v)), Wr TINYBUS_MTIMECMP_LO 0xffffffff] @ trace m\<rparr>))"
  by (simp add: machine_timer_set_compare_def then_fw_def bind_fw_def mmio_write_def return_fw_def)

lemma mtimecmp_write:
  "mtimecmp (soc_access cfg (Wr TINYBUS_MTIMECMP_LO w) s) = push_bit 32 (drop_bit 32 (mtimecmp s)) OR ucast w"
  "mtimecmp (soc_access cfg (Wr TINYBUS_MTIMECMP_HI w) s) =
     push_bit 32 (ucast w) OR ucast (ucast (mtimecmp s) :: u32)"
  by (simp_all add: soc_write_def addr_defs)

lemma set_compare_steps:
  fixes v :: u64 and cfg :: soc_config
  defines "s1 \<equiv> soc_access cfg (Wr TINYBUS_MTIMECMP_LO 0xffffffff)"
    and "s2 \<equiv> soc_access cfg (Wr TINYBUS_MTIMECMP_HI (ucast (drop_bit 32 v)))"
    and "s3 \<equiv> soc_access cfg (Wr TINYBUS_MTIMECMP_LO (ucast v))"
  shows "mtimecmp (s1 s) = mtimecmp s OR 0xffffffff"
    and "mtimecmp (s2 (s1 s)) = v OR 0xffffffff"
    and "mtimecmp (s3 (s2 (s1 s))) = v"
proof -
  show 1: "mtimecmp (s1 s) = mtimecmp s OR 0xffffffff"
    unfolding s1_def mtimecmp_write by (rule low_ones(1))
  show 2: "mtimecmp (s2 (s1 s)) = v OR 0xffffffff"
    unfolding s2_def mtimecmp_write 1 low_ones(3) by (rule low_ones(2))
  show "mtimecmp (s3 (s2 (s1 s))) = v"
    unfolding s3_def mtimecmp_write 2 by (rule compare_final)
qed

section \<open>Reading back what was written\<close>

lemma traffic_readback:
  "bind_fw (traffic_light_write p) (\<lambda>_. traffic_light_read) (soc_hw cfg s0) m =
   Some (Ret (p AND 0xfff) (m\<lparr>trace := Rd TINYBUS_TRAFFIC_DATA (p AND 0xfff) #
     Wr TINYBUS_TRAFFIC_DATA (p AND 0xfff) # trace m\<rparr>))"
  by (simp add: traffic_light_write_def traffic_light_read_def bind_fw_def mmio_write_def mmio_read_def
      return_fw_def Let_def soc_read_def soc_write_def addr_defs)

section \<open>Properties\<close>

text \<open>C23: \<open>machine_timer_now\<close> returns on the board and its 64-bit result is the value \<open>mtime\<close> had
  at some moment during the call, also when the low half overflows between the reads.\<close>

theorem machine_timer_now_correct:
  "\<exists>t m'. machine_timer_now (soc_hw board_config s0) m = Some (Ret (of_nat t) m') \<and>
     clock (soc_after board_config s0 (trace m)) \<le> t \<and>
     t \<le> clock (soc_after board_config s0 (trace m'))"
  using soc_clock.timer_now_total [of s0 m] by metis

text \<open>\<open>machine_timer_set_compare\<close> leaves \<open>mtimecmp\<close> at the requested value, and at each of
  its two intermediate steps the register is at least the old or the new compare value, so
  that rewriting it never raises an early timer interrupt.\<close>

lemma machine_timer_set_compare_correct:
  "\<exists>a b c. machine_timer_set_compare v hw m = Some (Ret () (m\<lparr>trace := c # b # a # trace m\<rparr>)) \<and>
     mtimecmp (soc_after cfg s0 (a # trace m)) = mtimecmp (soc_after cfg s0 (trace m)) OR 0xffffffff \<and>
     mtimecmp (soc_after cfg s0 (b # a # trace m)) = v OR 0xffffffff \<and>
     mtimecmp (soc_after cfg s0 (c # b # a # trace m)) = v"
proof -
  have "machine_timer_set_compare v hw m =
      Some (Ret () (m\<lparr>trace := Wr TINYBUS_MTIMECMP_LO (ucast v) #
        Wr TINYBUS_MTIMECMP_HI (ucast (drop_bit 32 v)) # Wr TINYBUS_MTIMECMP_LO 0xffffffff # trace m\<rparr>))"
    by (simp add: set_compare_run)
  then show ?thesis
    unfolding soc_after.simps(2) using set_compare_steps by blast
qed

text \<open>The tone of \<open>buzzer_start_hz\<close> is never too low to be heard and never wrong by more
  than the rounding of the divider: unless the half period rounds to 0, which stops the buzzer,
  the emitted half period \<open>h\<close> is the largest with \<open>2 h \<cdot> tone \<le> clock\<close>.\<close>

lemma buzzer_start_hz_correct:
  "emits hw (buzzer_start_hz clock_hz tone)
     (let h = half_period clock_hz tone
      in if h = 0 then [Wr TINYBUS_BUZZER_CTRL 0]
         else [Wr TINYBUS_BUZZER_PERIOD h, Wr TINYBUS_BUZZER_CTRL 1]) \<and>
   (if tone = 0 then half_period clock_hz tone = 0
    else 2 * unat (half_period clock_hz tone) * unat tone \<le> unat clock_hz \<and>
      unat clock_hz < 2 * (unat (half_period clock_hz tone) + 1) * unat tone)"
proof
  show "emits hw (buzzer_start_hz clock_hz tone)
     (let h = half_period clock_hz tone
      in if h = 0 then [Wr TINYBUS_BUZZER_CTRL 0]
         else [Wr TINYBUS_BUZZER_PERIOD h, Wr TINYBUS_BUZZER_CTRL 1])"
    unfolding Let_def by (rule emits_buzzer_start_hz)
  show "if tone = 0 then half_period clock_hz tone = 0
    else 2 * unat (half_period clock_hz tone) * unat tone \<le> unat clock_hz \<and>
      unat clock_hz < 2 * (unat (half_period clock_hz tone) + 1) * unat tone"
    using half_period_bounds [of tone clock_hz] by (simp add: half_period_def del: mult_Suc_right)
qed

text \<open>The CPI that \<open>perf_report\<close> prints is 100 times the quotient of cycles and instructions
  as long as the product \<open>cycle * 100\<close> fits 32 bits.\<close>

lemma cpi_x100_correct:
  assumes "unat (cycle p) * 100 < 2 ^ 32" "instret p \<noteq> 0"
  shows "unat (cpi_x100 p) = unat (cycle p) * 100 div unat (instret p)"
  using assms by (simp add: cpi_x100_def unat_div unat_word_ariths)

text \<open>One second of execution at 50 MHz overflows that product: 50 million cycles for ten
  million instructions, a CPI of 5.00, are reported as 0.70.\<close>

lemma cpi_x100_overflow:
  "cpi_x100 \<lparr>cycle = 50000000, instret = 10000000, mem_wait = 0\<rparr> = 70"
  by code_simp

end
