(* ===== verification/Rt_String.thy ===== *)
theory Rt_String
  imports Machine
begin

text \<open>
  The memory routines of \<open>firmware/runtime/rt_string.c\<close> on byte memory. Word accesses go
  through \<open>ld32\<close> and \<open>st32\<close>, which fail on an address that is not a multiple of four, so
  that a routine returning a result has only made aligned word accesses. The reference
  operations are the closed forms \<open>copy_bytes\<close> and \<open>fill_bytes\<close>.
\<close>

section \<open>Aligned words in byte memory\<close>

definition get32 :: "memory \<Rightarrow> u32 \<Rightarrow> u32" where
  "get32 mm a = word_of_bytes (mm a) (mm (a + 1)) (mm (a + 2)) (mm (a + 3))"

definition put32 :: "memory \<Rightarrow> u32 \<Rightarrow> u32 \<Rightarrow> memory" where
  "put32 mm a v = mm(a := byte_at v 0, a + 1 := byte_at v 1, a + 2 := byte_at v 2, a + 3 := byte_at v 3)"

definition ld32 :: "memory \<Rightarrow> u32 \<Rightarrow> u32 option" where
  "ld32 mm a = (if a AND 3 = 0 then Some (get32 mm a) else None)"

definition st32 :: "memory \<Rightarrow> u32 \<Rightarrow> u32 \<Rightarrow> memory option" where
  "st32 mm a v = (if a AND 3 = 0 then Some (put32 mm a v) else None)"

text \<open>The same accesses of the program.\<close>

definition load32 :: "u32 \<Rightarrow> u32 fw" where
  "load32 a hw m = of_option_fw (ld32 (mem m) a) hw m"

definition store32 :: "u32 \<Rightarrow> u32 \<Rightarrow> unit fw" where
  "store32 a v hw m =
     (case st32 (mem m) a v of None \<Rightarrow> Some Fault | Some mm \<Rightarrow> Some (Ret () (m\<lparr>mem := mm\<rparr>)))"

lemma off_distinct:
  fixes a :: u32
  shows "a + 1 \<noteq> a" "a + 2 \<noteq> a" "a + 3 \<noteq> a" "a + 2 \<noteq> a + 1" "a + 3 \<noteq> a + 1" "a + 3 \<noteq> a + 2"
    "a \<noteq> a + 1" "a \<noteq> a + 2" "a \<noteq> a + 3" "a + 1 \<noteq> a + 2" "a + 1 \<noteq> a + 3" "a + 2 \<noteq> a + 3"
  by simp_all

lemma get32_put32 [simp]: "get32 (put32 mm a v) a = v"
  by (simp add: get32_def put32_def off_distinct del: One_nat_def)

lemma put32_apply:
  "put32 mm a v x = (if unat (x - a) < 4 then byte_at v (unat (x - a)) else mm x)"
proof (cases "unat (x - a) < 4")
  case True
  then have "x - a = 0 \<or> x - a = 1 \<or> x - a = 2 \<or> x - a = 3" by (rule word_less_4)
  then have "x = a \<or> x = a + 1 \<or> x = a + 2 \<or> x = a + 3" by (auto simp: algebra_simps)
  with True show ?thesis by (auto simp: put32_def)
next
  case False
  then have "x \<noteq> a \<and> x \<noteq> a + 1 \<and> x \<noteq> a + 2 \<and> x \<noteq> a + 3" by auto
  with False show ?thesis by (simp add: put32_def)
qed

text \<open>A word that does not overlap the stored one is unchanged.\<close>

lemma get32_put32_other:
  fixes a b :: u32
  assumes "4 \<le> unat (b - a)" "4 \<le> unat (a - b)"
  shows "get32 (put32 mm a v) b = get32 mm b"
proof -
  have "\<not> unat (b + k - a) < 4" if "k = 0 \<or> k = 1 \<or> k = 2 \<or> k = 3" for k
    using that assms by unat_arith
  from this [of 0] this [of 1] this [of 2] this [of 3] show ?thesis
    by (simp add: get32_def put32_apply)
qed

lemma aligned_apart:
  fixes a b :: u32
  assumes "a AND 3 = 0" "b AND 3 = 0" "a \<noteq> b"
  shows "4 \<le> unat (b - a)"
proof -
  have "unat a mod 4 = 0" "unat b mod 4 = 0"
    using assms(1,2) unat_mod4 [of a] unat_mod4 [of b] by simp_all
  then have "unat (b - a) mod 4 = 0" by (auto simp: unat_sub_if' word_size)
  moreover have "unat (b - a) \<noteq> 0" using assms(3) by (simp add: unat_eq_zero)
  ultimately show ?thesis by presburger
qed

section \<open>Reference operations\<close>

definition copy_bytes :: "memory \<Rightarrow> u32 \<Rightarrow> u32 \<Rightarrow> nat \<Rightarrow> memory" where
  "copy_bytes mm d s n = (\<lambda>a. if unat (a - d) < n then mm (s + (a - d)) else mm a)"

definition fill_bytes :: "memory \<Rightarrow> u32 \<Rightarrow> u8 \<Rightarrow> nat \<Rightarrow> memory" where
  "fill_bytes mm d v n = (\<lambda>a. if unat (a - d) < n then v else mm a)"

definition disjoint_regions :: "u32 \<Rightarrow> u32 \<Rightarrow> nat \<Rightarrow> bool" where
  "disjoint_regions d s n \<longleftrightarrow> (\<forall>x. unat (x - d) < n \<longrightarrow> n \<le> unat (x - s))"

lemma copy_bytes_0 [simp]: "copy_bytes mm d s 0 = mm"
  by (simp add: copy_bytes_def)

lemma fill_bytes_0 [simp]: "fill_bytes mm d v 0 = mm"
  by (simp add: fill_bytes_def)

lemma copy_byte: "mm(d := mm s) = copy_bytes mm d s 1"
  by (auto simp: copy_bytes_def fun_eq_iff unat_eq_zero)

lemma fill_byte: "mm(d := v) = fill_bytes mm d v 1"
  by (auto simp: fill_bytes_def fun_eq_iff unat_eq_zero)

lemma byte_at_get32: "unat k < 4 \<Longrightarrow> byte_at (get32 mm s) (unat k) = mm (s + k)"
  using word_less_4 [of k] by (auto simp: get32_def)

lemma copy_word: "put32 mm d (get32 mm s) = copy_bytes mm d s 4"
  by (auto simp: fun_eq_iff put32_apply copy_bytes_def byte_at_get32)

text \<open>Offsets past a prefix of \<open>k\<close> bytes.\<close>

lemma unat_offset:
  fixes a d :: u32
  assumes "k < 2 ^ 32"
  shows "unat (a - (d + of_nat k)) =
    (if k \<le> unat (a - d) then unat (a - d) - k else unat (a - d) + 2 ^ 32 - k)"
proof -
  have k: "unat (of_nat k :: u32) = k" using assms by (simp add: unat_of_nat)
  have "unat (w - of_nat k) = (if k \<le> unat w then unat w - k else unat w + 2 ^ 32 - k)" for w :: u32
    using unat_sub_if' [of w "of_nat k"] by (simp add: word_le_nat_alt k)
  from this [of "a - d"] show ?thesis by (simp add: diff_diff_eq)
qed

lemma fill_split:
  assumes "k \<le> n" "n < 2 ^ 32"
  shows "fill_bytes (fill_bytes mm d v k) (d + of_nat k) v (n - k) = fill_bytes mm d v n"
proof
  fix a
  have "k < 2 ^ 32" using assms by simp
  then show "fill_bytes (fill_bytes mm d v k) (d + of_nat k) v (n - k) a = fill_bytes mm d v n a"
    using assms by (auto simp: fill_bytes_def unat_offset)
qed

lemma copy_split:
  assumes "k \<le> n" "n < 2 ^ 32" "disjoint_regions d s n"
  shows "copy_bytes (copy_bytes mm d s k) (d + of_nat k) (s + of_nat k) (n - k) = copy_bytes mm d s n"
proof
  fix a
  have k: "k < 2 ^ 32" using assms by simp
  have src: "s + of_nat k + (a - (d + of_nat k)) = s + (a - d)" by simp
  have "\<not> unat (s + (a - d) - d) < k" if "unat (a - d) < n"
  proof
    assume "unat (s + (a - d) - d) < k"
    from this assms(1) have "unat (s + (a - d) - d) < n" by (rule less_le_trans)
    with assms(3) have "n \<le> unat (s + (a - d) - s)" unfolding disjoint_regions_def by blast
    with that show False by simp
  qed
  then show "copy_bytes (copy_bytes mm d s k) (d + of_nat k) (s + of_nat k) (n - k) a = copy_bytes mm d s n a"
    using assms k by (auto simp: copy_bytes_def unat_offset src)
qed

lemma disjoint_tail:
  assumes "disjoint_regions d s n" "k \<le> n" "n < 2 ^ 32"
  shows "disjoint_regions (d + of_nat k) (s + of_nat k) (n - k)"
  unfolding disjoint_regions_def
proof (intro allI impI)
  fix x
  have k: "k < 2 ^ 32" using assms by simp
  assume "unat (x - (d + of_nat k)) < n - k"
  with assms k have "unat (x - d) < n" by (auto simp: unat_offset split: if_splits)
  with assms have "n \<le> unat (x - s)" unfolding disjoint_regions_def by blast
  with k assms show "n - k \<le> unat (x - (s + of_nat k))" by (simp add: unat_offset)
qed

section \<open>The routines\<close>

text \<open>\<open>rt_memcpy\<close>: bytes until both pointers are aligned, then words, then the tail. The
  three loops share their state: memory, destination, source and remaining length.\<close>

function memcpy_head :: "memory \<Rightarrow> u32 \<Rightarrow> u32 \<Rightarrow> u32 \<Rightarrow> memory \<times> u32 \<times> u32 \<times> u32" where
  "memcpy_head mm d s n =
     (if n \<noteq> 0 \<and> (d OR s) AND 3 \<noteq> 0
      then memcpy_head (mm(d := mm s)) (d + 1) (s + 1) (n - 1) else (mm, d, s, n))"
  by pat_completeness auto
termination
  by (relation "measure (\<lambda>(mm, d, s, n). unat n)") (auto simp: unat_dec unat_gt_0)

function memcpy_words :: "memory \<Rightarrow> u32 \<Rightarrow> u32 \<Rightarrow> u32 \<Rightarrow> (memory \<times> u32 \<times> u32 \<times> u32) option" where
  "memcpy_words mm d s n =
     (if 4 \<le> n
      then do { w \<leftarrow> ld32 mm s; mm' \<leftarrow> st32 mm d w; memcpy_words mm' (d + 4) (s + 4) (n - 4) }
      else Some (mm, d, s, n))"
  by pat_completeness auto
termination
  by (relation "measure (\<lambda>(mm, d, s, n). unat n)") (auto, unat_arith)

function memcpy_tail :: "memory \<Rightarrow> u32 \<Rightarrow> u32 \<Rightarrow> u32 \<Rightarrow> memory" where
  "memcpy_tail mm d s n =
     (if n \<noteq> 0 then memcpy_tail (mm(d := mm s)) (d + 1) (s + 1) (n - 1) else mm)"
  by pat_completeness auto
termination
  by (relation "measure (\<lambda>(mm, d, s, n). unat n)") (auto simp: unat_dec unat_gt_0)

definition rt_memcpy :: "memory \<Rightarrow> u32 \<Rightarrow> u32 \<Rightarrow> u32 \<Rightarrow> (u32 \<times> memory) option" where
  "rt_memcpy mm dest src n =
     (case memcpy_head mm dest src n of
        (mm1, d, s, n1) \<Rightarrow> do {
          (mm2, d2, s2, n2) \<leftarrow> memcpy_words mm1 d s n1;
          Some (dest, memcpy_tail mm2 d2 s2 n2)
        })"

function memset_head :: "memory \<Rightarrow> u32 \<Rightarrow> u8 \<Rightarrow> u32 \<Rightarrow> memory \<times> u32 \<times> u32" where
  "memset_head mm d v n =
     (if n \<noteq> 0 \<and> d AND 3 \<noteq> 0 then memset_head (mm(d := v)) (d + 1) v (n - 1) else (mm, d, n))"
  by pat_completeness auto
termination
  by (relation "measure (\<lambda>(mm, d, v, n). unat n)") (auto simp: unat_dec unat_gt_0)

function memset_words :: "memory \<Rightarrow> u32 \<Rightarrow> u32 \<Rightarrow> u32 \<Rightarrow> (memory \<times> u32 \<times> u32) option" where
  "memset_words mm d w n =
     (if 4 \<le> n then do { mm' \<leftarrow> st32 mm d w; memset_words mm' (d + 4) w (n - 4) }
      else Some (mm, d, n))"
  by pat_completeness auto
termination
  by (relation "measure (\<lambda>(mm, d, w, n). unat n)") (auto, unat_arith)

function memset_tail :: "memory \<Rightarrow> u32 \<Rightarrow> u8 \<Rightarrow> u32 \<Rightarrow> memory" where
  "memset_tail mm d v n = (if n \<noteq> 0 then memset_tail (mm(d := v)) (d + 1) v (n - 1) else mm)"
  by pat_completeness auto
termination
  by (relation "measure (\<lambda>(mm, d, v, n). unat n)") (auto simp: unat_dec unat_gt_0)

definition memset_word :: "u8 \<Rightarrow> u32" where
  "memset_word v = (let w = ucast v; w' = w OR push_bit 8 w in w' OR push_bit 16 w')"

definition rt_memset :: "memory \<Rightarrow> u32 \<Rightarrow> u32 \<Rightarrow> u32 \<Rightarrow> (u32 \<times> memory) option" where
  "rt_memset mm dest value n =
     (let v = ucast value
      in case memset_head mm dest v n of
        (mm1, d, n1) \<Rightarrow> do {
          (mm2, d2, n2) \<leftarrow> memset_words mm1 d (memset_word v) n1;
          Some (dest, memset_tail mm2 d2 v n2)
        })"

text \<open>\<open>rt_memmove\<close>: the two index loops, upwards and downwards.\<close>

definition memmove_up :: "memory \<Rightarrow> u32 \<Rightarrow> u32 \<Rightarrow> nat \<Rightarrow> memory" where
  "memmove_up mm d s n = fold (\<lambda>i mm. mm(d + of_nat i := mm (s + of_nat i))) [0..<n] mm"

fun memmove_down :: "memory \<Rightarrow> u32 \<Rightarrow> u32 \<Rightarrow> nat \<Rightarrow> memory" where
  "memmove_down mm d s 0 = mm"
| "memmove_down mm d s (Suc i) = memmove_down (mm(d + of_nat i := mm (s + of_nat i))) d s i"

definition rt_memmove :: "memory \<Rightarrow> u32 \<Rightarrow> u32 \<Rightarrow> u32 \<Rightarrow> u32 \<times> memory" where
  "rt_memmove mm dest src n =
     (if dest = src \<or> n = 0 then (dest, mm)
      else if dest < src then (dest, memmove_up mm dest src (unat n))
      else (dest, memmove_down mm dest src (unat n)))"

text \<open>The standard names are the same functions.\<close>

definition std_memcpy :: "memory \<Rightarrow> u32 \<Rightarrow> u32 \<Rightarrow> u32 \<Rightarrow> (u32 \<times> memory) option" where
  "std_memcpy mm dest src n = rt_memcpy mm dest src n"

definition std_memset :: "memory \<Rightarrow> u32 \<Rightarrow> u32 \<Rightarrow> u32 \<Rightarrow> (u32 \<times> memory) option" where
  "std_memset mm dest value n = rt_memset mm dest value n"

definition std_memmove :: "memory \<Rightarrow> u32 \<Rightarrow> u32 \<Rightarrow> u32 \<Rightarrow> u32 \<times> memory" where
  "std_memmove mm dest src n = rt_memmove mm dest src n"

declare memcpy_head.simps [simp del] memcpy_words.simps [simp del] memcpy_tail.simps [simp del]
  memset_head.simps [simp del] memset_words.simps [simp del] memset_tail.simps [simp del]

section \<open>Copying disjoint regions\<close>

lemma copy_step_byte:
  fixes n :: u32
  assumes "disjoint_regions d s (unat n)" "n \<noteq> 0"
  shows "disjoint_regions (d + 1) (s + 1) (unat (n - 1))"
    and "copy_bytes (mm(d := mm s)) (d + 1) (s + 1) (unat (n - 1)) = copy_bytes mm d s (unat n)"
proof -
  have n: "1 \<le> unat n" "unat n < 2 ^ 32" "unat (n - 1) = unat n - 1"
    using assms(2) unat_gt_0 [of n] unsigned_less [of n, where 'a = nat] by (simp_all add: unat_dec)
  show "disjoint_regions (d + 1) (s + 1) (unat (n - 1))"
    using disjoint_tail [OF assms(1) n(1,2)] by (simp add: n(3))
  show "copy_bytes (mm(d := mm s)) (d + 1) (s + 1) (unat (n - 1)) = copy_bytes mm d s (unat n)"
    using copy_split [OF n(1,2) assms(1)] by (simp add: n(3) copy_byte)
qed

lemma copy_step_word:
  fixes n :: u32
  assumes "disjoint_regions d s (unat n)" "4 \<le> n"
  shows "disjoint_regions (d + 4) (s + 4) (unat (n - 4))"
    and "copy_bytes (put32 mm d (get32 mm s)) (d + 4) (s + 4) (unat (n - 4)) = copy_bytes mm d s (unat n)"
proof -
  have n: "4 \<le> unat n" "unat n < 2 ^ 32" "unat (n - 4) = unat n - 4"
    using assms(2) unsigned_less [of n, where 'a = nat] by (simp_all add: word_le_nat_alt unat_sub)
  show "disjoint_regions (d + 4) (s + 4) (unat (n - 4))"
    using disjoint_tail [OF assms(1) n(1,2)] by (simp add: n(3))
  show "copy_bytes (put32 mm d (get32 mm s)) (d + 4) (s + 4) (unat (n - 4)) = copy_bytes mm d s (unat n)"
    using copy_split [OF n(1,2) assms(1)] by (simp add: n(3) copy_word)
qed

lemma memcpy_head_spec:
  assumes "disjoint_regions d s (unat n)" "memcpy_head mm d s n = (mm', d', s', n')"
  shows "disjoint_regions d' s' (unat n') \<and>
    copy_bytes mm' d' s' (unat n') = copy_bytes mm d s (unat n) \<and>
    (n' = 0 \<or> (d' OR s') AND 3 = 0)"
  using assms
proof (induction mm d s n rule: memcpy_head.induct)
  case (1 mm d s n)
  show ?case
  proof (cases "n \<noteq> 0 \<and> (d OR s) AND 3 \<noteq> 0")
    case True
    with "1.prems"(2) have "memcpy_head (mm(d := mm s)) (d + 1) (s + 1) (n - 1) = (mm', d', s', n')"
      by (simp add: memcpy_head.simps [of mm d s n])
    with "1.IH" True "1.prems"(1) copy_step_byte(1) [of d s n] copy_step_byte(2) [of d s n mm] show ?thesis by (simp del: fun_upd_apply)
  next
    case False
    with "1.prems" show ?thesis by (auto simp: memcpy_head.simps [of mm d s n])
  qed
qed

lemma or_aligned: "((d :: u32) OR s) AND 3 = 0 \<longleftrightarrow> d AND 3 = 0 \<and> s AND 3 = 0"
  by (simp add: bit.conj_disj_distrib2 or_eq_0_iff)

lemma memcpy_words_spec:
  assumes "disjoint_regions d s (unat n)" "n = 0 \<or> (d AND 3 = 0 \<and> s AND 3 = 0)"
  shows "\<exists>mm' d' s' n'. memcpy_words mm d s n = Some (mm', d', s', n') \<and>
    disjoint_regions d' s' (unat n') \<and> copy_bytes mm' d' s' (unat n') = copy_bytes mm d s (unat n)"
  using assms
proof (induction mm d s n rule: memcpy_words.induct)
  case (1 mm d s n)
  show ?case
  proof (cases "4 \<le> n")
    case True
    then have "n \<noteq> 0" by auto
    with "1.prems" have al: "d AND 3 = 0" "s AND 3 = 0" by simp_all
    then have next_al: "n - 4 = 0 \<or> (d + 4) AND 3 = 0 \<and> (s + 4) AND 3 = 0"
      by (simp add: aligned4_add4)
    have ops: "ld32 mm s = Some (get32 mm s)" "st32 mm d (get32 mm s) = Some (put32 mm d (get32 mm s))"
      using al by (simp_all add: ld32_def st32_def)
    from "1.IH" [OF True ops _ next_al] al copy_step_word(1) [OF "1.prems"(1) True]
      copy_step_word(2) [OF "1.prems"(1) True, of mm] True show ?thesis
      by (simp add: memcpy_words.simps [of mm d s n] ld32_def st32_def)
  next
    case False
    with "1.prems" show ?thesis by (simp add: memcpy_words.simps [of mm d s n])
  qed
qed

lemma memcpy_tail_spec:
  "disjoint_regions d s (unat n) \<Longrightarrow> memcpy_tail mm d s n = copy_bytes mm d s (unat n)"
proof (induction mm d s n rule: memcpy_tail.induct)
  case (1 mm d s n)
  then show ?case
    using copy_step_byte(1) [of d s n] copy_step_byte(2) [of d s n mm] by (subst memcpy_tail.simps) (simp del: fun_upd_apply)
qed

lemma rt_memcpy_copies:
  assumes "disjoint_regions dest src (unat n)"
  shows "rt_memcpy mm dest src n = Some (dest, copy_bytes mm dest src (unat n))"
proof -
  obtain mm1 d s n1 where h: "memcpy_head mm dest src n = (mm1, d, s, n1)" by (metis prod_cases4)
  from memcpy_head_spec [OF assms h] have 1: "disjoint_regions d s (unat n1)"
      "copy_bytes mm1 d s (unat n1) = copy_bytes mm dest src (unat n)"
      "n1 = 0 \<or> (d AND 3 = 0 \<and> s AND 3 = 0)"
    by (auto simp: or_aligned)
  from memcpy_words_spec [OF 1(1,3), of mm1] obtain mm2 d2 s2 n2 where
      "memcpy_words mm1 d s n1 = Some (mm2, d2, s2, n2)" "disjoint_regions d2 s2 (unat n2)"
      "copy_bytes mm2 d2 s2 (unat n2) = copy_bytes mm1 d s (unat n1)"
    by blast
  with 1 h show ?thesis by (simp add: rt_memcpy_def memcpy_tail_spec)
qed

section \<open>Filling a region\<close>

lemma fill_step_byte:
  fixes n :: u32
  assumes "n \<noteq> 0"
  shows "fill_bytes (mm(d := v)) (d + 1) v (unat (n - 1)) = fill_bytes mm d v (unat n)"
proof -
  have n: "1 \<le> unat n" "unat n < 2 ^ 32" "unat (n - 1) = unat n - 1"
    using assms unat_gt_0 [of n] unsigned_less [of n, where 'a = nat] by (simp_all add: unat_dec)
  show ?thesis using fill_split [OF n(1,2)] by (simp add: n(3) fill_byte)
qed

lemma byte_at_memset_word: "k < 4 \<Longrightarrow> byte_at (memset_word v) k = v"
proof -
  assume "k < 4"
  then consider "k = 0" | "k = 1" | "k = 2" | "k = 3" by linarith
  then show ?thesis
    by cases (rule bit_word_eqI, auto simp: byte_at_def memset_word_def Let_def bit_simps
        dest: bit_imp_le_length)+
qed

lemma fill_word: "put32 mm d (memset_word v) = fill_bytes mm d v 4"
  by (auto simp: fun_eq_iff put32_apply fill_bytes_def byte_at_memset_word)

lemma fill_step_word:
  fixes n :: u32
  assumes "4 \<le> n"
  shows "fill_bytes (put32 mm d (memset_word v)) (d + 4) v (unat (n - 4)) = fill_bytes mm d v (unat n)"
proof -
  have n: "4 \<le> unat n" "unat n < 2 ^ 32" "unat (n - 4) = unat n - 4"
    using assms unsigned_less [of n, where 'a = nat] by (simp_all add: word_le_nat_alt unat_sub)
  show ?thesis using fill_split [OF n(1,2)] by (simp add: n(3) fill_word)
qed

lemma memset_head_spec:
  assumes "memset_head mm d v n = (mm', d', n')"
  shows "fill_bytes mm' d' v (unat n') = fill_bytes mm d v (unat n) \<and> (n' = 0 \<or> d' AND 3 = 0)"
  using assms
proof (induction mm d v n rule: memset_head.induct)
  case (1 mm d v n)
  show ?case
  proof (cases "n \<noteq> 0 \<and> d AND 3 \<noteq> 0")
    case True
    with 1 fill_step_byte [of n mm d v] show ?thesis
      by (simp add: memset_head.simps [of mm d v n] del: fun_upd_apply)
  next
    case False
    with "1.prems" show ?thesis by (auto simp: memset_head.simps [of mm d v n])
  qed
qed

lemma memset_words_spec:
  assumes "n = 0 \<or> d AND 3 = 0"
  shows "\<exists>mm' d' n'. memset_words mm d (memset_word v) n = Some (mm', d', n') \<and>
    fill_bytes mm' d' v (unat n') = fill_bytes mm d v (unat n)"
  using assms
proof (induction mm d "memset_word v" n rule: memset_words.induct)
  case (1 mm d n)
  show ?case
  proof (cases "4 \<le> n")
    case True
    then have "n \<noteq> 0" by auto
    with "1.prems" have al: "d AND 3 = 0" by simp
    then have "(d + 4) AND 3 = 0" by (simp add: aligned4_add4)
    with "1.hyps" [OF True] al fill_step_word [OF True, of mm d v] True show ?thesis
      by (simp add: memset_words.simps [of mm d _ n] st32_def)
  next
    case False
    then show ?thesis by (simp add: memset_words.simps [of mm d _ n])
  qed
qed

lemma memset_tail_spec: "memset_tail mm d v n = fill_bytes mm d v (unat n)"
proof (induction mm d v n rule: memset_tail.induct)
  case (1 mm d v n)
  then show ?case
    using fill_step_byte [of n mm d v] by (subst memset_tail.simps) (simp del: fun_upd_apply)
qed

lemma rt_memset_fills:
  "rt_memset mm dest c n = Some (dest, fill_bytes mm dest (ucast c) (unat n))"
proof -
  obtain mm1 d n1 where h: "memset_head mm dest (ucast c) n = (mm1, d, n1)" by (metis prod_cases3)
  note 1 = memset_head_spec [OF h]
  then obtain mm2 d2 n2 where "memset_words mm1 d (memset_word (ucast c)) n1 = Some (mm2, d2, n2)"
      "fill_bytes mm2 d2 (ucast c) (unat n2) = fill_bytes mm1 d (ucast c) (unat n1)"
    using memset_words_spec [of n1 d mm1 "ucast c"] by blast
  with 1 h show ?thesis by (simp add: rt_memset_def Let_def memset_tail_spec)
qed

section \<open>Copying overlapping regions\<close>

lemma unat_add_index:
  fixes a :: u32
  assumes "unat a + n \<le> 2 ^ 32" "i < n"
  shows "unat (a + of_nat i) = unat a + i"
proof -
  have "i < 2 ^ 32" using assms by linarith
  then have "unat (of_nat i :: u32) = i" by (simp add: unat_of_nat)
  with assms show ?thesis using unat_add_no_wrap [of a "of_nat i"] by simp
qed

text \<open>Offsets from the destination of addresses at or above it.\<close>

lemma unat_from:
  fixes a d :: u32
  assumes "unat d \<le> unat a"
  shows "unat (a - d) = unat a - unat d"
  using assms by (simp add: unat_sub word_le_nat_alt)

lemma offset_eq:
  fixes a d :: u32
  assumes "k < 2 ^ 32"
  shows "a = d + of_nat k \<longleftrightarrow> unat (a - d) = k"
proof
  assume "unat (a - d) = k"
  then have "a - d = of_nat k" by (metis of_nat_unat ucast_id)
  then show "a = d + of_nat k" by (simp add: algebra_simps)
qed (use assms in \<open>simp add: unat_of_nat\<close>)

lemma memmove_up_copies:
  assumes "unat d < unat s" "unat s + n \<le> 2 ^ 32" "k \<le> n"
  shows "memmove_up mm d s k = copy_bytes mm d s k"
  using assms(3)
proof (induction k)
  case 0
  then show ?case by (simp add: memmove_up_def)
next
  case (Suc k)
  have k: "unat (s + of_nat k) = unat s + k" "unat (d + of_nat k) = unat d + k"
    using Suc.prems assms by (intro unat_add_index [of _ n]; simp)+
  have "\<not> unat (s + of_nat k - d) < k"
    using k assms(1) unat_from [of d "s + of_nat k"] by simp
  then have src: "copy_bytes mm d s k (s + of_nat k) = mm (s + of_nat k)"
    by (simp add: copy_bytes_def)
  have "memmove_up mm d s (Suc k) = (copy_bytes mm d s k)(d + of_nat k := mm (s + of_nat k))"
    using Suc src by (simp add: memmove_up_def)
  moreover have "(copy_bytes mm d s k)(d + of_nat k := mm (s + of_nat k)) = copy_bytes mm d s (Suc k)"
  proof
    fix a
    have small: "k < 2 ^ 32" using Suc.prems assms by linarith
    have "a = d + of_nat k \<longleftrightarrow> unat (a - d) = k" using small by (rule offset_eq)
    then show "((copy_bytes mm d s k)(d + of_nat k := mm (s + of_nat k))) a = copy_bytes mm d s (Suc k) a"
      by (auto simp: copy_bytes_def less_Suc_eq)
  qed
  ultimately show ?case by simp
qed

lemma memmove_down_copies:
  assumes "unat s < unat d" "unat d + n \<le> 2 ^ 32" "k \<le> n"
  shows "memmove_down mm d s k = copy_bytes mm d s k"
  using assms(3)
proof (induction k arbitrary: mm)
  case 0
  then show ?case by simp
next
  case (Suc k)
  let ?m = "mm(d + of_nat k := mm (s + of_nat k))"
  have small: "k < 2 ^ 32" using Suc.prems assms by linarith
  have k: "unat (d + of_nat k) = unat d + k"
    using Suc.prems assms by (intro unat_add_index [of _ n]) simp_all
  have below: "s + w \<noteq> d + of_nat k" if "unat w < k" for w
  proof
    assume eq: "s + w = d + of_nat k"
    have "unat s + unat w < 2 ^ 32" using that assms Suc.prems by linarith
    then have "unat (s + w) = unat s + unat w" by (rule unat_add_no_wrap)
    with eq k that assms(1) show False by simp
  qed
  have "memmove_down mm d s (Suc k) = copy_bytes ?m d s k" using Suc by simp
  moreover have "copy_bytes ?m d s k = copy_bytes mm d s (Suc k)"
  proof
    fix a
    have eq: "a = d + of_nat k \<longleftrightarrow> unat (a - d) = k" using small by (rule offset_eq)
    show "copy_bytes ?m d s k a = copy_bytes mm d s (Suc k) a"
      using below [of "a - d"] eq by (auto simp: copy_bytes_def less_Suc_eq)
  qed
  ultimately show ?case by simp
qed

lemma rt_memmove_copies:
  assumes "unat dest + unat n \<le> 2 ^ 32" "unat src + unat n \<le> 2 ^ 32"
  shows "rt_memmove mm dest src n = (dest, copy_bytes mm dest src (unat n))"
proof -
  consider "dest = src \<or> n = 0" | "n \<noteq> 0" "dest < src" | "n \<noteq> 0" "src < dest" by fastforce
  then show ?thesis
  proof cases
    case 1
    then have "copy_bytes mm dest src (unat n) = mm" by (auto simp: copy_bytes_def)
    with 1 show ?thesis by (simp add: rt_memmove_def)
  next
    case 2
    with assms memmove_up_copies [of dest src "unat n" "unat n" mm] show ?thesis
      by (auto simp: rt_memmove_def word_less_nat_alt)
  next
    case 3
    with assms memmove_down_copies [of src dest "unat n" "unat n" mm] show ?thesis
      by (auto simp: rt_memmove_def word_less_nat_alt)
  qed
qed

section \<open>Properties\<close>

text \<open>\<open>rt_memcpy\<close> on regions that do not overlap returns its destination, makes only aligned
  word accesses, and leaves exactly the source bytes in the destination region and every other
  byte as it was, whatever the alignment of the two pointers and wherever the regions lie.\<close>

lemma rt_memcpy_correct:
  assumes "disjoint_regions dest src (unat n)"
  shows "rt_memcpy mm dest src n = Some (dest, copy_bytes mm dest src (unat n))"
  using assms by (rule rt_memcpy_copies)

text \<open>Regions at least \<open>n\<close> bytes apart in both directions are disjoint.\<close>

lemma disjoint_apart:
  fixes d s :: u32
  assumes "n \<le> unat (d - s)" "n \<le> unat (s - d)"
  shows "disjoint_regions d s n"
  unfolding disjoint_regions_def
proof (intro allI impI)
  fix x assume "unat (x - d) < n"
  then show "n \<le> unat (x - s)" using assms by unat_arith
qed

theorem rt_memcpy_correct_witness:
  "disjoint_regions 0x2002 0x1001 (unat (9 :: u32)) \<and>
   rt_memcpy (\<lambda>a. ucast a) 0x2002 0x1001 9 =
     Some (0x2002, copy_bytes (\<lambda>a. ucast a) 0x2002 0x1001 9)"
proof
  show *: "disjoint_regions 0x2002 0x1001 (unat (9 :: u32))" by (rule disjoint_apart) simp_all
  show "rt_memcpy (\<lambda>a. ucast a) 0x2002 0x1001 9 =
     Some (0x2002, copy_bytes (\<lambda>a. ucast a) 0x2002 0x1001 9)"
    using rt_memcpy_correct [OF *] by simp
qed

text \<open>\<open>rt_memset\<close> returns its destination, makes only aligned word stores, and sets exactly
  the \<open>n\<close> bytes from the destination to the low byte of the value.\<close>

lemma rt_memset_correct:
  "rt_memset mm dest c n = Some (dest, fill_bytes mm dest (ucast c) (unat n))"
  by (rule rt_memset_fills)

text \<open>C22: \<open>rt_memmove\<close> copies as if through a temporary buffer, also when the regions overlap,
  as long as neither wraps around the end of the address space.\<close>

theorem rt_memmove_correct:
  assumes "unat dest + unat n \<le> 2 ^ 32" "unat src + unat n \<le> 2 ^ 32"
  shows "rt_memmove mm dest src n = (dest, copy_bytes mm dest src (unat n))"
  using assms by (rule rt_memmove_copies)

theorem rt_memmove_correct_witness:
  "rt_memmove (\<lambda>a. ucast a) 0x1003 0x1000 8 = (0x1003, copy_bytes (\<lambda>a. ucast a) 0x1003 0x1000 8)"
  using rt_memmove_correct [of "0x1003" 8 "0x1000"] by simp

end
