(* ===== verification/Rt_Alloc.thy ===== *)
theory Rt_Alloc
  imports Firmware_Prelude
begin

text \<open>
  The bump allocator of \<open>firmware/runtime/rt_alloc.c\<close>. Its only state is the cursor
  \<open>g_heap_cursor\<close> (0 before the first use); the bounds of the heap are the linker symbols
  \<open>_heap_start\<close> and \<open>_heap_end\<close>. Pointer arithmetic wraps at 32 bits. The locale
  \<open>region_allocator\<close> states what any allocator that only moves forward promises, and proves
  once that the blocks of a sequence of requests do not overlap.
\<close>

section \<open>The allocator\<close>

record heap_bounds =
  heap_start :: u32
  heap_end :: u32

definition RT_ALLOC_DEFAULT_ALIGN :: u32 where
  "RT_ALLOC_DEFAULT_ALIGN = 4"

definition heap_init :: "heap_bounds \<Rightarrow> u32" where
  "heap_init h = heap_start h"

text \<open>The result is the returned pointer (0 for a failed request) and the new cursor.\<close>

definition bump_alloc :: "heap_bounds \<Rightarrow> u32 \<Rightarrow> u32 \<Rightarrow> u32 \<Rightarrow> u32 \<times> u32" where
  "bump_alloc h cursor0 size0 align0 =
     (let cursor = (if cursor0 = 0 then heap_start h else cursor0);
          align = (if align0 = 0 then RT_ALLOC_DEFAULT_ALIGN else align0);
          mask = align - 1;
          misalign = cursor AND mask;
          base = (if misalign \<noteq> 0 then cursor + (align - misalign) else cursor)
      in if heap_end h < base then (0, cursor)
         else if heap_end h - base < size0 then (0, cursor)
         else (base, base + size0))"

definition heap_used :: "heap_bounds \<Rightarrow> u32 \<Rightarrow> u32" where
  "heap_used h cursor = (if cursor = 0 then 0 else cursor - heap_start h)"

section \<open>Rounding up\<close>

definition round_up :: "nat \<Rightarrow> nat \<Rightarrow> nat" where
  "round_up c a = (if c mod a = 0 then c else c + (a - c mod a))"

lemma round_up_ge: "c \<le> round_up c a"
  by (simp add: round_up_def)

lemma round_up_less: "0 < a \<Longrightarrow> round_up c a < c + a"
  by (simp add: round_up_def)

lemma round_up_dvd: "0 < a \<Longrightarrow> a dvd round_up c a"
proof -
  assume a: "0 < a"
  show ?thesis
  proof (cases "c mod a = 0")
    case True
    then show ?thesis by (simp add: round_up_def mod_eq_0_iff_dvd)
  next
    case False
    have "c = a * (c div a) + c mod a" by simp
    moreover have "c mod a < a" using a by simp
    ultimately have "c + (a - c mod a) = a * (c div a) + a" by linarith
    then have "c + (a - c mod a) = a * (c div a + 1)" by simp
    with False show ?thesis unfolding round_up_def by (simp only: if_False dvd_triv_left)
  qed
qed

lemma round_up_least: "0 < a \<Longrightarrow> c \<le> b \<Longrightarrow> a dvd b \<Longrightarrow> round_up c a \<le> b"
proof (rule ccontr)
  assume a: "0 < a" and b: "c \<le> b" "a dvd b" and "\<not> round_up c a \<le> b"
  then have "b < round_up c a" by simp
  moreover have "round_up c a < b + a" using round_up_less [OF a, of c] b by linarith
  moreover have "a dvd round_up c a - b" using round_up_dvd [OF a] b(2) by simp
  ultimately show False
    by (metis dvd_imp_le leD less_diff_conv2 add.commute less_or_eq_imp_le zero_less_diff)
qed

section \<open>Behaviour of a request\<close>

text \<open>The heap is not at address 0, and the alignment (a power of two) leaves room above it.\<close>

definition heap_ok :: "heap_bounds \<Rightarrow> bool" where
  "heap_ok h \<longleftrightarrow> 0 < heap_start h \<and> heap_start h \<le> heap_end h"

definition cursor_ok :: "heap_bounds \<Rightarrow> u32 \<Rightarrow> bool" where
  "cursor_ok h c \<longleftrightarrow> c = 0 \<or> (heap_start h \<le> c \<and> c \<le> heap_end h)"

definition current :: "heap_bounds \<Rightarrow> u32 \<Rightarrow> u32" where
  "current h c = (if c = 0 then heap_start h else c)"

definition effective_align :: "u32 \<Rightarrow> u32" where
  "effective_align a = (if a = 0 then 4 else a)"

definition align_ok :: "heap_bounds \<Rightarrow> u32 \<Rightarrow> bool" where
  "align_ok h a \<longleftrightarrow> list_ex (\<lambda>k. effective_align a = 2 ^ k) [0 ..< 32] \<and>
     unat (heap_end h) + unat (effective_align a) \<le> 2 ^ 32"

lemma unat_and_mask_pow2:
  assumes "a = (2 :: u32) ^ k" "k < 32"
  shows "unat (c AND (a - 1)) = unat c mod unat a"
proof -
  have "(0 :: u32) < 2 ^ k" using assms(2) by (simp add: word_gt_0)
  then have "c mod 2 ^ k = c AND (2 ^ k - 1)"
    using word_mod_2p_is_mask [of k c] by (simp add: mask_eq_exp_minus_1)
  then show ?thesis using assms by (metis unat_mod)
qed

lemma current_bounds:
  "heap_ok h \<Longrightarrow> cursor_ok h c \<Longrightarrow>
   current h c \<noteq> 0 \<and> heap_start h \<le> current h c \<and> current h c \<le> heap_end h"
  by (auto simp: heap_ok_def cursor_ok_def current_def)

text \<open>The candidate block starts at the rounded cursor, without wrap-around.\<close>

definition aligned_base :: "u32 \<Rightarrow> u32 \<Rightarrow> u32" where
  "aligned_base c a = (if c AND (a - 1) \<noteq> 0 then c + (a - (c AND (a - 1))) else c)"

lemma unat_aligned_base:
  assumes a: "a = (2 :: u32) ^ k" "k < 32" and room: "unat c + unat a \<le> 2 ^ 32"
  shows "unat (aligned_base c a) = round_up (unat c) (unat a)"
proof (cases "c AND (a - 1) = 0")
  case True
  then have "unat c mod unat a = 0" using unat_and_mask_pow2 [OF a, of c] by simp
  with True show ?thesis by (simp add: aligned_base_def round_up_def)
next
  case False
  define m where "m = c AND (a - 1)"
  have m: "unat m = unat c mod unat a" unfolding m_def by (rule unat_and_mask_pow2 [OF a])
  have m0: "m \<noteq> 0" using False by (simp add: m_def)
  have pos: "0 < unat m" using unat_gt_0 [OF m0] .
  have "0 < unat a" using a by (simp add: Firmware_Prelude.unat_gt_0)
  then have less: "unat m < unat a" using m by simp
  have sub: "unat (a - m) = unat a - unat m"
    using less by (intro unat_sub) (simp add: word_le_nat_alt)
  have "unat (c + (a - m)) = unat c + (unat a - unat m)"
    unfolding sub [symmetric] using room sub pos less by (intro unat_add_no_wrap) linarith
  moreover have "aligned_base c a = c + (a - m)"
    using m0 by (simp add: aligned_base_def m_def)
  moreover have "unat c mod unat a \<noteq> 0" using pos m by simp
  ultimately show ?thesis using m by (simp add: round_up_def)
qed

lemma bump_alloc_alt:
  "bump_alloc h c n a =
     (let base = aligned_base (current h c) (effective_align a)
      in if heap_end h < base \<or> heap_end h - base < n then (0, current h c)
         else (base, base + n))"
  by (simp add: bump_alloc_def aligned_base_def current_def effective_align_def
      RT_ALLOC_DEFAULT_ALIGN_def Let_def)

definition block_start :: "heap_bounds \<Rightarrow> u32 \<Rightarrow> u32 \<Rightarrow> nat" where
  "block_start h c a = round_up (unat (current h c)) (unat (effective_align a))"

lemma align_okE:
  assumes "align_ok h a"
  obtains k where "effective_align a = 2 ^ k" "k < 32"
    "unat (heap_end h) + unat (effective_align a) \<le> 2 ^ 32"
  using assms by (auto simp: align_ok_def list_ex_iff)

lemma align_ok_pow2:
  assumes "effective_align a = 2 ^ k" "k < 32"
    "unat (heap_end h) + unat (effective_align a) \<le> 2 ^ 32"
  shows "align_ok h a"
  using assms unfolding align_ok_def by (auto simp: list_ex_iff)

lemma bump_alloc_cases:
  assumes h: "heap_ok h" and c: "cursor_ok h c" and al: "align_ok h a"
  shows "bump_alloc h c n a =
    (if unat (heap_end h) < block_start h c a + unat n then (0, current h c)
     else (of_nat (block_start h c a), of_nat (block_start h c a) + n))"
proof -
  obtain k where k: "effective_align a = 2 ^ k" "k < 32"
    and room: "unat (heap_end h) + unat (effective_align a) \<le> 2 ^ 32"
    using al by (rule align_okE)
  have cb: "unat (current h c) \<le> unat (heap_end h)"
    using current_bounds [OF h c] by (simp add: word_le_nat_alt)
  define b where "b = aligned_base (current h c) (effective_align a)"
  have ub: "unat b = block_start h c a"
    unfolding b_def block_start_def using room cb by (intro unat_aligned_base [OF k]) linarith
  have fits: "(heap_end h < b \<or> heap_end h - b < n) \<longleftrightarrow> unat (heap_end h) < unat b + unat n"
  proof (cases "heap_end h < b")
    case True
    then show ?thesis by (simp add: word_less_nat_alt)
  next
    case False
    then have le: "b \<le> heap_end h" by simp
    then have "unat (heap_end h - b) = unat (heap_end h) - unat b" by (rule unat_sub)
    moreover have "unat b \<le> unat (heap_end h)" using le by (simp add: word_le_nat_alt)
    ultimately show ?thesis using False by (auto simp: word_less_nat_alt)
  qed
  have "of_nat (block_start h c a) = b" unfolding ub [symmetric] by (simp add: ucast_id)
  then show ?thesis using fits ub
    by (simp add: bump_alloc_alt b_def [symmetric] Let_def)
qed

text \<open>A served request: the block is aligned, starts at or after the cursor, ends at the new
  cursor and lies inside the heap. A refused one: no aligned block fits.\<close>

definition block_fits :: "heap_bounds \<Rightarrow> u32 \<Rightarrow> u32 \<Rightarrow> u32 \<Rightarrow> nat \<Rightarrow> bool" where
  "block_fits h c n a b \<longleftrightarrow> unat (current h c) \<le> b \<and> unat (effective_align a) dvd b \<and>
     b + unat n \<le> unat (heap_end h)"

definition alloc_ok :: "heap_bounds \<Rightarrow> u32 \<Rightarrow> u32 \<Rightarrow> bool" where
  "alloc_ok h c a \<longleftrightarrow> heap_ok h \<and> cursor_ok h c \<and> align_ok h a"

lemma align_pos: "alloc_ok h c a \<Longrightarrow> 0 < unat (effective_align a)"
  unfolding alloc_ok_def by (auto elim!: align_okE simp: unat_gt_0)

lemma block_start_bounds:
  assumes "alloc_ok h c a"
  shows "unat (current h c) \<le> block_start h c a" "unat (effective_align a) dvd block_start h c a"
  unfolding block_start_def using align_pos [OF assms] by (simp_all add: round_up_ge round_up_dvd)

lemma block_start_least:
  "alloc_ok h c a \<Longrightarrow> block_fits h c n a b \<Longrightarrow> block_start h c a \<le> b"
  unfolding block_start_def block_fits_def using align_pos by (intro round_up_least) simp_all

lemma fits_iff:
  assumes ok: "alloc_ok h c a"
  shows "(\<exists>b. block_fits h c n a b) \<longleftrightarrow> block_start h c a + unat n \<le> unat (heap_end h)"
proof
  assume "\<exists>b. block_fits h c n a b"
  then obtain b where b: "block_fits h c n a b" by blast
  then show "block_start h c a + unat n \<le> unat (heap_end h)"
    using block_start_least [OF ok b] by (simp add: block_fits_def)
next
  assume "block_start h c a + unat n \<le> unat (heap_end h)"
  then have "block_fits h c n a (block_start h c a)"
    by (simp add: block_fits_def block_start_bounds [OF ok])
  then show "\<exists>b. block_fits h c n a b" ..
qed

lemma alloc_refused:
  "alloc_ok h c a \<Longrightarrow> \<not> (\<exists>b. block_fits h c n a b) \<Longrightarrow> bump_alloc h c n a = (0, current h c)"
  by (simp add: fits_iff bump_alloc_cases alloc_ok_def)

lemma alloc_served:
  assumes ok: "alloc_ok h c a" and fits: "\<exists>b. block_fits h c n a b"
  shows "fst (bump_alloc h c n a) \<noteq> 0"
    and "block_fits h c n a (unat (fst (bump_alloc h c n a)))"
    and "unat (snd (bump_alloc h c n a)) = unat (fst (bump_alloc h c n a)) + unat n"
proof -
  have fit: "block_start h c a + unat n \<le> unat (heap_end h)" using fits by (simp add: fits_iff [OF ok])
  then have less: "block_start h c a + unat n < 2 ^ 32"
    using unsigned_less [of "heap_end h", where 'a = nat] by simp
  have eq: "bump_alloc h c n a = (of_nat (block_start h c a), of_nat (block_start h c a) + n)"
    using fit ok by (simp add: bump_alloc_cases alloc_ok_def)
  have base: "unat (of_nat (block_start h c a) :: u32) = block_start h c a"
    using less by (simp add: unat_of_nat)
  have pos: "0 < unat (current h c)"
    using current_bounds [of h c] ok by (simp add: alloc_ok_def Firmware_Prelude.unat_gt_0)
  show "fst (bump_alloc h c n a) \<noteq> 0"
    using base pos block_start_bounds(1) [OF ok] unfolding eq by (metis fst_conv not_less unat_0)
  show "block_fits h c n a (unat (fst (bump_alloc h c n a)))"
    unfolding eq fst_conv base using fit by (simp add: block_fits_def block_start_bounds [OF ok])
  show "unat (snd (bump_alloc h c n a)) = unat (fst (bump_alloc h c n a)) + unat n"
    unfolding eq fst_conv snd_conv base using less base
    by (subst unat_add_no_wrap) simp_all
qed

lemma alloc_served_start:
  assumes ok: "alloc_ok h c a" and fits: "\<exists>b. block_fits h c n a b"
  shows "unat (fst (bump_alloc h c n a)) = block_start h c a"
proof -
  have "block_start h c a + unat n \<le> unat (heap_end h)" using fits by (simp add: fits_iff [OF ok])
  then show ?thesis
    using ok unsigned_less [of "heap_end h", where 'a = nat]
    by (simp add: bump_alloc_cases alloc_ok_def unat_of_nat)
qed

section \<open>Sequences of requests\<close>

text \<open>Serve a list of requests: the blocks handed out, in order, and the last state.\<close>

fun serve :: "('s \<Rightarrow> 'r \<Rightarrow> 'b option \<times> 's) \<Rightarrow> 's \<Rightarrow> 'r list \<Rightarrow> 'b list \<times> 's" where
  "serve step s [] = ([], s)"
| "serve step s (r # rs) =
     (case step s r of
        (None, s') \<Rightarrow> serve step s' rs
      | (Some b, s') \<Rightarrow> (case serve step s' rs of (bs, s'') \<Rightarrow> (b # bs, s'')))"

locale region_allocator =
  fixes step :: "'s \<Rightarrow> 'r \<Rightarrow> 'b option \<times> 's"
    and ok :: "'s \<Rightarrow> bool" and admissible :: "'r \<Rightarrow> bool"
    and position :: "'s \<Rightarrow> nat" and limit :: nat
    and first :: "'b \<Rightarrow> nat" and beyond :: "'b \<Rightarrow> nat"
  assumes step_ok: "ok s \<Longrightarrow> admissible r \<Longrightarrow> ok (snd (step s r))"
    and position_le: "ok s \<Longrightarrow> position s \<le> limit"
    and granted: "ok s \<Longrightarrow> admissible r \<Longrightarrow> step s r = (Some b, s') \<Longrightarrow>
      position s \<le> first b \<and> first b \<le> beyond b \<and> beyond b = position s'"
    and refused: "ok s \<Longrightarrow> admissible r \<Longrightarrow> step s r = (None, s') \<Longrightarrow> position s' = position s"
begin

lemma serve_disjoint:
  "ok s \<Longrightarrow> list_all admissible rs \<Longrightarrow>
   sorted_wrt (\<lambda>b b'. beyond b \<le> first b') (fst (serve step s rs)) \<and>
   (\<forall>b \<in> set (fst (serve step s rs)). position s \<le> first b \<and> beyond b \<le> limit)"
proof (induction rs arbitrary: s)
  case Nil
  then show ?case by simp
next
  case (Cons r rs)
  obtain o' s' where st: "step s r = (o', s')" by (cases "step s r")
  have ok': "ok s'" using step_ok [of s r] Cons.prems st by simp
  note IH = Cons.IH [OF ok']
  show ?case
  proof (cases o')
    case None
    then show ?thesis using IH refused [of s r s'] Cons.prems st by simp
  next
    case (Some b)
    have b: "position s \<le> first b" "first b \<le> beyond b" "beyond b = position s'"
      using granted [of s r b s'] Cons.prems st Some by simp_all
    then show ?thesis
      using IH Cons.prems st Some position_le [OF ok']
      by (fastforce split: prod.splits)
  qed
qed

end

text \<open>One request to the bump allocator, with its block as a half-open address range.\<close>

definition bump_step :: "heap_bounds \<Rightarrow> u32 \<Rightarrow> u32 \<times> u32 \<Rightarrow> (nat \<times> nat) option \<times> u32" where
  "bump_step h c r =
     (case bump_alloc h c (fst r) (snd r) of
        (p, c') \<Rightarrow> (if p = 0 then None else Some (unat p, unat p + unat (fst r)), c'))"

definition bump_blocks :: "heap_bounds \<Rightarrow> u32 \<Rightarrow> (u32 \<times> u32) list \<Rightarrow> (nat \<times> nat) list" where
  "bump_blocks h c rs = fst (serve (bump_step h) c rs)"

lemma current_idem: "heap_ok h \<Longrightarrow> current h (current h c) = current h c"
  by (simp add: current_def)

lemma cursor_ok_current: "heap_ok h \<Longrightarrow> cursor_ok h c \<Longrightarrow> cursor_ok h (current h c)"
  using current_bounds [of h c] by (auto simp: cursor_ok_def)

lemma bump_step_cases:
  assumes ok: "alloc_ok h c (snd r)"
  shows "(\<exists>b. bump_step h c r = (Some b, snd (bump_alloc h c (fst r) (snd r))) \<and>
            unat (current h c) \<le> fst b \<and> fst b \<le> snd b \<and> snd b \<le> unat (heap_end h) \<and>
            snd b = unat (snd (bump_alloc h c (fst r) (snd r))))
       \<or> bump_step h c r = (None, current h c)"
proof (cases "\<exists>b. block_fits h c (fst r) (snd r) b")
  case True
  note served = alloc_served [OF ok True]
  show ?thesis using served
    by (intro disjI1) (auto simp: bump_step_def block_fits_def split: prod.splits)
next
  case False
  show ?thesis using alloc_refused [OF ok False] by (simp add: bump_step_def)
qed

lemma bump_step_ok:
  assumes ok: "alloc_ok h c (snd r)"
  shows "cursor_ok h (snd (bump_step h c r))"
  using bump_step_cases [OF ok] cursor_ok_current [of h c] current_bounds [of h c] ok
  by (auto simp: alloc_ok_def cursor_ok_def word_le_nat_alt)

lemma unat_current_end:
  assumes "heap_ok h" "unat (current h c) \<le> unat w"
  shows "current h w = w"
proof (cases "w = 0")
  case True
  with assms have "current h c = 0" by (metis le_zero_eq unat_0 unat_eq_zero)
  with assms(1) show ?thesis by (auto simp: current_def heap_ok_def split: if_splits)
qed (simp add: current_def)

interpretation bump: region_allocator
  "bump_step h" "\<lambda>c. heap_ok h \<and> cursor_ok h c" "\<lambda>r. align_ok h (snd r)"
  "\<lambda>c. unat (current h c)" "unat (heap_end h)" fst snd for h
proof (unfold_locales, goal_cases)
  case (1 c r)
  then show ?case by (simp add: bump_step_ok alloc_ok_def)
next
  case (2 c)
  then show ?case using current_bounds [of h c] by (simp add: word_le_nat_alt)
next
  case (3 c r b c')
  then have "alloc_ok h c (snd r)" by (simp add: alloc_ok_def)
  from bump_step_cases [OF this] 3 unat_current_end [of h c c'] show ?case by auto
next
  case (4 c r c')
  then have "alloc_ok h c (snd r)" by (simp add: alloc_ok_def)
  from bump_step_cases [OF this] 4 current_idem [of h c] show ?case by auto
qed

section \<open>Properties\<close>


definition example_heap :: heap_bounds where
  "example_heap = \<lparr> heap_start = 0x1000, heap_end = 0x2000 \<rparr>"





end
