(* ===== verification/Gdb_Packet.thy ===== *)
theory Gdb_Packet
  imports Firmware_Prelude
begin

text \<open>
  The packet layer of the GDB Remote Serial Protocol, \<open>firmware/gdb/gdb_packet.c\<close>: the byte
  driven parser with its fixed buffer, and the hexadecimal codec. Accesses to the buffer are
  bounds checked: \<open>None\<close> is an access outside of it. Indices are naturals; the invariant
  \<open>parser_ok\<close> bounds them by 512, so that their 32-bit representation never wraps.
\<close>

section \<open>The hexadecimal codec\<close>

definition gdb_hex_digits :: "u8 list" where
  "gdb_hex_digits = bytes ''0123456789abcdef''"

definition gdb_hex_nibble :: "u8 \<Rightarrow> int" where
  "gdb_hex_nibble ch =
     (if 0x30 \<le> ch \<and> ch \<le> 0x39 then uint (ch - 0x30)
      else if 0x61 \<le> ch \<and> ch \<le> 0x66 then uint (ch - 0x61) + 10
      else if 0x41 \<le> ch \<and> ch \<le> 0x46 then uint (ch - 0x41) + 10
      else -1)"

text \<open>The result of a function that can fail is \<open>Some (Some v)\<close> for a return value of 1 and
  \<open>Some None\<close> for 0.\<close>

fun parse_hex_loop :: "u8 list \<Rightarrow> nat list \<Rightarrow> u32 \<Rightarrow> u32 option option" where
  "parse_hex_loop text [] parsed = Some (Some parsed)"
| "parse_hex_loop text (index # rest) parsed = do {
     ch \<leftarrow> array_get text index;
     let nibble = gdb_hex_nibble ch;
     if nibble < 0 then Some None
     else parse_hex_loop text rest (push_bit 4 parsed OR of_int nibble)
   }"

definition gdb_parse_hex_u32 :: "u8 list \<Rightarrow> nat \<Rightarrow> u32 option option" where
  "gdb_parse_hex_u32 text len =
     (if len = 0 \<or> 8 < len then Some None else parse_hex_loop text [0..<len] 0)"

fun encode_loop :: "u32 \<Rightarrow> nat list \<Rightarrow> u8 list \<Rightarrow> u8 list option" where
  "encode_loop v [] output = Some output"
| "encode_loop v (index # rest) output = do {
     let byte = drop_bit (index * 8) v AND 0xff;
     hi \<leftarrow> array_get gdb_hex_digits (unat (drop_bit 4 byte));
     lo \<leftarrow> array_get gdb_hex_digits (unat (byte AND 0xf));
     output1 \<leftarrow> array_put output (index * 2) hi;
     output2 \<leftarrow> array_put output1 (index * 2 + 1) lo;
     encode_loop v rest output2
   }"

definition gdb_encode_u32_le :: "u8 list \<Rightarrow> u32 \<Rightarrow> u8 list option" where
  "gdb_encode_u32_le output v = do {
     output1 \<leftarrow> encode_loop v [0..<4] output;
     array_put output1 8 0
   }"

fun decode_loop :: "u8 list \<Rightarrow> nat list \<Rightarrow> u32 \<Rightarrow> u32 option option" where
  "decode_loop input [] decoded = Some (Some decoded)"
| "decode_loop input (index # rest) decoded = do {
     hc \<leftarrow> array_get input (index * 2);
     lc \<leftarrow> array_get input (index * 2 + 1);
     let high = gdb_hex_nibble hc;
     let low = gdb_hex_nibble lc;
     if high < 0 \<or> low < 0 then Some None
     else (let byte = push_bit 4 (of_int high) OR of_int low
           in decode_loop input rest (decoded OR push_bit (index * 8) byte))
   }"

definition gdb_decode_u32_le :: "u8 list \<Rightarrow> u32 option option" where
  "gdb_decode_u32_le input = decode_loop input [0..<4] 0"

section \<open>The parser\<close>

definition GDB_PACKET_CAPACITY :: nat where
  "GDB_PACKET_CAPACITY = 512"

datatype gdb_packet_event =
  GDB_PACKET_NONE | GDB_PACKET_READY | GDB_PACKET_CHECKSUM_ERROR | GDB_PACKET_OVERFLOW | GDB_PACKET_RETRY

datatype parser_state =
  PARSER_WAIT_START | PARSER_PAYLOAD | PARSER_CHECKSUM_HIGH | PARSER_CHECKSUM_LOW | PARSER_DISCARD

record gdb_packet_parser =
  payload :: "u8 list"            \<comment> \<open>\<open>GDB_PACKET_CAPACITY + 1\<close> characters\<close>
  packet_length :: nat
  checksum :: u32
  received_checksum :: u32
  state :: parser_state

definition gdb_packet_parser_init :: "gdb_packet_parser \<Rightarrow> gdb_packet_parser option" where
  "gdb_packet_parser_init p = do {
     payload' \<leftarrow> array_put (payload p) 0 0;
     Some (p\<lparr>payload := payload', packet_length := 0, checksum := 0, received_checksum := 0,
       state := PARSER_WAIT_START\<rparr>)
   }"

definition start_packet :: "gdb_packet_parser \<Rightarrow> gdb_packet_parser option" where
  "start_packet p = do {
     payload' \<leftarrow> array_put (payload p) 0 0;
     Some (p\<lparr>payload := payload', packet_length := 0, checksum := 0, received_checksum := 0,
       state := PARSER_PAYLOAD\<rparr>)
   }"

definition gdb_packet_feed ::
    "gdb_packet_parser \<Rightarrow> u8 \<Rightarrow> (gdb_packet_event \<times> gdb_packet_parser) option" where
  "gdb_packet_feed p byte =
     (if byte = 0x24 then do { p' \<leftarrow> start_packet p; Some (GDB_PACKET_NONE, p') }
      else case state p of
        PARSER_WAIT_START \<Rightarrow>
          Some (if byte = 0x2d then GDB_PACKET_RETRY else GDB_PACKET_NONE, p)
      | PARSER_PAYLOAD \<Rightarrow>
          if byte = 0x23 then do {
            payload' \<leftarrow> array_put (payload p) (packet_length p) 0;
            Some (GDB_PACKET_NONE, p\<lparr>payload := payload', state := PARSER_CHECKSUM_HIGH\<rparr>)
          }
          else if GDB_PACKET_CAPACITY \<le> packet_length p
          then Some (GDB_PACKET_OVERFLOW, p\<lparr>state := PARSER_DISCARD\<rparr>)
          else do {
            payload' \<leftarrow> array_put (payload p) (packet_length p) byte;
            Some (GDB_PACKET_NONE, p\<lparr>payload := payload', packet_length := packet_length p + 1,
              checksum := (checksum p + ucast byte) AND 0xff\<rparr>)
          }
      | PARSER_CHECKSUM_HIGH \<Rightarrow>
          let nibble = gdb_hex_nibble byte
          in if nibble < 0 then Some (GDB_PACKET_CHECKSUM_ERROR, p\<lparr>state := PARSER_WAIT_START\<rparr>)
             else Some (GDB_PACKET_NONE,
               p\<lparr>received_checksum := push_bit 4 (of_int nibble), state := PARSER_CHECKSUM_LOW\<rparr>)
      | PARSER_CHECKSUM_LOW \<Rightarrow>
          let nibble = gdb_hex_nibble byte; p1 = p\<lparr>state := PARSER_WAIT_START\<rparr>
          in if nibble < 0 then Some (GDB_PACKET_CHECKSUM_ERROR, p1)
             else let p2 = p1\<lparr>received_checksum := received_checksum p1 OR of_int nibble\<rparr>
               in if received_checksum p2 \<noteq> checksum p2 then Some (GDB_PACKET_CHECKSUM_ERROR, p2)
                  else Some (GDB_PACKET_READY, p2)
      | PARSER_DISCARD \<Rightarrow> Some (GDB_PACKET_NONE, p))"

text \<open>Feeding a sequence of bytes, with the events in order.\<close>

fun feed_all :: "gdb_packet_parser \<Rightarrow> u8 list \<Rightarrow> (gdb_packet_event list \<times> gdb_packet_parser) option" where
  "feed_all p [] = Some ([], p)"
| "feed_all p (b # bs) = do {
     (e, p') \<leftarrow> gdb_packet_feed p b;
     (es, p'') \<leftarrow> feed_all p' bs;
     Some (e # es, p'')
   }"

lemma feed_all_append:
  "feed_all p bs = Some (es, p') \<Longrightarrow> feed_all p' cs = Some (es', p'') \<Longrightarrow>
   feed_all p (bs @ cs) = Some (es @ es', p'')"
  by (induction bs arbitrary: p es) (auto split: bind_splits)

section \<open>Nibbles\<close>

lemma length_gdb_hex_digits [simp]: "length gdb_hex_digits = 16"
  by (simp add: gdb_hex_digits_def)

lemma nibble_of_digit: "n < 16 \<Longrightarrow> gdb_hex_nibble (gdb_hex_digits ! n) = int n"
proof -
  have "list_all (\<lambda>n. gdb_hex_nibble (gdb_hex_digits ! n) = int n) [0..<16]" by code_simp
  then show "n < 16 \<Longrightarrow> gdb_hex_nibble (gdb_hex_digits ! n) = int n" by (simp add: list_all_iff)
qed

lemma digit_not_special: "n < 16 \<Longrightarrow> gdb_hex_digits ! n \<notin> {0x24, 0x23, 0x2d, 0}"
proof -
  have "list_all (\<lambda>n. gdb_hex_digits ! n \<noteq> 0x24 \<and> gdb_hex_digits ! n \<noteq> 0x23 \<and>
      gdb_hex_digits ! n \<noteq> 0x2d \<and> gdb_hex_digits ! n \<noteq> 0) [0..<16]"
    by code_simp
  then show "n < 16 \<Longrightarrow> gdb_hex_digits ! n \<notin> {0x24, 0x23, 0x2d, 0}" by (simp add: list_all_iff)
qed

lemma uint_less:
  fixes w :: u8
  assumes "unat w < n"
  shows "0 \<le> uint w \<and> uint w < int n"
proof -
  have "uint w = int (unat w)" by (rule uint_nat)
  moreover have "int (unat w) < int n" using assms by (rule of_nat_less_iff [THEN iffD2])
  ultimately show ?thesis by linarith
qed

lemma nibble_bounds: "gdb_hex_nibble ch = -1 \<or> (0 \<le> gdb_hex_nibble ch \<and> gdb_hex_nibble ch < 16)"
proof -
  have "unat (ch - 0x30) < 10" if "0x30 \<le> ch" "ch \<le> 0x39" using that by unat_arith
  moreover have "unat (ch - 0x61) < 6" if "0x61 \<le> ch" "ch \<le> 0x66" using that by unat_arith
  moreover have "unat (ch - 0x41) < 6" if "0x41 \<le> ch" "ch \<le> 0x46" using that by unat_arith
  ultimately show ?thesis
    using uint_less [of "ch - 0x30" 10] uint_less [of "ch - 0x61" 6] uint_less [of "ch - 0x41" 6]
    unfolding gdb_hex_nibble_def by auto
qed

text \<open>The value of a digit, and which bytes are digits.\<close>

definition hex_value :: "u8 \<Rightarrow> nat" where
  "hex_value ch = nat (gdb_hex_nibble ch)"

definition is_hex :: "u8 \<Rightarrow> bool" where
  "is_hex ch \<longleftrightarrow> 0 \<le> gdb_hex_nibble ch"

lemma hex_value_less: "hex_value ch < 16"
  using nibble_bounds [of ch] by (auto simp: hex_value_def)

lemma nibble_hex_value: "is_hex ch \<Longrightarrow> gdb_hex_nibble ch = int (hex_value ch)"
  by (simp add: is_hex_def hex_value_def)

lemma nibble_neg: "gdb_hex_nibble ch < 0 \<longleftrightarrow> \<not> is_hex ch"
  by (auto simp: is_hex_def)

lemma hex_digit [simp]: "n < 16 \<Longrightarrow> is_hex (gdb_hex_digits ! n)" "n < 16 \<Longrightarrow> hex_value (gdb_hex_digits ! n) = n"
  by (simp_all add: is_hex_def hex_value_def nibble_of_digit)

lemma hex_not_special: "is_hex ch \<Longrightarrow> ch \<noteq> 0x24 \<and> ch \<noteq> 0x23"
  by (auto simp: is_hex_def gdb_hex_nibble_def)

lemma shift_nibble:
  fixes w :: u32
  assumes "n < 16"
  shows "push_bit 4 w OR of_nat n = 16 * w + of_nat n"
proof -
  have "take_bit 4 n = n" using assms by (simp add: take_bit_nat_eq_self_iff)
  then have low: "bit n k \<Longrightarrow> k < 4" for k by (metis bit_take_bit_iff)
  have "push_bit 4 w AND of_nat n = 0"
    by (intro bit_word_eqI) (auto simp: bit_simps dest: low)
  then have "push_bit 4 w OR of_nat n = push_bit 4 w + of_nat n"
    by (rule disjunctive_add_eq_or [symmetric])
  then show ?thesis by (simp add: push_bit_eq_mult)
qed

lemma unat_two_nibbles:
  "a < 16 \<Longrightarrow> b < 16 \<Longrightarrow> unat (push_bit 4 (of_nat a) OR of_nat b :: u32) = 16 * a + b"
  by (simp add: shift_nibble unat_word_ariths unat_of_nat)

section \<open>Hexadecimal numbers\<close>

text \<open>Most significant digit first.\<close>

definition hex_number :: "u8 list \<Rightarrow> nat" where
  "hex_number ds = foldl (\<lambda>n d. 16 * n + hex_value d) 0 ds"

lemma hex_number_snoc: "hex_number (ds @ [d]) = 16 * hex_number ds + hex_value d"
  by (simp add: hex_number_def)

lemma hex_number_less: "hex_number ds < 16 ^ length ds"
proof (induction ds rule: rev_induct)
  case (snoc d ds)
  then show ?case using hex_value_less [of d] by (simp add: hex_number_snoc)
qed (simp add: hex_number_def)

lemma parse_loop_spec:
  assumes "k \<le> n" "n \<le> length text" "list_all is_hex (take k text)"
  shows "parse_hex_loop text [k..<n] (of_nat (hex_number (take k text))) =
    Some (if list_all is_hex (take n text) then Some (of_nat (hex_number (take n text))) else None)"
  using assms
proof (induction "n - k" arbitrary: k)
  case 0
  then show ?case by simp
next
  case (Suc d)
  then have k: "k < n" "k < length text" by simp_all
  then have step: "take (Suc k) text = take k text @ [text ! k]" by (simp add: take_Suc_conv_app_nth)
  show ?case
  proof (cases "is_hex (text ! k)")
    case True
    have eq: "(push_bit 4 (of_nat (hex_number (take k text))) OR of_int (gdb_hex_nibble (text ! k)) :: u32)
        = of_nat (hex_number (take (Suc k) text))"
      using True hex_value_less [of "text ! k"]
      by (simp add: step nibble_hex_value shift_nibble hex_number_snoc)
    have "parse_hex_loop text [Suc k..<n] (of_nat (hex_number (take (Suc k) text))) =
        Some (if list_all is_hex (take n text) then Some (of_nat (hex_number (take n text))) else None)"
      using Suc True step by (intro Suc.hyps(1)) simp_all
    with k True show ?thesis
      by (simp add: upt_conv_Cons array_get_Some nibble_neg eq)
  next
    case False
    then have "\<not> list_all is_hex (take n text)"
      using k by (metis list_all_length length_take min.absorb2 Suc.prems(2) nth_take)
    with k False show ?thesis by (simp add: upt_conv_Cons array_get_Some nibble_neg)
  qed
qed

lemma parse_hex_spec:
  assumes "len \<le> length text"
  shows "gdb_parse_hex_u32 text len =
    Some (if 0 < len \<and> len \<le> 8 \<and> list_all is_hex (take len text)
          then Some (of_nat (hex_number (take len text))) else None)"
  using parse_loop_spec [of 0 len "text"] assms
  by (auto simp: gdb_parse_hex_u32_def hex_number_def)

section \<open>Register values\<close>

definition encode_byte :: "u8 \<Rightarrow> u8 list" where
  "encode_byte b = [gdb_hex_digits ! (unat b div 16), gdb_hex_digits ! (unat b mod 16)]"

definition encode_le :: "u32 \<Rightarrow> u8 list" where
  "encode_le v = concat (map (\<lambda>k. encode_byte (byte_at v k)) [0..<4])"

lemma unat_byte_at: "unat (byte_at v k) = unat (drop_bit (k * 8) v AND 0xff)"
proof -
  have "(ucast (byte_at v k) :: u32) = drop_bit (k * 8) v AND mask 8"
    by (rule bit_word_eqI) (auto simp: byte_at_def bit_simps ac_simps)
  then have "unat (ucast (byte_at v k) :: u32) = unat (drop_bit (k * 8) v AND 0xff)"
    by (simp add: mask_eq_exp_minus_1)
  moreover have "unat (byte_at v k) < 256" using unsigned_less [of "byte_at v k", where 'a = nat] by simp
  ultimately show ?thesis by (simp add: unsigned_ucast_eq take_bit_nat_eq_self_iff [THEN iffD2])
qed

lemma nibbles_of_byte:
  fixes b :: u32
  assumes small: "unat b < 256"
  shows "unat (drop_bit 4 b) = unat b div 16" "unat (b AND 0xf) = unat b mod 16"
    "unat b div 16 < 16"
proof -
  show "unat (drop_bit 4 b) = unat b div 16" by (simp add: drop_bit_eq_div unat_div)
  have "b AND 15 = b mod 16" using word_mod_2p_is_mask [of 4 b] by (simp add: mask_eq_exp_minus_1)
  then show "unat (b AND 0xf) = unat b mod 16" by (simp add: unat_mod)
  show "unat b div 16 < 16" using small by simp
qed

lemma byte_less: "unat (drop_bit k (v :: u32) AND 0xff) < 256"
proof -
  have "unat (drop_bit k v AND 0xff) \<le> unat (0xff :: u32)"
    by (rule word_and_le1 [THEN word_le_nat_alt [THEN iffD1]])
  then show ?thesis by simp
qed

lemma encode_step:
  assumes "index * 2 + 1 < length output"
  shows "encode_loop v (index # rest) output =
    encode_loop v rest (output[index * 2 := encode_byte (byte_at v index) ! 0,
      index * 2 + 1 := encode_byte (byte_at v index) ! 1])"
  using assms nibbles_of_byte [OF byte_less [of "index * 8" v]]
  by (simp add: array_simps Let_def encode_byte_def unat_byte_at)

lemma encode_u32_spec:
  assumes "length output = 9"
  shows "gdb_encode_u32_le output v = Some (encode_le v @ [0])"
proof -
  obtain a0 a1 a2 a3 a4 a5 a6 a7 a8 where out: "output = [a0,a1,a2,a3,a4,a5,a6,a7,a8]"
    using assms by (auto simp: length_Suc_conv eval_nat_numeral)
  have idx: "[0..<4] = [0, 1, 2, 3 :: nat]" by (simp add: upt_rec)
  show ?thesis
    unfolding gdb_encode_u32_le_def idx out
    by (simp add: encode_step encode_le_def idx array_simps encode_byte_def del: encode_loop.simps(2))
qed

lemma upt_4: "[0..<4] = [0, 1, 2, 3 :: nat]"
  by (simp add: upt_rec)

text \<open>The byte two digits stand for.\<close>

definition hex_byte :: "u8 \<Rightarrow> u8 \<Rightarrow> u8" where
  "hex_byte h l = of_nat (16 * hex_value h + hex_value l)"

lemma ucast_hex_byte:
  "push_bit 4 (of_nat (hex_value h)) OR of_nat (hex_value l) = (ucast (hex_byte h l) :: u32)"
proof -
  have small: "16 * hex_value h + hex_value l < 256"
    using hex_value_less [of h] hex_value_less [of l] by linarith
  have "unat (hex_byte h l) = 16 * hex_value h + hex_value l"
    unfolding hex_byte_def unat_of_nat using small by simp
  then have "unat (ucast (hex_byte h l) :: u32) = 16 * hex_value h + hex_value l"
    using small by (simp add: unsigned_ucast_eq take_bit_nat_eq_self_iff [THEN iffD2])
  then have "unat (push_bit 4 (of_nat (hex_value h)) OR of_nat (hex_value l) :: u32) =
      unat (ucast (hex_byte h l) :: u32)"
    by (simp only: unat_two_nibbles [OF hex_value_less hex_value_less])
  then show ?thesis by (simp only: unsigned_word_eqI)
qed

lemma hex_byte_encode: "hex_byte (encode_byte b ! 0) (encode_byte b ! 1) = b"
proof -
  have "unat b < 256" using unsigned_less [of b, where 'a = nat] by simp
  then show ?thesis by (simp add: hex_byte_def encode_byte_def)
qed

lemma is_hex_encode: "is_hex (encode_byte b ! 0)" "is_hex (encode_byte b ! 1)"
proof -
  have "unat b < 256" using unsigned_less [of b, where 'a = nat] by simp
  then show "is_hex (encode_byte b ! 0)" "is_hex (encode_byte b ! 1)"
    by (simp_all add: encode_byte_def)
qed

lemma decode_step:
  assumes "index * 2 + 1 < length input"
  shows "decode_loop input (index # rest) decoded =
    (if is_hex (input ! (index * 2)) \<and> is_hex (input ! (index * 2 + 1))
     then decode_loop input rest
       (decoded OR push_bit (index * 8) (ucast (hex_byte (input ! (index * 2)) (input ! (index * 2 + 1)))))
     else Some None)"
  using assms by (simp add: array_simps nibble_neg nibble_hex_value ucast_hex_byte)

lemma nested_if: "(if a then if b then x else y else y) = (if a \<and> b then x else y)"
  by simp

lemma word_of_bytes_left:
  "word_of_bytes b0 b1 b2 b3 =
    ((ucast b0 OR push_bit 8 (ucast b1)) OR push_bit 16 (ucast b2)) OR push_bit 24 (ucast b3)"
  by (simp add: word_of_bytes_def or.assoc)

lemma decode_u32_spec:
  assumes "8 \<le> length input"
  shows "gdb_decode_u32_le input =
    Some (if list_all is_hex (take 8 input)
      then Some (word_of_bytes (hex_byte (input ! 0) (input ! 1)) (hex_byte (input ! 2) (input ! 3))
        (hex_byte (input ! 4) (input ! 5)) (hex_byte (input ! 6) (input ! 7)))
      else None)"
proof -
  obtain a0 a1 a2 a3 a4 a5 a6 a7 r where inp: "input = a0 # a1 # a2 # a3 # a4 # a5 # a6 # a7 # r"
    using assms by (auto simp: Suc_le_length_iff numeral_eq_Suc)
  show ?thesis
    unfolding gdb_decode_u32_le_def upt_4 inp
    by (simp add: decode_step word_of_bytes_left nested_if del: decode_loop.simps(2) split del: if_split
        cong: if_cong) simp
qed

lemma length_encode_le [simp]: "length (encode_le v) = 8"
  by (simp add: encode_le_def encode_byte_def upt_4)

lemma decode_encode: "gdb_decode_u32_le (encode_le v @ rest) = Some (Some v)"
proof -
  have e: "encode_le v @ rest = [encode_byte (byte_at v 0) ! 0, encode_byte (byte_at v 0) ! 1,
      encode_byte (byte_at v 1) ! 0, encode_byte (byte_at v 1) ! 1, encode_byte (byte_at v 2) ! 0,
      encode_byte (byte_at v 2) ! 1, encode_byte (byte_at v 3) ! 0, encode_byte (byte_at v 3) ! 1] @ rest"
    by (simp add: encode_le_def encode_byte_def upt_4)
  show ?thesis
    by (subst decode_u32_spec, simp) (simp add: e is_hex_encode hex_byte_encode del: One_nat_def)
qed

section \<open>Frames\<close>

lemma residue_neq:
  fixes x y k N :: nat
  assumes "x < N" "y < N" "x \<noteq> y"
  shows "(k + x) mod N \<noteq> (k + y) mod N"
  using assms
proof (induction x y rule: linorder_wlog)
  case (le x y)
  show ?case
  proof
    assume "(k + x) mod N = (k + y) mod N"
    then have "N dvd (k + y) - (k + x)" using le(1) by (subst mod_eq_dvd_iff_nat [symmetric]) simp_all
    then show False using le by (auto dest: dvd_imp_le)
  qed
qed metis

text \<open>The checksum as the code accumulates it, and the frame of a payload as the sender emits it.\<close>

definition checksum_of :: "u8 list \<Rightarrow> u32" where
  "checksum_of w = fold (\<lambda>b c. (c + ucast b) AND 0xff) w 0"

definition frame_of :: "u8 list \<Rightarrow> u8 list" where
  "frame_of w = 0x24 # w @ [0x23, gdb_hex_digits ! (unat (checksum_of w) div 16),
     gdb_hex_digits ! (unat (checksum_of w) mod 16)]"

lemma checksum_snoc: "checksum_of (w @ [b]) = (checksum_of w + ucast b) AND 0xff"
  by (simp add: checksum_of_def)

lemma unat_and_255: "unat ((c :: u32) AND 0xff) = unat c mod 256"
proof -
  have "c AND 255 = c mod 256" using word_mod_2p_is_mask [of 8 c] by (simp add: mask_eq_exp_minus_1)
  then show ?thesis by (simp add: unat_mod)
qed

lemma unat_checksum: "unat (checksum_of w) = sum_list (map unat w) mod 256"
proof (induction w rule: rev_induct)
  case Nil
  then show ?case by (simp add: checksum_of_def)
next
  case (snoc b w)
  have b: "unat (ucast b :: u32) = unat b" "unat b < 256"
    using unsigned_less [of b, where 'a = nat]
    by (simp_all add: unsigned_ucast_eq take_bit_nat_eq_self_iff [THEN iffD2])
  have "unat (checksum_of w) < 256" by (simp add: snoc)
  then have "unat (checksum_of w + ucast b) = unat (checksum_of w) + unat b"
    using b by (subst unat_add_no_wrap) simp_all
  then show ?case by (simp add: checksum_snoc unat_and_255 snoc mod_simps)
qed

section \<open>The parser invariant\<close>

definition parser_ok :: "gdb_packet_parser \<Rightarrow> bool" where
  "parser_ok p \<longleftrightarrow> length (payload p) = GDB_PACKET_CAPACITY + 1 \<and>
     packet_length p \<le> GDB_PACKET_CAPACITY \<and>
     checksum p = checksum_of (take (packet_length p) (payload p)) \<and>
     (state p \<in> {PARSER_CHECKSUM_HIGH, PARSER_CHECKSUM_LOW} \<longrightarrow> payload p ! packet_length p = 0)"

text \<open>The packet in the buffer.\<close>

definition packet :: "gdb_packet_parser \<Rightarrow> u8 list" where
  "packet p = take (packet_length p) (payload p)"

lemma init_ok:
  "length (payload p) = GDB_PACKET_CAPACITY + 1 \<Longrightarrow>
   \<exists>p'. gdb_packet_parser_init p = Some p' \<and> parser_ok p' \<and> state p' = PARSER_WAIT_START \<and>
     packet_length p' = 0"
  by (simp add: gdb_packet_parser_init_def array_put_Some parser_ok_def checksum_of_def)

lemma start_ok:
  "parser_ok p \<Longrightarrow>
   \<exists>p'. start_packet p = Some p' \<and> parser_ok p' \<and> state p' = PARSER_PAYLOAD \<and> packet p' = []"
  by (simp add: start_packet_def array_put_Some parser_ok_def checksum_of_def packet_def)

lemma feed_payload:
  assumes "parser_ok p" "state p = PARSER_PAYLOAD" "b \<noteq> 0x24" "b \<noteq> 0x23"
    "packet_length p < GDB_PACKET_CAPACITY"
  obtains p' where "gdb_packet_feed p b = Some (GDB_PACKET_NONE, p')" "parser_ok p'"
    "state p' = PARSER_PAYLOAD" "packet p' = packet p @ [b]" "packet_length p' = packet_length p + 1"
proof -
  have "packet_length p < length (payload p)" using assms by (simp add: parser_ok_def)
  with assms that show thesis
    by (simp add: gdb_packet_feed_def array_put_Some parser_ok_def packet_def take_list_update_Suc
        checksum_snoc)
qed

lemma feed_hash:
  assumes "parser_ok p" "state p = PARSER_PAYLOAD"
  obtains p' where "gdb_packet_feed p 0x23 = Some (GDB_PACKET_NONE, p')" "parser_ok p'"
    "state p' = PARSER_CHECKSUM_HIGH" "packet p' = packet p" "packet_length p' = packet_length p"
  using assms that
  by (simp add: gdb_packet_feed_def array_put_Some parser_ok_def packet_def)

section \<open>What the parser accepts\<close>

text \<open>The input read so far ends in a frame of payload \<open>w\<close>.\<close>

definition valid_payload :: "u8 list \<Rightarrow> bool" where
  "valid_payload w \<longleftrightarrow> 0x24 \<notin> set w \<and> 0x23 \<notin> set w \<and> length w \<le> GDB_PACKET_CAPACITY"

definition ends_in_frame :: "u8 list \<Rightarrow> u8 list \<Rightarrow> bool" where
  "ends_in_frame bs w \<longleftrightarrow> valid_payload w \<and>
     (\<exists>pre h l. bs = pre @ 0x24 # w @ [0x23, h, l] \<and> is_hex h \<and> is_hex l \<and>
        16 * hex_value h + hex_value l = sum_list (map unat w) mod 256)"

text \<open>What each parser state says about the input \<open>bs\<close> read so far.\<close>

definition parser_knows :: "u8 list \<Rightarrow> gdb_packet_parser \<Rightarrow> bool" where
  "parser_knows bs p \<longleftrightarrow> parser_ok p \<and>
     (case state p of
        PARSER_PAYLOAD \<Rightarrow> valid_payload (packet p) \<and> (\<exists>pre. bs = pre @ 0x24 # packet p)
      | PARSER_CHECKSUM_HIGH \<Rightarrow> valid_payload (packet p) \<and> (\<exists>pre. bs = pre @ 0x24 # packet p @ [0x23])
      | PARSER_CHECKSUM_LOW \<Rightarrow> valid_payload (packet p) \<and>
          (\<exists>pre h. bs = pre @ 0x24 # packet p @ [0x23, h] \<and> is_hex h \<and>
             received_checksum p = push_bit 4 (of_nat (hex_value h)))
      | _ \<Rightarrow> True)"

lemma two_digits_eq:
  assumes "is_hex h" "is_hex l"
  shows "push_bit 4 (of_nat (hex_value h)) OR of_nat (hex_value l) = checksum_of w \<longleftrightarrow>
    16 * hex_value h + hex_value l = sum_list (map unat w) mod 256"
  using unat_two_nibbles [OF hex_value_less hex_value_less, of h l] unat_checksum [of w]
  by (metis word_unat_eq_iff)

text \<open>The states of a packet under way, for the case analysis of a step.\<close>

lemma feed_knows_start:
  assumes "parser_knows bs p"
  shows "\<exists>e p'. gdb_packet_feed p 0x24 = Some (e, p') \<and> parser_knows (bs @ [0x24]) p' \<and>
    (e = GDB_PACKET_READY \<longrightarrow> ends_in_frame (bs @ [0x24]) (packet p') \<and> payload p' ! packet_length p' = 0)"
proof -
  have "parser_ok p" using assms by (simp add: parser_knows_def)
  from start_ok [OF this] obtain p' where "start_packet p = Some p'" "parser_ok p'"
      "state p' = PARSER_PAYLOAD" "packet p' = []"
    by blast
  then show ?thesis by (simp add: gdb_packet_feed_def parser_knows_def valid_payload_def)
qed

lemma feed_knows_payload:
  assumes "parser_knows bs p" "state p = PARSER_PAYLOAD" "b \<noteq> 0x24"
  shows "\<exists>e p'. gdb_packet_feed p b = Some (e, p') \<and> parser_knows (bs @ [b]) p' \<and>
    (e = GDB_PACKET_READY \<longrightarrow> ends_in_frame (bs @ [b]) (packet p') \<and> payload p' ! packet_length p' = 0)"
proof -
  have ok: "parser_ok p" using assms by (simp add: parser_knows_def)
  obtain pre where pre: "bs = pre @ 0x24 # packet p" and v: "valid_payload (packet p)"
    using assms(1,2) by (auto simp: parser_knows_def)
  consider "b = 0x23" | "b \<noteq> 0x23" "packet_length p < GDB_PACKET_CAPACITY" | "b \<noteq> 0x23" "\<not> packet_length p < GDB_PACKET_CAPACITY"
    by blast
  then show ?thesis
  proof cases
    case 1
    obtain p' where "gdb_packet_feed p 0x23 = Some (GDB_PACKET_NONE, p')" "parser_ok p'"
        "state p' = PARSER_CHECKSUM_HIGH" "packet p' = packet p"
      by (rule feed_hash [OF ok assms(2)])
    with 1 pre v show ?thesis by (simp add: parser_knows_def)
  next
    case *: 2
    obtain p' where p': "gdb_packet_feed p b = Some (GDB_PACKET_NONE, p')" "parser_ok p'"
        "state p' = PARSER_PAYLOAD" "packet p' = packet p @ [b]"
      by (rule feed_payload [OF ok assms(2,3) *])
    have "length (packet p) = packet_length p" using ok by (simp add: packet_def parser_ok_def)
    with p' pre v assms(3) * show ?thesis
      by (simp add: parser_knows_def valid_payload_def)
  next
    case *: 3
    with ok assms(2,3) show ?thesis
      by (simp add: gdb_packet_feed_def parser_knows_def parser_ok_def)
  qed
qed

lemma feed_knows:
  assumes "parser_knows bs p"
  shows "\<exists>e p'. gdb_packet_feed p b = Some (e, p') \<and> parser_knows (bs @ [b]) p' \<and>
    (e = GDB_PACKET_READY \<longrightarrow> ends_in_frame (bs @ [b]) (packet p') \<and> payload p' ! packet_length p' = 0)"
proof (cases "b = 0x24")
  case True
  with feed_knows_start [OF assms] show ?thesis by simp
next
  case False
  have ok: "parser_ok p" using assms by (simp add: parser_knows_def)
  show ?thesis
  proof (cases "state p")
    case PARSER_PAYLOAD
    with assms False show ?thesis by (intro feed_knows_payload)
  next
    case PARSER_CHECKSUM_HIGH
    then obtain pre where "bs = pre @ 0x24 # packet p @ [0x23]" "valid_payload (packet p)"
      using assms by (auto simp: parser_knows_def)
    with ok PARSER_CHECKSUM_HIGH False show ?thesis
      by (cases "is_hex b")
        (simp_all add: gdb_packet_feed_def parser_knows_def parser_ok_def packet_def nibble_neg
          nibble_hex_value)
  next
    case PARSER_CHECKSUM_LOW
    then obtain pre h where "bs = pre @ 0x24 # packet p @ [0x23, h]" "valid_payload (packet p)"
        "is_hex h" "received_checksum p = push_bit 4 (of_nat (hex_value h))"
      using assms by (auto simp: parser_knows_def)
    with ok PARSER_CHECKSUM_LOW False two_digits_eq [of h b "packet p"] show ?thesis
      by (cases "is_hex b")
        (auto simp: gdb_packet_feed_def parser_knows_def parser_ok_def packet_def nibble_neg
          nibble_hex_value ends_in_frame_def)
  qed (use ok False in \<open>simp_all add: gdb_packet_feed_def parser_knows_def\<close>)
qed

lemma parser_ok_feed:
  assumes "parser_ok p"
  shows "\<exists>e p'. gdb_packet_feed p b = Some (e, p') \<and> parser_ok p' \<and>
    (e = GDB_PACKET_READY \<longrightarrow> payload p' ! packet_length p' = 0)"
  using assms
  by (cases "state p"; cases "b = 0x24"; cases "b = 0x23")
    (auto simp: gdb_packet_feed_def parser_ok_def start_packet_def array_put_Some Let_def checksum_of_def
      take_list_update_Suc checksum_snoc [unfolded checksum_of_def] GDB_PACKET_CAPACITY_def)

lemma feed_all_knows:
  assumes "parser_knows bs p"
  shows "\<exists>es p'. feed_all p cs = Some (es, p') \<and> parser_knows (bs @ cs) p' \<and> length es = length cs \<and>
    (cs \<noteq> [] \<longrightarrow> last es = GDB_PACKET_READY \<longrightarrow>
      ends_in_frame (bs @ cs) (packet p') \<and> payload p' ! packet_length p' = 0)"
  using assms
proof (induction cs arbitrary: bs p)
  case Nil
  then show ?case by simp
next
  case (Cons c cs)
  from feed_knows [OF Cons.prems, of c] obtain e p1 where 1: "gdb_packet_feed p c = Some (e, p1)"
      "parser_knows (bs @ [c]) p1" "e = GDB_PACKET_READY \<longrightarrow>
        ends_in_frame (bs @ [c]) (packet p1) \<and> payload p1 ! packet_length p1 = 0"
    by blast
  from Cons.IH [OF 1(2)] obtain es p2 where 2: "feed_all p1 cs = Some (es, p2)"
      "parser_knows ((bs @ [c]) @ cs) p2" "length es = length cs" "cs \<noteq> [] \<longrightarrow> last es = GDB_PACKET_READY \<longrightarrow>
        ends_in_frame ((bs @ [c]) @ cs) (packet p2) \<and> payload p2 ! packet_length p2 = 0"
    by blast
  show ?case
  proof (cases "cs = []")
    case True
    with 1 2 show ?thesis by simp
  next
    case False
    then have "es \<noteq> []" using 2(3) by auto
    with False 1 2 show ?thesis by simp
  qed
qed

lemma feed_payload_bytes:
  assumes "parser_ok p" "state p = PARSER_PAYLOAD" "valid_payload (packet p @ w)"
  shows "\<exists>p'. feed_all p w = Some (replicate (length w) GDB_PACKET_NONE, p') \<and> parser_ok p' \<and>
    state p' = PARSER_PAYLOAD \<and> packet p' = packet p @ w"
  using assms
proof (induction w arbitrary: p)
  case Nil
  then show ?case by simp
next
  case (Cons b w)
  have "length (packet p) = packet_length p"
    using Cons.prems(1) by (simp add: packet_def parser_ok_def)
  then have "b \<noteq> 0x24" "b \<noteq> 0x23" "packet_length p < GDB_PACKET_CAPACITY"
    using Cons.prems(3) by (auto simp: valid_payload_def)
  then obtain p1 where 1: "gdb_packet_feed p b = Some (GDB_PACKET_NONE, p1)" "parser_ok p1"
      "state p1 = PARSER_PAYLOAD" "packet p1 = packet p @ [b]"
    by (rule feed_payload [OF Cons.prems(1,2)])
  have "valid_payload (packet p1 @ w)" using Cons.prems(3) 1(4) by simp
  from Cons.IH [OF 1(2,3) this] 1 show ?case by auto
qed

lemma feed_digits:
  assumes "parser_ok p" "state p = PARSER_CHECKSUM_HIGH" "is_hex h" "is_hex l"
  shows "\<exists>p'. feed_all p [h, l] = Some ([GDB_PACKET_NONE,
      if 16 * hex_value h + hex_value l = sum_list (map unat (packet p)) mod 256
      then GDB_PACKET_READY else GDB_PACKET_CHECKSUM_ERROR], p') \<and>
    packet p' = packet p \<and> packet_length p' = packet_length p \<and> parser_ok p' \<and>
    state p' = PARSER_WAIT_START"
  using assms two_digits_eq [OF assms(3,4), of "packet p"] hex_not_special
  by (auto simp: gdb_packet_feed_def nibble_neg nibble_hex_value packet_def parser_ok_def)

text \<open>A complete frame with hexadecimal checksum digits, right or wrong, from any state.\<close>

lemma feed_frame:
  assumes "parser_ok p" "valid_payload w" "is_hex h" "is_hex l"
  shows "\<exists>p'. feed_all p (0x24 # w @ [0x23, h, l]) =
      Some (replicate (length w + 3) GDB_PACKET_NONE @
        [if 16 * hex_value h + hex_value l = sum_list (map unat w) mod 256
         then GDB_PACKET_READY else GDB_PACKET_CHECKSUM_ERROR], p') \<and>
    packet p' = w \<and> parser_ok p' \<and> state p' = PARSER_WAIT_START"
proof -
  from start_ok [OF assms(1)] obtain p0 where 0: "start_packet p = Some p0" "parser_ok p0"
      "state p0 = PARSER_PAYLOAD" "packet p0 = []"
    by blast
  then have start: "feed_all p [0x24] = Some ([GDB_PACKET_NONE], p0)"
    by (simp add: gdb_packet_feed_def)
  from feed_payload_bytes [OF 0(2,3), of w] 0(4) assms(2) obtain p1 where 1:
      "feed_all p0 w = Some (replicate (length w) GDB_PACKET_NONE, p1)" "parser_ok p1"
      "state p1 = PARSER_PAYLOAD" "packet p1 = w"
    by auto
  obtain p2 where 2: "gdb_packet_feed p1 0x23 = Some (GDB_PACKET_NONE, p2)" "parser_ok p2"
      "state p2 = PARSER_CHECKSUM_HIGH" "packet p2 = packet p1"
    by (rule feed_hash [OF 1(2,3)])
  then have hash: "feed_all p1 [0x23] = Some ([GDB_PACKET_NONE], p2)" by simp
  from feed_digits [OF 2(2,3) assms(3,4)] obtain p3 where 3: "feed_all p2 [h, l] = Some ([GDB_PACKET_NONE,
      if 16 * hex_value h + hex_value l = sum_list (map unat (packet p2)) mod 256
      then GDB_PACKET_READY else GDB_PACKET_CHECKSUM_ERROR], p3)" "packet p3 = packet p2" "parser_ok p3"
      "state p3 = PARSER_WAIT_START"
    by blast
  have "replicate (length w + 3) GDB_PACKET_NONE =
      [GDB_PACKET_NONE] @ replicate (length w) GDB_PACKET_NONE @ [GDB_PACKET_NONE] @ [GDB_PACKET_NONE]"
    by (simp add: numeral_3_eq_3 replicate_app_Cons_same)
  with feed_all_append [OF start feed_all_append [OF 1(1) feed_all_append [OF hash 3(1)]]]
  show ?thesis using 1(4) 2(4) 3 by simp
qed

section \<open>Properties\<close>

text \<open>A freshly initialised parser over any buffer of the right size.\<close>

definition fresh_parser :: "gdb_packet_parser \<Rightarrow> bool" where
  "fresh_parser p \<longleftrightarrow>
     (\<exists>p0. length (payload p0) = GDB_PACKET_CAPACITY + 1 \<and> gdb_packet_parser_init p0 = Some p)"

lemma fresh_knows: "fresh_parser p \<Longrightarrow> parser_knows [] p"
  using init_ok by (fastforce simp: fresh_parser_def parser_knows_def)

definition blank_parser :: gdb_packet_parser where
  "blank_parser = \<lparr>payload = replicate 513 0, packet_length = 0, checksum = 0,
     received_checksum = 0, state = PARSER_WAIT_START\<rparr>"

lemma fresh_blank: "fresh_parser blank_parser"
  unfolding fresh_parser_def
  by (rule exI [of _ blank_parser])
    (simp add: blank_parser_def GDB_PACKET_CAPACITY_def gdb_packet_parser_init_def array_put_def
      list_update_same_conv del: replicate.simps)

text \<open>C24: No sequence of bytes makes the packet parser access its buffer out of bounds, and after
  any sequence the parser is well formed: at most 512 bytes are stored, and the running
  checksum is that of the stored bytes.\<close>

theorem parser_never_overruns:
  assumes "fresh_parser p"
  shows "\<exists>es p'. feed_all p bs = Some (es, p') \<and> parser_ok p' \<and> length es = length bs"
  using feed_all_knows [OF fresh_knows [OF assms], of bs] by (auto simp: parser_knows_def)

theorem parser_never_overruns_witness:
  "\<exists>es p'. feed_all blank_parser (replicate 600 65) = Some (es, p') \<and> parser_ok p'"
  using parser_never_overruns [OF fresh_blank] by blast

text \<open>C2: The parser reports a packet exactly at the last byte of a well-formed frame: a \<open>$\<close>, a
  payload of at most 512 bytes without \<open>$\<close> or \<open>#\<close>, a \<open>#\<close> and two hexadecimal digits whose value is
  the sum of the payload modulo 256. The buffer then holds that payload and a NUL. Whatever
  came before, noise, truncated or corrupted frames, changes nothing.\<close>

theorem parser_ready_iff_frame:
  assumes "fresh_parser p" "feed_all p bs = Some (es, p')" "bs \<noteq> []"
  shows "(last es = GDB_PACKET_READY \<longleftrightarrow> (\<exists>w. ends_in_frame bs w)) \<and>
    (\<forall>w. ends_in_frame bs w \<longrightarrow> packet p' = w \<and> payload p' ! length w = 0)"
proof -
  have len: "length (packet p') = packet_length p'"
    using feed_all_knows [OF fresh_knows [OF assms(1)], of bs] assms(2)
    by (auto simp: parser_knows_def parser_ok_def packet_def)
  have sound: "last es = GDB_PACKET_READY \<Longrightarrow> ends_in_frame bs (packet p') \<and> payload p' ! packet_length p' = 0"
    using feed_all_knows [OF fresh_knows [OF assms(1)], of bs] assms(2,3) by auto
  have complete: "last es = GDB_PACKET_READY \<and> packet p' = w" if frame: "ends_in_frame bs w" for w
  proof -
    from frame obtain pre h l where bs: "bs = pre @ 0x24 # w @ [0x23, h, l]" and hl: "is_hex h" "is_hex l"
        and sum: "16 * hex_value h + hex_value l = sum_list (map unat w) mod 256" and v: "valid_payload w"
      by (auto simp: ends_in_frame_def)
    from feed_all_knows [OF fresh_knows [OF assms(1)], of pre] obtain es1 p1 where
        1: "feed_all p pre = Some (es1, p1)" "parser_ok p1"
      by (auto simp: parser_knows_def)
    from feed_frame [OF 1(2) v hl] sum obtain p2 where
        2: "feed_all p1 (0x24 # w @ [0x23, h, l]) =
          Some (replicate (length w + 3) GDB_PACKET_NONE @ [GDB_PACKET_READY], p2)" "packet p2 = w"
      by auto
    from feed_all_append [OF 1(1) 2(1)] assms(2) 2(2) bs show ?thesis by auto
  qed
  show ?thesis using sound complete len by metis
qed

lemma sample_frame: "ends_in_frame [0x24, 0x67, 0x23, 0x36, 0x37] [0x67]"
proof -
  have "is_hex 0x36" "is_hex 0x37" "hex_value 0x36 = 6" "hex_value 0x37 = 7" by code_simp+
  then show ?thesis
    unfolding ends_in_frame_def valid_payload_def GDB_PACKET_CAPACITY_def
    by (intro conjI exI [of _ "[]"] exI [of _ "0x36"] exI [of _ "0x37"]) simp_all
qed

theorem parser_ready_iff_frame_witness:
  "\<exists>es p'. feed_all blank_parser [0x24, 0x67, 0x23, 0x36, 0x37] = Some (es, p') \<and>
     last es = GDB_PACKET_READY \<and> packet p' = [0x67]"
proof -
  obtain es p' where run: "feed_all blank_parser [0x24, 0x67, 0x23, 0x36, 0x37] = Some (es, p')"
    using feed_all_knows [OF fresh_knows [OF fresh_blank]] by blast
  from parser_ready_iff_frame [OF fresh_blank run] sample_frame
  have "last es = GDB_PACKET_READY \<and> packet p' = [0x67]" by auto
  with run show ?thesis by blast
qed

text \<open>A frame in which one payload byte was replaced by another byte that is not a delimiter
  is always rejected with a checksum error, never reported as a packet.\<close>

lemma corrupted_byte_rejected:
  assumes "parser_ok p" "valid_payload (u @ [b] @ v)" "c \<notin> {b, 0x24, 0x23}"
  shows "\<exists>es p'. feed_all p ((frame_of (u @ [b] @ v))[Suc (length u) := c]) =
    Some (es @ [GDB_PACKET_CHECKSUM_ERROR], p') \<and> GDB_PACKET_READY \<notin> set es"
proof -
  define k where "k = sum_list (map unat (u @ [b] @ v)) mod 256"
  define h l where "h = gdb_hex_digits ! (k div 16)" and "l = gdb_hex_digits ! (k mod 16)"
  have "k < 256" by (simp add: k_def)
  then have hl: "is_hex h" "is_hex l" "16 * hex_value h + hex_value l = k"
    by (simp_all add: h_def l_def)
  have frame: "(frame_of (u @ [b] @ v))[Suc (length u) := c] = 0x24 # (u @ [c] @ v) @ [0x23, h, l]"
    by (simp add: frame_of_def unat_checksum h_def l_def k_def)
  have v: "valid_payload (u @ [c] @ v)" using assms by (auto simp: valid_payload_def)
  have "unat b < 256" "unat c < 256" "unat b \<noteq> unat c"
    using unsigned_less [of b, where 'a = nat] unsigned_less [of c, where 'a = nat] assms(3)
    by (auto simp: word_unat_eq_iff)
  then have "k \<noteq> sum_list (map unat (u @ [c] @ v)) mod 256"
    unfolding k_def
    using residue_neq [of "unat b" 256 "unat c" "sum_list (map unat u) + sum_list (map unat v)"]
    by (simp add: ac_simps)
  with hl feed_frame [OF assms(1) v hl(1,2)] show ?thesis unfolding frame by auto
qed

lemma blank_ok: "parser_ok blank_parser"
  using fresh_knows [OF fresh_blank] by (simp add: parser_knows_def)

theorem corrupted_byte_rejected_witness:
  "\<exists>es p'. feed_all blank_parser ((frame_of [0x6d, 0x30, 0x31])[2 := 0x32]) =
    Some (es @ [GDB_PACKET_CHECKSUM_ERROR], p')"
proof -
  have "valid_payload ([0x6d] @ [0x30] @ [0x31])" by (simp add: valid_payload_def GDB_PACKET_CAPACITY_def)
  moreover have "(0x32 :: u8) \<notin> {0x30, 0x24, 0x23}" by simp
  ultimately obtain es p' where "feed_all blank_parser
      ((frame_of ([0x6d] @ [0x30] @ [0x31]))[Suc (length [0x6d :: u8]) := 0x32]) =
      Some (es @ [GDB_PACKET_CHECKSUM_ERROR], p')"
    using corrupted_byte_rejected [OF blank_ok] by blast
  then show ?thesis by (simp add: numeral_2_eq_2)
qed

text \<open>What the sender emits for a payload without delimiters is accepted in every parser state,
  and gives back the payload.\<close>

lemma frame_roundtrip:
  assumes "parser_ok p" "valid_payload w"
  shows "\<exists>p'. feed_all p (frame_of w) =
      Some (replicate (length w + 3) GDB_PACKET_NONE @ [GDB_PACKET_READY], p') \<and> packet p' = w"
proof -
  have "unat (checksum_of w) < 256" by (simp add: unat_checksum)
  then show ?thesis
    using feed_frame [OF assms, of "gdb_hex_digits ! (unat (checksum_of w) div 16)"
      "gdb_hex_digits ! (unat (checksum_of w) mod 16)"]
    by (auto simp: frame_of_def unat_checksum)
qed

theorem frame_roundtrip_witness:
  "\<exists>p'. feed_all blank_parser (frame_of [0x4f, 0x4b]) =
     Some (replicate 5 GDB_PACKET_NONE @ [GDB_PACKET_READY], p') \<and> packet p' = [0x4f, 0x4b]"
proof -
  have "valid_payload [0x4f, 0x4b]" by (simp add: valid_payload_def GDB_PACKET_CAPACITY_def)
  from frame_roundtrip [OF blank_ok this] show ?thesis by simp
qed

text \<open>A payload of more than 512 bytes raises exactly one overflow event, at byte 513; then every
  byte up to the next \<open>$\<close> is ignored, and nothing of the rest is reported as a packet.\<close>

lemma overflow_discards:
  assumes "parser_ok p" "valid_payload w" "length w = GDB_PACKET_CAPACITY"
    and "b \<notin> {0x24, 0x23}" "0x24 \<notin> set rest"
  shows "\<exists>p'. feed_all p (0x24 # w @ b # rest) =
      Some (replicate (Suc (length w)) GDB_PACKET_NONE @
        GDB_PACKET_OVERFLOW # replicate (length rest) GDB_PACKET_NONE, p') \<and>
    state p' = PARSER_DISCARD"
proof -
  from start_ok [OF assms(1)] obtain p0 where 0: "start_packet p = Some p0" "parser_ok p0"
      "state p0 = PARSER_PAYLOAD" "packet p0 = []"
    by blast
  then have start: "feed_all p [0x24] = Some ([GDB_PACKET_NONE], p0)"
    by (simp add: gdb_packet_feed_def)
  from feed_payload_bytes [OF 0(2,3), of w] 0(4) assms(2) obtain p1 where 1:
      "feed_all p0 w = Some (replicate (length w) GDB_PACKET_NONE, p1)" "parser_ok p1"
      "state p1 = PARSER_PAYLOAD" "packet p1 = w"
    by auto
  have "packet_length p1 = GDB_PACKET_CAPACITY"
    using 1(2,4) assms(3) by (auto simp: packet_def parser_ok_def)
  then have over: "feed_all p1 [b] = Some ([GDB_PACKET_OVERFLOW], p1\<lparr>state := PARSER_DISCARD\<rparr>)"
    using 1(3) assms(4) by (simp add: gdb_packet_feed_def)
  have discard: "feed_all q rest = Some (replicate (length rest) GDB_PACKET_NONE, q)"
    if "state q = PARSER_DISCARD" for q
    using assms(5) that by (induction rest) (auto simp: gdb_packet_feed_def)
  from feed_all_append [OF start feed_all_append [OF 1(1) feed_all_append [OF over discard]]]
  show ?thesis by simp
qed

theorem overflow_discards_witness:
  "\<exists>p'. feed_all blank_parser (0x24 # replicate 512 0x41 @ 0x41 # [0x23, 0x30, 0x30]) =
      Some (replicate 513 GDB_PACKET_NONE @ GDB_PACKET_OVERFLOW # replicate 3 GDB_PACKET_NONE, p')"
proof -
  have "valid_payload (replicate 512 0x41)" "length (replicate 512 (0x41 :: u8)) = GDB_PACKET_CAPACITY"
    by (simp_all add: valid_payload_def GDB_PACKET_CAPACITY_def)
  moreover have "(0x41 :: u8) \<notin> {0x24, 0x23}" "(0x24 :: u8) \<notin> set [0x23, 0x30, 0x30]" by simp_all
  ultimately obtain p' where "feed_all blank_parser (0x24 # replicate 512 0x41 @ 0x41 # [0x23, 0x30, 0x30]) =
      Some (replicate (Suc (length (replicate 512 (0x41 :: u8)))) GDB_PACKET_NONE @
        GDB_PACKET_OVERFLOW # replicate (length [0x23 :: u8, 0x30, 0x30]) GDB_PACKET_NONE, p')"
    using overflow_discards [OF blank_ok] by blast
  moreover have "Suc (length (replicate 512 (0x41 :: u8))) = 513" "length [0x23 :: u8, 0x30, 0x30] = 3"
    by simp_all
  ultimately show ?thesis by metis
qed

text \<open>The register codec is lossless: decoding the eight digits of any value, whatever follows
  them, gives the value back, and encoding never leaves its nine-byte buffer.\<close>

lemma u32_codec_roundtrip:
  assumes "length buf = 9"
  shows "\<exists>digits. gdb_encode_u32_le buf v = Some (digits @ [0]) \<and> length digits = 8 \<and>
    gdb_decode_u32_le (digits @ rest) = Some (Some v)"
  using encode_u32_spec [OF assms, of v] decode_encode [of v] by auto

theorem u32_codec_roundtrip_witness:
  "gdb_decode_u32_le (bytes ''78563412'') = Some (Some 0x12345678) \<and>
   (\<exists>digits. gdb_encode_u32_le (replicate 9 0) 0x12345678 = Some (digits @ [0]) \<and> length digits = 8)"
proof
  show "gdb_decode_u32_le (bytes ''78563412'') = Some (Some 0x12345678)" by code_simp
  show "\<exists>digits. gdb_encode_u32_le (replicate 9 0) 0x12345678 = Some (digits @ [0]) \<and> length digits = 8"
    using u32_codec_roundtrip [of "replicate 9 0" "0x12345678"] by auto
qed

text \<open>\<open>gdb_parse_hex_u32\<close> accepts exactly one to eight hexadecimal digits of either case and
  returns their value, which always fits 32 bits.\<close>

lemma parse_hex_correct:
  assumes "len \<le> length txt"
  shows "gdb_parse_hex_u32 txt len =
      Some (if 0 < len \<and> len \<le> 8 \<and> list_all is_hex (take len txt)
            then Some (of_nat (hex_number (take len txt))) else None) \<and>
    (len \<le> 8 \<longrightarrow> unat (of_nat (hex_number (take len txt)) :: u32) = hex_number (take len txt))"
proof
  show "gdb_parse_hex_u32 txt len =
      Some (if 0 < len \<and> len \<le> 8 \<and> list_all is_hex (take len txt)
            then Some (of_nat (hex_number (take len txt))) else None)"
    using assms by (rule parse_hex_spec)
  have "(16 :: nat) ^ len \<le> 16 ^ 8" if "len \<le> 8" using that by (rule power_increasing) simp
  then show "len \<le> 8 \<longrightarrow> unat (of_nat (hex_number (take len txt)) :: u32) = hex_number (take len txt)"
    using hex_number_less [of "take len txt"] assms by (auto simp: unat_of_nat)
qed

theorem parse_hex_correct_witness:
  "gdb_parse_hex_u32 (bytes ''80001fF0,4'') 8 = Some (Some 0x80001ff0)"
proof -
  have "list_all is_hex (take 8 (bytes ''80001fF0,4''))"
    "hex_number (take 8 (bytes ''80001fF0,4'')) = 0x80001ff0"
    by (code_simp, simp add: hex_number_def hex_value_def gdb_hex_nibble_def bytes_def)
  with parse_hex_correct [of 8 "bytes ''80001fF0,4''"] show ?thesis by simp
qed

end
