(* ===== verification/Gdb_Stub.thy ===== *)
theory Gdb_Stub
  imports Gdb_Packet Uart Rt_String
begin

text \<open>
  The cooperative GDB stub \<open>firmware/gdb/gdb_stub.c\<close>: the static state of the file is the
  record \<open>stub\<close>, the register frame the trap entry saved (\<open>runtime/trap_frame.h\<close>) is the record
  \<open>trap_frame\<close>, and target memory is the byte memory of the machine. The stub's own variables
  and the frame are kept apart from that memory. Every buffer access is bounds checked, so a
  run that does not end in \<open>Fault\<close> stayed inside its buffers.
\<close>

section \<open>State\<close>

record trap_frame =
  x_regs :: "u32 list"       \<comment> \<open>32 registers\<close>
  mepc :: u32
  mstatus :: u32
  mcause :: u32
  reserved :: u32

record stub =
  packet_parser :: gdb_packet_parser
  reply_buffer :: "u8 list"     \<comment> \<open>513 characters\<close>
  last_reply :: "u8 list"       \<comment> \<open>513 characters\<close>
  last_reply_length :: nat
  stopped_pc :: u32
  resume_pc_explicit :: bool
  debugger_attached :: bool

definition GDB_REGISTER_COUNT :: nat where "GDB_REGISTER_COUNT = 33"
definition GDB_REGISTER_HEX_SIZE :: nat where "GDB_REGISTER_HEX_SIZE = GDB_REGISTER_COUNT * 8"
definition GDB_BRAM_BASE :: u32 where [addr_defs]: "GDB_BRAM_BASE = 0x00000000"
definition GDB_BRAM_SIZE :: u32 where [addr_defs]: "GDB_BRAM_SIZE = 0x00010000"
definition GDB_SDRAM_BASE :: u32 where [addr_defs]: "GDB_SDRAM_BASE = 0x80000000"
definition GDB_SDRAM_SIZE :: u32 where [addr_defs]: "GDB_SDRAM_SIZE = 0x02000000"

section \<open>Strings\<close>

fun text_equal :: "u8 list \<Rightarrow> u8 list \<Rightarrow> bool option" where
  "text_equal (l # left) (r # right) =
     (if l \<noteq> 0 \<and> r \<noteq> 0 then if l \<noteq> r then Some False else text_equal left right
      else Some (l = r))"
| "text_equal _ _ = None"

fun text_starts_with :: "u8 list \<Rightarrow> u8 list \<Rightarrow> bool option" where
  "text_starts_with txt [] = None"
| "text_starts_with txt (c # prefix) =
     (if c = 0 then Some True
      else case txt of
        [] \<Rightarrow> None
      | b # bs \<Rightarrow> if b \<noteq> c then Some False else text_starts_with bs prefix)"

fun text_length :: "u8 list \<Rightarrow> nat option" where
  "text_length [] = None"
| "text_length (c # txt) = (if c = 0 then Some 0 else map_option Suc (text_length txt))"

fun text_equal_any :: "u8 list \<Rightarrow> u8 list list \<Rightarrow> bool option" where
  "text_equal_any txt [] = Some False"
| "text_equal_any txt (s # ss) =
     do { b \<leftarrow> text_equal txt s; if b then Some True else text_equal_any txt ss }"

section \<open>Replies\<close>

definition send_packet_bytes :: "u8 list \<Rightarrow> nat \<Rightarrow> unit fw" where
  "send_packet_bytes pl len =
     then_fw (uart_putc 0x24)
       (bind_fw
         (fold_fw [0..<len]
           (\<lambda>index checksum. bind_fw (of_option_fw (array_get pl index)) (\<lambda>byte.
              then_fw (uart_putc byte) (return_fw ((checksum + ucast byte) AND 0xff)))) (0 :: u32))
         (\<lambda>checksum. seq_fw [uart_putc 0x23,
            bind_fw (of_option_fw (array_get gdb_hex_digits (unat (drop_bit 4 checksum)))) uart_putc,
            bind_fw (of_option_fw (array_get gdb_hex_digits (unat (checksum AND 0xf)))) uart_putc]))"

definition record_reply :: "u8 list \<Rightarrow> nat \<Rightarrow> u8 list \<Rightarrow> u8 list option" where
  "record_reply pl len reply = do {
     reply1 \<leftarrow> fold_option (\<lambda>index reply. do { c \<leftarrow> array_get pl index; array_put reply index c }) [0..<len] reply;
     array_put reply1 len 0
   }"

definition send_reply_length :: "stub \<Rightarrow> u8 list \<Rightarrow> nat \<Rightarrow> stub fw" where
  "send_reply_length st pl len =
     bind_fw (of_option_fw (record_reply pl len (last_reply st))) (\<lambda>reply.
       let st' = st\<lparr>last_reply := reply, last_reply_length := len\<rparr>
       in then_fw (send_packet_bytes (last_reply st') (last_reply_length st')) (return_fw st'))"

definition send_reply :: "stub \<Rightarrow> u8 list \<Rightarrow> stub fw" where
  "send_reply st pl = bind_fw (of_option_fw (text_length pl)) (send_reply_length st pl)"

definition resend_last_reply :: "stub \<Rightarrow> unit fw" where
  "resend_last_reply st = send_packet_bytes (last_reply st) (last_reply_length st)"

definition stop_reply :: "u32 \<Rightarrow> u8 list" where
  "stop_reply cause =
     (if cause = 2 then cstr ''S04''
      else if cause = 3 then cstr ''S05''
      else if cause \<in> {0, 1, 4, 5, 6, 7} then cstr ''S0b''
      else cstr ''S05'')"

section \<open>Registers\<close>

definition put_encoded :: "u8 list \<Rightarrow> u8 list \<times> nat \<Rightarrow> (u8 list \<times> nat) option" where
  "put_encoded encoded =
     fold_option (\<lambda>digit_index (buf, output_index). do {
       c \<leftarrow> array_get encoded digit_index;
       buf' \<leftarrow> array_put buf output_index c;
       Some (buf', output_index + 1)
     }) [0..<8]"

definition encode_registers :: "trap_frame \<Rightarrow> u8 list \<Rightarrow> u8 list option" where
  "encode_registers frame buf = do {
     (buf1, output1) \<leftarrow> fold_option (\<lambda>register_index acc. do {
         v \<leftarrow> (if register_index = 0 then Some 0 else array_get (x_regs frame) register_index);
         encoded \<leftarrow> gdb_encode_u32_le (replicate 9 0) v;
         put_encoded encoded acc
       }) [0..<32] (buf, 0);
     encoded \<leftarrow> gdb_encode_u32_le (replicate 9 0) (mepc frame);
     (buf2, output2) \<leftarrow> put_encoded encoded (buf1, output1);
     array_put buf2 output2 0
   }"

fun decode_loop_registers :: "u8 list \<Rightarrow> nat list \<Rightarrow> u32 list \<Rightarrow> u32 list option option" where
  "decode_loop_registers pl [] decoded = Some (Some decoded)"
| "decode_loop_registers pl (register_index # rest) decoded = do {
     r \<leftarrow> gdb_decode_u32_le (drop (1 + register_index * 8) pl);
     case r of
       None \<Rightarrow> Some None
     | Some v \<Rightarrow> do {
         decoded' \<leftarrow> array_put decoded register_index v;
         decode_loop_registers pl rest decoded'
       }
   }"

definition decode_registers :: "trap_frame \<Rightarrow> u8 list \<Rightarrow> nat \<Rightarrow> trap_frame option option" where
  "decode_registers frame pl len =
     (if len \<noteq> 1 + GDB_REGISTER_HEX_SIZE then Some None
      else do {
        r \<leftarrow> decode_loop_registers pl [0..<GDB_REGISTER_COUNT] (replicate GDB_REGISTER_COUNT 0);
        case r of
          None \<Rightarrow> Some None
        | Some decoded \<Rightarrow> do {
            xs \<leftarrow> fold_option (\<lambda>i xs. do { v \<leftarrow> array_get decoded i; array_put xs i v }) [1..<32] (x_regs frame);
            xs' \<leftarrow> array_put xs 0 0;
            pc \<leftarrow> array_get decoded 32;
            Some (Some (frame\<lparr>x_regs := xs', mepc := pc\<rparr>))
          }
      })"

section \<open>Memory\<close>

definition range_inside :: "u32 \<Rightarrow> u32 \<Rightarrow> u32 \<Rightarrow> u32 \<Rightarrow> bool" where
  "range_inside addr len base sz \<longleftrightarrow> base \<le> addr \<and> len \<le> sz \<and> addr - base \<le> sz - len"

definition memory_range_allowed :: "u32 \<Rightarrow> u32 \<Rightarrow> bool" where
  "memory_range_allowed addr len =
     (if len = 0 then False
      else range_inside addr len GDB_BRAM_BASE GDB_BRAM_SIZE \<or>
           range_inside addr len GDB_SDRAM_BASE GDB_SDRAM_SIZE)"

text \<open>The loops \<open>while (i < length && payload[i] != c) i++\<close>.\<close>

function scan_for :: "u8 list \<Rightarrow> nat \<Rightarrow> u8 \<Rightarrow> nat \<Rightarrow> nat option" where
  "scan_for pl len c i =
     (if i < len then do { b \<leftarrow> array_get pl i; if b \<noteq> c then scan_for pl len c (i + 1) else Some i }
      else Some i)"
  by pat_completeness auto
termination by (relation "measure (\<lambda>(pl, len, c, i). len - i)") auto

declare scan_for.simps [simp del]

definition parse_memory_header :: "u8 list \<Rightarrow> nat \<Rightarrow> (u32 \<times> u32 \<times> nat) option option" where
  "parse_memory_header pl plen = do {
     comma \<leftarrow> scan_for pl plen 0x2c 1;
     if comma = plen then Some None
     else do {
       end_index \<leftarrow> scan_for pl plen 0x3a (comma + 1);
       a \<leftarrow> gdb_parse_hex_u32 (drop 1 pl) (comma - 1);
       case a of
         None \<Rightarrow> Some None
       | Some addr \<Rightarrow> do {
           l \<leftarrow> gdb_parse_hex_u32 (drop (comma + 1) pl) (end_index - comma - 1);
           case l of
             None \<Rightarrow> Some None
           | Some len \<Rightarrow> Some (Some (addr, len, end_index))
         }
     }
   }"

definition dump_bytes :: "u32 \<Rightarrow> nat \<Rightarrow> u8 list \<Rightarrow> u8 list fw" where
  "dump_bytes addr n =
     fold_fw [0..<n]
       (\<lambda>index buf. bind_fw (load8 (addr + of_nat index)) (\<lambda>b.
          let byte = ucast b :: u32
          in of_option_fw (do {
               hi \<leftarrow> array_get gdb_hex_digits (unat (drop_bit 4 byte));
               buf1 \<leftarrow> array_put buf (index * 2) hi;
               lo \<leftarrow> array_get gdb_hex_digits (unat (byte AND 0xf));
               array_put buf1 (index * 2 + 1) lo
             })))"

definition read_memory :: "stub \<Rightarrow> u8 list \<Rightarrow> nat \<Rightarrow> (bool \<times> stub) fw" where
  "read_memory st pl plen =
     bind_fw (of_option_fw (parse_memory_header pl plen)) (\<lambda>h. case h of
       None \<Rightarrow> return_fw (False, st)
     | Some (addr, len, separator) \<Rightarrow>
         if separator \<noteq> plen \<or> GDB_PACKET_CAPACITY div 2 < unat len \<or> \<not> memory_range_allowed addr len
         then return_fw (False, st)
         else bind_fw (dump_bytes addr (unat len) (reply_buffer st))
           (\<lambda>buf. bind_fw (of_option_fw (array_put buf (unat len * 2) 0)) (\<lambda>buf'.
              let st1 = st\<lparr>reply_buffer := buf'\<rparr>
              in bind_fw (send_reply_length st1 (reply_buffer st1) (unat len * 2)) (\<lambda>st2.
                return_fw (True, st2)))))"

fun all_hex_at :: "u8 list \<Rightarrow> nat \<Rightarrow> nat list \<Rightarrow> bool option" where
  "all_hex_at pl separator [] = Some True"
| "all_hex_at pl separator (index # rest) = do {
     c \<leftarrow> array_get pl (separator + 1 + index);
     if gdb_hex_nibble c < 0 then Some False else all_hex_at pl separator rest
   }"

definition patch_bytes :: "u8 list \<Rightarrow> nat \<Rightarrow> u32 \<Rightarrow> nat \<Rightarrow> unit fw" where
  "patch_bytes pl separator addr n =
     for_fw [0..<n]
       (\<lambda>index. bind_fw (of_option_fw (array_get pl (separator + 1 + index * 2))) (\<lambda>h.
          bind_fw (of_option_fw (array_get pl (separator + 2 + index * 2))) (\<lambda>l.
            store8 (addr + of_nat index)
              (ucast (push_bit 4 (of_int (gdb_hex_nibble h)) OR of_int (gdb_hex_nibble l) :: u32)))))"

definition write_memory :: "stub \<Rightarrow> u8 list \<Rightarrow> nat \<Rightarrow> (bool \<times> stub) fw" where
  "write_memory st pl plen =
     bind_fw (of_option_fw (parse_memory_header pl plen)) (\<lambda>h. case h of
       None \<Rightarrow> return_fw (False, st)
     | Some (addr, len, separator) \<Rightarrow>
         if separator = plen then return_fw (False, st)
         else bind_fw (of_option_fw (array_get pl separator)) (\<lambda>colon.
           if colon \<noteq> 0x3a \<or> GDB_PACKET_CAPACITY div 2 < unat len \<or>
              plen - separator - 1 \<noteq> unat len * 2 \<or> \<not> memory_range_allowed addr len
           then return_fw (False, st)
           else bind_fw (of_option_fw (all_hex_at pl separator [0..<unat len * 2])) (\<lambda>ok.
             if \<not> ok then return_fw (False, st)
             else then_fw (patch_bytes pl separator addr (unat len))
               (bind_fw (send_reply st (cstr ''OK'')) (\<lambda>st'. return_fw (True, st'))))))"

section \<open>Commands\<close>

definition continue_target ::
    "stub \<Rightarrow> trap_frame \<Rightarrow> u8 list \<Rightarrow> nat \<Rightarrow> (bool \<times> trap_frame \<times> stub) fw" where
  "continue_target st frame pl plen =
     (if 1 < plen
      then bind_fw (of_option_fw (gdb_parse_hex_u32 (drop 1 pl) (plen - 1))) (\<lambda>a. case a of
          None \<Rightarrow> bind_fw (send_reply st (cstr ''E01'')) (\<lambda>st'. return_fw (False, frame, st'))
        | Some addr \<Rightarrow>
            if addr AND 3 \<noteq> 0 \<or> GDB_BRAM_SIZE \<le> addr
            then bind_fw (send_reply st (cstr ''E01'')) (\<lambda>st'. return_fw (False, frame, st'))
            else return_fw (True, frame\<lparr>mepc := addr\<rparr>, st))
      else if mcause frame = 3 \<and> \<not> resume_pc_explicit st
      then return_fw (True, frame\<lparr>mepc := mepc frame + 4\<rparr>, st)
      else return_fw (True, frame, st))"

definition reply_only ::
    "stub \<Rightarrow> trap_frame \<Rightarrow> u8 list \<Rightarrow> (bool \<times> trap_frame \<times> stub) fw" where
  "reply_only st frame pl = bind_fw (send_reply st pl) (\<lambda>st'. return_fw (False, frame, st'))"

definition ensure_ok ::
    "trap_frame \<Rightarrow> bool \<times> stub \<Rightarrow> (bool \<times> trap_frame \<times> stub) fw" where
  "ensure_ok frame r = (case r of (ok, st) \<Rightarrow>
     if ok then return_fw (False, frame, st) else reply_only st frame (cstr ''E01''))"

definition dispatch_packet :: "stub \<Rightarrow> trap_frame \<Rightarrow> (bool \<times> trap_frame \<times> stub) fw" where
  "dispatch_packet st frame =
     (let pl = payload (packet_parser st); plen = packet_length (packet_parser st)
      in bind_fw (of_option_fw (text_starts_with pl (cstr ''qSupported''))) (\<lambda>b.
      if b then reply_only st frame (cstr ''PacketSize=200'')
      else bind_fw (of_option_fw (text_equal pl (cstr ''vMustReplyEmpty''))) (\<lambda>b.
      if b then reply_only st frame (cstr '''')
      else bind_fw (of_option_fw (text_equal_any pl (map cstr [''Hc0'', ''Hg0'', ''Hc-1'', ''Hg-1'']))) (\<lambda>b.
      if b then reply_only st frame (cstr ''OK'')
      else bind_fw (of_option_fw (text_equal pl (cstr ''qAttached''))) (\<lambda>b.
      if b then reply_only st frame (cstr ''1'')
      else bind_fw (of_option_fw (text_equal pl (cstr ''?''))) (\<lambda>b.
      if b then reply_only st frame (stop_reply (mcause frame))
      else bind_fw (of_option_fw (text_equal pl (cstr ''g''))) (\<lambda>b.
      if b then bind_fw (of_option_fw (encode_registers frame (reply_buffer st))) (\<lambda>buf.
        let st1 = st\<lparr>reply_buffer := buf\<rparr>
        in bind_fw (send_reply_length st1 (reply_buffer st1) GDB_REGISTER_HEX_SIZE) (\<lambda>st2.
          return_fw (False, frame, st2)))
      else bind_fw (of_option_fw (array_get pl 0)) (\<lambda>c.
      if c = 0x47 then bind_fw (of_option_fw (decode_registers frame pl plen)) (\<lambda>r. case r of
          Some frame' \<Rightarrow> reply_only (st\<lparr>resume_pc_explicit := mepc frame' \<noteq> stopped_pc st\<rparr>) frame' (cstr ''OK'')
        | None \<Rightarrow> reply_only st frame (cstr ''E01''))
      else if c = 0x6d then bind_fw (read_memory st pl plen) (ensure_ok frame)
      else if c = 0x4d then bind_fw (write_memory st pl plen) (ensure_ok frame)
      else if c = 0x63 then continue_target st frame pl plen
      else reply_only st frame (cstr '''')))))))))"

section \<open>The trap handler\<close>

definition clear_line_errors :: "stub \<Rightarrow> stub fw" where
  "clear_line_errors st =
     bind_fw uart_get_and_clear_rx_errors (\<lambda>errors.
       if errors \<noteq> 0
       then bind_fw (of_option_fw (gdb_packet_parser_init (packet_parser st))) (\<lambda>p.
         then_fw (uart_putc 0x2d) (return_fw (st\<lparr>packet_parser := p\<rparr>)))
       else return_fw st)"

definition handle_event ::
    "gdb_packet_event \<Rightarrow> stub \<Rightarrow> trap_frame \<Rightarrow> (bool \<times> trap_frame \<times> stub) fw" where
  "handle_event event st frame =
     (if event = GDB_PACKET_READY
      then then_fw (uart_putc 0x2b) (dispatch_packet (st\<lparr>debugger_attached := True\<rparr>) frame)
      else if event = GDB_PACKET_CHECKSUM_ERROR \<or> event = GDB_PACKET_OVERFLOW
      then then_fw (uart_putc 0x2d) (return_fw (False, frame, st))
      else if event = GDB_PACKET_RETRY
      then then_fw (resend_last_reply st) (return_fw (False, frame, st))
      else return_fw (False, frame, st))"

text \<open>One iteration of the endless loop of \<open>trap_dispatch\<close>; True asks to return.\<close>

definition stub_iteration :: "stub \<Rightarrow> trap_frame \<Rightarrow> (bool \<times> trap_frame \<times> stub) fw" where
  "stub_iteration st frame =
     bind_fw (clear_line_errors st) (\<lambda>st1.
     bind_fw uart_getc (\<lambda>ch.
     bind_fw (of_option_fw (gdb_packet_feed (packet_parser st1) ch)) (\<lambda>(event, p).
       handle_event event (st1\<lparr>packet_parser := p\<rparr>) frame)))"

partial_function (option) stub_loop ::
    "stub \<Rightarrow> trap_frame \<Rightarrow> hw \<Rightarrow> machine \<Rightarrow> (trap_frame \<times> stub) outcome option" where
  "stub_loop st frame hw m =
     (case stub_iteration st frame hw m of
        Some (Ret (resume, frame', st') m') \<Rightarrow>
          if resume then Some (Ret (frame', st') m') else stub_loop st' frame' hw m'
      | Some (Stop m') \<Rightarrow> Some (Stop m')
      | Some Fault \<Rightarrow> Some Fault
      | None \<Rightarrow> None)"

definition gdb_trap_dispatch :: "stub \<Rightarrow> trap_frame \<Rightarrow> (trap_frame \<times> stub) fw" where
  "gdb_trap_dispatch st frame =
     (if mcause frame AND 0x80000000 \<noteq> 0 then return_fw (frame, st)
      else bind_fw (of_option_fw (gdb_packet_parser_init (packet_parser st))) (\<lambda>p.
      bind_fw (of_option_fw (array_put (last_reply st) 0 0)) (\<lambda>reply.
        let st1 = st\<lparr>packet_parser := p, last_reply := reply, last_reply_length := 0,
              stopped_pc := mepc frame, resume_pc_explicit := False\<rparr>
        in bind_fw (if debugger_attached st1 then send_reply st1 (stop_reply (mcause frame)) else return_fw st1)
             (\<lambda>st2. stub_loop st2 frame))))"

section \<open>Buffers stay within bounds\<close>

lemma text_length_Some: "0 \<in> set s \<Longrightarrow> \<exists>n. text_length s = Some n \<and> n < length s \<and> s ! n = 0"
  by (induction s) auto

lemma text_length_cstr [simp]: "0 \<notin> set (bytes s) \<Longrightarrow> text_length (cstr s) = Some (length s)"
proof -
  have "0 \<notin> set w \<Longrightarrow> text_length (w @ [0]) = Some (length w)" for w
    by (induction w) auto
  then show "0 \<notin> set (bytes s) \<Longrightarrow> text_length (cstr s) = Some (length s)"
    by (simp add: cstr_def)
qed

lemma text_equal_Some: "0 \<in> set l \<Longrightarrow> 0 \<in> set r \<Longrightarrow> \<exists>b. text_equal l r = Some b"
  by (induction l r rule: text_equal.induct) auto

lemma text_starts_with_Some: "0 \<in> set t \<Longrightarrow> 0 \<in> set p \<Longrightarrow> \<exists>b. text_starts_with t p = Some b"
  by (induction t p rule: text_starts_with.induct) (auto split: list.split)

lemma text_equal_any_Some:
  "0 \<in> set t \<Longrightarrow> (\<And>s. s \<in> set ss \<Longrightarrow> 0 \<in> set s) \<Longrightarrow> \<exists>b. text_equal_any t ss = Some b"
proof (induction ss)
  case (Cons s ss)
  then show ?case using text_equal_Some [of t s] by auto
qed (auto intro: exI [of _ False])

lemma zero_in_cstr [simp]: "0 \<in> set (cstr s)"
  by (simp add: cstr_def)

lemma text_equal_any_cstr: "0 \<in> set t \<Longrightarrow> \<exists>b. text_equal_any t (map cstr ss) = Some b"
  by (rule text_equal_any_Some) auto

lemma record_reply_spec:
  assumes "len \<le> length pl" "len < length reply"
  shows "record_reply pl len reply = Some (take len pl @ 0 # drop (Suc len) reply)"
proof -
  have "fold_option (\<lambda>i r. do { c \<leftarrow> array_get pl i; array_put r i c }) [0..<k] reply =
      Some (take k pl @ drop k reply)" if "k \<le> len" for k
    using that
  proof (induction k)
    case (Suc k)
    then have "k < length pl" "k < length reply" using assms by simp_all
    then show ?case
      using Suc by (simp add: fold_option_append array_simps list_update_append take_Suc_conv_app_nth
          Cons_nth_drop_Suc [symmetric])
  qed simp
  from this [of len] assms show ?thesis
    by (simp add: record_reply_def array_simps list_update_append Cons_nth_drop_Suc [symmetric])
qed

lemma put_encoded_spec:
  assumes "8 \<le> length e" "start + 8 \<le> length buf"
  shows "put_encoded e (buf, start) = Some (take start buf @ take 8 e @ drop (start + 8) buf, start + 8)"
proof -
  let ?f = "\<lambda>digit_index (buf, output_index). do {
       c \<leftarrow> array_get e digit_index;
       buf' \<leftarrow> array_put buf output_index c;
       Some (buf', output_index + 1)
     }"
  have "fold_option ?f [0..<k] (buf, start) =
      Some (take start buf @ take k e @ drop (start + k) buf, start + k)" if "k \<le> 8" for k
    using that
  proof (induction k)
    case (Suc k)
    then have "k < length e" "start + k < length buf" using assms by simp_all
    then show ?case
      using Suc by (simp add: fold_option_append array_simps list_update_append take_Suc_conv_app_nth
          Cons_nth_drop_Suc [symmetric])
  qed simp
  from this [of 8] show ?thesis unfolding put_encoded_def by simp
qed

text \<open>The register \<open>i\<close> as the debugger sees it, and the text of all 33.\<close>

definition reg_value :: "trap_frame \<Rightarrow> nat \<Rightarrow> u32" where
  "reg_value frame i = (if i = 0 then 0 else if i = 32 then mepc frame else x_regs frame ! i)"

definition register_text :: "trap_frame \<Rightarrow> u8 list" where
  "register_text frame = concat (map (\<lambda>i. encode_le (reg_value frame i)) [0..<33])"

definition frame_ok :: "trap_frame \<Rightarrow> bool" where
  "frame_ok frame \<longleftrightarrow> length (x_regs frame) = 32"

lemma length_concat_encode: "length (concat (map (\<lambda>i. encode_le (v i)) [0..<k])) = 8 * k"
  by (induction k) simp_all

lemma length_register_text [simp]: "length (register_text frame) = 264"
  by (simp add: register_text_def length_concat_encode del: upt_rec_numeral)

lemma encode_registers_spec:
  assumes "frame_ok frame" "length buf = 513"
  shows "encode_registers frame buf = Some (register_text frame @ 0 # drop 265 buf)"
proof -
  let ?v = "reg_value frame"
  let ?f = "\<lambda>register_index acc. do {
         v \<leftarrow> (if register_index = 0 then Some 0 else array_get (x_regs frame) register_index);
         encoded \<leftarrow> gdb_encode_u32_le (replicate 9 0) v;
         put_encoded encoded acc
       }"
  have step: "?f i acc = put_encoded (encode_le (?v i) @ [0]) acc" if "i < 32" for i acc
    using that assms(1) by (simp add: encode_u32_spec array_simps frame_ok_def reg_value_def)
  have loop: "fold_option ?f [0..<k] (buf, 0) =
      Some (concat (map (\<lambda>i. encode_le (?v i)) [0..<k]) @ drop (8 * k) buf, 8 * k)" if "k \<le> 32" for k
    using that
  proof (induction k)
    case (Suc k)
    have 1: "?f k (concat (map (\<lambda>i. encode_le (?v i)) [0..<k]) @ drop (8 * k) buf, 8 * k) =
        Some (concat (map (\<lambda>i. encode_le (?v i)) [0..<Suc k]) @ drop (8 * Suc k) buf, 8 * Suc k)"
      using Suc.prems assms(2)
      by (subst step) (simp_all add: put_encoded_spec length_concat_encode)
    have 2: "fold_option ?f [0..<k] (buf, 0) =
        Some (concat (map (\<lambda>i. encode_le (?v i)) [0..<k]) @ drop (8 * k) buf, 8 * k)"
      using Suc by simp
    show ?case
      unfolding upt_Suc_append [OF le0] fold_option_append 2 by (simp only: bind.bind_lunit fold_option.simps 1 upt_Suc_append [OF le0])
  qed simp
  have reg_txt: "register_text frame = concat (map (\<lambda>i. encode_le (?v i)) [0..<32]) @ encode_le (mepc frame)"
  proof -
    have "[0..<33] = [0..<32] @ [32 :: nat]" using upt_Suc_append [of 0 32] by simp
    then show ?thesis by (simp only: register_text_def map_append concat_append) (simp add: reg_value_def)
  qed
  have len: "length (concat (map (\<lambda>i. encode_le (?v i)) [0..<32])) = 256"
    using length_concat_encode [of ?v 32] by simp
  have pc: "put_encoded (encode_le (mepc frame) @ [0])
      (concat (map (\<lambda>i. encode_le (?v i)) [0..<32]) @ drop 256 buf, 256) =
      Some (register_text frame @ drop 264 buf, 264)"
    using assms(2) len by (subst put_encoded_spec) (simp_all add: reg_txt del: upt_rec_numeral)
  show ?thesis
    unfolding encode_registers_def loop [of 32, simplified]
    using assms(2) by (simp add: encode_u32_spec pc array_put_drop del: upt_rec_numeral)
qed

lemma decode_loop_values:
  assumes "\<And>i. k \<le> i \<Longrightarrow> i < 33 \<Longrightarrow> gdb_decode_u32_le (drop (1 + i * 8) pl) = Some (Some (v i))"
    and "length dec = 33" "k \<le> 33"
  shows "decode_loop_registers pl [k..<33] dec = Some (Some (take k dec @ map v [k..<33]))"
  using assms
proof (induction "33 - k" arbitrary: k dec)
  case 0
  then show ?case by simp
next
  case (Suc d)
  then have k: "k < 33" by simp
  have "decode_loop_registers pl [Suc k..<33] (dec[k := v k]) =
      Some (Some (take (Suc k) (dec[k := v k]) @ map v [Suc k..<33]))"
    using Suc.hyps(2) Suc.prems k by (intro Suc.hyps(1)) simp_all
  moreover have "gdb_decode_u32_le (drop (1 + k * 8) pl) = Some (Some (v k))"
    using Suc.prems(1) k by simp
  ultimately show ?case
    using k Suc.prems(2) by (simp add: upt_conv_Cons array_simps take_Suc_conv_app_nth)
qed

lemma decode_loop_total:
  assumes "length pl = 513" "length dec = 33" "k \<le> 33"
  shows "\<exists>r. decode_loop_registers pl [k..<33] dec = Some r \<and> (\<forall>d. r = Some d \<longrightarrow> length d = 33)"
  using assms
proof (induction "33 - k" arbitrary: k dec)
  case 0
  then show ?case by simp
next
  case (Suc d)
  then have k: "k < 33" by simp
  have "\<exists>r. gdb_decode_u32_le (drop (1 + k * 8) pl) = Some r"
    using k Suc.prems(1) by (subst decode_u32_spec) auto
  then obtain r where r: "gdb_decode_u32_le (drop (1 + k * 8) pl) = Some r" ..
  have "\<exists>r. decode_loop_registers pl [Suc k..<33] (dec[k := w]) = Some r \<and> (\<forall>d. r = Some d \<longrightarrow> length d = 33)" for w
    using Suc.hyps(2) Suc.prems k by (intro Suc.hyps(1)) simp_all
  with r k Suc.prems(2) show ?case
    by (auto simp: upt_conv_Cons array_simps split: option.split)
qed

lemma store_registers:
  assumes "length xs = 32" "length d = 33"
  shows "fold_option (\<lambda>i xs. do { v \<leftarrow> array_get d i; array_put xs i v }) [1..<32] xs =
    Some (hd xs # take 31 (tl d))"
proof -
  have "fold_option (\<lambda>i xs. do { v \<leftarrow> array_get d i; array_put xs i v }) [1..<k] xs =
      Some (hd xs # take (k - 1) (tl d) @ drop k xs)" if "1 \<le> k" "k \<le> 32" for k
    using that
  proof (induction k)
    case (Suc k)
    show ?case
    proof (cases "k = 0")
      case True
      then show ?thesis using assms by (cases xs) simp_all
    next
      case False
      then have upt: "[1..<Suc k] = [1..<k] @ [k]" by (simp add: upt_Suc_append)
      have IH: "fold_option (\<lambda>i xs. do { v \<leftarrow> array_get d i; array_put xs i v }) [1..<k] xs =
          Some (hd xs # take (k - 1) (tl d) @ drop k xs)"
        using Suc False by simp
      have pos: "length (hd xs # take (k - 1) (tl d)) = k" using assms Suc.prems False by simp
      obtain j where j: "k = Suc j" using False by (cases k) simp_all
      have nth: "take (k - 1) (tl d) @ [d ! k] = take k (tl d)"
        using assms Suc.prems by (simp add: j nth_tl take_Suc_conv_app_nth)
      have "array_put (hd xs # take (k - 1) (tl d) @ drop k xs) k (d ! k) =
          Some (hd xs # take k (tl d) @ drop (Suc k) xs)"
        using assms Suc.prems pos nth [symmetric]
          array_put_drop [of k "hd xs # take (k - 1) (tl d)" k xs "d ! k"] by simp
      with IH False show ?thesis using assms Suc.prems
        by (simp add: upt fold_option_append array_simps del: One_nat_def)
    qed
  qed simp
  from this [of 32] assms show ?thesis by simp
qed

text \<open>What a successful \<open>G\<close> packet makes of the frame.\<close>

definition with_registers :: "trap_frame \<Rightarrow> u32 list \<Rightarrow> trap_frame" where
  "with_registers frame d = frame\<lparr>x_regs := 0 # take 31 (tl d), mepc := d ! 32\<rparr>"

lemma decode_registers_some:
  assumes "frame_ok frame"
    and "decode_loop_registers pl [0..<33] (replicate 33 0) = Some (Some d)" "length d = 33"
  shows "decode_registers frame pl 265 = Some (Some (with_registers frame d))"
proof -
  have put: "array_put (hd (x_regs frame) # take 31 (tl d)) 0 0 = Some (0 # take 31 (tl d))"
    by (simp add: array_put_def)
  have get: "array_get d 32 = Some (d ! 32)" using assms(3) by (simp add: array_simps)
  show ?thesis
    using assms by (simp add: decode_registers_def GDB_REGISTER_HEX_SIZE_def GDB_REGISTER_COUNT_def
        store_registers [simplified] frame_ok_def put [simplified] get with_registers_def del: upt_rec_numeral)
qed

lemma decode_registers_total:
  assumes "frame_ok frame" "length pl = 513"
  shows "\<exists>r. decode_registers frame pl len = Some r \<and> (\<forall>f. r = Some f \<longrightarrow> frame_ok f)"
proof (cases "len = 265")
  case True
  obtain r where r: "decode_loop_registers pl [0..<33] (replicate 33 0) = Some r"
      "\<And>d. r = Some d \<Longrightarrow> length d = 33"
    using decode_loop_total [of pl "replicate 33 0" 0] assms(2) by auto
  show ?thesis
  proof (cases r)
    case None
    with r True show ?thesis
      by (simp add: decode_registers_def GDB_REGISTER_HEX_SIZE_def GDB_REGISTER_COUNT_def
          del: upt_rec_numeral)
  next
    case (Some d)
    then have "length d = 33" using r(2) by simp
    with decode_registers_some [OF assms(1), of pl d] r Some True show ?thesis
      by (simp add: with_registers_def frame_ok_def)
  qed
next
  case False
  then show ?thesis by (simp add: decode_registers_def GDB_REGISTER_HEX_SIZE_def GDB_REGISTER_COUNT_def)
qed

lemma decode_register_text:
  assumes "i < 33"
  shows "gdb_decode_u32_le (drop (1 + i * 8) (c # register_text frame @ rest)) = Some (Some (reg_value frame i))"
proof -
  let ?e = "\<lambda>i. encode_le (reg_value frame i)"
  have "[0..<33] = [0..<i] @ i # [Suc i..<33]"
    using assms by (metis le0 less_imp_le upt_add_eq_append upt_conv_Cons le_add_diff_inverse)
  then have "register_text frame = concat (map ?e [0..<i]) @ ?e i @ concat (map ?e [Suc i..<33])"
    by (simp only: register_text_def) simp
  moreover have "length (concat (map ?e [0..<i])) = 8 * i" by (rule length_concat_encode)
  ultimately have "drop (i * 8) (register_text frame @ rest) = ?e i @ concat (map ?e [Suc i..<33]) @ rest"
    by (simp add: mult.commute)
  then show ?thesis by (simp add: decode_encode)
qed

lemma decode_encode_registers:
  assumes "frame_ok frame" "frame_ok frame0"
  shows "decode_registers frame0 (c # register_text frame @ rest) 265 =
    Some (Some (frame0\<lparr>x_regs := 0 # tl (x_regs frame), mepc := mepc frame\<rparr>))"
proof -
  have "decode_loop_registers (c # register_text frame @ rest) [0..<33] (replicate 33 0) =
      Some (Some (take 0 (replicate 33 0) @ map (reg_value frame) [0..<33]))"
    by (rule decode_loop_values) (simp_all only: decode_register_text length_replicate)
  then have run: "decode_loop_registers (c # register_text frame @ rest) [0..<33] (replicate 33 0) =
      Some (Some (map (reg_value frame) [0..<33]))"
    by (simp only: take_0 append_Nil)
  have "take 31 (tl (map (reg_value frame) [0..<33])) = tl (x_regs frame)"
    by (rule nth_equalityI) (use assms(1) in \<open>auto simp: frame_ok_def nth_tl reg_value_def\<close>)
  moreover have "map (reg_value frame) [0..<33] ! 32 = mepc frame"
    by (simp add: reg_value_def del: upt_rec_numeral)
  ultimately show ?thesis
    using decode_registers_some [OF assms(2) run] by (simp add: with_registers_def del: upt_rec_numeral)
qed

section \<open>Memory packets\<close>

lemma scan_for_spec:
  assumes "i \<le> len" "len \<le> length pl"
  shows "\<exists>j. scan_for pl len c i = Some j \<and> i \<le> j \<and> j \<le> len \<and> (j < len \<longrightarrow> pl ! j = c)"
  using assms
proof (induction pl len c i rule: scan_for.induct)
  case (1 pl len c i)
  show ?case
  proof (cases "i < len")
    case True
    with 1 show ?thesis by (subst scan_for.simps) (fastforce simp: array_simps)
  next
    case False
    with "1.prems" show ?thesis by (subst scan_for.simps) simp
  qed
qed

lemma scan_for_found:
  assumes "i + length w \<le> len" "take (length w) (drop i pl) = w" "c \<notin> set w" "len \<le> length pl"
    and "i + length w = len \<or> pl ! (i + length w) = c"
  shows "scan_for pl len c i = Some (i + length w)"
  using assms
proof (induction w arbitrary: i)
  case Nil
  then show ?case by (subst scan_for.simps) (auto simp: array_simps)
next
  case (Cons b w)
  from Cons.prems have i: "i < len" "i < length pl" by simp_all
  then have d: "drop i pl = pl ! i # drop (Suc i) pl" by (simp add: Cons_nth_drop_Suc)
  with Cons.prems have "pl ! i = b" "b \<noteq> c" "take (length w) (drop (Suc i) pl) = w" by auto
  moreover have "scan_for pl len c (Suc i) = Some (Suc i + length w)"
    using Cons.prems calculation by (intro Cons.IH) auto
  ultimately show ?case using i by (subst scan_for.simps) (simp add: array_simps)
qed

lemma parse_header_total:
  assumes "1 \<le> plen" "plen \<le> length pl"
  shows "\<exists>r. parse_memory_header pl plen = Some r \<and> (\<forall>a l sep. r = Some (a, l, sep) \<longrightarrow> sep \<le> plen)"
proof -
  obtain comma where comma: "scan_for pl plen 0x2c 1 = Some comma" "1 \<le> comma" "comma \<le> plen"
    using scan_for_spec [of 1 plen pl "0x2c"] assms by auto
  show ?thesis
  proof (cases "comma = plen")
    case True
    with comma show ?thesis by (simp add: parse_memory_header_def)
  next
    case False
    with comma assms obtain e where e: "scan_for pl plen 0x3a (comma + 1) = Some e" "comma + 1 \<le> e" "e \<le> plen"
      using scan_for_spec [of "comma + 1" plen pl "0x3a"] by auto
    have "comma - 1 \<le> length (drop 1 pl)" "e - comma - 1 \<le> length (drop (comma + 1) pl)"
      using comma e assms False by auto
    from parse_hex_spec [OF this(1)] parse_hex_spec [OF this(2)] comma e False show ?thesis
      by (auto simp: parse_memory_header_def)
  qed
qed

text \<open>A well-formed header \<open>cADDR,LEN\<close> ending at the separator or at the end of the packet.\<close>

lemma parse_header_wellformed:
  assumes pl: "pl = c # as @ 0x2c # ls @ rest" and plen: "plen \<le> length pl" "2 + length as + length ls \<le> plen"
    and hex: "list_all is_hex as" "list_all is_hex ls" "0 < length as" "length as \<le> 8"
      "0 < length ls" "length ls \<le> 8"
    and stop: "plen = 2 + length as + length ls \<or> (rest \<noteq> [] \<and> hd rest = 0x3a)"
  shows "parse_memory_header pl plen =
    Some (Some (of_nat (hex_number as), of_nat (hex_number ls), 2 + length as + length ls))"
proof -
  have not_sep: "is_hex ch \<Longrightarrow> ch \<noteq> 0x2c \<and> ch \<noteq> 0x3a" for ch
    by (auto simp: is_hex_def gdb_hex_nibble_def)
  have nth: "pl ! (1 + length as) = 0x2c" by (simp add: pl)
  have 1: "scan_for pl plen 0x2c 1 = Some (1 + length as)"
    using plen hex(1) not_sep nth by (intro scan_for_found) (auto simp: pl list_all_iff)
  have "pl ! (2 + length as + length ls) = hd rest" if "rest \<noteq> []"
    using that by (cases rest) (simp_all add: pl nth_append)
  then have 2: "scan_for pl plen 0x3a (1 + length as + 1) = Some (1 + length as + 1 + length ls)"
    using plen hex(2) not_sep stop by (intro scan_for_found) (auto simp: pl list_all_iff)
  have p1: "gdb_parse_hex_u32 (drop 1 pl) (length as) = Some (Some (of_nat (hex_number as)))"
    using hex by (subst parse_hex_spec) (simp_all add: pl)
  have p2: "gdb_parse_hex_u32 (drop (1 + length as + 1) pl) (length ls) = Some (Some (of_nat (hex_number ls)))"
    using hex by (subst parse_hex_spec) (simp_all add: pl)
  have "1 + length as \<noteq> plen" using plen by simp
  with 1 2 p1 p2 show ?thesis by (simp add: parse_memory_header_def)
qed

text \<open>\<open>memory_range_allowed\<close> is exactly: not empty, no wrap-around, every byte in one RAM.\<close>

definition in_ram :: "nat \<Rightarrow> nat \<Rightarrow> bool" where
  "in_ram a n \<longleftrightarrow> a + n \<le> 0x10000 \<or> (0x80000000 \<le> a \<and> a + n \<le> 0x82000000)"

lemma range_inside_iff:
  assumes "unat base + unat sz \<le> 2 ^ 32"
  shows "range_inside addr len base sz \<longleftrightarrow> unat base \<le> unat addr \<and> unat addr + unat len \<le> unat base + unat sz"
proof (cases "base \<le> addr \<and> len \<le> sz")
  case True
  then have "unat (addr - base) = unat addr - unat base" "unat (sz - len) = unat sz - unat len"
    by (simp_all add: unat_sub)
  with True show ?thesis by (auto simp: range_inside_def word_le_nat_alt)
next
  case False
  then show ?thesis by (auto simp: range_inside_def word_le_nat_alt)
qed

lemma range_allowed_iff:
  "memory_range_allowed addr len \<longleftrightarrow> 0 < unat len \<and> in_ram (unat addr) (unat len)"
  by (auto simp: memory_range_allowed_def range_inside_iff addr_defs in_ram_def unat_gt_0)

section \<open>The stub never leaves its buffers\<close>

definition stub_ok :: "stub \<Rightarrow> bool" where
  "stub_ok st \<longleftrightarrow> parser_ok (packet_parser st) \<and> length (reply_buffer st) = 513 \<and>
     length (last_reply st) = 513 \<and> last_reply_length st \<le> 512"

text \<open>The parser holds a complete packet.\<close>

definition packet_ready :: "stub \<Rightarrow> bool" where
  "packet_ready st \<longleftrightarrow> payload (packet_parser st) ! packet_length (packet_parser st) = 0"

lemma stub_ok_update [simp]:
  "stub_ok (st\<lparr>resume_pc_explicit := b\<rparr>) = stub_ok st"
  "stub_ok (st\<lparr>debugger_attached := b\<rparr>) = stub_ok st"
  by (simp_all add: stub_ok_def)

lemma stub_ok_reply_buffer: "stub_ok st \<Longrightarrow> length buf = 513 \<Longrightarrow> stub_ok (st\<lparr>reply_buffer := buf\<rparr>)"
  by (simp add: stub_ok_def)

lemma checksum_nibbles:
  fixes c :: u32
  assumes "unat c < 256"
  shows "unat (drop_bit 4 c) < 16" "unat (c AND 0xf) < 16"
  using nibbles_of_byte [OF assms] by simp_all

lemma nf_send_packet: "len \<le> length pl \<Longrightarrow> no_fault (send_packet_bytes pl len) (\<lambda>_. True)"
  unfolding send_packet_bytes_def
proof (intro nf_then nf_putc)
  assume len: "len \<le> length pl"
  show "no_fault
     (bind_fw
         (fold_fw [0..<len]
           (\<lambda>index checksum. bind_fw (of_option_fw (array_get pl index)) (\<lambda>byte.
              then_fw (uart_putc byte) (return_fw ((checksum + ucast byte) AND 0xff)))) (0 :: u32))
         (\<lambda>checksum. seq_fw [uart_putc 0x23,
            bind_fw (of_option_fw (array_get gdb_hex_digits (unat (drop_bit 4 checksum)))) uart_putc,
            bind_fw (of_option_fw (array_get gdb_hex_digits (unat (checksum AND 0xf)))) uart_putc]))
     (\<lambda>_. True)"
  proof (rule nf_bind [where R = "\<lambda>c. unat c < 256"])
    show "no_fault (fold_fw [0..<len]
           (\<lambda>index checksum. bind_fw (of_option_fw (array_get pl index)) (\<lambda>byte.
              then_fw (uart_putc byte) (return_fw ((checksum + ucast byte) AND 0xff)))) (0 :: u32))
        (\<lambda>c. unat c < 256)"
      using len by (intro nf_fold) (auto simp: array_simps unat_and_255 intro!: nf_then nf_putc nf_return)
  next
    fix c :: u32 assume "unat c < 256"
    from checksum_nibbles [OF this] show "no_fault (seq_fw [uart_putc 0x23,
            bind_fw (of_option_fw (array_get gdb_hex_digits (unat (drop_bit 4 c)))) uart_putc,
            bind_fw (of_option_fw (array_get gdb_hex_digits (unat (c AND 0xf)))) uart_putc]) (\<lambda>_. True)"
      by (auto simp: array_simps intro!: nf_then nf_putc nf_return)
  qed
qed simp

text \<open>A reply changes only the copy kept for retransmission.\<close>

definition replied :: "stub \<Rightarrow> stub \<Rightarrow> bool" where
  "replied st st' \<longleftrightarrow> stub_ok st' \<and>
     st' = st\<lparr>last_reply := last_reply st', last_reply_length := last_reply_length st'\<rparr>"

text \<open>What a reply leaves alone: the packet, and what the stub knows of the stop.\<close>

definition answered :: "stub \<Rightarrow> stub \<Rightarrow> bool" where
  "answered st st' \<longleftrightarrow> stub_ok st' \<and> packet_parser st' = packet_parser st \<and> stopped_pc st' = stopped_pc st \<and>
     resume_pc_explicit st' = resume_pc_explicit st \<and> debugger_attached st' = debugger_attached st"

lemma replied_answered: "replied st st' \<Longrightarrow> answered st st'"
  unfolding replied_def answered_def by (metis stub.select_convs stub.surjective stub.update_convs(3,4))

lemma nf_reply_length:
  assumes "stub_ok st" "len \<le> length pl" "len \<le> 512"
  shows "no_fault (send_reply_length st pl len) (replied st)"
proof -
  have rec: "record_reply pl len (last_reply st) = Some (take len pl @ 0 # drop (Suc len) (last_reply st))"
    using assms by (intro record_reply_spec) (simp_all add: stub_ok_def)
  then show ?thesis
    unfolding send_reply_length_def Let_def
    using assms by (auto intro!: nf_then nf_send_packet nf_return simp: replied_def stub_ok_def)
qed

lemma nf_reply:
  assumes "stub_ok st" "text_length pl = Some n" "n \<le> length pl" "n \<le> 512"
  shows "no_fault (send_reply st pl) (replied st)"
  unfolding send_reply_def using assms by (simp add: nf_reply_length)

lemma nf_reply_cstr:
  assumes "stub_ok st" "0 \<notin> set (bytes s)" "length s \<le> 512"
  shows "no_fault (send_reply st (cstr s)) (replied st)"
  using assms by (intro nf_reply [of st "cstr s" "length s"]) (simp_all, simp add: cstr_def)

definition literals :: "string set" where
  "literals = {''S04'', ''S05'', ''S0b'', ''OK'', ''E01'', [], ''1'', ''PacketSize=200''}"

lemma literal_text:
  assumes "s \<in> literals"
  shows "0 \<notin> set (bytes s) \<and> length s \<le> 512"
  using assms by (auto simp: bytes_def literals_def)

lemma nf_reply_literal:
  assumes "stub_ok st" "s \<in> literals"
  shows "no_fault (send_reply st (cstr s)) (replied st)"
  using assms literal_text [OF assms(2)] by (intro nf_reply_cstr) simp_all

lemma stop_reply_literal: "\<exists>s \<in> literals. stop_reply c = cstr s"
  by (simp add: stop_reply_def literals_def)

lemma nf_reply_stop: "stub_ok st \<Longrightarrow> no_fault (send_reply st (stop_reply c)) (replied st)"
  using stop_reply_literal [of c] nf_reply_literal [of st] by auto

lemma replied_ok: "replied st st' \<Longrightarrow> stub_ok st'"
  by (simp add: replied_def)

lemma nf_read_memory:
  assumes "stub_ok st" "1 \<le> plen" "plen \<le> length pl"
  shows "no_fault (read_memory st pl plen) (\<lambda>(_, st'). stub_ok st')"
proof -
  obtain r where r: "parse_memory_header pl plen = Some r"
    using parse_header_total [OF assms(2,3)] by blast
  have byte: "unat (ucast (b :: u8) :: u32) < 256" for b
    using unsigned_less [of b, where 'a = nat]
    by (simp add: unsigned_ucast_eq take_bit_nat_eq_self_iff [THEN iffD2])
  have dump: "no_fault (dump_bytes addr n (reply_buffer st)) (\<lambda>buf. length buf = 513)"
    if "n \<le> 256" for n addr
    unfolding dump_bytes_def
    using assms(1) that checksum_nibbles [OF byte]
    by (intro nf_fold nf_bind [OF nf_load8 [where Q = "\<lambda>_. True"]])
      (auto simp: stub_ok_def array_simps Let_def intro!: nf_of_option)
  have send: "no_fault (bind_fw (of_option_fw (array_put buf (n * 2) 0)) (\<lambda>buf'.
       bind_fw (send_reply_length (st\<lparr>reply_buffer := buf'\<rparr>) buf' (n * 2)) (\<lambda>st2. return_fw (True, st2))))
     (\<lambda>(_, st'). stub_ok st')" if "n \<le> 256" "length buf = 513" for n buf
    using that assms(1)
    by (auto simp: array_simps dest: replied_ok
        intro!: nf_bind [OF nf_reply_length] nf_return stub_ok_reply_buffer)
  show ?thesis
    unfolding read_memory_def r of_option_bind_fw
    using assms(1)
    by (auto simp: GDB_PACKET_CAPACITY_def Let_def split: option.split prod.split
        intro!: nf_return nf_bind [OF dump] send)
qed

lemma nf_write_memory:
  assumes "stub_ok st" "1 \<le> plen" "plen \<le> length pl"
  shows "no_fault (write_memory st pl plen) (\<lambda>(_, st'). stub_ok st')"
proof -
  obtain r where r: "parse_memory_header pl plen = Some r"
      "\<forall>a l sep. r = Some (a, l, sep) \<longrightarrow> sep \<le> plen"
    using parse_header_total [OF assms(2,3)] by blast
  have hex: "\<exists>b. all_hex_at pl sep is = Some b" if "\<And>i. i \<in> set is \<Longrightarrow> sep + 1 + i < length pl" for sep "is"
    using that by (induction "is") (auto simp: array_simps)
  have patch: "no_fault (patch_bytes pl sep addr n) (\<lambda>_. True)" if "sep + 2 * n < length pl" for sep addr n
    unfolding patch_bytes_def using that
    by (intro nf_for nf_bind_option [OF array_get_Some] nf_store8) auto
  have reply: "no_fault (bind_fw (send_reply st (cstr ''OK'')) (\<lambda>st'. return_fw (True, st'))) (\<lambda>(_, st'). stub_ok st')"
    using nf_reply_literal [OF assms(1), of "''OK''"]
    by (rule nf_bind) (auto simp: literals_def intro: nf_return dest: replied_ok)
  have body: "no_fault
     (bind_fw (of_option_fw (array_get pl sep)) (\<lambda>colon.
           if colon \<noteq> 0x3a \<or> GDB_PACKET_CAPACITY div 2 < unat len \<or>
              plen - sep - 1 \<noteq> unat len * 2 \<or> \<not> memory_range_allowed addr len
           then return_fw (False, st)
           else bind_fw (of_option_fw (all_hex_at pl sep [0..<unat len * 2])) (\<lambda>ok.
             if \<not> ok then return_fw (False, st)
             else then_fw (patch_bytes pl sep addr (unat len))
               (bind_fw (send_reply st (cstr ''OK'')) (\<lambda>st'. return_fw (True, st'))))))
     (\<lambda>(_, st'). stub_ok st')" if sep: "sep < plen" for sep addr len
  proof (rule nf_bind_option [OF array_get_Some])
    show "sep < length pl" using sep assms(3) by simp
    show "no_fault
     (if pl ! sep \<noteq> 0x3a \<or> GDB_PACKET_CAPACITY div 2 < unat len \<or>
              plen - sep - 1 \<noteq> unat len * 2 \<or> \<not> memory_range_allowed addr len
           then return_fw (False, st)
           else bind_fw (of_option_fw (all_hex_at pl sep [0..<unat len * 2])) (\<lambda>ok.
             if \<not> ok then return_fw (False, st)
             else then_fw (patch_bytes pl sep addr (unat len))
               (bind_fw (send_reply st (cstr ''OK'')) (\<lambda>st'. return_fw (True, st')))))
     (\<lambda>(_, st'). stub_ok st')"
    proof (cases "plen - sep - 1 = unat len * 2")
      case True
      then have room: "sep + 2 * unat len < length pl" using sep assms(3) by linarith
      then obtain b where "all_hex_at pl sep [0..<unat len * 2] = Some b" using hex [of "[0..<unat len * 2]" sep] by auto
      then show ?thesis using assms(1) reply patch [OF room] by (auto intro!: nf_return nf_then)
    next
      case False
      then show ?thesis using assms(1) by (auto intro: nf_return)
    qed
  qed
  show ?thesis
    unfolding write_memory_def r of_option_bind_fw
    using assms(1) r(2) body by (auto intro!: nf_return body split: option.split)
qed

definition result_ok :: "bool \<times> trap_frame \<times> stub \<Rightarrow> bool" where
  "result_ok r \<longleftrightarrow> (case r of (_, frame, st) \<Rightarrow> frame_ok frame \<and> stub_ok st)"

lemma nf_reply_only:
  assumes "stub_ok st" "frame_ok frame" "\<exists>s \<in> literals. pl = cstr s"
  shows "no_fault (reply_only st frame pl) result_ok"
proof -
  obtain s where s: "s \<in> literals" "pl = cstr s" using assms(3) by blast
  show ?thesis
    unfolding reply_only_def s(2)
    by (rule nf_bind [OF nf_reply_literal [OF assms(1) s(1)]])
      (use assms(2) in \<open>auto simp: result_ok_def intro!: nf_return dest: replied_ok\<close>)
qed

lemma nf_ensure_ok:
  assumes "frame_ok frame" "stub_ok st"
  shows "no_fault (ensure_ok frame (ok, st)) result_ok"
  unfolding ensure_ok_def using assms
  by (auto intro!: nf_reply_only nf_return bexI [of _ "''E01''"] simp: result_ok_def literals_def)

lemma nf_continue:
  assumes "stub_ok st" "frame_ok frame" "plen \<le> length pl"
  shows "no_fault (continue_target st frame pl plen) result_ok"
proof -
  have err: "no_fault (bind_fw (send_reply st (cstr ''E01'')) (\<lambda>st'. return_fw (False, frame, st'))) result_ok"
    using nf_reply_only [OF assms(1,2), of "cstr ''E01''"] by (auto simp: reply_only_def literals_def)
  have "plen - 1 \<le> length (drop 1 pl)" using assms(3) by simp
  from parse_hex_spec [OF this] obtain r where "gdb_parse_hex_u32 (drop 1 pl) (plen - 1) = Some r" by blast
  then show ?thesis
    unfolding continue_target_def using err assms
    by (auto intro!: nf_return simp: result_ok_def frame_ok_def split: option.split)
qed

lemma nf_dispatch:
  assumes ok: "stub_ok st" and frame: "frame_ok frame" and ready: "packet_ready st"
  shows "no_fault (dispatch_packet st frame) result_ok"
proof -
  define pl plen where "pl = payload (packet_parser st)" and "plen = packet_length (packet_parser st)"
  have pl: "length pl = 513" "plen \<le> 512" "pl ! plen = 0"
    using ok ready by (simp_all add: stub_ok_def packet_ready_def parser_ok_def GDB_PACKET_CAPACITY_def
        pl_def plen_def)
  then have z: "0 \<in> set pl" using nth_mem [of plen pl] by simp
  have plen: "1 \<le> plen \<and> plen \<le> length pl" if "pl ! 0 \<noteq> 0"
    using pl that by (cases plen) simp_all
  have lit: "no_fault (reply_only st frame (cstr s)) result_ok" if "s \<in> literals" for s
    using that by (intro nf_reply_only [OF ok frame]) blast
  have stop: "no_fault (reply_only st frame (stop_reply (mcause frame))) result_ok"
    using stop_reply_literal by (rule nf_reply_only [OF ok frame])
  have regs: "no_fault (bind_fw (of_option_fw (encode_registers frame (reply_buffer st))) (\<lambda>buf.
        let st1 = st\<lparr>reply_buffer := buf\<rparr>
        in bind_fw (send_reply_length st1 (reply_buffer st1) GDB_REGISTER_HEX_SIZE) (\<lambda>st2.
          return_fw (False, frame, st2)))) result_ok"
    using ok frame
    by (auto simp: encode_registers_spec stub_ok_def [of st] Let_def GDB_REGISTER_HEX_SIZE_def
        GDB_REGISTER_COUNT_def result_ok_def intro!: nf_bind [OF nf_reply_length] nf_return
        stub_ok_reply_buffer dest: replied_ok)
  have set_regs: "no_fault (bind_fw (of_option_fw (decode_registers frame pl plen)) (\<lambda>r. case r of
          Some frame' \<Rightarrow> reply_only (st\<lparr>resume_pc_explicit := mepc frame' \<noteq> stopped_pc st\<rparr>) frame' (cstr ''OK'')
        | None \<Rightarrow> reply_only st frame (cstr ''E01''))) result_ok"
    using decode_registers_total [OF frame pl(1), of plen] ok frame
    by (auto simp: literals_def intro!: nf_reply_only split: option.split)
  have ensure: "no_fault (ensure_ok frame r) result_ok" if "case r of (_, st') \<Rightarrow> stub_ok st'" for r
    using that frame by (cases r) (auto intro: nf_ensure_ok)
  have mem_read: "no_fault (bind_fw (read_memory st pl plen) (ensure_ok frame)) result_ok" if "pl ! 0 \<noteq> 0"
    using plen [OF that] ok by (intro nf_bind [OF nf_read_memory] ensure) auto
  have mem_write: "no_fault (bind_fw (write_memory st pl plen) (ensure_ok frame)) result_ok" if "pl ! 0 \<noteq> 0"
    using plen [OF that] ok by (intro nf_bind [OF nf_write_memory] ensure) auto
  have cont: "no_fault (continue_target st frame pl plen) result_ok"
    using nf_continue [OF ok frame] pl by simp
  have first: "array_get pl 0 = Some (pl ! 0)" using pl by (simp add: array_simps)
  obtain b1 where b1: "text_starts_with pl (cstr ''qSupported'') = Some b1"
    using text_starts_with_Some [OF z] by force
  have eqs: "\<exists>b. text_equal pl (cstr s) = Some b" for s using text_equal_Some [OF z] by simp
  obtain b2 b4 b5 b6 where b2: "text_equal pl (cstr ''vMustReplyEmpty'') = Some b2"
      "text_equal pl (cstr ''qAttached'') = Some b4" "text_equal pl (cstr ''?'') = Some b5"
      "text_equal pl (cstr ''g'') = Some b6"
    using eqs by metis
  obtain b3 where b3: "text_equal_any pl (map cstr [''Hc0'', ''Hg0'', ''Hc-1'', ''Hg-1'']) = Some b3"
    using text_equal_any_cstr [OF z] by blast
  show ?thesis
    unfolding dispatch_packet_def pl_def [symmetric] plen_def [symmetric] Let_def [of pl] Let_def [of plen]
      b1 b2 b3 first of_option_bind_fw
    using lit stop regs set_regs mem_read mem_write cont
    by (simp add: literals_def)
qed

lemma feed_stub:
  assumes "stub_ok st"
  obtains event p where "gdb_packet_feed (packet_parser st) ch = Some (event, p)"
    "stub_ok (st\<lparr>packet_parser := p\<rparr>)"
    "event = GDB_PACKET_READY \<longrightarrow> packet_ready (st\<lparr>packet_parser := p\<rparr>)"
proof -
  obtain event p where "gdb_packet_feed (packet_parser st) ch = Some (event, p)" "parser_ok p"
      "event = GDB_PACKET_READY \<longrightarrow> payload p ! packet_length p = 0"
    using parser_ok_feed [of "packet_parser st" ch] assms by (auto simp: stub_ok_def)
  then show thesis using assms by (intro that [of event p]) (auto simp: stub_ok_def packet_ready_def)
qed

lemma nf_clear_line_errors:
  assumes "stub_ok st"
  shows "no_fault (clear_line_errors st) stub_ok"
proof -
  have "length (payload (packet_parser st)) = GDB_PACKET_CAPACITY + 1"
    using assms by (simp add: stub_ok_def parser_ok_def)
  from init_ok [OF this] obtain p where "gdb_packet_parser_init (packet_parser st) = Some p" "parser_ok p"
    by blast
  then show ?thesis
    unfolding clear_line_errors_def using assms
    by (auto intro!: nf_bind [OF nf_clear_errors] nf_then nf_putc nf_return simp: stub_ok_def)
qed

lemma nf_handle_event:
  assumes "stub_ok st" "frame_ok frame" "event = GDB_PACKET_READY \<Longrightarrow> packet_ready st"
  shows "no_fault (handle_event event st frame) result_ok"
proof -
  have "packet_ready (st\<lparr>debugger_attached := True\<rparr>)" if "packet_ready st"
    using that by (simp add: packet_ready_def)
  moreover have "last_reply_length st \<le> length (last_reply st)" using assms(1) by (simp add: stub_ok_def)
  ultimately show ?thesis
    unfolding handle_event_def resend_last_reply_def using assms
    by (auto intro!: nf_then nf_putc nf_return nf_dispatch nf_send_packet simp: result_ok_def)
qed

lemma nf_iteration:
  assumes "stub_ok st" "frame_ok frame"
  shows "no_fault (stub_iteration st frame) result_ok"
  unfolding stub_iteration_def
proof (rule nf_bind [OF nf_clear_line_errors [OF assms(1)]], rule nf_bind [OF nf_getc])
  fix st1 ch assume "stub_ok st1"
  then obtain event p where "gdb_packet_feed (packet_parser st1) ch = Some (event, p)"
      "stub_ok (st1\<lparr>packet_parser := p\<rparr>)"
      "event = GDB_PACKET_READY \<longrightarrow> packet_ready (st1\<lparr>packet_parser := p\<rparr>)"
    by (rule feed_stub [of st1 ch])
  then show "no_fault (bind_fw (of_option_fw (gdb_packet_feed (packet_parser st1) ch)) (\<lambda>(event, p).
       handle_event event (st1\<lparr>packet_parser := p\<rparr>) frame)) result_ok"
    using assms(2) by (simp add: nf_handle_event)
qed

lemma stub_loop_no_fault:
  assumes "stub_loop st frame hw m = Some r" "stub_ok st" "frame_ok frame"
  shows "r \<noteq> Fault \<and> (\<forall>frame' st' m'. r = Ret (frame', st') m' \<longrightarrow> frame_ok frame' \<and> stub_ok st')"
proof -
  let ?P = "\<lambda>st frame hw m r. stub_ok st \<longrightarrow> frame_ok frame \<longrightarrow>
    r \<noteq> Fault \<and> (\<forall>frame' st' m'. r = Ret (frame', st') m' \<longrightarrow> frame_ok frame' \<and> stub_ok st')"
  have "?P st frame hw m r"
  proof (rule stub_loop.raw_induct [where P = ?P, OF _ assms(1)])
    fix loop :: "stub \<Rightarrow> trap_frame \<Rightarrow> hw \<Rightarrow> machine \<Rightarrow> (trap_frame \<times> stub) outcome option"
      and st frame hw m r
    assume IH: "\<And>st frame hw m r. loop st frame hw m = Some r \<Longrightarrow> ?P st frame hw m r"
      and eq: "(case stub_iteration st frame hw m of
        Some (Ret (resume, frame', st') m') \<Rightarrow>
          if resume then Some (Ret (frame', st') m') else loop st' frame' hw m'
      | Some (Stop m') \<Rightarrow> Some (Stop m')
      | Some Fault \<Rightarrow> Some Fault
      | None \<Rightarrow> None) = Some r"
    show "?P st frame hw m r"
    proof (intro impI)
      assume ok: "stub_ok st" "frame_ok frame"
      obtain q where q: "stub_iteration st frame hw m = Some q"
        using eq by (auto split: option.splits)
      from nf_run [OF nf_iteration [OF ok] q] have nq: "q \<noteq> Fault"
          "\<And>a m'. q = Ret a m' \<Longrightarrow> result_ok a"
        by blast+
      show "r \<noteq> Fault \<and> (\<forall>frame' st' m'. r = Ret (frame', st') m' \<longrightarrow> frame_ok frame' \<and> stub_ok st')"
      proof (cases q)
        case (Ret a m')
        obtain resume frame' st' where a: "a = (resume, frame', st')" by (cases a)
        have "frame_ok frame'" "stub_ok st'" using nq(2) [OF Ret] by (simp_all add: result_ok_def a)
        with eq q Ret a IH show ?thesis by (cases resume) auto
      qed (use eq q nq in auto)
    qed
  qed
  with assms(2,3) show ?thesis by simp
qed

text \<open>All that is needed of the static buffers on entry is their size.\<close>

definition stub_sized :: "stub \<Rightarrow> bool" where
  "stub_sized st \<longleftrightarrow> length (payload (packet_parser st)) = 513 \<and> length (reply_buffer st) = 513 \<and>
     length (last_reply st) = 513"

lemma nf_trap_dispatch:
  assumes "stub_sized st" "frame_ok frame"
  shows "no_fault (gdb_trap_dispatch st frame) (\<lambda>(frame', st'). frame_ok frame' \<and> stub_sized st')"
proof -
  have sized: "stub_ok s \<Longrightarrow> stub_sized s" for s
    by (simp add: stub_ok_def stub_sized_def parser_ok_def GDB_PACKET_CAPACITY_def)
  have loop: "no_fault (stub_loop s frame) (\<lambda>(frame', st'). frame_ok frame' \<and> stub_sized st')" if "stub_ok s" for s
    unfolding no_fault_def using stub_loop_no_fault [OF _ that assms(2)] sized
    by (fastforce split: option.split outcome.split)
  have "length (payload (packet_parser st)) = GDB_PACKET_CAPACITY + 1"
    using assms by (simp add: stub_sized_def GDB_PACKET_CAPACITY_def)
  from init_ok [OF this] obtain p where p: "gdb_packet_parser_init (packet_parser st) = Some p" "parser_ok p"
    by blast
  have l: "array_put (last_reply st) 0 0 = Some ((last_reply st)[0 := 0])"
    using assms by (simp add: array_put_def stub_sized_def)
  define st1 where "st1 = st\<lparr>packet_parser := p, last_reply := (last_reply st)[0 := 0], last_reply_length := 0,
              stopped_pc := mepc frame, resume_pc_explicit := False\<rparr>"
  have st1: "stub_ok st1" using assms(1) p(2) by (simp add: stub_ok_def stub_sized_def st1_def)
  show ?thesis
    unfolding gdb_trap_dispatch_def p(1) l of_option_bind_fw Let_def st1_def [symmetric]
    using assms st1
    by (auto intro!: nf_return nf_bind [OF nf_reply_stop] loop dest: replied_ok)
qed

section \<open>What the stub answers\<close>

text \<open>The hexadecimal dump of a region, and a region overwritten by a list of bytes.\<close>

definition dump :: "memory \<Rightarrow> u32 \<Rightarrow> nat \<Rightarrow> u8 list" where
  "dump mm addr n = concat (map (\<lambda>i. encode_byte (mm (addr + of_nat i))) [0..<n])"

definition patch :: "memory \<Rightarrow> u32 \<Rightarrow> u8 list \<Rightarrow> memory" where
  "patch mm addr ws = (\<lambda>a. if unat (a - addr) < length ws then ws ! unat (a - addr) else mm a)"

fun hex_pairs :: "u8 list \<Rightarrow> u8 list" where
  "hex_pairs (h # l # ds) = hex_byte h l # hex_pairs ds"
| "hex_pairs _ = []"

lemma length_dump [simp]: "length (dump mm addr n) = 2 * n"
  by (induction n) (simp_all add: dump_def encode_byte_def)

lemma length_hex_pairs: "length (hex_pairs ds) = length ds div 2"
  by (induction ds rule: hex_pairs.induct) simp_all

lemma nth_hex_pairs: "2 * i + 1 < length ds \<Longrightarrow> hex_pairs ds ! i = hex_byte (ds ! (2 * i)) (ds ! (2 * i + 1))"
proof (induction ds arbitrary: i rule: hex_pairs.induct)
  case (1 h l ds)
  then show ?case by (cases i) simp_all
qed simp_all

lemma hex_pairs_dump: "hex_pairs (dump mm addr n @ rest) = map (\<lambda>i. mm (addr + of_nat i)) [0..<n] @ hex_pairs rest"
proof (induction n arbitrary: rest)
  case (Suc n)
  have "dump mm addr (Suc n) @ rest = dump mm addr n @ (encode_byte (mm (addr + of_nat n)) @ rest)"
    by (simp add: dump_def)
  then show ?case
    using hex_byte_encode [of "mm (addr + of_nat n)"] by (simp only: Suc.IH) (simp add: encode_byte_def)
qed (simp add: dump_def)

lemma dump_patch:
  assumes "length ws < 2 ^ 32"
  shows "dump (patch mm addr ws) addr (length ws) = concat (map encode_byte ws)"
proof -
  have "map (\<lambda>i. encode_byte (patch mm addr ws (addr + of_nat i))) [0..<length ws] = map encode_byte ws"
    using assms by (intro nth_equalityI) (simp_all add: patch_def unat_of_nat)
  then show ?thesis by (simp add: dump_def)
qed

lemma unat_ucast_u8: "unat (ucast (b :: u8) :: u32) = unat b"
  using unsigned_less [of b, where 'a = nat]
  by (simp add: unsigned_ucast_eq take_bit_nat_eq_self_iff [THEN iffD2])

lemma dump_bytes_run:
  assumes "2 * n \<le> length buf"
  shows "dump_bytes addr n buf hw m = Some (Ret (dump (mem m) addr n @ drop (2 * n) buf) m)"
  using assms
proof (induction n)
  case 0
  then show ?case by (simp add: dump_bytes_def dump_def return_fw_def)
next
  case (Suc n)
  let ?b = "mem m (addr + of_nat n)"
  let ?body = "\<lambda>index buf. bind_fw (load8 (addr + of_nat index)) (\<lambda>b.
          let byte = ucast b :: u32
          in of_option_fw (do {
               hi \<leftarrow> array_get gdb_hex_digits (unat (drop_bit 4 byte));
               buf1 \<leftarrow> array_put buf (index * 2) hi;
               lo \<leftarrow> array_get gdb_hex_digits (unat (byte AND 0xf));
               array_put buf1 (index * 2 + 1) lo
             }))"
  have b: "unat (ucast ?b :: u32) < 256" using unsigned_less [of ?b, where 'a = nat] by (simp add: unat_ucast_u8)
  define D hi lo where "D = dump (mem m) addr n" and "hi = gdb_hex_digits ! (unat ?b div 16)"
    and "lo = gdb_hex_digits ! (unat ?b mod 16)"
  have D: "length D = n * 2" "dump (mem m) addr (Suc n) = D @ [hi, lo]"
    unfolding D_def hi_def lo_def length_dump by (simp_all add: dump_def encode_byte_def)
  have put: "array_put (D @ drop (2 * n) buf) (n * 2) hi = Some (D @ hi # drop (Suc (2 * n)) buf)"
      "array_put (D @ hi # drop (Suc (2 * n)) buf) (n * 2 + 1) lo = Some (D @ hi # lo # drop (Suc (Suc (2 * n))) buf)"
    using Suc.prems D(1) array_put_drop [of "n * 2" D "2 * n" buf hi]
      array_put_drop [of "n * 2 + 1" "D @ [hi]" "Suc (2 * n)" buf lo] by simp_all
  have get: "array_get gdb_hex_digits (unat (drop_bit 4 (ucast ?b :: u32))) = Some hi"
      "array_get gdb_hex_digits (unat (ucast ?b AND 0xf :: u32)) = Some lo"
    using nibbles_of_byte [OF b] unsigned_less [of ?b, where 'a = nat]
    by (simp_all add: array_get_Some unat_ucast_u8 hi_def lo_def)
  have "?body n (D @ drop (2 * n) buf) hw m = Some (Ret (dump (mem m) addr (Suc n) @ drop (2 * Suc n) buf) m)"
    using put get by (simp add: bind_fw_def load8_def of_option_fw_def D(2))
  moreover have "fold_fw [0..<n] ?body buf hw m = Some (Ret (D @ drop (2 * n) buf) m)"
    using Suc by (simp add: dump_bytes_def D_def)
  ultimately show ?case
    unfolding dump_bytes_def upt_Suc_append [OF le0] fold_fw_append
    by (simp add: bind_fw_Ret return_fw_def)
qed

lemma hex_pair_byte:
  assumes "is_hex h" "is_hex l"
  shows "ucast (push_bit 4 (of_int (gdb_hex_nibble h)) OR of_int (gdb_hex_nibble l) :: u32) = hex_byte h l"
proof -
  have "(push_bit 4 (of_int (gdb_hex_nibble h)) OR of_int (gdb_hex_nibble l) :: u32) = ucast (hex_byte h l)"
    using assms by (simp add: nibble_hex_value ucast_hex_byte)
  then show ?thesis by (simp add: ucast_up_ucast_id is_up)
qed

lemma patch_snoc:
  assumes "length ws < 2 ^ 32"
  shows "(patch mm addr ws)(addr + of_nat (length ws) := w) = patch mm addr (ws @ [w])"
proof
  fix a
  have "a = addr + of_nat (length ws) \<longleftrightarrow> unat (a - addr) = length ws"
    using assms by (rule offset_eq)
  then show "((patch mm addr ws)(addr + of_nat (length ws) := w)) a = patch mm addr (ws @ [w]) a"
    by (auto simp: patch_def nth_append less_Suc_eq)
qed

lemma patch_bytes_run:
  assumes "pl = pre @ ds @ rest" "length pre = sep + 1" "list_all is_hex ds" "2 * n \<le> length ds" "n \<le> 256"
  shows "patch_bytes pl sep addr n hw m =
    Some (Ret () (m\<lparr>mem := patch (mem m) addr (take n (hex_pairs ds))\<rparr>))"
  using assms(4,5)
proof (induction n)
  case 0
  then show ?case by (simp add: patch_bytes_def patch_def return_fw_def)
next
  case (Suc n)
  let ?h = "ds ! (2 * n)" and ?l = "ds ! (2 * n + 1)"
  have get: "array_get pl (sep + 1 + n * 2) = Some ?h" "array_get pl (sep + 2 + n * 2) = Some ?l"
    using assms(1,2) Suc.prems by (simp_all add: array_get_def nth_append mult.commute)
  have byte: "ucast (push_bit 4 (of_int (gdb_hex_nibble ?h)) OR of_int (gdb_hex_nibble ?l) :: u32) = hex_pairs ds ! n"
    using assms(3) Suc.prems by (subst hex_pair_byte) (auto simp: list_all_length nth_hex_pairs)
  have len: "length (take n (hex_pairs ds)) = n" "n < length (hex_pairs ds)"
    using Suc.prems by (simp_all add: length_hex_pairs)
  have snoc: "(patch (mem m) addr (take n (hex_pairs ds)))(addr + of_nat n := hex_pairs ds ! n) =
      patch (mem m) addr (take (Suc n) (hex_pairs ds))"
    using patch_snoc [of "take n (hex_pairs ds)" "mem m" addr "hex_pairs ds ! n"] len Suc.prems(2)
    by (simp add: take_Suc_conv_app_nth)
  let ?body = "\<lambda>index. bind_fw (of_option_fw (array_get pl (sep + 1 + index * 2))) (\<lambda>h.
          bind_fw (of_option_fw (array_get pl (sep + 2 + index * 2))) (\<lambda>l.
            store8 (addr + of_nat index)
              (ucast (push_bit 4 (of_int (gdb_hex_nibble h)) OR of_int (gdb_hex_nibble l) :: u32))))"
  have "for_fw [0..<n] ?body hw m = Some (Ret () (m\<lparr>mem := patch (mem m) addr (take n (hex_pairs ds))\<rparr>))"
    using Suc by (simp add: patch_bytes_def)
  moreover have "?body n hw (m\<lparr>mem := patch (mem m) addr (take n (hex_pairs ds))\<rparr>) =
      Some (Ret () (m\<lparr>mem := patch (mem m) addr (take (Suc n) (hex_pairs ds))\<rparr>))"
    unfolding get of_option_bind_fw byte by (simp add: store8_def snoc)
  ultimately have "for_fw ([0..<n] @ [n]) ?body hw m =
      Some (Ret () (m\<lparr>mem := patch (mem m) addr (take (Suc n) (hex_pairs ds))\<rparr>))"
    unfolding for_fw_append for_fw.simps then_fw_def by (simp only: bind_fw_Ret bind_return_unit)
  then show ?case by (simp add: patch_bytes_def)
qed

lemma all_hex_at_spec:
  assumes "pl = pre @ ds" "length pre = sep + 1" "k \<le> n" "n \<le> length ds"
  shows "all_hex_at pl sep [k..<n] = Some (list_all is_hex (drop k (take n ds)))"
  using assms(3,4)
proof (induction "n - k" arbitrary: k)
  case (Suc d)
  then have k: "k < n" "k < length ds" by simp_all
  have get: "array_get pl (sep + 1 + k) = Some (ds ! k)"
    using assms(1,2) k by (simp add: array_get_def nth_append)
  have "drop k (take n ds) = ds ! k # drop (Suc k) (take n ds)"
    using k by (simp add: Cons_nth_drop_Suc [symmetric])
  moreover have "all_hex_at pl sep [Suc k..<n] = Some (list_all is_hex (drop (Suc k) (take n ds)))"
    using Suc k by (intro Suc.hyps(1)) simp_all
  ultimately show ?case using k get by (simp add: upt_conv_Cons nibble_neg)
qed simp

context uart_tx
begin

lemma does_send_packet:
  assumes "len \<le> length pl"
  shows "emits hw (send_packet_bytes pl len) (map tx (frame_of (take len pl)))"
proof -
  let ?body = "\<lambda>index checksum. bind_fw (of_option_fw (array_get pl index)) (\<lambda>byte.
              then_fw (uart_putc byte) (return_fw ((checksum + ucast byte) AND 0xff)))"
  have put: "does hw (uart_putc c) (\<lambda>_ es. es = [tx c])" for c
    using emits_putc by (simp add: emits_def)
  have loop: "does hw (fold_fw [0..<k] ?body (0 :: u32))
      (\<lambda>c es. c = checksum_of (take k pl) \<and> es = map tx (take k pl))" if "k \<le> len" for k
    using that
  proof (induction k)
    case 0
    then show ?case by (simp add: does_return checksum_of_def)
  next
    case (Suc k)
    then have k: "k < length pl" using assms by simp
    show ?case
      unfolding upt_Suc_append [OF le0] fold_fw_append
      by (rule does_bind [OF Suc.IH])
        (use Suc.prems k in \<open>auto simp: array_get_Some take_Suc_conv_app_nth checksum_snoc
          intro!: does_then [OF put] does_return\<close>)
  qed
  have tail: "emits hw (seq_fw [uart_putc 0x23,
            bind_fw (of_option_fw (array_get gdb_hex_digits (unat (drop_bit 4 c)))) uart_putc,
            bind_fw (of_option_fw (array_get gdb_hex_digits (unat (c AND 0xf)))) uart_putc])
     (map tx [0x23, gdb_hex_digits ! (unat c div 16), gdb_hex_digits ! (unat c mod 16)])" if "unat c < 256" for c :: u32
    using emits_seq_Cons [OF emits_putc emits_seq_Cons [OF emits_putc emits_seq_Cons [OF emits_putc emits_seq_Nil]]]
      nibbles_of_byte [OF that] by (simp add: array_get_Some)
  have ck: "unat (checksum_of (take len pl)) < 256" by (simp add: unat_checksum)
  show ?thesis
    unfolding send_packet_bytes_def emits_def
    by (rule does_then [OF put], rule does_bind [OF loop [OF order_refl]])
      (use tail [OF ck] in \<open>auto simp: emits_def frame_of_def elim!: does_mono\<close>)
qed

text \<open>After a reply the stub holds a copy from which the same frame can be sent again.\<close>

lemma does_reply_length:
  assumes "length (last_reply st) = 513" "len \<le> length pl" "len \<le> 512"
  shows "does hw (send_reply_length st pl len) (\<lambda>st' es. es = map tx (frame_of (take len pl)) \<and>
    st' = st\<lparr>last_reply := take len pl @ 0 # drop (Suc len) (last_reply st), last_reply_length := len\<rparr>)"
proof -
  have rec: "record_reply pl len (last_reply st) = Some (take len pl @ 0 # drop (Suc len) (last_reply st))"
    using assms by (intro record_reply_spec) simp_all
  have "emits hw (send_packet_bytes (take len pl @ 0 # drop (Suc len) (last_reply st)) len)
      (map tx (frame_of (take len pl)))"
    using does_send_packet [of len "take len pl @ 0 # drop (Suc len) (last_reply st)"] assms by simp
  then show ?thesis
    unfolding send_reply_length_def rec of_option_bind_fw Let_def
    by (auto simp: emits_def intro!: does_return elim!: does_then)
qed

lemma does_resend:
  assumes "length (last_reply st) = 513" "len \<le> length pl" "len \<le> 512"
  shows "does hw (bind_fw (send_reply_length st pl len) resend_last_reply)
    (\<lambda>_ es. es = map tx (frame_of (take len pl)) @ map tx (frame_of (take len pl)))"
proof (rule does_bind [OF does_reply_length [OF assms]])
  fix st' es
  assume st': "es = map tx (frame_of (take len pl)) \<and>
    st' = st\<lparr>last_reply := take len pl @ 0 # drop (Suc len) (last_reply st), last_reply_length := len\<rparr>"
  then have "emits hw (resend_last_reply st') (map tx (frame_of (take len pl)))"
    using does_send_packet [of len "last_reply st'"] assms by (simp add: resend_last_reply_def)
  then show "does hw (resend_last_reply st')
      (\<lambda>_ es'. es @ es' = map tx (frame_of (take len pl)) @ map tx (frame_of (take len pl)))"
    using st' by (simp add: emits_def)
qed

end

text \<open>The payload buffer of a complete packet, and the commands chosen by its first byte.\<close>

lemma payload_split:
  assumes "stub_ok st" "packet_ready st"
  obtains rest where "payload (packet_parser st) = packet (packet_parser st) @ 0 # rest"
    "packet_length (packet_parser st) = length (packet (packet_parser st))"
proof -
  let ?p = "packet_parser st"
  have "packet_length ?p < length (payload ?p)"
    using assms(1) by (simp add: stub_ok_def parser_ok_def)
  then have "payload ?p = packet ?p @ payload ?p ! packet_length ?p # drop (Suc (packet_length ?p)) (payload ?p)"
      "packet_length ?p = length (packet ?p)"
    unfolding packet_def by (simp_all add: id_take_nth_drop [symmetric])
  then show thesis using assms(2) that by (simp add: packet_ready_def)
qed

lemma first_byte_tests:
  assumes "c \<in> {0x6d, 0x4d, 0x47, 0x63 :: u8}"
  shows "text_starts_with (c # xs) (cstr ''qSupported'') = Some False"
    "text_equal (c # xs) (cstr ''vMustReplyEmpty'') = Some False"
    "text_equal_any (c # xs) (map cstr [''Hc0'', ''Hg0'', ''Hc-1'', ''Hg-1'']) = Some False"
    "text_equal (c # xs) (cstr ''qAttached'') = Some False"
    "text_equal (c # xs) (cstr ''?'') = Some False"
    "text_equal (c # xs) (cstr ''g'') = Some False"
  using assms by (auto simp: cstr_def bytes_def)

lemma dispatch_first:
  assumes "payload (packet_parser st) = c # xs" "c \<in> {0x6d, 0x4d, 0x47, 0x63}"
  shows "dispatch_packet st frame =
    (let pl = c # xs; plen = packet_length (packet_parser st) in
     if c = 0x47 then bind_fw (of_option_fw (decode_registers frame pl plen)) (\<lambda>r. case r of
          Some frame' \<Rightarrow> reply_only (st\<lparr>resume_pc_explicit := mepc frame' \<noteq> stopped_pc st\<rparr>) frame' (cstr ''OK'')
        | None \<Rightarrow> reply_only st frame (cstr ''E01''))
     else if c = 0x6d then bind_fw (read_memory st pl plen) (ensure_ok frame)
     else if c = 0x4d then bind_fw (write_memory st pl plen) (ensure_ok frame)
     else continue_target st frame pl plen)"
proof -
  have first: "array_get (c # xs) 0 = Some c" by (simp add: array_get_def)
  show ?thesis
    unfolding dispatch_packet_def assms(1) Let_def first_byte_tests [OF assms(2)] first of_option_bind_fw
    using assms(2) by auto
qed

context uart_tx
begin

lemma does_run:
  assumes "does hw f Q"
  obtains a m' es where "f hw m = Some (Ret a m')" "mem m' = mem m" "effects m' = effects m @ es" "Q a es"
  using assms unfolding does_def by blast

lemma does_reply_literal:
  assumes "stub_ok st" "s \<in> literals"
  shows "does hw (send_reply st (cstr s)) (\<lambda>st' es. replied st st' \<and> es = map tx (frame_of (bytes s)))"
proof -
  have s: "0 \<notin> set (bytes s)" "length s \<le> 512" using literal_text [OF assms(2)] by simp_all
  have "does hw (send_reply_length st (cstr s) (length s)) (\<lambda>st' es. es = map tx (frame_of (take (length s) (cstr s))) \<and>
    st' = st\<lparr>last_reply := take (length s) (cstr s) @ 0 # drop (Suc (length s)) (last_reply st), last_reply_length := length s\<rparr>)"
    using assms(1) s by (intro does_reply_length) (simp_all add: stub_ok_def, simp add: cstr_def)
  moreover have "take (length s) (cstr s) = bytes s" by (simp add: cstr_def)
  ultimately show ?thesis
    unfolding send_reply_def using s assms(1)
    by (auto simp: replied_def stub_ok_def elim!: does_mono)
qed

lemma does_answer_literal:
  "stub_ok st \<Longrightarrow> s \<in> literals \<Longrightarrow>
   does hw (send_reply st (cstr s)) (\<lambda>st' es. answered st st' \<and> es = map tx (frame_of (bytes s)))"
  by (rule does_mono [OF does_reply_literal]) (simp_all add: replied_answered)

lemma does_reply_only:
  assumes "stub_ok st" "s \<in> literals"
  shows "does hw (reply_only st frame (cstr s))
    (\<lambda>r es. (\<exists>st'. r = (False, frame, st') \<and> answered st st') \<and> es = map tx (frame_of (bytes s)))"
  unfolding reply_only_def
  by (rule does_bind [OF does_answer_literal [OF assms]]) (auto intro: does_return)

lemma read_memory_run:
  assumes "stub_ok st" "parse_memory_header pl plen = Some (Some (addr, len, plen))"
    and "unat len \<le> 256" "memory_range_allowed addr len"
  shows "\<exists>st' m'. read_memory st pl plen hw m = Some (Ret (True, st') m') \<and> mem m' = mem m \<and>
    effects m' = effects m @ map tx (frame_of (dump (mem m) addr (unat len))) \<and> answered st st'"
proof -
  define buf where "buf = dump (mem m) addr (unat len) @ 0 # drop (Suc (2 * unat len)) (reply_buffer st)"
  have dumped: "dump_bytes addr (unat len) (reply_buffer st) hw m =
      Some (Ret (dump (mem m) addr (unat len) @ drop (2 * unat len) (reply_buffer st)) m)"
    using assms(1,3) by (intro dump_bytes_run) (simp add: stub_ok_def)
  have put: "array_put (dump (mem m) addr (unat len) @ drop (2 * unat len) (reply_buffer st)) (unat len * 2) 0 = Some buf"
    using assms(1,3) unfolding buf_def by (intro array_put_drop) (simp_all add: stub_ok_def)
  have "does hw (send_reply_length (st\<lparr>reply_buffer := buf\<rparr>) buf (unat len * 2))
      (\<lambda>st' es. es = map tx (frame_of (take (unat len * 2) buf)) \<and> answered st st')"
    using assms(1,3)
    by (intro does_mono [OF does_reply_length]) (simp_all add: stub_ok_def buf_def answered_def)
  moreover have "take (unat len * 2) buf = dump (mem m) addr (unat len)" by (simp add: buf_def)
  ultimately obtain st' m' where "send_reply_length (st\<lparr>reply_buffer := buf\<rparr>) buf (unat len * 2) hw m = Some (Ret st' m')"
      "mem m' = mem m" "effects m' = effects m @ map tx (frame_of (dump (mem m) addr (unat len)))" "answered st st'"
    by (auto elim: does_run [of _ _ m])
  then show ?thesis
    unfolding read_memory_def assms(2) of_option_bind_fw
    using assms(3,4) dumped put
    by (simp add: GDB_PACKET_CAPACITY_def bind_fw_Ret Let_def return_fw_def)
qed

lemma write_memory_run:
  assumes "stub_ok st" "parse_memory_header pl plen = Some (Some (addr, len, sep))"
    and "pl = pre @ 0x3a # ds @ rest" "length pre = sep" "plen = sep + 1 + length ds"
    and "length ds = 2 * unat len" "list_all is_hex ds" "unat len \<le> 256" "memory_range_allowed addr len"
  shows "\<exists>st' m'. write_memory st pl plen hw m = Some (Ret (True, st') m') \<and>
    mem m' = patch (mem m) addr (hex_pairs ds) \<and>
    effects m' = effects m @ map tx (frame_of (bytes ''OK'')) \<and> answered st st'"
proof -
  have colon: "array_get pl sep = Some 0x3a" using assms(3,4) by (simp add: array_get_append)
  have all_hex: "all_hex_at pl sep [0..<unat len * 2] = Some True"
    using assms(3,4,6,7) all_hex_at_spec [of pl "pre @ [0x3a]" "ds @ rest" sep 0 "unat len * 2"] by simp
  have "take (unat len) (hex_pairs ds) = hex_pairs ds"
    using assms(6) by (simp add: length_hex_pairs)
  then have patched: "patch_bytes pl sep addr (unat len) hw m = Some (Ret () (m\<lparr>mem := patch (mem m) addr (hex_pairs ds)\<rparr>))"
    using patch_bytes_run [of pl "pre @ [0x3a]" ds rest sep "unat len" addr hw m] assms by simp
  obtain st' m' where "send_reply st (cstr ''OK'') hw (m\<lparr>mem := patch (mem m) addr (hex_pairs ds)\<rparr>) = Some (Ret st' m')"
      "mem m' = patch (mem m) addr (hex_pairs ds)"
      "effects m' = effects m @ map tx (frame_of (bytes ''OK''))" "answered st st'"
    using does_answer_literal [OF assms(1), of "''OK''"]
    by (auto simp: literals_def elim: does_run [of _ _ "m\<lparr>mem := patch (mem m) addr (hex_pairs ds)\<rparr>"])
  then show ?thesis
    unfolding write_memory_def assms(2) of_option_bind_fw
    using assms(5,6,8,9) colon all_hex patched
    by (simp add: GDB_PACKET_CAPACITY_def then_fw_def bind_fw_Ret return_fw_def)
qed

end

lemma write_memory_refused:
  assumes "parse_memory_header pl plen = Some (Some (addr, len, sep))"
    and "pl = pre @ 0x3a # ds @ rest" "length pre = sep" "plen = sep + 1 + length ds"
    and "\<not> (unat len \<le> 256 \<and> length ds = 2 * unat len \<and> list_all is_hex ds \<and> memory_range_allowed addr len)"
  shows "write_memory st pl plen = return_fw (False, st)"
proof -
  have colon: "array_get pl sep = Some 0x3a" using assms(2,3) by (simp add: array_get_append)
  have all_hex: "all_hex_at pl sep [0..<unat len * 2] = Some (list_all is_hex ds)" if "length ds = 2 * unat len"
    using that assms(2,3) all_hex_at_spec [of pl "pre @ [0x3a]" "ds @ rest" sep 0 "unat len * 2"] by simp
  show ?thesis
    unfolding write_memory_def assms(1) of_option_bind_fw
    using assms(4,5) colon all_hex by (auto simp: GDB_PACKET_CAPACITY_def)
qed

text \<open>Well-formed \<open>m\<close> and \<open>M\<close> packets.\<close>

definition digits_ok :: "u8 list \<Rightarrow> bool" where
  "digits_ok ds \<longleftrightarrow> list_all is_hex ds \<and> 0 < length ds \<and> length ds \<le> 8"

lemma header_of_packet:
  assumes "digits_ok as" "digits_ok ls" "rest \<noteq> [] \<and> hd rest = 0x3a \<or> plen = 2 + length as + length ls"
    and "plen \<le> length (c # as @ 0x2c # ls @ rest)" "2 + length as + length ls \<le> plen"
  shows "parse_memory_header (c # as @ 0x2c # ls @ rest) plen =
    Some (Some (of_nat (hex_number as), of_nat (hex_number ls), 2 + length as + length ls))"
  using assms by (intro parse_header_wellformed [where rest = rest]) (auto simp: digits_ok_def)

lemma unat_digits: "digits_ok ds \<Longrightarrow> unat (of_nat (hex_number ds) :: u32) = hex_number ds"
proof -
  assume "digits_ok ds"
  then have "length ds \<le> 8" by (simp add: digits_ok_def)
  then have "(16 :: nat) ^ length ds \<le> 16 ^ 8" by (rule power_increasing) simp
  then show ?thesis using hex_number_less [of ds] by (simp add: unat_of_nat)
qed

section \<open>Packets served\<close>

text \<open>A stub that has just received the packet \<open>w\<close>.\<close>

definition received :: "stub \<Rightarrow> u8 list \<Rightarrow> bool" where
  "received st w \<longleftrightarrow> stub_ok st \<and> packet_ready st \<and> packet (packet_parser st) = w"

lemma receivedE:
  assumes "received st w"
  obtains rest where "stub_ok st" "payload (packet_parser st) = w @ 0 # rest"
    "packet_length (packet_parser st) = length w"
proof -
  have ok: "stub_ok st" "packet_ready st" "packet (packet_parser st) = w"
    using assms by (simp_all add: received_def)
  obtain rest where "payload (packet_parser st) = packet (packet_parser st) @ 0 # rest"
      "packet_length (packet_parser st) = length (packet (packet_parser st))"
    by (rule payload_split [OF ok(1,2)])
  with ok(1,3) show thesis by (intro that [of rest]) simp_all
qed

context uart_tx
begin

lemma dispatch_read:
  assumes "received st (0x6d # as @ 0x2c # ls)" "digits_ok as" "digits_ok ls"
  defines "a \<equiv> hex_number as" and "n \<equiv> hex_number ls"
  shows "\<exists>st' m'. dispatch_packet st frame hw m = Some (Ret (False, frame, st') m') \<and>
    mem m' = mem m \<and>
    effects m' = effects m @ map tx (frame_of
      (if 0 < n \<and> n \<le> 256 \<and> in_ram a n then dump (mem m) (of_nat a) n else bytes ''E01'')) \<and> answered st st'"
proof -
  obtain rest where ok: "stub_ok st" and pl: "payload (packet_parser st) = (0x6d # as @ 0x2c # ls) @ 0 # rest"
      and plen: "packet_length (packet_parser st) = length (0x6d # as @ 0x2c # ls)"
    by (rule receivedE [OF assms(1)])
  define pl where "pl = 0x6d # as @ 0x2c # ls @ 0 # rest"
  define len where "len = packet_length (packet_parser st)"
  have lens: "len = 2 + length as + length ls" "len \<le> length pl" by (simp_all add: len_def plen pl_def)
  have hd: "parse_memory_header pl len = Some (Some (of_nat a, of_nat n, len))"
    unfolding a_def n_def using header_of_packet [OF assms(2,3), of "0 # rest" len "0x6d"] lens
    by (simp add: pl_def)
  have un: "unat (of_nat a :: u32) = a" "unat (of_nat n :: u32) = n"
    unfolding a_def n_def by (simp_all only: unat_digits [OF assms(2)] unat_digits [OF assms(3)])
  have run: "dispatch_packet st frame = bind_fw (read_memory st pl len) (ensure_ok frame)"
    using dispatch_first [of st "0x6d" "as @ 0x2c # ls @ 0 # rest" frame] pl by (simp add: pl_def len_def)
  show ?thesis
  proof (cases "0 < n \<and> n \<le> 256 \<and> in_ram a n")
    case True
    then have "unat (of_nat n :: u32) \<le> 256" "memory_range_allowed (of_nat a) (of_nat n)"
      by (simp_all add: range_allowed_iff un)
    from read_memory_run [OF ok hd this, of m] obtain st' m' where
        "read_memory st pl len hw m = Some (Ret (True, st') m')" "mem m' = mem m"
        "effects m' = effects m @ map tx (frame_of (dump (mem m) (of_nat a) n))" "answered st st'"
      by (auto simp: un)
    with True show ?thesis by (simp add: run bind_fw_Ret ensure_ok_def return_fw_def)
  next
    case False
    then have "256 < unat (of_nat n :: u32) \<or> \<not> memory_range_allowed (of_nat a) (of_nat n)"
      by (auto simp: range_allowed_iff un)
    then have refused: "read_memory st pl len = return_fw (False, st)"
      unfolding read_memory_def hd of_option_bind_fw by (auto simp: GDB_PACKET_CAPACITY_def)
    obtain st' m' where "reply_only st frame (cstr ''E01'') hw m = Some (Ret (False, frame, st') m')"
        "mem m' = mem m" "effects m' = effects m @ map tx (frame_of (bytes ''E01''))" "answered st st'"
      using does_reply_only [OF ok, of "''E01''" frame]
      by (auto simp: literals_def elim: does_run [of _ _ m])
    with False show ?thesis by (auto simp: run refused ensure_ok_def)
  qed
qed

lemma dispatch_write:
  assumes "received st (0x4d # as @ 0x2c # ls @ 0x3a # ds)" "digits_ok as" "digits_ok ls"
  defines "a \<equiv> hex_number as" and "n \<equiv> hex_number ls"
  defines "good \<equiv> 0 < n \<and> n \<le> 256 \<and> in_ram a n \<and> length ds = 2 * n \<and> list_all is_hex ds"
  shows "\<exists>st' m'. dispatch_packet st frame hw m = Some (Ret (False, frame, st') m') \<and>
    mem m' = (if good then patch (mem m) (of_nat a) (hex_pairs ds) else mem m) \<and>
    effects m' = effects m @ map tx (frame_of (bytes (if good then ''OK'' else ''E01''))) \<and> answered st st'"
proof -
  obtain rest where ok: "stub_ok st"
      and pl0: "payload (packet_parser st) = (0x4d # as @ 0x2c # ls @ 0x3a # ds) @ 0 # rest"
      and plen: "packet_length (packet_parser st) = length (0x4d # as @ 0x2c # ls @ 0x3a # ds)"
    by (rule receivedE [OF assms(1)])
  define pl where "pl = 0x4d # as @ 0x2c # ls @ 0x3a # ds @ 0 # rest"
  define len where "len = packet_length (packet_parser st)"
  define sep where "sep = 2 + length as + length ls"
  have lens: "len = sep + 1 + length ds" "len \<le> length pl" by (simp_all add: len_def plen pl_def sep_def)
  have pl: "pl = (0x4d # as @ 0x2c # ls) @ 0x3a # ds @ 0 # rest" "length (0x4d # as @ 0x2c # ls) = sep"
    by (simp_all add: pl_def sep_def)
  have hd: "parse_memory_header pl len = Some (Some (of_nat a, of_nat n, sep))"
    unfolding a_def n_def using header_of_packet [OF assms(2,3), of "0x3a # ds @ 0 # rest" len "0x4d"] lens
    by (simp add: pl_def sep_def)
  have un: "unat (of_nat a :: u32) = a" "unat (of_nat n :: u32) = n"
    unfolding a_def n_def by (simp_all only: unat_digits [OF assms(2)] unat_digits [OF assms(3)])
  have run: "dispatch_packet st frame = bind_fw (write_memory st pl len) (ensure_ok frame)"
    using dispatch_first [of st "0x4d" "as @ 0x2c # ls @ 0x3a # ds @ 0 # rest" frame] pl0
    by (simp add: pl_def len_def)
  have allowed: "memory_range_allowed (of_nat a) (of_nat n) \<longleftrightarrow> 0 < n \<and> in_ram a n"
    by (simp add: range_allowed_iff un)
  show ?thesis
  proof (cases good)
    case True
    then have "length ds = 2 * unat (of_nat n :: u32)" "list_all is_hex ds" "unat (of_nat n :: u32) \<le> 256"
        "memory_range_allowed (of_nat a) (of_nat n)"
      by (simp_all add: good_def un allowed)
    from write_memory_run [OF ok hd pl lens(1) this, of m] True show ?thesis
      by (auto simp: run bind_fw_Ret ensure_ok_def return_fw_def)
  next
    case False
    then have "write_memory st pl len = return_fw (False, st)"
      by (intro write_memory_refused [OF hd pl lens(1)]) (auto simp: good_def un allowed)
    moreover obtain st' m' where "reply_only st frame (cstr ''E01'') hw m = Some (Ret (False, frame, st') m')"
        "mem m' = mem m" "effects m' = effects m @ map tx (frame_of (bytes ''E01''))" "answered st st'"
      using does_reply_only [OF ok, of "''E01''" frame]
      by (auto simp: literals_def elim: does_run [of _ _ m])
    ultimately show ?thesis using False by (simp add: run ensure_ok_def)
  qed
qed

lemma dispatch_get_registers:
  assumes "received st [0x67]" "frame_ok frame"
  shows "\<exists>st' m'. dispatch_packet st frame hw m = Some (Ret (False, frame, st') m') \<and>
    mem m' = mem m \<and> effects m' = effects m @ map tx (frame_of (register_text frame)) \<and> answered st st'"
proof -
  obtain rest where ok: "stub_ok st" and pl: "payload (packet_parser st) = [0x67] @ 0 # rest"
    by (rule receivedE [OF assms(1)])
  define buf where "buf = register_text frame @ 0 # drop 265 (reply_buffer st)"
  have enc: "encode_registers frame (reply_buffer st) = Some buf"
    unfolding buf_def using ok assms(2) by (intro encode_registers_spec) (simp_all add: stub_ok_def)
  have tests: "text_starts_with (0x67 # 0 # rest) (cstr ''qSupported'') = Some False"
    "text_equal (0x67 # 0 # rest) (cstr ''vMustReplyEmpty'') = Some False"
    "text_equal_any (0x67 # 0 # rest) (map cstr [''Hc0'', ''Hg0'', ''Hc-1'', ''Hg-1'']) = Some False"
    "text_equal (0x67 # 0 # rest) (cstr ''qAttached'') = Some False"
    "text_equal (0x67 # 0 # rest) (cstr ''?'') = Some False"
    "text_equal (0x67 # 0 # rest) (cstr ''g'') = Some True"
    by (simp_all add: cstr_def bytes_def)
  have "does hw (send_reply_length (st\<lparr>reply_buffer := buf\<rparr>) buf 264)
      (\<lambda>st' es. es = map tx (frame_of (take 264 buf)) \<and> answered st st')"
    using ok by (intro does_mono [OF does_reply_length]) (simp_all add: stub_ok_def buf_def answered_def)
  then obtain st' m' where "send_reply_length (st\<lparr>reply_buffer := buf\<rparr>) buf 264 hw m = Some (Ret st' m')"
      "mem m' = mem m" "effects m' = effects m @ map tx (frame_of (register_text frame))" "answered st st'"
    by (auto simp: buf_def elim: does_run [of _ _ m])
  then show ?thesis
    unfolding dispatch_packet_def pl append_Cons append_Nil Let_def tests enc of_option_bind_fw
    by (simp add: bind_fw_Ret return_fw_def GDB_REGISTER_HEX_SIZE_def GDB_REGISTER_COUNT_def)
qed

lemma dispatch_set_registers:
  assumes "received st (0x47 # register_text frame)" "frame_ok frame" "frame_ok frame0"
  shows "\<exists>st' m'. dispatch_packet st frame0 hw m =
      Some (Ret (False, frame0\<lparr>x_regs := 0 # tl (x_regs frame), mepc := mepc frame\<rparr>, st') m') \<and>
    mem m' = mem m \<and> effects m' = effects m @ map tx (frame_of (bytes ''OK'')) \<and>
    answered (st\<lparr>resume_pc_explicit := mepc frame \<noteq> stopped_pc st\<rparr>) st'"
proof -
  let ?frame = "frame0\<lparr>x_regs := 0 # tl (x_regs frame), mepc := mepc frame\<rparr>"
  obtain rest where ok: "stub_ok st"
      and pl: "payload (packet_parser st) = (0x47 # register_text frame) @ 0 # rest"
      and len: "packet_length (packet_parser st) = length (0x47 # register_text frame)"
    by (rule receivedE [OF assms(1)])
  let ?st = "st\<lparr>resume_pc_explicit := mepc frame \<noteq> stopped_pc st\<rparr>"
  have "decode_registers frame0 (0x47 # register_text frame @ 0 # rest) 265 = Some (Some ?frame)"
    by (rule decode_encode_registers [OF assms(2,3)])
  then have "dispatch_packet st frame0 = reply_only ?st ?frame (cstr ''OK'')"
    using dispatch_first [of st "0x47" "register_text frame @ 0 # rest" frame0] pl len by simp
  moreover obtain st' m' where "reply_only ?st ?frame (cstr ''OK'') hw m = Some (Ret (False, ?frame, st') m')"
      "mem m' = mem m" "effects m' = effects m @ map tx (frame_of (bytes ''OK''))" "answered ?st st'"
    using does_reply_only [of ?st "''OK''" ?frame] ok
    by (auto simp: literals_def elim: does_run [of _ _ m])
  ultimately show ?thesis by auto
qed

end

section \<open>Properties\<close>


definition stub_bss :: stub where
  "stub_bss = \<lparr>packet_parser = blank_parser, reply_buffer = replicate 513 0, last_reply = replicate 513 0,
     last_reply_length = 0, stopped_pc = 0, resume_pc_explicit = False, debugger_attached = False\<rparr>"

definition breakpoint_frame :: trap_frame where
  "breakpoint_frame = \<lparr>x_regs = replicate 32 0x11223344, mepc = 0x100, mstatus = 0x1880, mcause = 3, reserved = 0\<rparr>"

lemma example_ok: "stub_sized stub_bss" "stub_ok stub_bss" "frame_ok breakpoint_frame"
  using blank_ok
  by (simp_all add: stub_sized_def stub_ok_def stub_bss_def frame_ok_def breakpoint_frame_def
      parser_ok_def GDB_PACKET_CAPACITY_def)



text \<open>A stub that received a packet, for the witnesses.\<close>

definition stub_with :: "u8 list \<Rightarrow> stub" where
  "stub_with w = stub_bss\<lparr>packet_parser := blank_parser\<lparr>payload := w @ replicate (513 - length w) 0,
     packet_length := length w, checksum := checksum_of w\<rparr>\<rparr>"

lemma received_stub_with: "length w \<le> 512 \<Longrightarrow> received (stub_with w) w"
  using example_ok(2)
  by (simp add: received_def stub_with_def stub_ok_def packet_ready_def packet_def parser_ok_def
      GDB_PACKET_CAPACITY_def blank_parser_def nth_append)




text \<open>C20: The register packets are inverse to each other: \<open>g\<close> answers with the text of registers
  0 to 31 and the pc, register 0 shown as 0; and a \<open>G\<close> packet with such a text gives any frame
  those registers and that pc, keeps the rest of the frame, and is answered with \<open>OK\<close>.\<close>

theorem gdb_registers_roundtrip:
  assumes "received st_g [0x67]" "received st_G (0x47 # register_text frame)"
    and "frame_ok frame" "frame_ok frame0"
  shows "(\<exists>st' m'. dispatch_packet st_g frame (soc_hw cfg s0) m = Some (Ret (False, frame, st') m') \<and>
       mem m' = mem m \<and> effects m' = effects m @ map tx (frame_of (register_text frame))) \<and>
    (\<exists>st' m'. dispatch_packet st_G frame0 (soc_hw cfg s0) m =
         Some (Ret (False, frame0\<lparr>x_regs := 0 # tl (x_regs frame), mepc := mepc frame\<rparr>, st') m') \<and>
       mem m' = mem m \<and> effects m' = effects m @ map tx (frame_of (bytes ''OK'')))"
  using soc_uart.dispatch_get_registers [OF assms(1,3)] soc_uart.dispatch_set_registers [OF assms(2,3,4)] by blast

theorem gdb_registers_roundtrip_witness:
  "\<exists>st' m'. dispatch_packet (stub_with (0x47 # register_text breakpoint_frame)) breakpoint_frame
       (soc_hw board_config board_reset) \<lparr>mem = (\<lambda>a. 0), trace = []\<rparr> =
     Some (Ret (False, breakpoint_frame\<lparr>x_regs := 0 # replicate 31 0x11223344\<rparr>, st') m')"
proof -
  have "tl (x_regs breakpoint_frame) = replicate 31 0x11223344" "mepc breakpoint_frame = 0x100"
    "breakpoint_frame\<lparr>mepc := 0x100\<rparr> = breakpoint_frame"
    by (simp_all add: breakpoint_frame_def numeral_eq_Suc)
  then show ?thesis
    using gdb_registers_roundtrip [OF received_stub_with received_stub_with example_ok(3,3),
        of board_config board_reset "\<lparr>mem = (\<lambda>a. 0), trace = []\<rparr>"]
    by (auto simp: breakpoint_frame_def)
qed

text \<open>After any reply of at most 512 bytes, a retransmission request sends the same frame
  again, byte for byte.\<close>

lemma gdb_resend_correct:
  assumes "length (last_reply st) = 513" "len \<le> length pl" "len \<le> 512"
  shows "does (soc_hw cfg s0) (bind_fw (send_reply_length st pl len) resend_last_reply)
    (\<lambda>_ es. es = map tx (frame_of (take len pl)) @ map tx (frame_of (take len pl)))"
  using assms by (rule soc_uart.does_resend)

theorem gdb_resend_correct_witness:
  "does (soc_hw board_config board_reset) (bind_fw (send_reply_length stub_bss (bytes ''S05'') 3) resend_last_reply)
    (\<lambda>_ es. es = map tx (frame_of (bytes ''S05'')) @ map tx (frame_of (bytes ''S05'')))"
  using gdb_resend_correct [of stub_bss 3 "bytes ''S05''"] by (simp add: stub_bss_def)

text \<open>A bare \<open>c\<close> packet resumes without touching devices or memory: after a breakpoint
  instruction whose pc the debugger did not change it continues behind the instruction,
  otherwise at the pc. With an address it resumes there exactly when the address is a multiple
  of four inside BRAM, and answers \<open>E01\<close> otherwise.\<close>

lemma gdb_continue_correct:
  assumes "received st (0x63 # as)" "as = [] \<or> digits_ok as"
  defines "a \<equiv> hex_number as"
  shows "if as = []
    then dispatch_packet st frame = return_fw (True,
      (if mcause frame = 3 \<and> \<not> resume_pc_explicit st then frame\<lparr>mepc := mepc frame + 4\<rparr> else frame), st)
    else if 4 dvd a \<and> a < 0x10000
    then dispatch_packet st frame = return_fw (True, frame\<lparr>mepc := of_nat a\<rparr>, st)
    else does (soc_hw cfg s0) (dispatch_packet st frame)
      (\<lambda>(resume, frame', _) es. \<not> resume \<and> frame' = frame \<and> es = map tx (frame_of (bytes ''E01'')))"
proof -
  obtain rest where ok: "stub_ok st" and pl: "payload (packet_parser st) = (0x63 # as) @ 0 # rest"
      and len: "packet_length (packet_parser st) = length (0x63 # as)"
    by (rule receivedE [OF assms(1)])
  have run: "dispatch_packet st frame = continue_target st frame (0x63 # as @ 0 # rest) (1 + length as)"
    using dispatch_first [of st "0x63" "as @ 0 # rest" frame] pl len by simp
  show ?thesis
  proof (cases "as = []")
    case True
    then show ?thesis by (simp add: run continue_target_def)
  next
    case False
    then have d: "digits_ok as" using assms(2) by simp
    have parse: "gdb_parse_hex_u32 (drop 1 (0x63 # as @ 0 # rest)) (1 + length as - 1) = Some (Some (of_nat a))"
      using d by (subst parse_hex_spec) (simp_all add: a_def digits_ok_def)
    have un: "unat (of_nat a :: u32) = a" unfolding a_def by (rule unat_digits [OF d])
    have cond: "((of_nat a :: u32) AND 3 \<noteq> 0 \<or> GDB_BRAM_SIZE \<le> of_nat a) \<longleftrightarrow> \<not> (4 dvd a \<and> a < 0x10000)"
      using unat_mod4 [of "of_nat a"]
      by (auto simp: un word_le_nat_alt addr_defs unat_eq_zero [symmetric] dvd_eq_mod_eq_0)
    have go: "continue_target st frame (0x63 # as @ 0 # rest) (1 + length as) =
        (if 4 dvd a \<and> a < 0x10000 then return_fw (True, frame\<lparr>mepc := of_nat a\<rparr>, st)
         else reply_only st frame (cstr ''E01''))"
      unfolding continue_target_def parse of_option_bind_fw reply_only_def using False cond by auto
    have "does (soc_hw cfg s0) (reply_only st frame (cstr ''E01''))
        (\<lambda>(resume, frame', _) es. \<not> resume \<and> frame' = frame \<and> es = map tx (frame_of (bytes ''E01'')))"
      by (rule does_mono [OF soc_uart.does_reply_only [OF ok]]) (auto simp: literals_def)
    with False show ?thesis by (simp add: run go [simplified])
  qed
qed

theorem gdb_continue_correct_witness:
  "dispatch_packet (stub_with [0x63]) breakpoint_frame =
     return_fw (True, breakpoint_frame\<lparr>mepc := 0x104\<rparr>, stub_with [0x63])"
proof -
  have "mcause breakpoint_frame = 3" "mepc breakpoint_frame = 0x100" "\<not> resume_pc_explicit (stub_with [0x63])"
    by (simp_all add: breakpoint_frame_def stub_with_def stub_bss_def)
  then show ?thesis
    using gdb_continue_correct [OF received_stub_with, of "[]" breakpoint_frame] by simp
qed

end
