(* ===== verification/Trap_Frame.thy ===== *)
theory Trap_Frame
  imports Rt_String
begin

text \<open>
  The register frame of \<open>firmware/runtime/trap_frame.h\<close> in byte memory, the trap entry and
  exit of \<open>runtime/trap_entry.S\<close> as operations on a hart, and \<open>runtime/trap.c\<close>. Word \<open>i\<close> of a frame
  at address \<open>a\<close> is at \<open>slot a i\<close>: 0 to 31 the registers, 32 \<open>mepc\<close>, 33 \<open>mstatus\<close>, 34 \<open>mcause\<close>,
  35 the reserved word.
\<close>

section \<open>Words of a frame\<close>

definition TRAP_FRAME_SIZE :: u32 where
  "TRAP_FRAME_SIZE = 144"

definition slot :: "u32 \<Rightarrow> nat \<Rightarrow> u32" where
  "slot a i = a + of_nat (4 * i)"

definition put_slots :: "memory \<Rightarrow> u32 \<Rightarrow> (nat \<times> u32) list \<Rightarrow> memory" where
  "put_slots mm a ivs = fold (\<lambda>(i, v) mm. put32 mm (slot a i) v) ivs mm"

lemma slot_0 [simp]: "slot a 0 = a"
  by (simp add: slot_def)

lemma slot_aligned: "a AND 3 = 0 \<Longrightarrow> slot a i AND 3 = 0"
proof (induction i)
  case (Suc i)
  have "slot a (Suc i) = slot a i + 4" by (simp add: slot_def)
  then show ?case using Suc by (simp add: aligned4_add4)
qed simp

lemma slot_apart:
  assumes "i < 1000" "j < 1000" "i \<noteq> j"
  shows "4 \<le> unat (slot a i - slot a j)"
proof (cases "j < i")
  case True
  then have "slot a i - slot a j = of_nat (4 * (i - j))"
    by (simp add: slot_def of_nat_diff right_diff_distrib)
  moreover have "4 * (i - j) < 2 ^ 32" using assms by simp
  ultimately show ?thesis using True by (simp only: unat_of_nat) simp
next
  case False
  then have "slot a i - slot a j = - of_nat (4 * (j - i))"
    by (simp add: slot_def of_nat_diff right_diff_distrib)
  moreover have "unat (- of_nat (4 * (j - i)) :: u32) = 2 ^ 32 - 4 * (j - i)"
  proof -
    have small: "4 * (j - i) < 2 ^ 32" "0 < 4 * (j - i)" using False assms by simp_all
    then have "unat (of_nat (4 * (j - i)) :: u32) = 4 * (j - i)" by (simp only: unat_of_nat) simp
    with small show ?thesis using unat_sub_if' [of 0 "of_nat (4 * (j - i)) :: u32"]
      by (simp del: of_nat_mult)
  qed
  ultimately show ?thesis using assms by simp
qed

lemma get_put_slot:
  assumes "i < 1000" "j < 1000"
  shows "get32 (put32 mm (slot a i) v) (slot a j) = (if i = j then v else get32 mm (slot a j))"
  using assms slot_apart [of i j a] slot_apart [of j i a] by (auto intro: get32_put32_other)

lemma get_put_slots:
  assumes "\<forall>(i, v) \<in> set ivs. i < 1000" "j < 1000"
  shows "get32 (put_slots mm a ivs) (slot a j) =
    (case map_of (rev ivs) j of Some v \<Rightarrow> v | None \<Rightarrow> get32 mm (slot a j))"
  using assms(1)
proof (induction ivs rule: rev_induct)
  case Nil
  then show ?case by (simp add: put_slots_def)
next
  case (snoc x ivs)
  then show ?case using assms(2)
    by (cases x) (simp add: put_slots_def get_put_slot)
qed

text \<open>Memory outside of the frame is not touched.\<close>

lemma put_slots_outside:
  assumes "\<forall>(i, v) \<in> set ivs. i < n" "n \<le> 1000" "4 * n \<le> unat (b - a)"
  shows "put_slots mm a ivs b = mm b"
  using assms(1)
proof (induction ivs rule: rev_induct)
  case (snoc x ivs)
  obtain i v where x: "x = (i, v)" by (cases x)
  then have i: "i < n" using snoc.prems by simp
  have "\<not> unat (b - slot a i) < 4"
  proof -
    have small: "4 * i < 2 ^ 32" using i assms(2) by simp
    have "unat (b - slot a i) = unat (b - a) - 4 * i"
      using unat_offset [OF small, of b a] i assms(3) by (simp add: slot_def)
    then show ?thesis using i assms(3) by simp
  qed
  then show ?case using snoc x by (simp add: put_slots_def put32_apply)
qed (simp add: put_slots_def)

section \<open>The hart\<close>

record hart =
  regs :: "nat \<Rightarrow> u32"     \<comment> \<open>\<open>x0\<close> to \<open>x31\<close>\<close>
  csr_mepc :: u32
  csr_mstatus :: u32
  csr_mcause :: u32
  csr_mtvec :: u32
  csr_mie :: u32

text \<open>The hart enters a trap (\<open>rtl/core/darkriscv.v\<close>): the aligned address to return to goes to
  \<open>mepc\<close>, \<open>MIE\<close> to \<open>MPIE\<close>, and \<open>MIE\<close> is cleared. \<open>pc\<close> is the instruction itself for an exception, and
  the next one for an interrupt.\<close>

definition take_trap :: "u32 \<Rightarrow> u32 \<Rightarrow> hart \<Rightarrow> hart" where
  "take_trap cause pc h =
     h\<lparr>csr_mepc := pc AND NOT 3, csr_mcause := cause,
       csr_mstatus := (csr_mstatus h AND NOT 0x88) OR (if bit (csr_mstatus h) 3 then 0x80 else 0)\<rparr>"

text \<open>\<open>trap_entry\<close> up to the call of the dispatcher: the stores in the order of the code, and
  the frame address passed in \<open>a0\<close>.\<close>

definition trap_entry_stores :: "hart \<Rightarrow> (nat \<times> u32) list" where
  "trap_entry_stores h =
     [(5, regs h 5), (2, regs h 2), (0, 0), (1, regs h 1), (3, regs h 3), (4, regs h 4)] @
     map (\<lambda>i. (i, regs h i)) [6..<32] @
     [(32, csr_mepc h), (33, csr_mstatus h), (34, csr_mcause h), (35, 0)]"

definition trap_entry_save :: "hart \<Rightarrow> memory \<Rightarrow> u32 \<times> memory" where
  "trap_entry_save h mm =
     (let sp = regs h 2 - TRAP_FRAME_SIZE in (sp, put_slots mm sp (trap_entry_stores h)))"

text \<open>\<open>trap_restore_frame\<close>: the loads, and the return of \<open>mret\<close> to \<open>mepc\<close> with \<open>MIE\<close> taken from
  \<open>MPIE\<close>. The result is the resumed pc and the hart.\<close>

definition mret_mstatus :: "u32 \<Rightarrow> u32" where
  "mret_mstatus s = (s AND NOT 8) OR (if bit s 7 then 8 else 0) OR 0x80"

definition trap_restore_frame :: "u32 \<Rightarrow> memory \<Rightarrow> hart \<Rightarrow> u32 \<times> hart" where
  "trap_restore_frame sp mm h =
     (let loaded = (\<lambda>i. if i = 0 then 0 else get32 mm (slot sp i))
      in (get32 mm (slot sp 32),
          h\<lparr>regs := loaded, csr_mepc := get32 mm (slot sp 32),
            csr_mstatus := mret_mstatus (get32 mm (slot sp 33))\<rparr>))"

section \<open>The runtime\<close>

definition default_trap_dispatch :: "u32 \<Rightarrow> u32" where
  "default_trap_dispatch frame = frame"

definition trap_init :: "u32 \<Rightarrow> hart \<Rightarrow> hart" where
  "trap_init trap_entry h = h\<lparr>csr_mtvec := trap_entry\<rparr>"

definition trap_enable_machine_timer_source :: "hart \<Rightarrow> hart" where
  "trap_enable_machine_timer_source h = h\<lparr>csr_mie := csr_mie h OR push_bit 7 1\<rparr>"

definition trap_enable_machine_timer :: "hart \<Rightarrow> hart" where
  "trap_enable_machine_timer h =
     (let h' = trap_enable_machine_timer_source h in h'\<lparr>csr_mstatus := csr_mstatus h' OR 8\<rparr>)"

section \<open>Taking a trap\<close>

lemma take_trap_simps [simp]:
  "regs (take_trap c pc h) = regs h" "csr_mie (take_trap c pc h) = csr_mie h"
  "csr_mcause (take_trap c pc h) = c" "csr_mepc (take_trap c pc h) = pc AND NOT 3"
  "csr_mtvec (take_trap c pc h) = csr_mtvec h"
  by (simp_all add: take_trap_def)

lemma bit_mpie [simp]: "bit (csr_mstatus (take_trap c pc h)) 7 = bit (csr_mstatus h) 3"
  by (simp add: take_trap_def bit_simps)

lemma bit_mret [simp]: "bit (mret_mstatus s) 3 = bit s 7"
  by (simp add: mret_mstatus_def bit_simps)

lemma aligned_low_bits: "(pc :: u32) AND 3 = 0 \<Longrightarrow> pc AND NOT 3 = pc"
proof -
  have "pc = (pc AND NOT 3) OR (pc AND 3)" by (rule bit_word_eqI) (auto simp: bit_simps)
  then show "pc AND 3 = 0 \<Longrightarrow> pc AND NOT 3 = pc" by simp
qed

section \<open>Saving and restoring\<close>

lemma saved_words:
  assumes "i < 36"
  shows "get32 (snd (trap_entry_save h mm)) (slot (fst (trap_entry_save h mm)) i) =
    (if i = 0 \<or> i = 35 then 0 else if i = 32 then csr_mepc h else if i = 33 then csr_mstatus h
     else if i = 34 then csr_mcause h else regs h i)"
proof -
  have all: "\<forall>(i, v) \<in> set (trap_entry_stores h). i < 1000"
    by (auto simp: trap_entry_stores_def)
  have "map_of (rev (trap_entry_stores h)) i = Some
    (if i = 0 \<or> i = 35 then 0 else if i = 32 then csr_mepc h else if i = 33 then csr_mstatus h
     else if i = 34 then csr_mcause h else regs h i)"
  proof -
    have "list_all (\<lambda>i. map_of (rev (trap_entry_stores h)) i = Some
      (if i = 0 \<or> i = 35 then 0 else if i = 32 then csr_mepc h else if i = 33 then csr_mstatus h
       else if i = 34 then csr_mcause h else regs h i)) [0..<36]"
      by (simp add: trap_entry_stores_def) code_simp
    with assms show ?thesis by (simp only: list_all_iff set_upt atLeastLessThan_iff) simp
  qed
  with assms all show ?thesis
    by (simp add: trap_entry_save_def Let_def get_put_slots)
qed

lemma restore_saved:
  assumes "\<forall>i < 36. get32 mm' (slot (fst (trap_entry_save h mm)) i) =
    get32 (snd (trap_entry_save h mm)) (slot (fst (trap_entry_save h mm)) i)"
  shows "fst (trap_restore_frame (fst (trap_entry_save h mm)) mm' h') = csr_mepc h"
    and "i < 32 \<Longrightarrow> regs (snd (trap_restore_frame (fst (trap_entry_save h mm)) mm' h')) i = (if i = 0 then 0 else regs h i)"
    and "csr_mstatus (snd (trap_restore_frame (fst (trap_entry_save h mm)) mm' h')) = mret_mstatus (csr_mstatus h)"
  using assms by (simp_all add: trap_restore_frame_def Let_def saved_words)

lemma entry_outside:
  assumes "144 \<le> unat (b - (regs h 2 - TRAP_FRAME_SIZE))"
  shows "snd (trap_entry_save h mm) b = mm b"
proof -
  have "\<forall>(i, v) \<in> set (trap_entry_stores h). i < 36" by (auto simp: trap_entry_stores_def)
  from put_slots_outside [OF this, of b] assms show ?thesis
    by (simp add: trap_entry_save_def Let_def)
qed

section \<open>Properties\<close>

text \<open>C10: A trap is transparent: when the dispatcher returns the frame it was given and leaves its
  36 words alone, the restored hart continues at the interrupted pc with registers \<open>x1\<close> to
  \<open>x31\<close>, the stack pointer included, as they were, \<open>x0\<close> zero, and the interrupt enable taken
  from \<open>MPIE\<close>; and the entry wrote no memory outside of the 144 bytes below the stack pointer.\<close>

theorem trap_roundtrip:
  assumes "\<forall>i < 36. get32 mm' (slot (fst (trap_entry_save h mm)) i) =
      get32 (snd (trap_entry_save h mm)) (slot (fst (trap_entry_save h mm)) i)"
  shows "(case trap_restore_frame (fst (trap_entry_save h mm)) mm' h' of (pc, r) \<Rightarrow>
      pc = csr_mepc h \<and> csr_mstatus r = mret_mstatus (csr_mstatus h) \<and>
      (\<forall>i < 32. regs r i = (if i = 0 then 0 else regs h i))) \<and>
    (\<forall>b. 144 \<le> unat (b - (regs h 2 - TRAP_FRAME_SIZE)) \<longrightarrow> snd (trap_entry_save h mm) b = mm b)"
  using restore_saved [OF assms, where h' = h'] entry_outside [of _ h mm] by (simp add: case_prod_beta)

definition example_hart :: hart where
  "example_hart = \<lparr>regs = (\<lambda>i. if i = 2 then 0x8000 else of_nat (100 + i)), csr_mepc = 0x200,
     csr_mstatus = 0x1880, csr_mcause = 0xb, csr_mtvec = 0x40, csr_mie = 0\<rparr>"

theorem trap_roundtrip_witness:
  "let (fp, mm) = trap_entry_save example_hart (\<lambda>_. 0xee)
   in fst (trap_restore_frame fp mm example_hart) = 0x200 \<and>
      regs (snd (trap_restore_frame fp mm example_hart)) 2 = 0x8000 \<and> mm 0x8000 = 0xee"
proof -
  have "csr_mepc example_hart = 0x200" "regs example_hart 2 = 0x8000" by (simp_all add: example_hart_def)
  then show ?thesis
    using trap_roundtrip [of "snd (trap_entry_save example_hart (\<lambda>_. 0xee))" example_hart "\<lambda>_. 0xee" example_hart]
    by (simp add: case_prod_beta Let_def TRAP_FRAME_SIZE_def)
qed

end
