(* ===== verification/Rtos_Port.thy ===== *)
theory Rtos_Port
  imports Trap_Frame Devices
begin

text \<open>
  The FreeRTOS port: \<open>firmware/freertos/port.c\<close>, the interrupt mask functions of
  \<open>portmacro.h\<close>, the fatal hooks of \<open>freertos_hooks.c\<close> and the heap region set-up of
  \<open>freertos_heap.c\<close>. The kernel itself is a git submodule and not part of the repository: its
  two entry points used by the port, \<open>vTaskSwitchContext\<close> and \<open>xTaskIncrementTick\<close>, and the
  task name are the record \<open>kernel\<close>, a parameter of every definition that uses them. Frames
  and task control blocks live in the byte memory; an access to a word at an address that is
  not a multiple of four is a fault.
\<close>

section \<open>State\<close>

text \<open>The static variables of \<open>port.c\<close> and the kernel's \<open>pxCurrentTCB\<close>.\<close>

record port =
  freertos_trap_depth :: u32
  freertos_yield_pending :: u32
  counts_per_tick :: u32
  next_compare :: u64
  pxCurrentTCB :: u32

text \<open>\<open>vTaskSwitchContext\<close> receives the current task control block and returns the next one;
  \<open>xTaskIncrementTick\<close> returns whether a context switch is due. Both may change memory and
  touch devices.\<close>

record kernel =
  vTaskSwitchContext :: "u32 \<Rightarrow> u32 fw"
  xTaskIncrementTick :: "u32 fw"
  pcTaskGetName :: "u8 list"

section \<open>Fatal hooks\<close>

definition freertos_stop :: "u32 \<Rightarrow> 'a fw" where
  "freertos_stop code = then_fw (mmio_write TINYBUS_TEST_EXIT code) hang_fw"

definition freertos_assert_fail :: "kernel \<Rightarrow> u32 \<Rightarrow> 'a fw" where
  "freertos_assert_fail K line =
     then_fw (seq_fw [uart_puts (bytes ''freertos assert: task=''), uart_puts (pcTaskGetName K),
         uart_puts (bytes '' line=''), uart_put_dec line, uart_puts [10], uart_flush])
       (freertos_stop (0xf1010000 OR (line AND 0xffff)))"

definition freertos_task_returned :: "'a fw" where
  "freertos_task_returned = freertos_stop 0xf1020001"

definition freertos_fatal_trap :: "kernel \<Rightarrow> u32 \<Rightarrow> 'a fw" where
  "freertos_fatal_trap K frame =
     then_fw (seq_fw [uart_puts (bytes ''freertos fatal: task=''), uart_puts (pcTaskGetName K),
         uart_puts (bytes '' mepc=''), bind_fw (load32 (slot frame 32)) uart_put_hex,
         uart_puts (bytes '' mcause=''), bind_fw (load32 (slot frame 34)) uart_put_hex,
         uart_puts [10], uart_flush])
       (bind_fw (load32 (slot frame 34)) (\<lambda>cause. freertos_stop (0xf1030000 OR (cause AND 0xffff))))"

definition vApplicationStackOverflowHook :: "u32 \<Rightarrow> u32 \<Rightarrow> 'a fw" where
  "vApplicationStackOverflowHook task name = freertos_stop 0xf1040001"

definition vApplicationMallocFailedHook :: "u32 \<Rightarrow> u32" where
  "vApplicationMallocFailedHook malloc_failed_count = malloc_failed_count + 1"

definition freertos_malloc_failed_count :: "u32 \<Rightarrow> u32" where
  "freertos_malloc_failed_count malloc_failed_count = malloc_failed_count"

text \<open>\<open>freertos_heap_init\<close>: the flag \<open>heap_initialized\<close> goes in and comes out; the region table
  is handed to the kernel. The assertion is on line 15 of the file.\<close>

definition freertos_heap_init :: "kernel \<Rightarrow> u32 \<Rightarrow> u32 \<Rightarrow> u32 \<Rightarrow> u32 fw" where
  "freertos_heap_init K heap_start_addr heap_end_addr heap_initialized =
     (if heap_initialized \<noteq> 0 then freertos_assert_fail K 15
      else then_fw (extern_fw ''vPortDefineHeapRegions''
             [heap_start_addr, heap_end_addr - heap_start_addr, 0, 0])
           (return_fw 1))"

section \<open>The initial stack of a task\<close>

definition pxPortInitialiseStack ::
    "u32 \<Rightarrow> u32 \<Rightarrow> u32 \<Rightarrow> u32 \<Rightarrow> u32 \<Rightarrow> u32 \<Rightarrow> memory \<Rightarrow> (u32 \<times> memory) option" where
  "pxPortInitialiseStack task_returned gp tp pxTopOfStack pxCode pvParameters mm =
     (let top = (pxTopOfStack + 4) AND NOT 15; frame = top - TRAP_FRAME_SIZE
      in do {
        (_, mm0) \<leftarrow> rt_memset mm frame 0 TRAP_FRAME_SIZE;
        mm1 \<leftarrow> st32 mm0 (slot frame 1) task_returned;
        mm2 \<leftarrow> st32 mm1 (slot frame 2) top;
        mm3 \<leftarrow> st32 mm2 (slot frame 3) gp;
        mm4 \<leftarrow> st32 mm3 (slot frame 4) tp;
        mm5 \<leftarrow> st32 mm4 (slot frame 10) pvParameters;
        mm6 \<leftarrow> st32 mm5 (slot frame 32) pxCode;
        mm7 \<leftarrow> st32 mm6 (slot frame 33) 0x1880;
        Some (frame, mm7)
      })"

section \<open>Interrupt masking and yields\<close>

definition freertos_port_in_trap :: "port \<Rightarrow> bool" where
  "freertos_port_in_trap ps \<longleftrightarrow> freertos_trap_depth ps \<noteq> 0"

definition freertos_port_request_yield :: "port \<Rightarrow> port" where
  "freertos_port_request_yield ps = ps\<lparr>freertos_yield_pending := 1\<rparr>"

text \<open>The result tells whether the function executes \<open>ecall\<close>, that is, traps.\<close>

definition freertos_port_enable_interrupts :: "port \<Rightarrow> u32 \<Rightarrow> bool \<times> port \<times> u32" where
  "freertos_port_enable_interrupts ps status =
     (let status' = status OR 8
      in if freertos_yield_pending ps \<noteq> 0 \<and> freertos_trap_depth ps = 0
         then (True, ps\<lparr>freertos_yield_pending := 0\<rparr>, status') else (False, ps, status'))"

definition freertos_port_set_interrupt_mask :: "u32 \<Rightarrow> u32 \<times> u32" where
  "freertos_port_set_interrupt_mask status = (let mask = 8 in (status AND mask, status AND NOT mask))"

definition freertos_port_clear_interrupt_mask :: "u32 \<Rightarrow> u32 \<Rightarrow> u32" where
  "freertos_port_clear_interrupt_mask old_mask status = (if old_mask \<noteq> 0 then status OR 8 else status)"

section \<open>The trap dispatcher\<close>

definition MACHINE_TIMER_INTERRUPT_CAUSE :: u32 where
  "MACHINE_TIMER_INTERRUPT_CAUSE = 0x80000007"

definition switch_task :: "kernel \<Rightarrow> port \<Rightarrow> port fw" where
  "switch_task K ps =
     bind_fw (vTaskSwitchContext K (pxCurrentTCB ps)) (\<lambda>tcb. return_fw (ps\<lparr>pxCurrentTCB := tcb\<rparr>))"

definition rtos_trap_dispatch :: "kernel \<Rightarrow> port \<Rightarrow> u32 \<Rightarrow> (u32 \<times> port) fw" where
  "rtos_trap_dispatch K ps0 frame =
     then_fw (store32 (pxCurrentTCB ps0) frame)
       (let ps = ps0\<lparr>freertos_trap_depth := freertos_trap_depth ps0 + 1\<rparr>
        in bind_fw (load32 (slot frame 34)) (\<lambda>cause.
           bind_fw
             (if cause = 0xb
              then bind_fw (load32 (slot frame 32)) (\<lambda>pc.
                then_fw (store32 (slot frame 32) (pc + 4))
                  (bind_fw (load32 (slot frame 33)) (\<lambda>status.
                     if status AND 0x80 \<noteq> 0 then switch_task K ps
                     else return_fw (ps\<lparr>freertos_yield_pending := 1\<rparr>))))
              else if cause = MACHINE_TIMER_INTERRUPT_CAUSE
              then (let ps1 = ps\<lparr>next_compare := next_compare ps + ucast (counts_per_tick ps)\<rparr>
                    in then_fw (machine_timer_set_compare (next_compare ps1))
                         (bind_fw (xTaskIncrementTick K) (\<lambda>due.
                            if due \<noteq> 0 then switch_task K ps1 else return_fw ps1)))
              else freertos_fatal_trap K frame)
             (\<lambda>ps2. let ps3 = ps2\<lparr>freertos_trap_depth := freertos_trap_depth ps2 - 1\<rparr>
                in bind_fw (load32 (pxCurrentTCB ps3)) (\<lambda>top. return_fw (top, ps3)))))"

section \<open>Starting and stopping the scheduler\<close>

definition configCPU_CLOCK_HZ :: u32 where "configCPU_CLOCK_HZ = 50000000"
definition configTICK_RATE_HZ :: u32 where "configTICK_RATE_HZ = 1000"

text \<open>The result is the resumed pc and the hart with which the first task starts.\<close>

definition xPortStartScheduler :: "kernel \<Rightarrow> u32 \<Rightarrow> port \<Rightarrow> hart \<Rightarrow> (u32 \<times> hart \<times> port) fw" where
  "xPortStartScheduler K trap_entry ps h =
     (let h1 = trap_init trap_entry h
      in if pxCurrentTCB ps = 0 then freertos_assert_fail K 104
         else bind_fw (load32 (pxCurrentTCB ps)) (\<lambda>top0.
         if top0 = 0 then freertos_assert_fail K 104
         else let ps1 = ps\<lparr>counts_per_tick := configCPU_CLOCK_HZ div configTICK_RATE_HZ\<rparr>
           in if counts_per_tick ps1 = 0 then freertos_assert_fail K 109
              else bind_fw machine_timer_now (\<lambda>now.
                let ps2 = ps1\<lparr>next_compare := now + ucast (counts_per_tick ps1)\<rparr>
                in then_fw (machine_timer_set_compare (next_compare ps2))
                     (let h2 = trap_enable_machine_timer_source h1
                      in bind_fw (load32 (pxCurrentTCB ps2)) (\<lambda>top hw m.
                           case trap_restore_frame top (mem m) h2 of
                             (pc, h3) \<Rightarrow> return_fw (pc, h3, ps2) hw m)))))"

definition vPortEndScheduler :: "kernel \<Rightarrow> 'a fw" where
  "vPortEndScheduler K = then_fw (freertos_assert_fail K 123) hang_fw"

section \<open>Aligned frames\<close>

lemma st32_slot: "a AND 3 = 0 \<Longrightarrow> st32 mm (slot a i) v = Some (put32 mm (slot a i) v)"
  by (simp add: st32_def slot_aligned)

lemma load32_slot [fw_simps]:
  "a AND 3 = 0 \<Longrightarrow> load32 (slot a i) hw m = Some (Ret (get32 (mem m) (slot a i)) m)"
  by (simp add: load32_def ld32_def slot_aligned of_option_fw_def)

lemma store32_slot [fw_simps]:
  "a AND 3 = 0 \<Longrightarrow> store32 (slot a i) v hw m = Some (Ret () (m\<lparr>mem := put32 (mem m) (slot a i) v\<rparr>))"
  by (simp add: store32_def st32_slot)

lemma load32_aligned: "a AND 3 = 0 \<Longrightarrow> load32 a hw m = Some (Ret (get32 (mem m) a) m)"
  using load32_slot [of a 0] by simp

lemma store32_aligned: "a AND 3 = 0 \<Longrightarrow> store32 a v hw m = Some (Ret () (m\<lparr>mem := put32 (mem m) a v\<rparr>))"
  using store32_slot [of a 0] by simp

lemma bind_word_access:
  assumes "a AND 3 = 0"
  shows "bind_fw (load32 (slot a i)) g hw m = g (get32 (mem m) (slot a i)) hw m"
    "bind_fw (store32 (slot a i) v) g' hw m = g' () hw (m\<lparr>mem := put32 (mem m) (slot a i) v\<rparr>)"
    "bind_fw (load32 a) g hw m = g (get32 (mem m) a) hw m"
    "bind_fw (store32 a v) g' hw m = g' () hw (m\<lparr>mem := put32 (mem m) a v\<rparr>)"
  using assms by (simp_all add: bind_fw_def load32_slot store32_slot load32_aligned store32_aligned)

lemma get32_fill_zero:
  assumes "i < n" "n \<le> 1000"
  shows "get32 (fill_bytes mm a 0 (4 * n)) (slot a i) = 0"
proof -
  have "fill_bytes mm a 0 (4 * n) (slot a i + of_nat k) = 0" if "k < 4" for k
  proof -
    have "slot a i + of_nat k - a = of_nat (4 * i + k)" by (simp add: slot_def)
    moreover have "4 * i + k < 2 ^ 32" using assms that by simp
    ultimately have "unat (slot a i + of_nat k - a) = 4 * i + k" by (simp only: unat_of_nat) simp
    then show ?thesis using assms that by (simp add: fill_bytes_def)
  qed
  from this [of 0] this [of 1] this [of 2] this [of 3] show ?thesis
    by (simp add: get32_def word_of_bytes_def)
qed

lemma unat_mod16: "unat ((w :: u32) AND 15) = unat w mod 16"
proof -
  have "w AND 15 = w mod 16" using word_mod_2p_is_mask [of 4 w] by (simp add: mask_eq_exp_minus_1)
  then show ?thesis by (simp add: unat_mod)
qed

lemma mod16_aligned:
  fixes w :: u32
  assumes "unat w mod 16 = 0"
  shows "w AND 15 = 0" "w AND 3 = 0"
proof -
  have "unat w mod 16 mod 4 = unat w mod 4" by (rule mod_mod_cancel) simp
  then have "unat w mod 4 = 0" using assms by simp
  then show "w AND 15 = 0" "w AND 3 = 0"
    using assms unat_mod16 [of w] unat_mod4 [of w] by (simp_all add: unat_eq_zero)
qed

lemma round_down_16:
  fixes w :: u32
  defines "base \<equiv> w AND NOT 15"
  shows "base AND 15 = 0" "(base - 144) AND 3 = 0" "(base - 144) AND 15 = 0"
    and "unat base \<le> unat w" "unat w < unat base + 16"
proof -
  have "base + (w AND 15) = base OR (w AND 15)"
    unfolding base_def by (rule disjunctive_add_eq_or) (simp add: ac_simps)
  also have "\<dots> = w" unfolding base_def by (rule bit_word_eqI) (auto simp: bit_simps)
  finally have base: "base = w - (w AND 15)" by (simp add: algebra_simps)
  have "unat (w AND 15) \<le> unat w" by (simp add: unat_mod16)
  then have unat: "unat base = unat w - unat w mod 16"
    unfolding base by (subst unat_sub) (simp_all add: word_le_nat_alt unat_mod16)
  have m: "unat base mod 16 = 0" unfolding unat by (simp add: minus_mod_eq_mult_div)
  then show "base AND 15 = 0" by (rule mod16_aligned)
  have "unat (base - 144) mod 16 = (unat base + 4294967152) mod 16"
    using unat_word_ariths(1) [of base "- 144"] by (simp add: mod_mod_cancel)
  also have "\<dots> = 0" using m by (simp add: mod_add_eq [symmetric])
  finally have "unat (base - 144) mod 16 = 0" .
  then show "(base - 144) AND 3 = 0" "(base - 144) AND 15 = 0" by (rule mod16_aligned)+
  show "unat base \<le> unat w" "unat w < unat base + 16" using unat by simp_all
qed

lemma initial_stack_run:
  fixes sp0 :: u32
  defines "base \<equiv> (sp0 + 4) AND NOT 15"
  shows "pxPortInitialiseStack ret gp tp sp0 code param mm = Some (base - 144,
    put_slots (fill_bytes mm (base - 144) 0 144) (base - 144)
      [(1, ret), (2, base), (3, gp), (4, tp), (10, param), (32, code), (33, 0x1880)])"
  using round_down_16(2) [of "sp0 + 4"]
  by (simp add: pxPortInitialiseStack_def Let_def rt_memset_fills TRAP_FRAME_SIZE_def st32_slot
      put_slots_def base_def)

lemma initial_frame_words:
  assumes "i < 36"
  shows "get32 (put_slots (fill_bytes mm fp 0 144) fp
      [(1, ret), (2, base), (3, gp), (4, tp), (10, param), (32, code), (33, st)]) (slot fp i) =
    (if i = 1 then ret else if i = 2 then base else if i = 3 then gp else if i = 4 then tp
     else if i = 10 then param else if i = 32 then code else if i = 33 then st else 0)"
  using assms get32_fill_zero [of i 36 mm fp] by (subst get_put_slots) auto

lemma initial_stack_outside:
  assumes "144 \<le> unat (b - fp)"
  shows "put_slots (fill_bytes mm fp 0 144) fp
      [(1, ret), (2, base), (3, gp), (4, tp), (10, param), (32, code), (33, st)] b = mm b"
  using assms by (subst put_slots_outside [where n = 36]) (simp_all add: fill_bytes_def)

section \<open>Runs of the dispatcher\<close>

text \<open>The frame and the current task control block are aligned words that do not overlap.\<close>

definition separate :: "u32 \<Rightarrow> u32 \<Rightarrow> bool" where
  "separate tcb frame \<longleftrightarrow> tcb AND 3 = 0 \<and> frame AND 3 = 0 \<and>
     list_all (\<lambda>i. 4 \<le> unat (slot frame i - tcb) \<and> 4 \<le> unat (tcb - slot frame i)) [32, 33, 34]"

lemma separate_words:
  assumes "separate tcb frame" "i \<in> {32, 33, 34}"
  shows "get32 (put32 mm tcb v) (slot frame i) = get32 mm (slot frame i)"
  using assms by (intro get32_put32_other) (auto simp: separate_def)

text \<open>The machine after the prologue: the frame address is saved in the task control block.\<close>

definition saved_top :: "port \<Rightarrow> u32 \<Rightarrow> machine \<Rightarrow> machine" where
  "saved_top ps frame m = m\<lparr>mem := put32 (mem m) (pxCurrentTCB ps) frame\<rparr>"

definition enter_trap :: "port \<Rightarrow> port" where
  "enter_trap ps = ps\<lparr>freertos_trap_depth := freertos_trap_depth ps + 1\<rparr>"

lemma leave_trap [simp]:
  "(enter_trap ps)\<lparr>freertos_trap_depth := freertos_trap_depth (enter_trap ps) - 1\<rparr> = ps"
  by (simp add: enter_trap_def)

lemma ecall_run:
  assumes sep: "separate (pxCurrentTCB ps) frame" and cause: "get32 (mem m) (slot frame 34) = 0xb"
  defines "m1 \<equiv> (saved_top ps frame m)
    \<lparr>mem := put32 (mem (saved_top ps frame m)) (slot frame 32) (get32 (mem m) (slot frame 32) + 4)\<rparr>"
  shows "rtos_trap_dispatch K ps frame hw m =
    bind_fw (if get32 (mem m) (slot frame 33) AND 0x80 \<noteq> 0 then switch_task K (enter_trap ps)
             else return_fw ((enter_trap ps)\<lparr>freertos_yield_pending := 1\<rparr>))
      (\<lambda>ps2. let ps3 = ps2\<lparr>freertos_trap_depth := freertos_trap_depth ps2 - 1\<rparr>
         in bind_fw (load32 (pxCurrentTCB ps3)) (\<lambda>top. return_fw (top, ps3))) hw m1"
proof -
  have al: "pxCurrentTCB ps AND 3 = 0" "frame AND 3 = 0" using sep by (simp_all add: separate_def)
  have words: "get32 (put32 (mem m) (pxCurrentTCB ps) frame) (slot frame i) = get32 (mem m) (slot frame i)"
    if "i \<in> {32, 33, 34}" for i
    using separate_words [OF sep that] by simp
  show ?thesis
    using cause
    by (simp add: rtos_trap_dispatch_def then_fw_def bind_assoc_fw bind_word_access al words Let_def
        get_put_slot enter_trap_def m1_def saved_top_def)
qed

lemma set_compare_effects:
  "machine_timer_set_compare v hw m = Some (Ret () m') \<Longrightarrow>
   effects m' = effects m @ [Wr TINYBUS_MTIMECMP_LO 0xffffffff,
     Wr TINYBUS_MTIMECMP_HI (ucast (drop_bit 32 v)), Wr TINYBUS_MTIMECMP_LO (ucast v)]"
  by (auto simp: set_compare_run effects_def)

lemma bind_set_compare:
  "bind_fw (machine_timer_set_compare v) g hw m = g () hw
     (m\<lparr>trace := [Wr TINYBUS_MTIMECMP_LO (ucast v), Wr TINYBUS_MTIMECMP_HI (ucast (drop_bit 32 v)),
       Wr TINYBUS_MTIMECMP_LO 0xffffffff] @ trace m\<rparr>)"
  by (simp add: bind_fw_def set_compare_run)

definition compare_written :: "u64 \<Rightarrow> machine \<Rightarrow> machine" where
  "compare_written v m = m\<lparr>trace := [Wr TINYBUS_MTIMECMP_LO (ucast v),
     Wr TINYBUS_MTIMECMP_HI (ucast (drop_bit 32 v)), Wr TINYBUS_MTIMECMP_LO 0xffffffff] @ trace m\<rparr>"

definition next_tick :: "port \<Rightarrow> port" where
  "next_tick ps = ps\<lparr>next_compare := next_compare ps + ucast (counts_per_tick ps)\<rparr>"

lemma timer_run:
  assumes sep: "separate (pxCurrentTCB ps) frame"
    and cause: "get32 (mem m) (slot frame 34) = MACHINE_TIMER_INTERRUPT_CAUSE"
  shows "rtos_trap_dispatch K ps frame hw m =
    bind_fw (bind_fw (xTaskIncrementTick K)
        (\<lambda>due. if due \<noteq> 0 then switch_task K (next_tick (enter_trap ps)) else return_fw (next_tick (enter_trap ps))))
      (\<lambda>ps2. let ps3 = ps2\<lparr>freertos_trap_depth := freertos_trap_depth ps2 - 1\<rparr>
         in bind_fw (load32 (pxCurrentTCB ps3)) (\<lambda>top. return_fw (top, ps3)))
      hw (compare_written (next_compare (next_tick ps)) (saved_top ps frame m))"
proof -
  have al: "pxCurrentTCB ps AND 3 = 0" "frame AND 3 = 0" using sep by (simp_all add: separate_def)
  have words: "get32 (put32 (mem m) (pxCurrentTCB ps) frame) (slot frame 34) = get32 (mem m) (slot frame 34)"
    using separate_words [OF sep, of 34] by simp
  show ?thesis
    using cause
    by (simp add: rtos_trap_dispatch_def then_fw_def bind_assoc_fw bind_word_access al words Let_def
        bind_set_compare enter_trap_def next_tick_def compare_written_def saved_top_def
        MACHINE_TIMER_INTERRUPT_CAUSE_def cong: if_cong)
qed

lemma other_run:
  assumes sep: "separate (pxCurrentTCB ps) frame"
    and cause: "get32 (mem m) (slot frame 34) \<noteq> 0xb"
      "get32 (mem m) (slot frame 34) \<noteq> MACHINE_TIMER_INTERRUPT_CAUSE"
  shows "rtos_trap_dispatch K ps frame hw m =
    bind_fw (freertos_fatal_trap K frame)
      (\<lambda>ps2. let ps3 = ps2\<lparr>freertos_trap_depth := freertos_trap_depth ps2 - 1\<rparr>
         in bind_fw (load32 (pxCurrentTCB ps3)) (\<lambda>top. return_fw (top, ps3))) hw (saved_top ps frame m)"
proof -
  have al: "pxCurrentTCB ps AND 3 = 0" "frame AND 3 = 0" using sep by (simp_all add: separate_def)
  have words: "get32 (put32 (mem m) (pxCurrentTCB ps) frame) (slot frame 34) = get32 (mem m) (slot frame 34)"
    using separate_words [OF sep, of 34] by simp
  show ?thesis
    using cause by (simp add: rtos_trap_dispatch_def then_fw_def bind_word_access al words saved_top_def Let_def)
qed

text \<open>The two outcomes of a run with a kernel whose calls return.\<close>

lemma finish_switch:
  assumes "vTaskSwitchContext K (pxCurrentTCB ps) hw m1 = Some (Ret tcb m2)" "tcb AND 3 = 0"
  shows "bind_fw (switch_task K (enter_trap ps))
      (\<lambda>ps2. let ps3 = ps2\<lparr>freertos_trap_depth := freertos_trap_depth ps2 - 1\<rparr>
         in bind_fw (load32 (pxCurrentTCB ps3)) (\<lambda>top. return_fw (top, ps3))) hw m1 =
    Some (Ret (get32 (mem m2) tcb, ps\<lparr>pxCurrentTCB := tcb\<rparr>) m2)"
  using assms
  by (simp add: switch_task_def bind_assoc_fw bind_fw_def [of "vTaskSwitchContext K (pxCurrentTCB ps)"]
      enter_trap_def Let_def
      bind_word_access return_fw_def)

section \<open>The life of the port\<close>

text \<open>What a run that returns can return.\<close>

definition gives :: "'a fw \<Rightarrow> ('a \<Rightarrow> bool) \<Rightarrow> bool" where
  "gives f P \<longleftrightarrow> (\<forall>hw m a m'. f hw m = Some (Ret a m') \<longrightarrow> P a)"

lemma gives_bind: "gives f R \<Longrightarrow> (\<And>a. R a \<Longrightarrow> gives (g a) P) \<Longrightarrow> gives (bind_fw f g) P"
  unfolding gives_def bind_fw_def by (fastforce split: option.splits outcome.splits)

lemma gives_any: "gives f (\<lambda>_. True)"
  by (simp add: gives_def)

lemma gives_return: "P a \<Longrightarrow> gives (return_fw a) P"
  by (simp add: gives_def return_fw_def)

lemma gives_stop: "gives (freertos_stop code) P"
  unfolding freertos_stop_def then_fw_def
  by (rule gives_bind [OF gives_any]) (simp add: gives_def hang_fw_def)

lemma gives_fatal: "gives (freertos_fatal_trap K frame) P"
  unfolding freertos_fatal_trap_def then_fw_def
  by (intro gives_bind [OF gives_any] gives_stop)

lemma gives_switch: "(\<And>t. P (ps\<lparr>pxCurrentTCB := t\<rparr>)) \<Longrightarrow> gives (switch_task K ps) P"
  unfolding switch_task_def by (rule gives_bind [OF gives_any]) (auto intro: gives_return)

text \<open>How a trap with a given cause changes the port's variables when it returns.\<close>

definition after_trap :: "u32 \<Rightarrow> port \<Rightarrow> port \<Rightarrow> bool" where
  "after_trap cause ps ps' \<longleftrightarrow>
     (cause = 0xb \<or> cause = MACHINE_TIMER_INTERRUPT_CAUSE) \<and>
     freertos_trap_depth ps' = freertos_trap_depth ps \<and> counts_per_tick ps' = counts_per_tick ps \<and>
     next_compare ps' = next_compare ps +
       (if cause = MACHINE_TIMER_INTERRUPT_CAUSE then ucast (counts_per_tick ps) else 0)"

lemma gives_epilogue:
  "P (ps2\<lparr>freertos_trap_depth := freertos_trap_depth ps2 - 1\<rparr>) \<Longrightarrow>
   gives (let ps3 = ps2\<lparr>freertos_trap_depth := freertos_trap_depth ps2 - 1\<rparr>
     in bind_fw (load32 (pxCurrentTCB ps3)) (\<lambda>top. return_fw (top, ps3))) (\<lambda>(top, ps'). P ps')"
  unfolding Let_def by (rule gives_bind [OF gives_any]) (auto intro: gives_return)

lemma dispatch_after_trap:
  assumes "separate (pxCurrentTCB ps) frame"
    and "rtos_trap_dispatch K ps frame hw m = Some (Ret (fp, ps') m')"
  shows "after_trap (get32 (mem m) (slot frame 34)) ps ps'"
proof -
  let ?cause = "get32 (mem m) (slot frame 34)"
  let ?fin = "\<lambda>ps2. let ps3 = ps2\<lparr>freertos_trap_depth := freertos_trap_depth ps2 - 1\<rparr>
     in bind_fw (load32 (pxCurrentTCB ps3)) (\<lambda>top. return_fw (top, ps3))"
  have al: "pxCurrentTCB ps AND 3 = 0" "frame AND 3 = 0" using assms(1) by (simp_all add: separate_def)
  have words: "get32 (put32 (mem m) (pxCurrentTCB ps) frame) (slot frame 34) = ?cause"
    using separate_words [OF assms(1), of 34] by simp
  have fin: "gives (bind_fw f ?fin) (\<lambda>(top, ps'). after_trap ?cause ps ps')"
    if "gives f (\<lambda>ps2. after_trap ?cause ps (ps2\<lparr>freertos_trap_depth := freertos_trap_depth ps2 - 1\<rparr>))" for f
    using that by (rule gives_bind) (rule gives_epilogue)
  consider "?cause = 0xb" | "?cause = MACHINE_TIMER_INTERRUPT_CAUSE"
    | "?cause \<noteq> 0xb" "?cause \<noteq> MACHINE_TIMER_INTERRUPT_CAUSE" by blast
  then show ?thesis
  proof cases
    case 1
    have "gives (if b then switch_task K (enter_trap ps) else return_fw ((enter_trap ps)\<lparr>freertos_yield_pending := 1\<rparr>))
        (\<lambda>ps2. after_trap ?cause ps (ps2\<lparr>freertos_trap_depth := freertos_trap_depth ps2 - 1\<rparr>))" for b
      using 1 by (cases b) (auto simp: after_trap_def enter_trap_def MACHINE_TIMER_INTERRUPT_CAUSE_def
          intro!: gives_switch gives_return)
    from fin [OF this] assms(2) show ?thesis
      unfolding ecall_run [OF assms(1) 1] gives_def by blast
  next
    case 2
    have "gives (bind_fw (xTaskIncrementTick K) (\<lambda>due. if due \<noteq> 0 then switch_task K (next_tick (enter_trap ps))
        else return_fw (next_tick (enter_trap ps))))
        (\<lambda>ps2. after_trap ?cause ps (ps2\<lparr>freertos_trap_depth := freertos_trap_depth ps2 - 1\<rparr>))"
      by (rule gives_bind [OF gives_any])
        (use 2 in \<open>auto simp: after_trap_def enter_trap_def next_tick_def MACHINE_TIMER_INTERRUPT_CAUSE_def
          intro!: gives_switch gives_return\<close>)
    from fin [OF this] assms(2) show ?thesis
      unfolding timer_run [OF assms(1) 2] gives_def by blast
  next
    case 3
    then have "rtos_trap_dispatch K ps frame hw m =
        bind_fw (freertos_fatal_trap K frame) ?fin hw (saved_top ps frame m)"
      by (rule other_run [OF assms(1)])
    moreover have "gives (bind_fw (freertos_fatal_trap K frame) ?fin) (\<lambda>_. False)"
      by (rule gives_bind [OF gives_fatal [where P = "\<lambda>_. False"]]) simp
    then have "bind_fw (freertos_fatal_trap K frame) ?fin hw (saved_top ps frame m) \<noteq> Some (Ret (fp, ps') m')"
      unfolding gives_def by blast
    ultimately show ?thesis using assms(2) by metis
  qed
qed

text \<open>The port between traps: tasks run, and may ask for a deferred yield or take one, while
  memory and devices do whatever they do; \<open>n\<close> counts the timer interrupts.\<close>

inductive port_run :: "kernel \<Rightarrow> port \<Rightarrow> nat \<Rightarrow> port \<Rightarrow> bool" for K :: kernel and ps0 :: port where
  start: "port_run K ps0 0 ps0"
| request: "port_run K ps0 n ps \<Longrightarrow> port_run K ps0 n (freertos_port_request_yield ps)"
| enable: "port_run K ps0 n ps \<Longrightarrow> freertos_port_enable_interrupts ps status = (ecall, ps', status') \<Longrightarrow>
    port_run K ps0 n ps'"
| trap: "port_run K ps0 n ps \<Longrightarrow> separate (pxCurrentTCB ps) frame \<Longrightarrow>
    rtos_trap_dispatch K ps frame hw m = Some (Ret (fp, ps') m') \<Longrightarrow>
    port_run K ps0 (if get32 (mem m) (slot frame 34) = MACHINE_TIMER_INTERRUPT_CAUSE then n + 1 else n) ps'"

inductive_cases port_run_cases: "port_run K ps0 n ps"

lemma port_run_invariant:
  "port_run K ps0 n ps \<Longrightarrow> freertos_trap_depth ps = freertos_trap_depth ps0 \<and>
     counts_per_tick ps = counts_per_tick ps0 \<and>
     next_compare ps = next_compare ps0 + of_nat n * ucast (counts_per_tick ps0)"
proof (induction rule: port_run.induct)
  case (enable n ps status ecall ps' status')
  then show ?case by (auto simp: freertos_port_enable_interrupts_def Let_def split: if_splits)
next
  case (trap n ps frame hw m fp ps' m')
  with dispatch_after_trap [OF trap.hyps(2,3)] show ?case
    by (auto simp: after_trap_def algebra_simps MACHINE_TIMER_INTERRUPT_CAUSE_def split: if_splits)
qed (simp_all add: freertos_port_request_yield_def)

lemma fatal_run:
  fixes hw :: hw and m :: machine
  assumes uart: "uart_tx hw" and al: "frame AND 3 = 0"
  shows "\<exists>m'. (freertos_fatal_trap K frame :: 'a fw) hw m = Some (Stop m') \<and> effects m' = effects m @
    map tx (crlf (bytes ''freertos fatal: task='') @ crlf (pcTaskGetName K) @ crlf (bytes '' mepc='') @
      [0x30, 0x78] @ hex8 (get32 (mem m) (slot frame 32)) @ crlf (bytes '' mcause='') @
      [0x30, 0x78] @ hex8 (get32 (mem m) (slot frame 34)) @ [13, 10]) @
    [Wr TINYBUS_TEST_EXIT (0xf1030000 OR (get32 (mem m) (slot frame 34) AND 0xffff))]"
proof -
  note ops = uart_tx.emits_puts [OF uart] uart_tx.emits_put_hex [OF uart] uart_tx.emits_flush [OF uart]
  obtain m1 where 1: "uart_puts (bytes ''freertos fatal: task='') hw m = Some (Ret () m1)" "mem m1 = mem m"
      "effects m1 = effects m @ map tx (crlf (bytes ''freertos fatal: task=''))"
    by (rule emits_run [OF ops(1)])
  obtain m2 where 2: "uart_puts (pcTaskGetName K) hw m1 = Some (Ret () m2)" "mem m2 = mem m1"
      "effects m2 = effects m1 @ map tx (crlf (pcTaskGetName K))"
    by (rule emits_run [OF ops(1)])
  obtain m3 where 3: "uart_puts (bytes '' mepc='') hw m2 = Some (Ret () m3)" "mem m3 = mem m2"
      "effects m3 = effects m2 @ map tx (crlf (bytes '' mepc=''))"
    by (rule emits_run [OF ops(1)])
  obtain m4 where 4: "uart_put_hex (get32 (mem m) (slot frame 32)) hw m3 = Some (Ret () m4)" "mem m4 = mem m3"
      "effects m4 = effects m3 @ map tx ([0x30, 0x78] @ hex8 (get32 (mem m) (slot frame 32)))"
    by (rule emits_run [OF ops(2)])
  obtain m5 where 5: "uart_puts (bytes '' mcause='') hw m4 = Some (Ret () m5)" "mem m5 = mem m4"
      "effects m5 = effects m4 @ map tx (crlf (bytes '' mcause=''))"
    by (rule emits_run [OF ops(1)])
  obtain m6 where 6: "uart_put_hex (get32 (mem m) (slot frame 34)) hw m5 = Some (Ret () m6)" "mem m6 = mem m5"
      "effects m6 = effects m5 @ map tx ([0x30, 0x78] @ hex8 (get32 (mem m) (slot frame 34)))"
    by (rule emits_run [OF ops(2)])
  obtain m7 where 7: "uart_puts [10] hw m6 = Some (Ret () m7)" "mem m7 = mem m6"
      "effects m7 = effects m6 @ map tx (crlf [10])"
    by (rule emits_run [OF ops(1)])
  obtain m8 where 8: "uart_flush hw m7 = Some (Ret () m8)" "mem m8 = mem m7" "effects m8 = effects m7 @ []"
    by (rule emits_run [OF ops(3)])
  have mems: "mem m3 = mem m" "mem m5 = mem m" "mem m8 = mem m" using 1 2 3 4 5 6 7 8 by simp_all
  have "(freertos_fatal_trap K frame :: 'a fw) hw m =
      freertos_stop (0xf1030000 OR (get32 (mem m) (slot frame 34) AND 0xffff)) hw m8"
    using mems 1(1) 2(1) 3(1) 4(1) 5(1) 6(1) 7(1) 8(1)
    by (simp add: freertos_fatal_trap_def then_fw_def bind_fw_def load32_slot al return_fw_def del: uart_puts.simps)
  then show ?thesis
    using 1(3) 2(3) 3(3) 4(3) 5(3) 6(3) 7(3) 8(3)
    by (simp add: freertos_stop_def then_fw_def bind_fw_def mmio_write_def hang_fw_def)
qed

section \<open>Properties\<close>

text \<open>\<open>pxPortInitialiseStack\<close> builds a frame from which the task starts as a C function: the
  returned top of stack is 16-byte aligned and 144 bytes below the aligned end of the stack,
  nothing else is written, and restoring it starts at the task code with its parameter in
  \<open>a0\<close>, the stack pointer at the aligned end, the return address at
  \<open>freertos_task_returned\<close>, gp and tp inherited, all other registers zero and interrupts on.\<close>

lemma initial_stack_starts_task:
  "\<exists>fp mm'. pxPortInitialiseStack ret gp tp sp0 code param mm = Some (fp, mm') \<and>
     fp AND 15 = 0 \<and> unat (fp + 144) \<le> unat (sp0 + 4) \<and> unat (sp0 + 4) < unat (fp + 144) + 16 \<and>
     (\<forall>b. 144 \<le> unat (b - fp) \<longrightarrow> mm' b = mm b) \<and>
     (case trap_restore_frame fp mm' h of (pc, r) \<Rightarrow>
        pc = code \<and> bit (csr_mstatus r) 3 \<and>
        (\<forall>i < 32. regs r i = (if i = 1 then ret else if i = 2 then fp + 144 else if i = 3 then gp
           else if i = 4 then tp else if i = 10 then param else 0)))"
proof -
  define base where "base = (sp0 + 4) AND NOT 15"
  define mm' where "mm' = put_slots (fill_bytes mm (base - 144) 0 144) (base - 144)
      [(1, ret), (2, base), (3, gp), (4, tp), (10, param), (32, code), (33, 0x1880)]"
  have run: "pxPortInitialiseStack ret gp tp sp0 code param mm = Some (base - 144, mm')"
    unfolding mm'_def base_def by (rule initial_stack_run)
  have words: "get32 mm' (slot (base - 144) i) =
    (if i = 1 then ret else if i = 2 then base else if i = 3 then gp else if i = 4 then tp
     else if i = 10 then param else if i = 32 then code else if i = 33 then 0x1880 else 0)"
    if "i < 36" for i
    unfolding mm'_def using that by (rule initial_frame_words)
  have outside: "\<forall>b. 144 \<le> unat (b - (base - 144)) \<longrightarrow> mm' b = mm b"
    unfolding mm'_def by (intro allI impI) (rule initial_stack_outside)
  have mie: "bit (mret_mstatus 0x1880) 3" by (simp add: mret_mstatus_def bit_simps)
  have restored: "case trap_restore_frame (base - 144) mm' h of (pc, r) \<Rightarrow>
        pc = code \<and> bit (csr_mstatus r) 3 \<and>
        (\<forall>i < 32. regs r i = (if i = 1 then ret else if i = 2 then (base - 144) + 144 else if i = 3 then gp
           else if i = 4 then tp else if i = 10 then param else 0))"
    using mie by (simp add: trap_restore_frame_def Let_def words)
  show ?thesis
    using run restored outside round_down_16 [of "sp0 + 4"] unfolding base_def [symmetric]
    by (intro exI [of _ "base - 144"] exI [of _ mm']) simp
qed

theorem initial_stack_starts_task_witness:
  "\<exists>fp mm'. pxPortInitialiseStack 0x100 0x200 0x300 0x8ffc 0x400 7 (\<lambda>_. 0xee) = Some (fp, mm') \<and>
     fp AND 15 = 0 \<and> mm' (fp + 144) = 0xee \<and> fst (trap_restore_frame fp mm' example_hart) = 0x400 \<and>
     regs (snd (trap_restore_frame fp mm' example_hart)) 10 = 7"
  using initial_stack_starts_task [of "0x100" "0x200" "0x300" "0x8ffc" "0x400" 7 "\<lambda>_. 0xee" example_hart]
  by (fastforce simp: case_prod_beta)


text \<open>A kernel for the witnesses: the next task is always the one at \<open>0x9000\<close>.\<close>

definition example_kernel :: kernel where
  "example_kernel = \<lparr>vTaskSwitchContext = (\<lambda>_. return_fw 0x9000), xTaskIncrementTick = return_fw 1,
     pcTaskGetName = bytes ''main''\<rparr>"

definition example_port :: port where
  "example_port = \<lparr>freertos_trap_depth = 0, freertos_yield_pending = 0, counts_per_tick = 50000,
     next_compare = 50000, pxCurrentTCB = 0x8000\<rparr>"

text \<open>A yield of the task at \<open>0x8000\<close> with its frame at \<open>0x4000\<close>; the other task's frame is at \<open>0x5000\<close>.\<close>

definition example_trap :: "u32 \<Rightarrow> machine" where
  "example_trap cause = \<lparr>mem = put32 (put_slots (\<lambda>_. 0) 0x4000 [(32, 0x100), (33, 0x1880), (34, cause)]) 0x9000 0x5000,
     trace = []\<rparr>"

lemma example_separate: "separate (pxCurrentTCB example_port) 0x4000"
  by (simp add: example_port_def separate_def slot_def)

lemma example_words:
  "get32 (mem (example_trap cause)) (slot 0x4000 32) = 0x100"
  "get32 (mem (example_trap cause)) (slot 0x4000 33) = 0x1880"
  "get32 (mem (example_trap cause)) (slot 0x4000 34) = cause"
  by (simp_all add: example_trap_def get32_put32_other slot_def get_put_slots [of _ 32 _ "0x4000", simplified slot_def, simplified]
      get_put_slots [of _ 33 _ "0x4000", simplified slot_def, simplified]
      get_put_slots [of _ 34 _ "0x4000", simplified slot_def, simplified])




text \<open>C21: Over any history of traps, deferred yields and task activity the trap depth is balanced
  and the compare value stays on the grid of whole tick periods from where it started: however
  late the interrupts are served, after \<open>n\<close> of them exactly \<open>n\<close> periods were added.\<close>

theorem tick_grid:
  assumes "port_run K ps0 n ps"
  shows "freertos_trap_depth ps = freertos_trap_depth ps0 \<and>
    next_compare ps = next_compare ps0 + of_nat n * ucast (counts_per_tick ps0)"
  using port_run_invariant [OF assms] by blast

theorem tick_grid_witness:
  "\<exists>ps. port_run example_kernel example_port 1 ps \<and> next_compare ps = 100000"
proof -
  let ?hw = "soc_hw board_config board_reset" and ?m = "example_trap MACHINE_TIMER_INTERRUPT_CAUSE"
  have tick: "xTaskIncrementTick example_kernel ?hw m' = Some (Ret 1 m')" for m'
    by (simp add: example_kernel_def return_fw_def)
  have switch: "vTaskSwitchContext example_kernel (pxCurrentTCB (enter_trap example_port)) ?hw m' = Some (Ret 0x9000 m')" for m'
    by (simp add: example_kernel_def return_fw_def)
  obtain fp ps m' where run: "rtos_trap_dispatch example_kernel example_port 0x4000 ?hw ?m = Some (Ret (fp, ps) m')"
    unfolding timer_run [OF example_separate example_words(3)]
    by (simp add: bind_fw_def switch_task_def example_kernel_def return_fw_def Let_def load32_aligned)
  from port_run.trap [OF port_run.start example_separate run] have "port_run example_kernel example_port 1 ps"
    by (simp add: example_words)
  moreover from tick_grid [OF this] have "next_compare ps = 100000" by (simp add: example_port_def)
  ultimately show ?thesis by blast
qed

text \<open>A trap with any other cause never returns to a task: it prints the task name, \<open>mepc\<close> and
  \<open>mcause\<close>, stores \<open>0xf1030000\<close> with the low half of the cause in the exit register and stops.\<close>

lemma unknown_trap_is_fatal:
  assumes "separate (pxCurrentTCB ps) frame" "get32 (mem m) (slot frame 34) = cause"
    and "cause \<noteq> 0xb" "cause \<noteq> MACHINE_TIMER_INTERRUPT_CAUSE"
  shows "\<exists>m'. rtos_trap_dispatch K ps frame (soc_hw cfg s0) m = Some (Stop m') \<and>
    effects m' = effects m @ map tx (crlf (bytes ''freertos fatal: task='') @ crlf (pcTaskGetName K) @
      crlf (bytes '' mepc='') @ [0x30, 0x78] @ hex8 (get32 (mem m) (slot frame 32)) @
      crlf (bytes '' mcause='') @ [0x30, 0x78] @ hex8 cause @ [13, 10]) @
    [Wr TINYBUS_TEST_EXIT (0xf1030000 OR (cause AND 0xffff))]"
proof -
  have al: "pxCurrentTCB ps AND 3 = 0" "frame AND 3 = 0" using assms(1) by (simp_all add: separate_def)
  have words: "get32 (mem (saved_top ps frame m)) (slot frame 34) = cause"
      "get32 (mem (saved_top ps frame m)) (slot frame 32) = get32 (mem m) (slot frame 32)"
    using separate_words [OF assms(1)] assms(2) by (simp_all add: saved_top_def)
  obtain m' where run: "(freertos_fatal_trap K frame :: port fw) (soc_hw cfg s0) (saved_top ps frame m) = Some (Stop m')"
      and eff: "effects m' = effects (saved_top ps frame m) @ map tx (crlf (bytes ''freertos fatal: task='') @
      crlf (pcTaskGetName K) @ crlf (bytes '' mepc='') @ [0x30, 0x78] @ hex8 (get32 (mem m) (slot frame 32)) @
      crlf (bytes '' mcause='') @ [0x30, 0x78] @ hex8 cause @ [13, 10]) @
      [Wr TINYBUS_TEST_EXIT (0xf1030000 OR (cause AND 0xffff))]"
    using fatal_run [OF soc_uart.uart_tx_axioms al(2), of K cfg s0 "saved_top ps frame m"] unfolding words by blast
  have "rtos_trap_dispatch K ps frame (soc_hw cfg s0) m = Some (Stop m')"
    using other_run [OF assms(1), of m K "soc_hw cfg s0"] assms(2,3,4) run by (simp add: bind_fw_def)
  moreover have "effects (saved_top ps frame m) = effects m" by (simp add: saved_top_def)
  ultimately show ?thesis using eff by simp
qed

theorem unknown_trap_is_fatal_witness:
  "\<exists>m'. rtos_trap_dispatch example_kernel example_port 0x4000 (soc_hw board_config board_reset) (example_trap 2) =
     Some (Stop m') \<and> Wr TINYBUS_TEST_EXIT 0xf1030002 \<in> set (effects m')"
  using unknown_trap_is_fatal [OF example_separate example_words(3), of 2 example_kernel board_config board_reset]
  by (auto simp: MACHINE_TIMER_INTERRUPT_CAUSE_def)

text \<open>Masking from an interrupt handler nests: it clears the interrupt enable, and handing the
  returned value back restores the status register as it was. Enabling interrupts takes a
  pending yield exactly once, and never inside a trap.\<close>

lemma interrupt_mask_nests:
  "(case freertos_port_set_interrupt_mask s of (old, s') \<Rightarrow>
      \<not> bit s' 3 \<and> freertos_port_clear_interrupt_mask old s' = s) \<and>
   (case freertos_port_enable_interrupts ps s of (ecall, ps', s') \<Rightarrow>
      bit s' 3 \<and>
      (ecall \<longleftrightarrow> freertos_yield_pending ps \<noteq> 0 \<and> \<not> freertos_port_in_trap ps) \<and>
      \<not> (ecall \<and> fst (freertos_port_enable_interrupts ps' s')))"
proof -
  define k :: u32 where "k = 8"
  have bit3: "bit k n \<longleftrightarrow> n = 3" for n
    using bit_exp_iff [of 3 n, where 'a = u32] by (auto simp: k_def)
  have zero: "s AND k = 0 \<longleftrightarrow> \<not> bit s 3" using and_exp_eq_0_iff_not_bit [of s 3] by (simp add: k_def)
  have "\<not> bit (s AND NOT k) 3" by (simp add: bit_simps bit3)
  moreover have "s AND NOT k = s" if "\<not> bit s 3"
    using that by (intro bit_word_eqI) (auto simp: bit_simps bit3)
  moreover have "(s AND NOT k) OR k = s" if "bit s 3"
    using that by (intro bit_word_eqI) (auto simp: bit_simps bit3)
  moreover have "bit (s OR k) 3" by (simp add: bit_simps bit3)
  ultimately show ?thesis
    unfolding freertos_port_set_interrupt_mask_def freertos_port_clear_interrupt_mask_def Let_def
      freertos_port_enable_interrupts_def freertos_port_in_trap_def k_def [symmetric]
    using zero by auto
qed

end
