(* ===== verification/Freertos_Task.thy ===== *)
theory Freertos_Task
  imports Devices
begin

text \<open>
  What the FreeRTOS applications share. The kernel is a submodule that is not part of the
  repository: a call of one of its functions is an external call whose result the environment
  chooses, and the constants of its headers are the record \<open>freertos_api\<close>. A static variable
  that several tasks use is read and written through the environment as well, so that a task
  may find any value in it: whatever the other tasks do between two of its accesses is
  covered. The last section is the calculus in which the applications are verified.
\<close>

section \<open>The kernel's interface\<close>

text \<open>\<open>pdPASS\<close>, \<open>pdTRUE\<close> and \<open>pdMS_TO_TICKS\<close> come from the kernel's headers; the addresses of
  the static objects and functions of a program from the linker.\<close>

record freertos_api =
  pdPASS :: u32
  pdTRUE :: u32
  pdMS_TO_TICKS :: "u32 \<Rightarrow> u32"

type_synonym symbols = "string \<Rightarrow> u32"

definition portMAX_DELAY :: u32 where [addr_defs]: "portMAX_DELAY = 0xffffffff"

definition kernel_call :: "string \<Rightarrow> u32 list \<Rightarrow> unit fw" where
  "kernel_call f xs = then_fw (extern_fw f xs) (return_fw ())"

text \<open>Shared static variables, by name.\<close>

definition shared_read :: "string \<Rightarrow> u32 fw" where
  "shared_read x = extern_fw x []"

definition shared_write :: "string \<Rightarrow> u32 \<Rightarrow> unit fw" where
  "shared_write x v = kernel_call x [v]"

section \<open>Loops of tasks\<close>

text \<open>\<open>loop_fw\<close> repeats its body as long as it returns \<open>Inl\<close> the next state, and returns when
  it returns \<open>Inr\<close> a result. A loop that goes on forever has the value \<open>None\<close>.\<close>

partial_function (option) loop_fw ::
    "('s \<Rightarrow> ('s + 'b) fw) \<Rightarrow> 's \<Rightarrow> hw \<Rightarrow> machine \<Rightarrow> 'b outcome option" where
  "loop_fw body s hw m =
     (case body s hw m of
        Some (Ret r m') \<Rightarrow>
          (case r of Inl s' \<Rightarrow> loop_fw body s' hw m' | Inr b \<Rightarrow> Some (Ret b m'))
      | Some (Stop m') \<Rightarrow> Some (Stop m')
      | Some Fault \<Rightarrow> Some Fault
      | None \<Rightarrow> None)"

text \<open>The body of a task that never returns: \<open>for (;;) { ... }\<close>.\<close>

definition forever :: "('s \<Rightarrow> 's fw) \<Rightarrow> 's \<Rightarrow> 'b fw" where
  "forever body = loop_fw (\<lambda>s. bind_fw (body s) (\<lambda>s'. return_fw (Inl s')))"

section \<open>How a program can end\<close>

text \<open>\<open>safely_in H P f Q\<close>: if the devices and the kernel answer in one of the ways \<open>H\<close>, then \<open>f\<close>
  does nothing undefined; if it returns, the result satisfies \<open>Q\<close>; and if it stops for good, the
  machine satisfies \<open>P\<close>. \<open>safely\<close> is the case of arbitrary answers, and \<open>runs\<close> the case of the
  programs that store one of the codes \<open>C\<close> in the exit register and then hang.\<close>

definition safely_in :: "(hw \<Rightarrow> bool) \<Rightarrow> (machine \<Rightarrow> bool) \<Rightarrow> 'a fw \<Rightarrow> ('a \<Rightarrow> bool) \<Rightarrow> bool" where
  "safely_in H P f Q \<longleftrightarrow>
     (\<forall>hw m. H hw \<longrightarrow> (case f hw m of
        None \<Rightarrow> True
      | Some (Ret a m') \<Rightarrow> Q a
      | Some (Stop m') \<Rightarrow> P m'
      | Some Fault \<Rightarrow> False))"

definition stopped_with :: "u32 set \<Rightarrow> machine \<Rightarrow> bool" where
  "stopped_with C m \<longleftrightarrow> (\<exists>c \<in> C. \<exists>tr. trace m = Wr TINYBUS_TEST_EXIT c # tr)"

abbreviation safely :: "(machine \<Rightarrow> bool) \<Rightarrow> 'a fw \<Rightarrow> ('a \<Rightarrow> bool) \<Rightarrow> bool" where
  "safely \<equiv> safely_in (\<lambda>_. True)"

abbreviation runs_in :: "(hw \<Rightarrow> bool) \<Rightarrow> u32 set \<Rightarrow> 'a fw \<Rightarrow> ('a \<Rightarrow> bool) \<Rightarrow> bool" where
  "runs_in H C \<equiv> safely_in H (stopped_with C)"

abbreviation runs :: "u32 set \<Rightarrow> 'a fw \<Rightarrow> ('a \<Rightarrow> bool) \<Rightarrow> bool" where
  "runs C \<equiv> runs_in (\<lambda>_. True) C"

named_theorems run_intros

lemma runs_return: "Q a \<Longrightarrow> safely_in H P (return_fw a) Q"
  by (simp add: safely_in_def return_fw_def)

lemma runs_mono: "safely_in H P f R \<Longrightarrow> (\<And>a. R a \<Longrightarrow> Q a) \<Longrightarrow> safely_in H P f Q"
  unfolding safely_in_def by (fastforce split: option.splits outcome.splits)

lemma runs_weaken: "safely_in H P f Q \<Longrightarrow> (\<And>m. P m \<Longrightarrow> R m) \<Longrightarrow> safely_in H R f Q"
  unfolding safely_in_def by (fastforce split: option.splits outcome.splits)

lemma runs_bind:
  assumes f: "safely_in H P f R" and g: "\<And>a. R a \<Longrightarrow> safely_in H P (g a) Q"
  shows "safely_in H P (bind_fw f g) Q"
  unfolding safely_in_def
proof (intro allI impI)
  fix hw m
  assume H: "H hw"
  have "case f hw m of None \<Rightarrow> True | Some (Ret a m') \<Rightarrow> R a | Some (Stop m') \<Rightarrow> P m'
      | Some Fault \<Rightarrow> False"
    using f H by (simp add: safely_in_def)
  moreover have "case g a hw m' of None \<Rightarrow> True | Some (Ret a m') \<Rightarrow> Q a
      | Some (Stop m') \<Rightarrow> P m' | Some Fault \<Rightarrow> False" if "R a" for a m'
    using g [OF that] H by (simp add: safely_in_def)
  ultimately show "case bind_fw f g hw m of None \<Rightarrow> True | Some (Ret a m') \<Rightarrow> Q a
      | Some (Stop m') \<Rightarrow> P m' | Some Fault \<Rightarrow> False"
    by (cases "f hw m"; cases "the (f hw m)") (simp_all add: bind_fw_def)
qed

lemma runs_then: "safely_in H P f (\<lambda>_. True) \<Longrightarrow> safely_in H P g Q \<Longrightarrow> safely_in H P (then_fw f g) Q"
  unfolding then_fw_def by (rule runs_bind)

lemma runs_seq: "(\<And>f. f \<in> set fs \<Longrightarrow> safely_in H P f (\<lambda>_. True)) \<Longrightarrow> safely_in H P (seq_fw fs) (\<lambda>_. True)"
  by (induction fs) (auto intro: runs_return runs_then)

lemma runs_exit: "c \<in> C \<Longrightarrow> runs_in H C (then_fw (mmio_write TINYBUS_TEST_EXIT c) hang_fw) Q"
  by (auto simp: safely_in_def then_fw_def bind_fw_def mmio_write_def hang_fw_def stopped_with_def)

lemma runs_write [run_intros]: "safely_in H P (mmio_write a v) (\<lambda>_. True)"
  by (simp add: safely_in_def mmio_write_def)

lemma runs_read [run_intros]: "safely_in H P (mmio_read a) (\<lambda>_. True)"
  by (simp add: safely_in_def mmio_read_def Let_def)

lemma runs_extern [run_intros]: "safely_in H P (extern_fw f xs) (\<lambda>_. True)"
  by (simp add: safely_in_def extern_fw_def Let_def)

lemma runs_extern_in:
  "(\<And>hw tr. H hw \<Longrightarrow> Q (hw tr (Ext f xs))) \<Longrightarrow> safely_in H P (extern_fw f xs) Q"
  by (simp add: safely_in_def extern_fw_def Let_def)

lemma runs_poll [run_intros]: "safely_in H P (poll_until a ok) (\<lambda>_. True)"
  unfolding safely_in_def
  by (auto split: option.split outcome.split dest!: poll_until_last)

lemma runs_of_option: "x = Some a \<Longrightarrow> Q a \<Longrightarrow> safely_in H P (of_option_fw x) Q"
  by (simp add: safely_in_def of_option_fw_def)

lemma runs_for: "(\<And>i. i \<in> set is \<Longrightarrow> safely_in H P (body i) (\<lambda>_. True)) \<Longrightarrow> safely_in H P (for_fw is body) (\<lambda>_. True)"
  by (induction "is") (auto intro: runs_return runs_then)

lemma runs_fold:
  assumes "J s" "\<And>i s. i \<in> set is \<Longrightarrow> J s \<Longrightarrow> safely_in H P (body i s) J"
  shows "safely_in H P (fold_fw is body s) J"
  using assms
proof (induction "is" arbitrary: s)
  case Nil
  then show ?case by (simp add: runs_return)
next
  case (Cons i "is")
  have "safely_in H P (body i s) J" using Cons.prems by simp
  moreover have "safely_in H P (fold_fw is body s') J" if "J s'" for s'
    using Cons.prems that by (intro Cons.IH) simp_all
  ultimately show ?case by (simp add: runs_bind)
qed

lemma runs_kernel_call [run_intros]: "safely_in H P (kernel_call f xs) (\<lambda>_. True)"
  unfolding kernel_call_def by (intro runs_then run_intros runs_return TrueI)

lemma runs_shared [run_intros]:
  "safely_in H P (shared_read x) (\<lambda>_. True)" "safely_in H P (shared_write x v) (\<lambda>_. True)"
  unfolding shared_read_def shared_write_def by (intro run_intros)+

lemma runs_loop:
  assumes "J s" and body: "\<And>s. J s \<Longrightarrow> safely_in H P (body s) (case_sum J Q)"
  shows "safely_in H P (loop_fw body s) Q"
proof -
  let ?ok = "\<lambda>r. case r of Ret b m' \<Rightarrow> Q b | Stop m' \<Rightarrow> P m' | Fault \<Rightarrow> False"
  let ?P = "\<lambda>b s hw m r. b = body \<longrightarrow> J s \<longrightarrow> H hw \<longrightarrow> ?ok r"
  have "?P body s hw m r" if "loop_fw body s hw m = Some r" for hw m r
  proof (rule loop_fw.raw_induct [where P = ?P, OF _ that])
    fix loop :: "('a \<Rightarrow> ('a + 'b) fw) \<Rightarrow> 'a \<Rightarrow> hw \<Rightarrow> machine \<Rightarrow> 'b outcome option" and b s hw m r
    assume IH: "\<And>b s hw m r. loop b s hw m = Some r \<Longrightarrow> ?P b s hw m r"
      and eq: "(case b s hw m of
        Some (Ret r m') \<Rightarrow> (case r of Inl s' \<Rightarrow> loop b s' hw m' | Inr b \<Rightarrow> Some (Ret b m'))
      | Some (Stop m') \<Rightarrow> Some (Stop m')
      | Some Fault \<Rightarrow> Some Fault
      | None \<Rightarrow> None) = Some r"
    show "?P b s hw m r"
    proof (intro impI)
      assume b: "b = body" and J: "J s" and H: "H hw"
      obtain q where q: "body s hw m = Some q" using eq b by (auto split: option.splits)
      have *: "case q of Ret a m' \<Rightarrow> case_sum J Q a | Stop m' \<Rightarrow> P m' | Fault \<Rightarrow> False"
        using body [OF J] q H unfolding safely_in_def by (auto dest!: spec [of _ hw] spec [of _ m] split: option.splits)
      show "?ok r"
      proof (cases q)
        case (Ret a m')
        with eq q b IH * H show ?thesis by (cases a) auto
      qed (use eq q b * in auto)
    qed
  qed
  with assms(1) show ?thesis
    unfolding safely_in_def by (auto split: option.split)
qed

lemma runs_forever:
  assumes "J s" "\<And>s. J s \<Longrightarrow> safely_in H P (body s) J"
  shows "safely_in H P (forever body s) Q"
  unfolding forever_def using assms
  by (intro runs_loop [where J = J] runs_bind [where R = J] runs_return) simp_all

section \<open>The drivers\<close>

lemma runs_putc [run_intros]: "safely_in H P (uart_putc c) (\<lambda>_. True)"
  unfolding uart_putc_def by (intro runs_then run_intros)

lemma runs_flush [run_intros]: "safely_in H P uart_flush (\<lambda>_. True)"
  unfolding uart_flush_def by (intro runs_then run_intros runs_return TrueI)

lemma runs_puts [run_intros]: "safely_in H P (uart_puts str) (\<lambda>_. True)"
  by (induction str) (auto intro!: runs_then runs_return runs_putc)

lemma runs_hex [run_intros]: "safely_in H P (uart_put_hex v) (\<lambda>_. True)"
  unfolding uart_put_hex_def
proof (rule runs_seq)
  fix f assume f: "f \<in> set [uart_putc 0x30, uart_putc 0x78,
       for_fw [28, 24, 20, 16, 12, 8, 4, 0]
         (\<lambda>shift. bind_fw (of_option_fw (array_get hex_digits (unat (drop_bit shift v AND 15)))) uart_putc)]"
  have "safely_in H P (for_fw [28, 24, 20, 16, 12, 8, 4, 0]
         (\<lambda>shift. bind_fw (of_option_fw (array_get hex_digits (unat (drop_bit shift v AND 15)))) uart_putc)) (\<lambda>_. True)"
    using soc_uart.nibble_index by (intro runs_for) (simp add: array_get_Some runs_putc)
  with f show "safely_in H P f (\<lambda>_. True)" by (auto intro: runs_putc)
qed

lemma runs_dec_print: "len \<le> length buf \<Longrightarrow> safely_in H P (dec_print buf len) (\<lambda>_. True)"
  by (induction len) (auto simp: array_get_Some intro!: runs_return runs_then runs_putc)

lemma runs_dec [run_intros]: "safely_in H P (uart_put_dec v) (\<lambda>_. True)"
proof -
  have "unat v < 10 ^ 10" using unsigned_less [of v, where 'a = nat] by simp
  then have "length (decimal (unat v)) \<le> 10" using length_decimal [of "unat v" 9] by simp
  then have "length (digits_left v) \<le> 10" by (simp add: digits_left_def)
  then obtain buf where buf: "dec_fill v (replicate 10 0) 0 = Some (buf, length (digits_left v))" "length buf = 10"
    using dec_fill_spec [of 0 v "replicate 10 0"] by auto
  then show ?thesis
    using \<open>length (digits_left v) \<le> 10\<close>
    by (auto simp: uart_put_dec_def intro!: runs_putc runs_dec_print)
qed

lemma runs_devices [run_intros]:
  "safely_in H P (gpio_write_led v) (\<lambda>_. True)" "safely_in H P gpio_read_key (\<lambda>_. True)"
  "safely_in H P (traffic_light_write v) (\<lambda>_. True)" "safely_in H P buzzer_stop (\<lambda>_. True)"
  "safely_in H P (buzzer_start_hz clk hz) (\<lambda>_. True)" "safely_in H P vga_is_ready (\<lambda>_. True)"
  "safely_in H P vga_frame_count (\<lambda>_. True)" "safely_in H P (vga_bitmap_write_word i v) (\<lambda>_. True)"
  unfolding gpio_write_led_def gpio_read_key_def traffic_light_write_def buzzer_stop_def
    buzzer_start_hz_def buzzer_start_def buzzer_set_half_period_def vga_is_ready_def
    vga_frame_count_def vga_bitmap_write_word_def Let_def
  by (auto intro!: run_intros runs_then runs_bind [OF runs_read] runs_return)

end
