(* ===== verification/Testlib.thy ===== *)
theory Testlib
  imports Freertos_Task
begin

text \<open>
  The test support \<open>firmware/tests/testlib.h\<close>, used by the board applications, the benchmarks
  and the tests: banner, failure, expectation and success, all of which end in the exit
  register; and what these functions do on a live UART.
\<close>

definition test_banner :: "string \<Rightarrow> unit fw" where
  "test_banner name = seq_fw [gpio_write_led 1, uart_puts (bytes name), uart_puts [10]]"

definition test_fail :: "u32 \<Rightarrow> 'a fw" where
  "test_fail code =
     then_fw (seq_fw [uart_puts (bytes ''FAIL: test_exit=''), uart_put_hex code, uart_puts [10], uart_flush,
         gpio_write_led (code AND 0xf)])
       (then_fw (mmio_write TINYBUS_TEST_EXIT code) hang_fw)"

definition test_expect :: "bool \<Rightarrow> u32 \<Rightarrow> unit fw" where
  "test_expect condition code = (if \<not> condition then test_fail code else return_fw ())"

definition test_pass :: "'a fw" where
  "test_pass =
     then_fw (seq_fw [uart_puts (bytes ''PASS'' @ [10]), uart_flush, gpio_write_led 5])
       (then_fw (mmio_write TINYBUS_TEST_EXIT 1) hang_fw)"

definition test_read_cycle :: "u32 fw" where
  "test_read_cycle = mmio_read TINYBUS_CYCLE"

definition test_read_instret :: "u32 fw" where
  "test_read_instret = mmio_read TINYBUS_INSTRET"

definition test_read_mem_wait :: "u32 fw" where
  "test_read_mem_wait = mmio_read TINYBUS_MEM_WAIT"

section \<open>Any devices\<close>

lemma test_fail_bind [simp]: "bind_fw (test_fail code) g = test_fail code"
  by (simp add: test_fail_def then_fw_def bind_assoc_fw)

lemma runs_test_fail: "code \<in> C \<Longrightarrow> runs_in H C (test_fail code) Q"
  unfolding test_fail_def
  by (rule runs_then [OF runs_seq runs_exit]) (auto simp del: uart_puts.simps intro: run_intros)

lemma runs_test_pass: "1 \<in> C \<Longrightarrow> runs_in H C test_pass Q"
  unfolding test_pass_def
  by (rule runs_then [OF runs_seq runs_exit]) (auto simp del: uart_puts.simps intro: run_intros)

lemma runs_test_expect: "code \<in> C \<Longrightarrow> runs_in H C (test_expect b code) (\<lambda>_. b)"
  unfolding test_expect_def by (auto intro: runs_test_fail runs_return)

lemma runs_banner [run_intros]: "runs_in H C (test_banner name) (\<lambda>_. True)"
  unfolding test_banner_def by (rule runs_seq) (auto simp del: uart_puts.simps intro: run_intros)

lemma runs_counter_reads [run_intros]:
  "runs_in H C test_read_cycle (\<lambda>_. True)" "runs_in H C test_read_instret (\<lambda>_. True)" "runs_in H C test_read_mem_wait (\<lambda>_. True)"
  unfolding test_read_cycle_def test_read_instret_def test_read_mem_wait_def by (rule run_intros)+

lemma runs_perf: "safely_in H P perf_begin (\<lambda>_. True)" "safely_in H P (perf_end p) (\<lambda>_. True)"
  unfolding perf_begin_def perf_end_def perf_read_cycle_def perf_read_instret_def perf_read_mem_wait_def
  by (intro runs_bind [OF runs_read] runs_return TrueI)+

lemma runs_perf_report: "safely_in H P (perf_report label snap) (\<lambda>_. True)"
  unfolding perf_report_def Let_def
  by (rule runs_seq) (auto simp del: uart_puts.simps intro: run_intros runs_return)

section \<open>A live UART\<close>

lemma does_any_emits: "emits hw f es \<Longrightarrow> does hw f (\<lambda>_ _. True)"
  unfolding emits_def by (erule does_mono) simp

lemma does_any_seq:
  "(\<And>f. f \<in> set fs \<Longrightarrow> does hw f (\<lambda>_ _. True)) \<Longrightarrow> does hw (seq_fw fs) (\<lambda>_ _. True)"
  by (induction fs) (auto intro: does_return does_then)

lemma does_any_run:
  assumes "does hw f (\<lambda>_ _. True)"
  obtains a m' where "f hw m = Some (Ret a m')"
  using assms unfolding does_def by metis

lemma exit_stops:
  assumes "does hw f (\<lambda>_ _. True)"
  shows "\<exists>m'. then_fw f (then_fw (mmio_write TINYBUS_TEST_EXIT c) hang_fw) hw m = Some (Stop m') \<and> stopped_with {c} m'"
proof -
  from assms obtain a m1 where "f hw m = Some (Ret a m1)" unfolding does_def by metis
  then show ?thesis
    by (auto simp: then_fw_def bind_fw_def mmio_write_def hang_fw_def stopped_with_def)
qed

context uart_tx
begin

lemma test_fail_stops: "\<exists>m'. test_fail code hw m = Some (Stop m') \<and> stopped_with {code} m'"
  unfolding test_fail_def gpio_write_led_def
  by (rule exit_stops, rule does_any_seq)
    (auto simp del: uart_puts.simps intro: does_any_emits emits_write emits_puts emits_put_hex emits_flush)

lemma test_pass_stops: "\<exists>m'. test_pass hw m = Some (Stop m') \<and> stopped_with {1} m'"
  unfolding test_pass_def gpio_write_led_def
  by (rule exit_stops, rule does_any_seq)
    (auto simp del: uart_puts.simps intro: does_any_emits emits_write emits_puts emits_flush)

lemma test_banner_emits:
  "emits hw (test_banner name) (Wr TINYBUS_GPIO_LED 1 # map tx (crlf (bytes name)) @ map tx [13, 10])"
proof -
  have "emits hw (test_banner name)
      ([Wr TINYBUS_GPIO_LED 1] @ map tx (crlf (bytes name)) @ map tx (crlf [10]) @ [])"
    unfolding test_banner_def gpio_write_led_def
    by (intro emits_seq_Cons emits_seq_Nil emits_write emits_puts)
  then show ?thesis by simp
qed

lemma does_uart:
  "does hw (uart_puts str) (\<lambda>_ _. True)" "does hw (uart_put_hex v) (\<lambda>_ _. True)"
  "does hw (uart_put_dec v) (\<lambda>_ _. True)" "does hw (uart_putc c) (\<lambda>_ _. True)" "does hw uart_flush (\<lambda>_ _. True)"
  by (rule does_any_emits emits_puts emits_put_hex emits_put_dec emits_putc emits_flush)+

lemma does_devices:
  "does hw (gpio_write_led v) (\<lambda>_ _. True)" "does hw (traffic_light_write p) (\<lambda>_ _. True)"
  "does hw buzzer_stop (\<lambda>_ _. True)" "does hw (buzzer_start_hz c t) (\<lambda>_ _. True)"
  by (rule does_any_emits emits_devices emits_buzzer_start_hz)+

lemma does_perf_report: "does hw (perf_report label snap) (\<lambda>_ _. True)"
  unfolding perf_report_def Let_def
  by (rule does_any_seq) (auto simp del: uart_puts.simps intro: does_uart does_return)

end

lemma does_perf: "does hw perf_begin (\<lambda>_ es. es = [])" "does hw (perf_end p) (\<lambda>_ es. es = [])"
  unfolding perf_begin_def perf_end_def perf_read_cycle_def perf_read_instret_def perf_read_mem_wait_def
  by (intro does_bind [OF does_read] does_return; simp)+

end
