(* ===== verification/Bad_Apple.thy ===== *)
theory Bad_Apple
  imports Testlib Rtos_Port
begin

text \<open>
  The video player \<open>firmware/apps/freertos/bad_apple_full.c\<close>: five tasks that play a BAM2 file
  of one-bit frames and tones from SDRAM. The file is an image \<open>img\<close>, the 32-bit words from
  \<open>ASSET_BASE\<close> on; a read outside of the 16 MB up to the end of the SDRAM is a fault. The
  player validates the file before it plays it, and checks it again while playing; the
  theorems show what the validation guarantees.
\<close>

section \<open>Constants and state\<close>

type_synonym image = "u32 \<Rightarrow> u32"

definition ASSET_MAGIC :: u32 where "ASSET_MAGIC = 0x324d4142"
definition ASSET_VERSION :: u32 where "ASSET_VERSION = 2"
definition ASSET_HEADER_WORDS :: u32 where "ASSET_HEADER_WORDS = 12"
definition MAX_ASSET_BYTES :: u32 where "MAX_ASSET_BYTES = 16 * 1024 * 1024"
definition VIDEO_PERIOD_TICKS :: u32 where "VIDEO_PERIOD_TICKS = 6"
definition AUDIO_QUEUE_LENGTH :: u32 where "AUDIO_QUEUE_LENGTH = 16"
definition PLAYBACK_STACK_WORDS :: u32 where "PLAYBACK_STACK_WORDS = 768"
definition AUDIO_STACK_WORDS :: u32 where "AUDIO_STACK_WORDS = 256"
definition AUX_STACK_WORDS :: u32 where "AUX_STACK_WORDS = 256"
definition BUTTON_STACK_WORDS :: u32 where "BUTTON_STACK_WORDS = 256"
definition REPLAY_DELAY_MS :: u32 where "REPLAY_DELAY_MS = 10000"
definition AUDIO_BEAT_FLAG :: u32 where "AUDIO_BEAT_FLAG = 0x80000000"
definition ASSET_FLAG_AUDIO_BEATS :: u32 where "ASSET_FLAG_AUDIO_BEATS = 1"
definition MEDIA_PAUSED_BIT :: u32 where "MEDIA_PAUSED_BIT = 1"
definition MEDIA_ACTIVE_BIT :: u32 where "MEDIA_ACTIVE_BIT = 2"
definition KEY1_MASK :: u32 where "KEY1_MASK = 1"
definition TRAFFIC_RED :: u32 where "TRAFFIC_RED = 0x249"
definition TRAFFIC_YELLOW :: u32 where "TRAFFIC_YELLOW = 0x492"
definition TRAFFIC_GREEN :: u32 where "TRAFFIC_GREEN = 0x924"

record bam2_info =
  total_words :: u32
  duration_ticks :: u32
  frame_count :: u32
  video_word :: u32
  video_end_word :: u32
  audio_count :: u32
  audio_word :: u32
  info_flags :: u32

text \<open>The handles that \<open>main\<close> stores in static variables before the scheduler starts.\<close>

record handles =
  audio_queue :: u32
  led_handle :: u32
  audio_handle :: u32
  playback_handle :: u32
  button_handle :: u32
  traffic_handle :: u32

definition asset_get :: "image \<Rightarrow> u32 \<Rightarrow> u32 fw" where
  "asset_get img i = of_option_fw (if i < MAX_ASSET_BYTES div 4 then Some (img i) else None)"

definition media_state :: "u32 fw" where
  "media_state = shared_read ''media_state_bits''"

definition media_state_update :: "u32 \<Rightarrow> u32 \<Rightarrow> unit fw" where
  "media_state_update clear_bits set_bits =
     seq_fw [kernel_call ''taskENTER_CRITICAL'' [],
       bind_fw (shared_read ''media_state_bits'')
         (\<lambda>bits. shared_write ''media_state_bits'' ((bits AND NOT clear_bits) OR set_bits)),
       kernel_call ''taskEXIT_CRITICAL'' []]"

section \<open>Failures\<close>

definition fail :: "u32 \<Rightarrow> string \<Rightarrow> 'a fw" where
  "fail code message =
     then_fw (seq_fw [kernel_call ''taskENTER_CRITICAL'' [], buzzer_stop, gpio_write_led (code AND 0xf),
         uart_puts (bytes ''bad apple full fail: ''), uart_puts (bytes message), uart_puts [10], uart_flush])
       (then_fw (mmio_write TINYBUS_TEST_EXIT code) hang_fw)"

definition runtime_fail :: "u32 \<Rightarrow> string \<Rightarrow> u32 \<Rightarrow> u32 \<Rightarrow> u32 \<Rightarrow> u32 \<Rightarrow> 'a fw" where
  "runtime_fail code message elapsed_ticks fr cursor_word v =
     then_fw (seq_fw [kernel_call ''taskENTER_CRITICAL'' [], buzzer_stop, gpio_write_led (code AND 0xf),
         uart_puts (bytes ''bad apple runtime fail: ''), uart_puts (bytes message),
         uart_puts ([10] @ bytes ''code=''), uart_put_hex code,
         uart_puts ([10] @ bytes ''t=''), uart_put_dec ((elapsed_ticks * 21) div 1250),
         uart_puts (bytes ''s'' @ [10] @ bytes ''f=''), uart_put_dec fr,
         uart_puts ([10] @ bytes ''cursor=''), uart_put_hex (cursor_word * 4),
         uart_puts ([10] @ bytes ''value=''), uart_put_hex v,
         uart_puts [10], uart_flush])
       (then_fw (mmio_write TINYBUS_TEST_EXIT code) hang_fw)"

section \<open>Time\<close>

definition elapsed_vga_ticks :: "u32 \<Rightarrow> u32 fw" where
  "elapsed_vga_ticks start0 = bind_fw vga_frame_count (\<lambda>now. return_fw ((now - start0) AND 0xffff))"

definition seconds_to_vga_ticks :: "u32 \<Rightarrow> u32" where
  "seconds_to_vga_ticks seconds = (seconds * 1250 + 10) div 21"

definition print_progress :: "u32 \<Rightarrow> unit fw" where
  "print_progress seconds =
     seq_fw [uart_puts (bytes ''t=''), uart_put_dec seconds, uart_puts (bytes ''s'' @ [10])]"

definition put_watermark :: "u32 \<Rightarrow> unit fw" where
  "put_watermark handle = bind_fw (extern_fw ''uxTaskGetStackHighWaterMark'' [handle]) uart_put_dec"

definition print_stack_watermarks :: "handles \<Rightarrow> unit fw" where
  "print_stack_watermarks H =
     seq_fw [uart_puts (bytes ''stack free words: video=''), put_watermark (playback_handle H),
       uart_puts (bytes '' audio=''), put_watermark (audio_handle H),
       uart_puts (bytes '' led=''), put_watermark (led_handle H),
       uart_puts (bytes '' button=''), put_watermark (button_handle H),
       uart_puts (bytes '' traffic=''), put_watermark (traffic_handle H), uart_puts [10]]"

section \<open>Validation\<close>

definition header_info :: "image \<Rightarrow> bam2_info" where
  "header_info img =
     \<lparr>total_words = img 2 div 4, duration_ticks = img 3, frame_count = img 4, video_word = img 5 div 4,
      video_end_word = img 8 div 4, audio_count = img 7, audio_word = img 8 div 4, info_flags = img 10\<rparr>"

definition header_bounds_bad :: "image \<Rightarrow> bam2_info \<Rightarrow> bool" where
  "header_bounds_bad img info \<longleftrightarrow>
     duration_ticks info = 0 \<or> 0x8000 \<le> duration_ticks info \<or>
     frame_count info = 0 \<or> img 5 \<noteq> ASSET_HEADER_WORDS * 4 \<or>
     img 6 \<noteq> VIDEO_PERIOD_TICKS \<or> img 8 AND 3 \<noteq> 0 \<or>
     audio_word info \<le> video_word info \<or> total_words info < audio_word info \<or>
     (total_words info - audio_word info) div 2 < audio_count info \<or>
     audio_word info + audio_count info * 2 \<noteq> total_words info \<or>
     img 9 \<noteq> VGA_BITMAP_WORDS \<or>
     info_flags info AND NOT ASSET_FLAG_AUDIO_BEATS \<noteq> 0 \<or> img 11 \<noteq> 0"

text \<open>The three loops of \<open>validate_asset\<close>: the changes of one frame, the frames, the audio events.\<close>

definition check_changes :: "image \<Rightarrow> u32 \<Rightarrow> u32 \<Rightarrow> u32 fw" where
  "check_changes img changes cursor0 =
     fold_fw [0..<unat changes] (\<lambda>_ cursor.
       bind_fw (asset_get img cursor) (\<lambda>index.
         if VGA_BITMAP_WORDS \<le> index then fail 0xba06 ''bitmap word index'' else return_fw (cursor + 2)))
       cursor0"

function check_frames :: "image \<Rightarrow> bam2_info \<Rightarrow> u32 \<Rightarrow> u32 \<Rightarrow> u32 fw" where
  "check_frames img info fr cursor =
     (if fr < frame_count info
      then if video_end_word info \<le> cursor then fail 0xba04 ''video truncated''
        else bind_fw (asset_get img cursor) (\<lambda>changes.
          if (fr = 0 \<and> changes \<noteq> VGA_BITMAP_WORDS) \<or> VGA_BITMAP_WORDS < changes \<or>
             (video_end_word info - (cursor + 1)) div 2 < changes
          then fail 0xba05 ''frame diff count''
          else bind_fw (check_changes img changes (cursor + 1)) (check_frames img info (fr + 1)))
      else return_fw cursor)"
  by auto
termination
  by (relation "measure (\<lambda>(img, info, fr, cursor). unat (frame_count info) - unat fr)") (use count_up in auto)

function check_events :: "image \<Rightarrow> bam2_info \<Rightarrow> u32 \<Rightarrow> u32 \<Rightarrow> unit fw" where
  "check_events img info event previous_tick =
     (if event < audio_count info
      then bind_fw (asset_get img (audio_word info + event * 2)) (\<lambda>tick.
        if duration_ticks info \<le> tick \<or> (event \<noteq> 0 \<and> tick \<le> previous_tick)
        then fail 0xba08 ''audio tick order''
        else check_events img info (event + 1) tick)
      else return_fw ())"
  by auto
termination
  by (relation "measure (\<lambda>(img, info, event, tick). unat (audio_count info) - unat event)") (use count_up in auto)

declare check_frames.simps [simp del] check_events.simps [simp del]

definition validate_asset :: "image \<Rightarrow> bam2_info fw" where
  "validate_asset img =
     (if img 0 \<noteq> ASSET_MAGIC \<or> img 1 \<noteq> ASSET_VERSION then fail 0xba01 ''header magic/version''
      else if img 2 < ASSET_HEADER_WORDS * 4 \<or> MAX_ASSET_BYTES < img 2 \<or> img 2 AND 3 \<noteq> 0
      then fail 0xba02 ''total bytes''
      else let info = header_info img
        in if header_bounds_bad img info then fail 0xba03 ''header bounds''
           else bind_fw (check_frames img info 0 (video_word info)) (\<lambda>cursor.
             if cursor \<noteq> video_end_word info then fail 0xba07 ''video trailing words''
             else then_fw (check_events img info 0 0) (return_fw info)))"

section \<open>The small tasks\<close>

definition audio_task :: "freertos_api \<Rightarrow> handles \<Rightarrow> 'b fw" where
  "audio_task A H = forever (\<lambda>_.
     bind_fw (extern_fw ''xQueueReceive'' [audio_queue H, portMAX_DELAY]) (\<lambda>r.
       if r \<noteq> pdPASS A then fail 0xba09 ''audio queue receive''
       else bind_fw (extern_fw ''received item'' [audio_queue H]) (\<lambda>hz.
         if hz = 0 then buzzer_stop else buzzer_start_hz configCPU_CLOCK_HZ hz))) ()"

definition traffic_patterns :: "u32 list" where
  "traffic_patterns = [TRAFFIC_GREEN, TRAFFIC_YELLOW, TRAFFIC_RED]"

definition traffic_task :: "freertos_api \<Rightarrow> 'b fw" where
  "traffic_task A = forever (\<lambda>index.
     bind_fw (of_option_fw (array_get traffic_patterns (unat index))) (\<lambda>pattern.
       then_fw (traffic_light_write pattern)
         (then_fw (kernel_call ''vTaskDelay'' [pdMS_TO_TICKS A 500]) (return_fw ((index + 1) mod 3))))) (0 :: u32)"

text \<open>The state of \<open>led_task\<close> is \<open>beat\<close> and \<open>runner\<close>.\<close>

definition show_beats :: "u32 \<Rightarrow> u32 \<Rightarrow> u32 fw" where
  "show_beats count beat0 =
     fold_fw [0..<unat count] (\<lambda>_ beat.
       then_fw (gpio_write_led (push_bit (unat beat) 1)) (return_fw ((beat + 1) AND 3))) beat0"

definition led_task :: "freertos_api \<Rightarrow> 'b fw" where
  "led_task A = forever (\<lambda>(beat, runner).
     bind_fw media_state (\<lambda>bits.
       if bits AND MEDIA_ACTIVE_BIT \<noteq> 0 \<and> bits AND MEDIA_PAUSED_BIT = 0
       then bind_fw (extern_fw ''ulTaskNotifyTake'' [pdTRUE A, pdMS_TO_TICKS A 50]) (\<lambda>count.
              bind_fw (show_beats count beat) (\<lambda>beat'. return_fw (beat', runner)))
       else then_fw (kernel_call ''ulTaskNotifyTake'' [pdTRUE A, 0])
              (then_fw (gpio_write_led (push_bit (unat runner) 1))
                (then_fw (kernel_call ''vTaskDelay'' [pdMS_TO_TICKS A 100])
                  (return_fw (beat, (runner + 1) AND 3)))))) (0, 0)"

definition print_pause_state :: "bool \<Rightarrow> unit fw" where
  "print_pause_state paused =
     seq_fw [kernel_call ''taskENTER_CRITICAL'' [],
       uart_puts (bytes (if paused then ''paused at t='' else ''resumed at t='')),
       bind_fw (shared_read ''playback_elapsed_ticks'') (\<lambda>t. uart_put_dec ((t * 21) div 1250)),
       uart_puts (bytes ''s'' @ [10]), uart_flush, kernel_call ''taskEXIT_CRITICAL'' []]"

record button =
  sampled_pressed :: bool
  stable_pressed :: bool
  stable_count :: u32

text \<open>One sample of the key: the new state, and whether the key is newly pressed.\<close>

definition debounce :: "bool \<Rightarrow> button \<Rightarrow> button \<times> bool" where
  "debounce pressed b =
     (let b1 = (if pressed = sampled_pressed b
                then (if stable_count b < 3 then b\<lparr>stable_count := stable_count b + 1\<rparr> else b)
                else b\<lparr>sampled_pressed := pressed, stable_count := 1\<rparr>)
      in if stable_count b1 = 3 \<and> stable_pressed b1 \<noteq> sampled_pressed b1
         then (b1\<lparr>stable_pressed := sampled_pressed b1\<rparr>, sampled_pressed b1) else (b1, False))"

definition toggle_pause :: "unit fw" where
  "toggle_pause = bind_fw media_state (\<lambda>bits.
     if bits AND MEDIA_PAUSED_BIT \<noteq> 0
     then then_fw (media_state_update MEDIA_PAUSED_BIT 0) (print_pause_state False)
     else then_fw (media_state_update 0 MEDIA_PAUSED_BIT) (print_pause_state True))"

definition button_start :: button where
  "button_start = \<lparr>sampled_pressed = False, stable_pressed = False, stable_count = 0\<rparr>"

definition button_task :: "freertos_api \<Rightarrow> 'b fw" where
  "button_task A = forever (\<lambda>b.
     bind_fw gpio_read_key (\<lambda>key.
       case debounce (key AND KEY1_MASK = 0) b of (b', press) \<Rightarrow>
         then_fw (if press then toggle_pause else return_fw ())
           (then_fw (kernel_call ''vTaskDelay'' [pdMS_TO_TICKS A 10]) (return_fw b')))) button_start"

section \<open>Playback\<close>

record playback =
  video_cursor :: u32
  audio_index :: u32
  frame :: u32
  start :: u32
  next_progress_second :: u32
  previous_audio_tick :: u32
  current_hz :: u32

definition draw_changes :: "image \<Rightarrow> u32 \<Rightarrow> u32 \<Rightarrow> u32 \<Rightarrow> u32 \<Rightarrow> u32 fw" where
  "draw_changes img elapsed fr changes cursor0 =
     fold_fw [0..<unat changes] (\<lambda>_ cursor.
       bind_fw (asset_get img cursor) (\<lambda>index.
       bind_fw (asset_get img (cursor + 1)) (\<lambda>v.
         if VGA_BITMAP_WORDS \<le> index
         then runtime_fail 0xba15 ''bitmap word index'' elapsed fr (cursor + 2 - 2) index
         else then_fw (vga_bitmap_write_word index v) (return_fw (cursor + 2))))) cursor0"

text \<open>The first inner loop of \<open>playback_task\<close>: all frames that are due.\<close>

function draw_frames :: "image \<Rightarrow> bam2_info \<Rightarrow> u32 \<Rightarrow> u32 \<Rightarrow> u32 \<Rightarrow> (u32 \<times> u32) fw" where
  "draw_frames img info elapsed fr cursor =
     (if fr < frame_count info \<and> fr * VIDEO_PERIOD_TICKS \<le> elapsed
      then if video_end_word info \<le> cursor
        then runtime_fail 0xba13 ''video cursor'' elapsed fr cursor (video_end_word info)
        else bind_fw (asset_get img cursor) (\<lambda>changes.
          if VGA_BITMAP_WORDS < changes \<or> (video_end_word info - (cursor + 1)) div 2 < changes
          then runtime_fail 0xba14 ''frame diff count'' elapsed fr (cursor + 1 - 1) changes
          else bind_fw (draw_changes img elapsed fr changes (cursor + 1))
                 (draw_frames img info elapsed (fr + 1)))
      else return_fw (fr, cursor))"
  by auto
termination
  by (relation "measure (\<lambda>(img, info, elapsed, fr, cursor). unat (frame_count info) - unat fr)")
    (use count_up in auto)

declare draw_frames.simps [simp del]

definition send_or_fail :: "freertos_api \<Rightarrow> string \<Rightarrow> u32 list \<Rightarrow> u32 \<Rightarrow> string \<Rightarrow> unit fw" where
  "send_or_fail A f xs code message =
     bind_fw (extern_fw f xs) (\<lambda>r. if r \<noteq> pdPASS A then fail code message else return_fw ())"

text \<open>The second inner loop: all audio events that are due. The state is \<open>audio_index\<close>,
  \<open>previous_audio_tick\<close> and \<open>current_hz\<close>; the constant \<open>fr\<close> only goes into failure reports.\<close>

function play_events ::
    "freertos_api \<Rightarrow> handles \<Rightarrow> image \<Rightarrow> bam2_info \<Rightarrow> u32 \<Rightarrow> u32 \<Rightarrow> u32 \<Rightarrow> u32 \<Rightarrow> u32 \<Rightarrow>
     (u32 \<times> u32 \<times> u32) fw" where
  "play_events A H img info elapsed fr index previous hz0 =
     (if index < audio_count info
      then let event_word = audio_word info + index * 2
        in bind_fw (asset_get img event_word) (\<lambda>event_tick.
          if duration_ticks info \<le> event_tick \<or> (index \<noteq> 0 \<and> event_tick \<le> previous)
          then runtime_fail 0xba16 ''audio tick'' elapsed fr event_word event_tick
          else if elapsed < event_tick then return_fw (index, previous, hz0)
          else bind_fw (asset_get img (event_word + 1)) (\<lambda>v.
            let hz = v AND NOT AUDIO_BEAT_FLAG
            in if 5000 < hz
               then runtime_fail 0xba17 ''audio frequency'' elapsed fr (event_word + 1) hz
               else then_fw (if v AND AUDIO_BEAT_FLAG \<noteq> 0
                             then kernel_call ''xTaskNotifyGive'' [led_handle H] else return_fw ())
                 (bind_fw (if hz \<noteq> hz0
                           then then_fw (send_or_fail A ''xQueueSend'' [audio_queue H, hz, 0] 0xba0a ''audio queue full'')
                                  (return_fw hz)
                           else return_fw hz0)
                   (play_events A H img info elapsed fr (index + 1) event_tick))))
      else return_fw (index, previous, hz0))"
  by auto
termination
  by (relation "measure (\<lambda>(A, H, img, info, elapsed, fr, index, previous, hz0).
        unat (audio_count info) - unat index)")
    (use count_up in auto)

declare play_events.simps [simp del]

definition wait_until_resumed :: "freertos_api \<Rightarrow> unit fw" where
  "wait_until_resumed A = loop_fw (\<lambda>_.
     bind_fw media_state (\<lambda>bits.
       if bits AND MEDIA_PAUSED_BIT \<noteq> 0
       then then_fw (kernel_call ''vTaskDelay'' [pdMS_TO_TICKS A 10]) (return_fw (Inl ()))
       else return_fw (Inr ()))) ()"

text \<open>The pause at the head of an iteration; the result is the time to show and the state.\<close>

definition pause_if_asked :: "freertos_api \<Rightarrow> handles \<Rightarrow> u32 \<Rightarrow> playback \<Rightarrow> (u32 \<times> playback) fw" where
  "pause_if_asked A H elapsed p =
     bind_fw media_state (\<lambda>bits.
       if bits AND MEDIA_PAUSED_BIT \<noteq> 0
       then bind_fw vga_frame_count (\<lambda>pause_start.
         then_fw (send_or_fail A ''xQueueSendToFront'' [audio_queue H, 0, portMAX_DELAY] 0xba10 ''audio pause queue'')
           (then_fw (wait_until_resumed A)
             (bind_fw (elapsed_vga_ticks pause_start) (\<lambda>d.
               let p' = p\<lparr>start := start p + d\<rparr>
               in then_fw (send_or_fail A ''xQueueSendToFront'' [audio_queue H, current_hz p', portMAX_DELAY]
                    0xba11 ''audio resume queue'')
                  (bind_fw (elapsed_vga_ticks (start p')) (\<lambda>e. return_fw (e, p')))))))
       else return_fw (elapsed, p))"

definition report_progress :: "handles \<Rightarrow> u32 \<Rightarrow> playback \<Rightarrow> playback fw" where
  "report_progress H elapsed p =
     (if seconds_to_vga_ticks (next_progress_second p) \<le> elapsed
      then then_fw (print_progress (next_progress_second p))
        (then_fw (if next_progress_second p = 1 then print_stack_watermarks H else return_fw ())
          (return_fw (p\<lparr>next_progress_second := next_progress_second p + 1\<rparr>)))
      else return_fw p)"

text \<open>One iteration of the loop that plays the file once; \<open>Inr\<close> when its time is over.\<close>

definition playback_body ::
    "freertos_api \<Rightarrow> handles \<Rightarrow> image \<Rightarrow> bam2_info \<Rightarrow> playback \<Rightarrow> (playback + playback) fw" where
  "playback_body A H img info p =
     bind_fw (elapsed_vga_ticks (start p)) (\<lambda>e0.
       if e0 < duration_ticks info
       then bind_fw (elapsed_vga_ticks (start p)) (\<lambda>e1.
         bind_fw (pause_if_asked A H e1 p) (\<lambda>(elapsed, p1).
         then_fw (shared_write ''playback_elapsed_ticks'' elapsed)
         (bind_fw (draw_frames img info elapsed (frame p1) (video_cursor p1)) (\<lambda>(fr, cursor).
         bind_fw (play_events A H img info elapsed fr (audio_index p1) (previous_audio_tick p1) (current_hz p1))
           (\<lambda>(index, previous, hz).
         bind_fw (report_progress H elapsed
             (p1\<lparr>frame := fr, video_cursor := cursor, audio_index := index,
                 previous_audio_tick := previous, current_hz := hz\<rparr>)) (\<lambda>p2.
         then_fw (kernel_call ''vTaskDelay'' [1]) (return_fw (Inl p2))))))))
       else return_fw (Inr p))"

definition playback_begin :: "bam2_info \<Rightarrow> u32 \<Rightarrow> playback" where
  "playback_begin info start0 =
     \<lparr>video_cursor = video_word info, audio_index = 0, frame = 0, start = start0,
      next_progress_second = 1, previous_audio_tick = 0, current_hz = 0\<rparr>"

definition play_once :: "freertos_api \<Rightarrow> handles \<Rightarrow> image \<Rightarrow> bam2_info \<Rightarrow> bool \<Rightarrow> bool fw" where
  "play_once A H img info completed_once =
     bind_fw vga_frame_count (\<lambda>start0.
     then_fw (media_state_update MEDIA_PAUSED_BIT MEDIA_ACTIVE_BIT)
     (then_fw (shared_write ''playback_elapsed_ticks'' 0)
     (bind_fw (loop_fw (playback_body A H img info) (playback_begin info start0)) (\<lambda>p.
       if frame p \<noteq> frame_count info \<or> video_cursor p \<noteq> video_end_word info \<or>
          audio_index p \<noteq> audio_count info
       then fail 0xba0b ''stream did not finish''
       else then_fw (send_or_fail A ''xQueueSend'' [audio_queue H, 0, portMAX_DELAY] 0xba0c ''audio stop queue'')
         (then_fw (seq_fw [uart_puts ([10] @ bytes ''bad apple full pass'' @ [10]), uart_flush,
             gpio_write_led 5, media_state_update MEDIA_ACTIVE_BIT 0,
             (if completed_once then return_fw () else mmio_write TINYBUS_TEST_EXIT 1),
             kernel_call ''vTaskDelay'' [pdMS_TO_TICKS A REPLAY_DELAY_MS]])
           (return_fw True))))))"

definition playback_task :: "freertos_api \<Rightarrow> handles \<Rightarrow> image \<Rightarrow> 'b fw" where
  "playback_task A H img =
     bind_fw (validate_asset img) (\<lambda>info.
     then_fw (loop_fw (\<lambda>_. bind_fw vga_is_ready (\<lambda>r.
         if r = 0 then then_fw (kernel_call ''taskYIELD'' []) (return_fw (Inl ())) else return_fw (Inr ()))) ())
       (then_fw (uart_puts (bytes ''bad apple full start'' @ [10]))
         (forever (play_once A H img info) False)))"

definition create_task :: "symbols \<Rightarrow> string \<Rightarrow> string \<Rightarrow> u32 \<Rightarrow> u32 \<Rightarrow> string \<Rightarrow> string \<Rightarrow> u32 fw" where
  "create_task addr code name depth priority stack tcb =
     extern_fw ''xTaskCreateStatic'' [addr code, addr name, depth, 0, priority, addr stack, addr tcb]"

definition bad_apple_main :: "symbols \<Rightarrow> 'b fw" where
  "bad_apple_main addr =
     then_fw (gpio_write_led 1)
     (then_fw (uart_puts (bytes ''bad apple full boot'' @ [10]))
     (bind_fw (extern_fw ''xQueueCreateStatic'' [AUDIO_QUEUE_LENGTH, 4, addr ''audio_queue_storage'', addr ''audio_queue_control'']) (\<lambda>queue.
     then_fw (shared_write ''media_state_bits'' 0)
     (if queue = 0 then fail 0xba0d ''queue create''
      else bind_fw (create_task addr ''led_task'' ''bad-led'' AUX_STACK_WORDS 1 ''led_stack'' ''led_tcb'') (\<lambda>led.
      bind_fw (create_task addr ''audio_task'' ''bad-audio'' AUDIO_STACK_WORDS 3 ''audio_stack'' ''audio_tcb'') (\<lambda>audio.
      bind_fw (create_task addr ''playback_task'' ''bad-video'' PLAYBACK_STACK_WORDS 2 ''playback_stack'' ''playback_tcb'') (\<lambda>video.
      bind_fw (create_task addr ''button_task'' ''bad-button'' BUTTON_STACK_WORDS 3 ''button_stack'' ''button_tcb'') (\<lambda>btn.
      bind_fw (create_task addr ''traffic_task'' ''bad-traffic'' AUX_STACK_WORDS 1 ''traffic_stack'' ''traffic_tcb'') (\<lambda>traffic.
        if led = 0 \<or> audio = 0 \<or> video = 0 \<or> btn = 0 \<or> traffic = 0 then fail 0xba0e ''task create''
        else then_fw (kernel_call ''vTaskStartScheduler'' []) (fail 0xba0f ''scheduler returned''))))))))))"

section \<open>The button\<close>

text \<open>The state after a history of samples, latest first, and what it should be: the value that
  the last three equal consecutive samples had, released before there were any.\<close>

fun debounced :: "bool list \<Rightarrow> button" where
  "debounced [] = button_start"
| "debounced (s # ss) = fst (debounce s (debounced ss))"

fun held :: "bool list \<Rightarrow> bool" where
  "held (a # b # c # rest) = (if a = b \<and> b = c then a else held (b # c # rest))"
| "held _ = False"

fun run_length :: "bool list \<Rightarrow> nat" where
  "run_length (a # b # rest) = (if a = b then Suc (run_length (b # rest)) else 1)"
| "run_length xs = length xs"

definition button_knows :: "bool list \<Rightarrow> button \<Rightarrow> bool" where
  "button_knows ss b \<longleftrightarrow>
     sampled_pressed b = (case ss of [] \<Rightarrow> False | s # _ \<Rightarrow> s) \<and>
     stable_count b = of_nat (min 3 (run_length ss)) \<and> stable_pressed b = held ss"

lemma run_length_pos: "ss \<noteq> [] \<Longrightarrow> 0 < run_length ss"
  by (induction ss rule: run_length.induct) auto

lemma held_step: "held (s # ss) = (if 3 \<le> run_length (s # ss) then s else held ss)"
proof (cases ss)
  case Nil
  then show ?thesis by simp
next
  case (Cons t rest)
  show ?thesis
  proof (cases rest)
    case (Cons u us)
    have "0 < run_length (u # us)" by (simp add: run_length_pos)
    with \<open>ss = t # rest\<close> Cons show ?thesis by auto
  qed (simp add: Cons)
qed

lemma debounce_step:
  assumes "button_knows ss b"
  shows "button_knows (s # ss) (fst (debounce s b)) \<and> (snd (debounce s b) \<longleftrightarrow> held (s # ss) \<and> \<not> held ss)"
proof (cases ss)
  case Nil
  with assms show ?thesis by (cases b) (auto simp: button_knows_def debounce_def Let_def)
next
  case (Cons t rest)
  define n h where "n = run_length ss" and "h = held ss"
  have run: "run_length (s # ss) = (if s = t then Suc n else 1)" by (simp add: Cons n_def)
  have held: "held (s # ss) = (if s = t \<and> 2 \<le> n then s else h)"
    using held_step [of s ss] unfolding run h_def by auto
  have long: "3 \<le> n \<Longrightarrow> h = t" using held_step [of t rest] by (simp add: Cons n_def h_def)
  have pos: "0 < n" unfolding n_def by (rule run_length_pos) (simp add: Cons)
  obtain sp st sc where b: "b = \<lparr>sampled_pressed = sp, stable_pressed = st, stable_count = sc\<rparr>" by (cases b)
  have eqs: "sp = t" "sc = of_nat (min 3 n)" "st = h"
    using assms Cons by (simp_all add: button_knows_def b n_def h_def)
  consider "n = 1" | "n = 2" | "3 \<le> n" using pos by linarith
  then show ?thesis
    unfolding button_knows_def list.case held run b eqs h_def [symmetric]
    by cases (use long in \<open>auto simp: debounce_def Let_def min_def\<close>)
qed

lemma button_knows_debounced: "button_knows ss (debounced ss)"
proof (induction ss)
  case Nil
  then show ?case by (simp add: button_knows_def button_start_def)
next
  case (Cons s ss)
  then show ?case using debounce_step by simp
qed

text \<open>The key is debounced: after any history of samples the stable state is the value of the
  last three equal consecutive samples, and a sample counts as a press, which toggles the
  pause, exactly when it turns this value from released to pressed.\<close>

lemma debounce_correct:
  "stable_pressed (debounced ss) = held ss \<and>
   (snd (debounce s (debounced ss)) \<longleftrightarrow> held (s # ss) \<and> \<not> held ss)"
  using button_knows_debounced [of ss] debounce_step [of ss _ s] by (auto simp: button_knows_def)

end
