(* ===== verification/Bam2_Valid.thy ===== *)
theory Bam2_Valid
  imports Bad_Apple
begin

text \<open>
  What it means that a file is a valid BAM2 stream, independent of the player: a header whose
  sizes add up, frames that follow each other without a gap and only change words of the
  bitmap, and audio events in strictly increasing time. The player's validation decides
  exactly this, and a valid file never trips a check during playback.
\<close>

section \<open>Valid streams\<close>

definition bam2_header :: "image \<Rightarrow> bool" where
  "bam2_header img \<longleftrightarrow>
     img 0 = 0x324d4142 \<and> img 1 = 2 \<and>
     48 \<le> unat (img 2) \<and> unat (img 2) \<le> 2 ^ 24 \<and> unat (img 2) mod 4 = 0 \<and>
     0 < unat (img 3) \<and> unat (img 3) < 0x8000 \<and> 0 < unat (img 4) \<and> img 5 = 48 \<and> img 6 = 6 \<and>
     unat (img 8) mod 4 = 0 \<and> 12 < unat (img 8) div 4 \<and>
     unat (img 8) div 4 + 2 * unat (img 7) = unat (img 2) div 4 \<and>
     img 9 = 96 \<and> img 10 AND NOT 1 = 0 \<and> img 11 = 0"

text \<open>A frame at word \<open>c\<close> is a count and that many pairs of a bitmap word and its value.\<close>

definition frame_end :: "image \<Rightarrow> nat \<Rightarrow> nat" where
  "frame_end img c = Suc c + 2 * unat (img (of_nat c))"

definition good_frame :: "image \<Rightarrow> nat \<Rightarrow> bool \<Rightarrow> nat \<Rightarrow> bool" where
  "good_frame img fin first c \<longleftrightarrow>
     c < fin \<and> (if first then img (of_nat c) = 96 else img (of_nat c) \<le> 96) \<and> frame_end img c \<le> fin \<and>
     (\<forall>j < unat (img (of_nat c)). img (of_nat (Suc c + 2 * j)) < 96)"

definition frame_pos :: "image \<Rightarrow> nat \<Rightarrow> nat" where
  "frame_pos img k = (frame_end img ^^ k) 12"

definition event_tick :: "image \<Rightarrow> nat \<Rightarrow> u32" where
  "event_tick img k = img (of_nat (unat (img 8) div 4 + 2 * k))"

definition event_ok :: "image \<Rightarrow> nat \<Rightarrow> bool" where
  "event_ok img k \<longleftrightarrow> event_tick img k < img 3 \<and> (k \<noteq> 0 \<longrightarrow> event_tick img (k - 1) < event_tick img k)"

definition bam2_valid :: "image \<Rightarrow> bool" where
  "bam2_valid img \<longleftrightarrow> bam2_header img \<and>
     (\<forall>k < unat (img 4). good_frame img (unat (img 8) div 4) (k = 0) (frame_pos img k)) \<and>
     frame_pos img (unat (img 4)) = unat (img 8) div 4 \<and>
     (\<forall>k < unat (img 7). event_ok img k)"

section \<open>Failures are final\<close>

lemma fail_bind [simp]: "bind_fw (fail code message) g = fail code message"
  by (simp add: fail_def then_fw_def bind_assoc_fw)

lemma runtime_fail_bind [simp]: "bind_fw (runtime_fail c s e f w v) g = runtime_fail c s e f w v"
  by (simp add: runtime_fail_def then_fw_def bind_assoc_fw)

lemma runs_fail: "code \<in> C \<Longrightarrow> runs C (fail code message) Q"
  unfolding fail_def
  by (rule runs_then [OF runs_seq runs_exit]) (auto simp del: uart_puts.simps intro: run_intros)

lemma runs_runtime_fail: "code \<in> C \<Longrightarrow> runs C (runtime_fail code message e f w v) Q"
  unfolding runtime_fail_def
  by (rule runs_then [OF runs_seq runs_exit])
    (auto simp del: uart_puts.simps append_Cons intro: run_intros)

section \<open>The loops of the validation\<close>

lemma asset_get_inside [simp]: "c < 2 ^ 22 \<Longrightarrow> asset_get img (of_nat c) = return_fw (img (of_nat c))"
proof -
  assume c: "c < 2 ^ 22"
  have "(MAX_ASSET_BYTES div 4 :: u32) = 0x400000" by (simp add: MAX_ASSET_BYTES_def)
  with c show ?thesis
    by (intro ext) (simp add: asset_get_def of_option_fw_def return_fw_def word_less_nat_alt unat_of_nat)
qed

lemma check_changes_upto:
  assumes "c + 2 * n \<le> 2 ^ 22"
  shows "fold_fw [0..<n] (\<lambda>_ cursor. bind_fw (asset_get img cursor) (\<lambda>index.
      if VGA_BITMAP_WORDS \<le> index then fail 0xba06 ''bitmap word index'' else return_fw (cursor + 2))) (of_nat c) =
    (if \<forall>j < n. img (of_nat (c + 2 * j)) < 96 then return_fw (of_nat (c + 2 * n))
     else fail 0xba06 ''bitmap word index'')"
  using assms
proof (induction n)
  case (Suc n)
  define body :: "nat \<Rightarrow> u32 \<Rightarrow> u32 fw" where "body = (\<lambda>_ cursor. bind_fw (asset_get img cursor) (\<lambda>index.
      if VGA_BITMAP_WORDS \<le> index then fail 0xba06 ''bitmap word index'' else return_fw (cursor + 2)))"
  have IH: "fold_fw [0..<n] body (of_nat c) =
      (if \<forall>j < n. img (of_nat (c + 2 * j)) < 96 then return_fw (of_nat (c + 2 * n))
       else fail 0xba06 ''bitmap word index'')"
    unfolding body_def using Suc.prems by (intro Suc.IH) simp
  have get: "asset_get img (of_nat (c + 2 * n)) = return_fw (img (of_nat (c + 2 * n)))"
    using Suc.prems by (intro asset_get_inside) simp
  have step: "body n (of_nat (c + 2 * n)) =
      (if img (of_nat (c + 2 * n)) < 96 then return_fw (of_nat (c + 2 * Suc n))
       else fail 0xba06 ''bitmap word index'')"
    unfolding body_def get by (simp add: VGA_BITMAP_WORDS_def linorder_not_less [symmetric] ac_simps)
  show ?case
    unfolding body_def [symmetric] fold_fw_snoc IH
    using step by (cases "\<forall>j < n. img (of_nat (c + 2 * j)) < 96") (auto simp: less_Suc_eq)
qed simp

lemma check_changes_eq:
  assumes "c + 2 * unat n \<le> 2 ^ 22"
  shows "check_changes img n (of_nat c) =
    (if \<forall>j < unat n. img (of_nat (c + 2 * j)) < 96 then return_fw (of_nat (c + 2 * unat n))
     else fail 0xba06 ''bitmap word index'')"
  unfolding check_changes_def using assms by (rule check_changes_upto)

lemma room_for:
  fixes fin n :: u32
  assumes "c < unat fin"
  shows "(fin - of_nat (Suc c)) div 2 < n \<longleftrightarrow> unat fin < Suc c + 2 * unat n"
proof -
  have "unat (of_nat (Suc c) :: u32) = Suc c"
    using assms unsigned_less [of fin, where 'a = nat] by (intro unat_of_nat_small) simp
  then have "unat (fin - of_nat (Suc c)) = unat fin - Suc c"
    using assms by (subst unat_sub) (simp_all add: word_le_nat_alt)
  then show ?thesis
    using assms by (auto simp: word_less_nat_alt unat_div)
qed

lemma good_frame_code:
  assumes "first \<longleftrightarrow> fr = 0" "c < unat fin"
  shows "good_frame img (unat fin) first c \<longleftrightarrow>
    \<not> ((fr = 0 \<and> img (of_nat c) \<noteq> 96) \<or> 96 < img (of_nat c) \<or>
       (fin - of_nat (Suc c)) div 2 < img (of_nat c)) \<and>
    (\<forall>j < unat (img (of_nat c)). img (of_nat (Suc c + 2 * j)) < 96)"
  unfolding good_frame_def frame_end_def room_for [OF assms(2)]
  using assms by (auto simp: not_less simp del: of_nat_Suc of_nat_add of_nat_mult)

lemma frame_pos_0 [simp]: "frame_pos img 0 = 12"
  by (simp add: frame_pos_def)

lemma frame_pos_Suc: "frame_pos img (Suc k) = frame_end img (frame_pos img k)"
  by (simp add: frame_pos_def)

lemma of_nat_eq_0_small: "i < 2 ^ 32 \<Longrightarrow> (of_nat i :: u32) = 0 \<longleftrightarrow> i = 0"
  by (auto simp: word_of_nat_eq_0_iff dest: dvd_imp_le)

definition fails_in :: "u32 set \<Rightarrow> 'a fw \<Rightarrow> bool" where
  "fails_in C f \<longleftrightarrow> (\<exists>code \<in> C. \<exists>message. f = fail code message)"

lemma fails_inI: "code \<in> C \<Longrightarrow> fails_in C (fail code message)"
  by (auto simp: fails_in_def)

lemma fails_bind: "fails_in C f \<Longrightarrow> fails_in C (bind_fw f g)"
  by (fastforce simp: fails_in_def)

text \<open>One iteration of the loop over the frames.\<close>

lemma check_frames_step:
  assumes "unat (video_end_word info) \<le> 2 ^ 22" "i < unat (frame_count info)" "c \<le> unat (video_end_word info)"
  shows "if good_frame img (unat (video_end_word info)) (i = 0) c
    then check_frames img info (of_nat i) (of_nat c) = check_frames img info (of_nat (Suc i)) (of_nat (frame_end img c))
    else fails_in {0xba04..0xba06} (check_frames img info (of_nat i) (of_nat c))"
proof -
  let ?fin = "unat (video_end_word info)" and ?n = "img (of_nat c)"
  have less: "i < 2 ^ 32" using assms(2) unsigned_less [of "frame_count info", where 'a = nat] by simp
  then have lt: "(of_nat i :: u32) < frame_count info"
    using assms(2) by (simp add: word_less_nat_alt unat_of_nat_small)
  have zero: "i = 0 \<longleftrightarrow> (of_nat i :: u32) = 0" using less by (simp add: of_nat_eq_0_small)
  have le: "video_end_word info \<le> of_nat c \<longleftrightarrow> ?fin \<le> c"
    using assms(1,3) by (simp add: word_le_nat_alt unat_of_nat_small)
  show ?thesis
  proof (cases "c < ?fin")
    case False
    then have "check_frames img info (of_nat i) (of_nat c) = fail 0xba04 ''video truncated''"
      using lt le by (subst check_frames.simps) simp
    with False show ?thesis by (simp add: good_frame_def fails_inI)
  next
    case True
    let ?bad = "(of_nat i = (0::u32) \<and> ?n \<noteq> 96) \<or> 96 < ?n \<or> (video_end_word info - of_nat (Suc c)) div 2 < ?n"
    have get: "asset_get img (of_nat c) = return_fw ?n" using True assms(1) by simp
    have unfold: "check_frames img info (of_nat i) (of_nat c) =
        (if ?bad then fail 0xba05 ''frame diff count''
         else bind_fw (check_changes img ?n (of_nat (Suc c))) (check_frames img info (of_nat (Suc i))))"
      using lt le True by (subst check_frames.simps) (simp add: get VGA_BITMAP_WORDS_def add.commute)
    show ?thesis
    proof (cases ?bad)
      case bad: True
      then show ?thesis
        unfolding good_frame_code [OF zero True] unfold if_P [OF bad] by (simp add: fails_inI)
    next
      case ok: False
      have "Suc c + 2 * unat ?n \<le> 2 ^ 22" using ok room_for [OF True, of ?n] assms(1) by simp
      note changes = check_changes_eq [OF this, of img]
      show ?thesis
        unfolding good_frame_code [OF zero True] unfold if_not_P [OF ok] changes frame_end_def
        using ok by (cases "\<forall>j < unat ?n. img (of_nat (Suc c + 2 * j)) < 96") (simp_all only: if_True if_False
            simp_thms fails_inI return_bind_fw fail_bind atLeastAtMost_iff, simp_all add: fails_inI)
    qed
  qed
qed

lemma check_frames_spec:
  assumes "unat (video_end_word info) \<le> 2 ^ 22" "i \<le> unat (frame_count info)"
    and "frame_pos img i \<le> unat (video_end_word info)"
  shows "if \<forall>k \<in> {i..<unat (frame_count info)}. good_frame img (unat (video_end_word info)) (k = 0) (frame_pos img k)
    then check_frames img info (of_nat i) (of_nat (frame_pos img i)) = return_fw (of_nat (frame_pos img (unat (frame_count info))))
      \<and> frame_pos img (unat (frame_count info)) \<le> unat (video_end_word info)
    else fails_in {0xba04..0xba06} (check_frames img info (of_nat i) (of_nat (frame_pos img i)))"
  using assms
proof (induction "unat (frame_count info) - i" arbitrary: i)
  case 0
  then have "i = unat (frame_count info)" by simp
  with 0 show ?case by (subst check_frames.simps) simp
next
  case (Suc n)
  let ?fin = "unat (video_end_word info)" and ?c = "frame_pos img i"
  have i: "i < unat (frame_count info)" using Suc by simp
  note step = check_frames_step [OF Suc.prems(1) i Suc.prems(3), of img, folded frame_pos_Suc]
  have split: "(\<forall>k \<in> {i..<unat (frame_count info)}. good_frame img ?fin (k = 0) (frame_pos img k)) \<longleftrightarrow>
      good_frame img ?fin (i = 0) ?c \<and>
      (\<forall>k \<in> {Suc i..<unat (frame_count info)}. good_frame img ?fin (k = 0) (frame_pos img k))"
    using i by (auto simp: le_less Suc_le_eq)
  show ?case
  proof (cases "good_frame img ?fin (i = 0) ?c")
    case True
    then have "frame_pos img (Suc i) \<le> ?fin" by (simp add: good_frame_def frame_pos_Suc)
    with Suc i have "if \<forall>k \<in> {Suc i..<unat (frame_count info)}. good_frame img ?fin (k = 0) (frame_pos img k)
      then check_frames img info (of_nat (Suc i)) (of_nat (frame_pos img (Suc i)))
        = return_fw (of_nat (frame_pos img (unat (frame_count info)))) \<and> frame_pos img (unat (frame_count info)) \<le> ?fin
      else fails_in {0xba04..0xba06} (check_frames img info (of_nat (Suc i)) (of_nat (frame_pos img (Suc i))))"
      by (intro Suc.hyps(1)) simp_all
    with step True show ?thesis unfolding split by (simp del: of_nat_Suc)
  next
    case False
    with step show ?thesis unfolding split by simp
  qed
qed

lemma event_address:
  "unat (audio_word info) = w \<Longrightarrow> audio_word info + of_nat i * 2 = of_nat (w + 2 * i)"
  by (drule sym) (simp add: mult.commute)

lemma check_events_spec:
  assumes "unat (audio_word info) = unat (img 8) div 4" "duration_ticks info = img 3"
    and "unat (audio_word info) + 2 * unat (audio_count info) \<le> 2 ^ 22"
    and "i \<le> unat (audio_count info)" "i \<noteq> 0 \<longrightarrow> prev = event_tick img (i - 1)"
  shows "if \<forall>k \<in> {i..<unat (audio_count info)}. event_ok img k
    then check_events img info (of_nat i) prev = return_fw ()
    else fails_in {0xba08} (check_events img info (of_nat i) prev)"
  using assms(4,5)
proof (induction "unat (audio_count info) - i" arbitrary: i prev)
  case 0
  then have "i = unat (audio_count info)" by simp
  then show ?case by (subst check_events.simps) simp
next
  case (Suc n)
  have i: "i < unat (audio_count info)" using Suc by simp
  then have less: "i < 2 ^ 32" using unsigned_less [of "audio_count info", where 'a = nat] by simp
  then have lt: "(of_nat i :: u32) < audio_count info" and zero: "(of_nat i :: u32) = 0 \<longleftrightarrow> i = 0"
    using i by (simp_all add: word_less_nat_alt unat_of_nat_small of_nat_eq_0_small)
  have "unat (img 8) div 4 + 2 * i < 2 ^ 22" using i assms(1,3) by simp
  then have get: "asset_get img (audio_word info + of_nat i * 2) = return_fw (event_tick img i)"
    unfolding event_address [OF assms(1)] event_tick_def by (rule asset_get_inside)
  have ok: "event_ok img i \<longleftrightarrow>
      \<not> (duration_ticks info \<le> event_tick img i \<or> of_nat i \<noteq> (0::u32) \<and> event_tick img i \<le> prev)"
    using Suc.prems(2) zero assms(2) by (auto simp: event_ok_def not_le)
  have step: "check_events img info (of_nat i) prev =
      (if event_ok img i then check_events img info (of_nat (Suc i)) (event_tick img i)
       else fail 0xba08 ''audio tick order'')"
    unfolding ok using lt by (subst check_events.simps) (simp add: get add.commute)
  have split: "(\<forall>k \<in> {i..<unat (audio_count info)}. event_ok img k) \<longleftrightarrow>
      event_ok img i \<and> (\<forall>k \<in> {Suc i..<unat (audio_count info)}. event_ok img k)"
    using i by (auto simp: le_less Suc_le_eq)
  have "if \<forall>k \<in> {Suc i..<unat (audio_count info)}. event_ok img k
    then check_events img info (of_nat (Suc i)) (event_tick img i) = return_fw ()
    else fails_in {0xba08} (check_events img info (of_nat (Suc i)) (event_tick img i))"
    using Suc i by (intro Suc.hyps(1)) simp_all
  then show ?case unfolding split step by (simp add: fails_inI del: of_nat_Suc)
qed

section \<open>The header\<close>

lemma unat_div4: "unat ((w :: u32) div 4) = unat w div 4"
  by (simp add: unat_div)

lemma of_nat_div4: "of_nat (unat (w :: u32) div 4) = w div 4"
  by (simp flip: unat_div4)

lemma audio_fits:
  fixes t a n :: u32
  shows "\<not> (t < a \<or> (t - a) div 2 < n \<or> a + n * 2 \<noteq> t) \<longleftrightarrow> unat a + 2 * unat n = unat t"
proof (cases "t < a")
  case True
  then show ?thesis by (auto simp: word_less_nat_alt)
next
  case False
  then have le: "unat a \<le> unat t" by (simp add: word_less_nat_alt)
  then have d: "unat (t - a) = unat t - unat a" by (simp add: unat_sub word_le_nat_alt)
  have small: "unat t < 2 ^ 32" using unsigned_less [of t, where 'a = nat] by simp
  have half: "(t - a) div 2 < n \<longleftrightarrow> unat t < unat a + 2 * unat n"
    using le by (auto simp: word_less_nat_alt unat_div d)
  show ?thesis
  proof (cases "unat t < unat a + 2 * unat n")
    case False
    then have "unat (a + n * 2) = unat a + 2 * unat n"
      using small by (simp add: unat_word_ariths)
    then have "a + n * 2 = t \<longleftrightarrow> unat a + 2 * unat n = unat t" by (metis unsigned_word_eqI)
    with False \<open>\<not> t < a\<close> half show ?thesis by simp
  qed (use half in auto)
qed

lemma header_code:
  "img 0 = ASSET_MAGIC \<and> img 1 = ASSET_VERSION \<and>
   \<not> (img 2 < ASSET_HEADER_WORDS * 4 \<or> MAX_ASSET_BYTES < img 2 \<or> img 2 AND 3 \<noteq> 0) \<and>
   \<not> header_bounds_bad img (header_info img) \<longleftrightarrow> bam2_header img"
proof -
  have m4: "w AND 3 = 0 \<longleftrightarrow> unat w mod 4 = 0" for w :: u32
    by (metis unat_mod4 unat_eq_zero)
  have dur: "(img 3 = 0 \<or> 0x8000 \<le> img 3) \<longleftrightarrow> \<not> (0 < unat (img 3) \<and> unat (img 3) < 0x8000)"
    by (auto simp: word_le_nat_alt unat_gt_0 unat_eq_zero)
  have sizes: "(img 2 < 12 * 4 \<or> 16 * 1024 * 1024 < img 2) \<longleftrightarrow> \<not> (48 \<le> unat (img 2) \<and> unat (img 2) \<le> 2 ^ 24)"
    by (auto simp: word_less_nat_alt)
  have video: "img 5 = 48 \<Longrightarrow> (img 8 div 4 \<le> img 5 div 4) \<longleftrightarrow> \<not> 12 < unat (img 8) div 4"
    by (auto simp: word_le_nat_alt unat_div4)
  have pos: "img 4 = 0 \<longleftrightarrow> \<not> 0 < unat (img 4)" by (simp add: unat_eq_zero)
  have audio: "\<not> (img 2 div 4 < img 8 div 4 \<or> (img 2 div 4 - img 8 div 4) div 2 < img 7 \<or> img 8 div 4 + img 7 * 2 \<noteq> img 2 div 4)
      \<longleftrightarrow> unat (img 8) div 4 + 2 * unat (img 7) = unat (img 2) div 4"
    using audio_fits [of "img 2 div 4" "img 8 div 4" "img 7"] by (simp add: unat_div4)
  show ?thesis
    unfolding bam2_header_def header_bounds_bad_def header_info_def ASSET_MAGIC_def ASSET_VERSION_def
      ASSET_HEADER_WORDS_def MAX_ASSET_BYTES_def VIDEO_PERIOD_TICKS_def VGA_BITMAP_WORDS_def
      ASSET_FLAG_AUDIO_BEATS_def m4 bam2_info.simps
    using sizes dur video pos audio by auto
qed

section \<open>The validation\<close>

lemma header_info_simps [simp]:
  "total_words (header_info img) = img 2 div 4" "duration_ticks (header_info img) = img 3"
  "frame_count (header_info img) = img 4" "video_word (header_info img) = img 5 div 4"
  "video_end_word (header_info img) = img 8 div 4" "audio_count (header_info img) = img 7"
  "audio_word (header_info img) = img 8 div 4"
  by (simp_all add: header_info_def)

lemma header_sizes:
  assumes "bam2_header img"
  shows "unat (img 8) div 4 + 2 * unat (img 7) \<le> 2 ^ 22" "12 < unat (img 8) div 4"
    "img 5 div 4 = of_nat 12"
proof -
  have "unat (img 2) div 4 \<le> 2 ^ 24 div 4"
    using assms by (intro div_le_mono) (simp add: bam2_header_def)
  then show "unat (img 8) div 4 + 2 * unat (img 7) \<le> 2 ^ 22"
    using assms by (simp add: bam2_header_def)
qed (use assms in \<open>simp_all add: bam2_header_def\<close>)

lemma fails_in_mono: "fails_in C f \<Longrightarrow> C \<subseteq> D \<Longrightarrow> fails_in D f"
  by (auto simp: fails_in_def)

text \<open>Behind a good header: the frames, the end of the video and the events decide.\<close>

lemma validate_after_header:
  assumes "bam2_header img"
  shows "validate_asset img = bind_fw (check_frames img (header_info img) 0 (of_nat 12)) (\<lambda>cursor.
      if cursor \<noteq> img 8 div 4 then fail 0xba07 ''video trailing words''
      else then_fw (check_events img (header_info img) 0 0) (return_fw (header_info img)))"
  using assms header_code [of img] unfolding validate_asset_def Let_def
  by (simp add: header_sizes(3) [OF assms])

lemma header_frames:
  assumes "bam2_header img"
  shows "if \<forall>k < unat (img 4). good_frame img (unat (img 8) div 4) (k = 0) (frame_pos img k)
    then check_frames img (header_info img) 0 (of_nat 12) = return_fw (of_nat (frame_pos img (unat (img 4)))) \<and>
      frame_pos img (unat (img 4)) \<le> unat (img 8) div 4
    else fails_in {0xba04..0xba06} (check_frames img (header_info img) 0 (of_nat 12))"
  using check_frames_spec [of "header_info img" 0 img] header_sizes [OF assms]
  by (auto simp: unat_div4 Ball_def split: if_splits)

lemma header_events:
  assumes "bam2_header img"
  shows "if \<forall>k < unat (img 7). event_ok img k then check_events img (header_info img) 0 0 = return_fw ()
    else fails_in {0xba08} (check_events img (header_info img) 0 0)"
  using check_events_spec [of "header_info img" img 0 0] header_sizes [OF assms]
  by (auto simp: unat_div4 Ball_def split: if_splits)

lemma validate_asset_spec:
  "if bam2_valid img then validate_asset img = return_fw (header_info img)
   else fails_in {0xba01..0xba08} (validate_asset img)"
proof (cases "bam2_header img")
  case False
  then show ?thesis
    using header_code [of img] unfolding bam2_valid_def validate_asset_def Let_def
    by (auto intro: fails_inI)
next
  case True
  let ?info = "header_info img" and ?v = "unat (img 8) div 4" and ?n = "unat (img 4)"
  let ?frames = "\<forall>k < ?n. good_frame img ?v (k = 0) (frame_pos img k)"
  note start = validate_after_header [OF True] and frames = header_frames [OF True] and events = header_events [OF True]
  show ?thesis
  proof (cases ?frames)
    case False
    have "fails_in {0xba04..0xba06} (validate_asset img)"
      using frames unfolding start if_not_P [OF False] by (rule fails_bind)
    then have "fails_in {0xba01..0xba08} (validate_asset img)" by (rule fails_in_mono) simp
    moreover have "\<not> bam2_valid img" using False unfolding bam2_valid_def by blast
    ultimately show ?thesis by simp
  next
    case good: True
    have eq: "of_nat (frame_pos img ?n) = img 8 div 4 \<longleftrightarrow> frame_pos img ?n = ?v"
      using frames good header_sizes(1) [OF True] by (auto simp: of_nat_div4 unat_of_nat_small unat_div4 dest: arg_cong [of _ _ unat])
    have run: "validate_asset img =
        (if frame_pos img ?n = ?v then then_fw (check_events img ?info 0 0) (return_fw ?info)
         else fail 0xba07 ''video trailing words'')"
      unfolding start using frames good eq by simp
    show ?thesis
    proof (cases "\<forall>k < unat (img 7). event_ok img k")
      case ok: True
      with good True events show ?thesis
        unfolding run bam2_valid_def by (simp add: then_fw_def fails_inI)
    next
      case bad: False
      have "fails_in {0xba01..0xba08} (then_fw (check_events img ?info 0 0) (return_fw ?info))"
        using events unfolding if_not_P [OF bad] then_fw_def
        by (rule fails_in_mono [OF fails_bind]) simp
      moreover have "\<not> bam2_valid img" using bad unfolding bam2_valid_def by blast
      ultimately show ?thesis unfolding run by (simp add: fails_inI)
    qed
  qed
qed

section \<open>Drawing\<close>

text \<open>What drawing the frame at word \<open>c\<close> writes: each pair stores a value in a word of the bitmap.\<close>

definition pair_write :: "image \<Rightarrow> nat \<Rightarrow> access" where
  "pair_write img w = Wr (TINYBUS_VGA_FB_BASE + img (of_nat w) * 4) (img (of_nat (Suc w)))"

definition frame_writes :: "image \<Rightarrow> nat \<Rightarrow> access list" where
  "frame_writes img c = map (\<lambda>j. pair_write img (Suc c + 2 * j)) [0..<unat (img (of_nat c))]"

lemma draw_upto:
  assumes "c + 2 * n \<le> 2 ^ 22" "\<forall>j < n. img (of_nat (c + 2 * j)) < 96"
  shows "does hw (fold_fw [0..<n] (\<lambda>_ cursor.
       bind_fw (asset_get img cursor) (\<lambda>index.
       bind_fw (asset_get img (cursor + 1)) (\<lambda>v.
         if VGA_BITMAP_WORDS \<le> index
         then runtime_fail 0xba15 ''bitmap word index'' elapsed fr (cursor + 2 - 2) index
         else then_fw (vga_bitmap_write_word index v) (return_fw (cursor + 2))))) (of_nat c))
     (\<lambda>r es. r = of_nat (c + 2 * n) \<and> es = map (\<lambda>j. pair_write img (c + 2 * j)) [0..<n])"
  using assms
proof (induction n)
  case 0
  then show ?case by (simp add: does_return)
next
  case (Suc n)
  define body :: "nat \<Rightarrow> u32 \<Rightarrow> u32 fw" where "body = (\<lambda>_ cursor.
       bind_fw (asset_get img cursor) (\<lambda>index.
       bind_fw (asset_get img (cursor + 1)) (\<lambda>v.
         if VGA_BITMAP_WORDS \<le> index
         then runtime_fail 0xba15 ''bitmap word index'' elapsed fr (cursor + 2 - 2) index
         else then_fw (vga_bitmap_write_word index v) (return_fw (cursor + 2)))))"
  let ?w = "c + 2 * n"
  have get: "asset_get img (of_nat ?w) = return_fw (img (of_nat ?w))"
      "asset_get img (of_nat ?w + 1) = return_fw (img (of_nat (Suc ?w)))"
    using Suc.prems(1) asset_get_inside [of ?w img] asset_get_inside [of "Suc ?w" img]
    by (simp_all add: add.commute)
  have index: "img (of_nat ?w) < 96" using Suc.prems(2) by blast
  have body: "body n (of_nat ?w) = then_fw (mmio_write (TINYBUS_VGA_FB_BASE + img (of_nat ?w) * 4) (img (of_nat (Suc ?w))))
      (return_fw (of_nat ?w + 2))"
    unfolding body_def get return_bind_fw vga_bitmap_write_word_def VGA_BITMAP_WORDS_def
    using index by (simp add: linorder_not_less [symmetric])
  have step: "does hw (body n (of_nat ?w)) (\<lambda>r es. r = of_nat (c + 2 * Suc n) \<and> es = [pair_write img ?w])"
    unfolding body by (rule does_then [OF does_write [where Q = "\<lambda>_ es. es = [pair_write img ?w]"]])
      (auto simp: pair_write_def intro: does_return)
  have IH: "does hw (fold_fw [0..<n] body (of_nat c))
     (\<lambda>r es. r = of_nat ?w \<and> es = map (\<lambda>j. pair_write img (c + 2 * j)) [0..<n])"
    unfolding body_def using Suc.prems by (intro Suc.IH) auto
  show ?case
    unfolding body_def [symmetric] fold_fw_snoc
    by (rule does_bind [OF IH]) (use step in \<open>auto elim!: does_mono simp del: of_nat_add of_nat_mult mult_Suc_right\<close>)
qed

lemma draw_changes_does:
  assumes "good_frame img fin first c" "fin \<le> 2 ^ 22"
  shows "does hw (draw_changes img elapsed fr (img (of_nat c)) (of_nat (Suc c)))
    (\<lambda>r es. r = of_nat (frame_end img c) \<and> es = frame_writes img c)"
  unfolding draw_changes_def frame_end_def frame_writes_def
  using assms by (intro draw_upto) (simp_all add: good_frame_def frame_end_def)

text \<open>The frames due at a time: those before \<open>due_frames img elapsed\<close>.\<close>

definition due_frames :: "image \<Rightarrow> u32 \<Rightarrow> nat" where
  "due_frames img elapsed = min (unat (img 4)) (unat elapsed div 6 + 1)"

lemma frame_pos_bounds:
  assumes "bam2_valid img" "k \<le> unat (img 4)"
  shows "12 + k \<le> frame_pos img k" "frame_pos img k \<le> unat (img 8) div 4"
proof -
  have grow: "frame_pos img j + (k - j) \<le> frame_pos img k" if "j \<le> k" for j k
    using that
  proof (induction k)
    case (Suc k)
    then show ?case by (cases "j = Suc k") (auto simp: frame_pos_Suc frame_end_def le_Suc_eq)
  qed simp
  show "12 + k \<le> frame_pos img k" using grow [of 0 k] by simp
  have "frame_pos img k \<le> frame_pos img (unat (img 4))" using grow [OF assms(2)] by simp
  then show "frame_pos img k \<le> unat (img 8) div 4" using assms(1) by (simp add: bam2_valid_def)
qed

lemma frame_due:
  assumes "bam2_valid img" "i < unat (img 4)"
  shows "of_nat i < img 4 \<and> of_nat i * VIDEO_PERIOD_TICKS \<le> elapsed \<longleftrightarrow> i < due_frames img elapsed"
proof -
  have "i < 2 ^ 22"
    using frame_pos_bounds [OF assms(1), of i] assms header_sizes(1) [of img] by (simp add: bam2_valid_def)
  then have "unat (of_nat i * VIDEO_PERIOD_TICKS) = i * 6" "unat (of_nat i :: u32) = i"
    by (simp_all add: VIDEO_PERIOD_TICKS_def unat_word_ariths unat_of_nat_small)
  then show ?thesis
    using assms(2) by (auto simp: due_frames_def word_less_nat_alt word_le_nat_alt)
qed

lemma draw_frames_does:
  assumes "bam2_valid img" "i \<le> unat (img 4)"
  shows "does hw (draw_frames img (header_info img) elapsed (of_nat i) (of_nat (frame_pos img i)))
    (\<lambda>r es. let j = max i (due_frames img elapsed) in
       r = (of_nat j, of_nat (frame_pos img j)) \<and> es = concat (map (\<lambda>k. frame_writes img (frame_pos img k)) [i..<j]))"
  using assms(2)
proof (induction "unat (img 4) - i" arbitrary: i)
  case 0
  then have "i = unat (img 4)" by simp
  then show ?case
    by (subst draw_frames.simps) (auto simp: due_frames_def max_def word_less_nat_alt intro: does_return)
next
  case (Suc n)
  then have i: "i < unat (img 4)" by simp
  show ?case
  proof (cases "i < due_frames img elapsed")
    case False
    then show ?thesis
      using frame_due [OF assms(1) i, of elapsed]
      by (subst draw_frames.simps) (auto simp: max_def intro: does_return)
  next
    case True
    let ?c = "frame_pos img i" and ?fin = "unat (img 8) div 4"
    have good: "good_frame img ?fin (i = 0) ?c" using assms(1) i by (simp add: bam2_valid_def)
    have fin: "?fin \<le> 2 ^ 22" using header_sizes(1) [of img] assms(1) by (simp add: bam2_valid_def)
    have c: "?c < unat (img 8 div 4)" using good by (simp add: good_frame_def unat_div4)
    have get: "asset_get img (of_nat ?c) = return_fw (img (of_nat ?c))" using c fin by (simp add: unat_div4)
    have code: "\<not> (96 < img (of_nat ?c) \<or> (img 8 div 4 - of_nat (Suc ?c)) div 2 < img (of_nat ?c))"
      using good room_for [OF c, of "img (of_nat ?c)"]
      by (auto simp: good_frame_def frame_end_def unat_div4 split: if_splits)
    have less: "\<not> img 8 div 4 \<le> of_nat ?c" using c fin by (simp add: word_le_nat_alt unat_of_nat_small unat_div4)
    have eq: "draw_frames img (header_info img) elapsed (of_nat i) (of_nat ?c) =
        bind_fw (draw_changes img elapsed (of_nat i) (img (of_nat ?c)) (of_nat (Suc ?c)))
          (draw_frames img (header_info img) elapsed (of_nat (Suc i)))"
      using frame_due [OF assms(1) i, of elapsed] True less code
      by (subst draw_frames.simps) (simp add: get VGA_BITMAP_WORDS_def add.commute)
    have max: "max i (due_frames img elapsed) = max (Suc i) (due_frames img elapsed)" using True by simp
    have range: "[i..<max (Suc i) (due_frames img elapsed)] = i # [Suc i..<max (Suc i) (due_frames img elapsed)]"
      by (simp add: upt_conv_Cons)
    have IH: "does hw (draw_frames img (header_info img) elapsed (of_nat (Suc i)) (of_nat (frame_pos img (Suc i))))
      (\<lambda>r es. let j = max (Suc i) (due_frames img elapsed) in r = (of_nat j, of_nat (frame_pos img j)) \<and>
         es = concat (map (\<lambda>k. frame_writes img (frame_pos img k)) [Suc i..<j]))"
      using Suc i by (intro Suc.hyps(1)) simp_all
    show ?thesis
      unfolding eq max
      by (rule does_bind [OF draw_changes_does [OF good fin]])
        (use IH in \<open>auto simp: Let_def range frame_pos_Suc elim!: does_mono simp del: of_nat_Suc\<close>)
  qed
qed

section \<open>The playback of a valid stream\<close>

lemma runs_does: "(\<And>hw. does hw f (\<lambda>a es. Q a)) \<Longrightarrow> runs C f Q"
proof (unfold safely_in_def, intro allI impI)
  fix hw m
  assume "\<And>hw. does hw f (\<lambda>a es. Q a)"
  then obtain a m' where "f hw m = Some (Ret a m')" "Q a" unfolding does_def by meson
  then show "case f hw m of None \<Rightarrow> True | Some (Ret a m') \<Rightarrow> Q a | Some (Stop m') \<Rightarrow> stopped_with C m'
      | Some Fault \<Rightarrow> False" by simp
qed

definition events_upto :: "image \<Rightarrow> u32 \<Rightarrow> u32 \<Rightarrow> bool" where
  "events_upto img index previous \<longleftrightarrow>
     index \<le> img 7 \<and> (index \<noteq> 0 \<longrightarrow> previous = event_tick img (unat index - 1))"

lemma runs_send: "code \<in> C \<Longrightarrow> runs C (send_or_fail A f xs code message) (\<lambda>_. True)"
  unfolding send_or_fail_def
  by (rule runs_bind [OF runs_extern]) (auto intro: runs_fail runs_return)

lemma event_facts:
  assumes "bam2_valid img" "index < img 7"
  shows "asset_get img (img 8 div 4 + index * 2) = return_fw (event_tick img (unat index))"
    "asset_get img (img 8 div 4 + index * 2 + 1) = return_fw (img (img 8 div 4 + index * 2 + 1))"
    "event_tick img (unat index) < img 3"
    "index \<noteq> 0 \<Longrightarrow> event_tick img (unat index - 1) < event_tick img (unat index)"
proof -
  let ?w = "unat (img 8) div 4 + 2 * unat index"
  have i: "unat index < unat (img 7)" using assms(2) by (simp add: word_less_nat_alt)
  then have w: "Suc ?w < 2 ^ 22"
    using header_sizes(1) [of img] assms(1) by (simp add: bam2_valid_def)
  have addr: "img 8 div 4 + index * 2 = of_nat ?w" by (simp add: of_nat_div4 mult.commute)
  show "asset_get img (img 8 div 4 + index * 2) = return_fw (event_tick img (unat index))"
    unfolding addr event_tick_def using w by (intro asset_get_inside) simp
  have addr1: "img 8 div 4 + index * 2 + 1 = of_nat (Suc ?w)" unfolding addr by simp
  show "asset_get img (img 8 div 4 + index * 2 + 1) = return_fw (img (img 8 div 4 + index * 2 + 1))"
    unfolding addr1 using w by (rule asset_get_inside)
  have "event_ok img (unat index)" using assms(1) i by (simp add: bam2_valid_def)
  then show "event_tick img (unat index) < img 3"
    "index \<noteq> 0 \<Longrightarrow> event_tick img (unat index - 1) < event_tick img (unat index)"
    by (auto simp: event_ok_def unat_eq_zero)
qed

lemma runs_play_events:
  assumes "bam2_valid img"
  shows "events_upto img index previous \<Longrightarrow>
    runs {0xba0a, 0xba17} (play_events A H img (header_info img) elapsed fr index previous hz0)
      (\<lambda>(index', previous', hz'). events_upto img index' previous')"
proof (induction "unat (img 7) - unat index" arbitrary: index previous hz0 rule: less_induct)
  case less
  show ?case
  proof (cases "index < img 7")
    case False
    with less.prems show ?thesis by (subst play_events.simps) (auto intro: runs_return)
  next
    case True
    let ?t = "event_tick img (unat index)"
    note facts = event_facts [OF assms True]
    have order: "\<not> (img 3 \<le> ?t \<or> index \<noteq> 0 \<and> ?t \<le> previous)"
      using facts(3,4) less.prems by (auto simp: events_upto_def)
    have after: "events_upto img (index + 1) ?t"
      using True by (auto simp: events_upto_def unat_Suc_less inc_le)
    have IH: "runs {0xba0a, 0xba17} (play_events A H img (header_info img) elapsed fr (index + 1) ?t hz)
        (\<lambda>(index', previous', hz'). events_upto img index' previous')" for hz
      by (rule less.hyps) (use count_up [OF True] after in auto)
    let ?v = "img (img 8 div 4 + index * 2 + 1)"
    define rest where "rest = (\<lambda>hz. bind_fw
        (if hz \<noteq> hz0 then then_fw (send_or_fail A ''xQueueSend'' [audio_queue H, hz, 0] 0xba0a ''audio queue full'')
          (return_fw hz) else return_fw hz0)
        (play_events A H img (header_info img) elapsed fr (index + 1) ?t))"
    have rest: "runs {0xba0a, 0xba17} (rest hz) (\<lambda>(index', previous', hz'). events_upto img index' previous')" for hz
      unfolding rest_def
      by (rule runs_bind [where R = "\<lambda>_. True"]) (auto intro!: IH runs_then runs_send runs_return)
    have "play_events A H img (header_info img) elapsed fr index previous hz0 =
        (if elapsed < ?t then return_fw (index, previous, hz0)
         else if 5000 < ?v AND NOT AUDIO_BEAT_FLAG
         then runtime_fail 0xba17 ''audio frequency'' elapsed fr (img 8 div 4 + index * 2 + 1) (?v AND NOT AUDIO_BEAT_FLAG)
         else then_fw (if ?v AND AUDIO_BEAT_FLAG \<noteq> 0 then kernel_call ''xTaskNotifyGive'' [led_handle H] else return_fw ())
           (rest (?v AND NOT AUDIO_BEAT_FLAG)))"
      using True order by (subst play_events.simps) (simp only: header_info_simps Let_def facts(1,2) return_bind_fw
        rest_def if_True if_False)
    then show ?thesis
      using less.prems by (auto intro!: rest runs_return runs_runtime_fail runs_then run_intros)
  qed
qed

definition playing :: "image \<Rightarrow> playback \<Rightarrow> bool" where
  "playing img p \<longleftrightarrow>
     (\<exists>i \<le> unat (img 4). frame p = of_nat i \<and> video_cursor p = of_nat (frame_pos img i)) \<and>
     events_upto img (audio_index p) (previous_audio_tick p)"

lemma playing_updates [simp]:
  "playing img (p\<lparr>start := s\<rparr>) = playing img p"
  "playing img (p\<lparr>next_progress_second := n\<rparr>) = playing img p"
  by (simp_all add: playing_def)

lemma runs_elapsed: "runs C (elapsed_vga_ticks s) (\<lambda>_. True)"
  unfolding elapsed_vga_ticks_def by (rule runs_bind [OF runs_devices(7)]) (rule runs_return, simp)

lemma runs_media [run_intros]: "runs C media_state (\<lambda>_. True)" "runs C (media_state_update a b) (\<lambda>_. True)"
  unfolding media_state_def media_state_update_def
  by (auto intro!: runs_seq runs_bind [OF runs_shared(1)] run_intros simp del: seq_fw.simps)

lemma runs_watermark [run_intros]: "runs C (put_watermark h) (\<lambda>_. True)"
  unfolding put_watermark_def by (rule runs_bind [OF runs_extern]) (rule runs_dec)

lemma runs_progress [run_intros]: "runs C (print_progress n) (\<lambda>_. True)"
  "runs C (print_stack_watermarks H) (\<lambda>_. True)"
  unfolding print_progress_def print_stack_watermarks_def
  by (auto intro!: runs_then run_intros runs_return simp del: uart_puts.simps)

lemma runs_wait: "runs C (wait_until_resumed A) (\<lambda>_. True)"
  unfolding wait_until_resumed_def
  by (rule runs_loop [where J = "\<lambda>_. True"])
    (auto intro!: runs_bind [OF runs_media(1)] runs_then run_intros runs_return)

lemma runs_pause:
  "playing img p \<Longrightarrow> runs {0xba10, 0xba11} (pause_if_asked A H e p) (\<lambda>(e', p'). playing img p')"
  unfolding pause_if_asked_def Let_def
  by (rule runs_bind [OF runs_media(1)])
    (auto intro!: runs_return runs_bind [OF runs_elapsed] runs_then runs_send runs_wait
      runs_bind [OF runs_devices(7)])

lemma runs_mono_codes: "runs C f Q \<Longrightarrow> C \<subseteq> D \<Longrightarrow> runs D f Q"
  unfolding safely_in_def stopped_with_def by (fastforce split: option.splits outcome.splits)

lemma runs_report: "playing img p \<Longrightarrow> runs C (report_progress H e p) (playing img)"
  unfolding report_progress_def by (auto intro!: runs_then runs_progress runs_return)

definition playback_codes :: "u32 set" where
  "playback_codes = {0xba0a, 0xba10, 0xba11, 0xba17}"

lemma runs_playback_body:
  assumes "bam2_valid img" "playing img p"
  shows "runs playback_codes (playback_body A H img (header_info img) p) (case_sum (playing img) (playing img))"
proof -
  have draw: "runs playback_codes (draw_frames img (header_info img) e (of_nat i) (of_nat (frame_pos img i)))
      (\<lambda>(fr, cursor). \<exists>j \<le> unat (img 4). fr = of_nat j \<and> cursor = of_nat (frame_pos img j))"
    if "i \<le> unat (img 4)" for e i
  proof (rule runs_does, rule does_mono [OF draw_frames_does [OF assms(1) that]])
    fix r :: "u32 \<times> u32" and es
    assume "let j = max i (due_frames img e) in r = (of_nat j, of_nat (frame_pos img j)) \<and>
      es = concat (map (\<lambda>k. frame_writes img (frame_pos img k)) [i..<j])"
    moreover have "max i (due_frames img e) \<le> unat (img 4)" using that by (simp add: due_frames_def)
    ultimately show "case r of (fr, cursor) \<Rightarrow> \<exists>j \<le> unat (img 4). fr = of_nat j \<and> cursor = of_nat (frame_pos img j)"
      by (auto simp: Let_def intro!: exI [of _ "max i (due_frames img e)"])
  qed
  have pause: "runs playback_codes (pause_if_asked A H e p) (\<lambda>(e', p'). playing img p')" for e
    using runs_pause [OF assms(2)] by (rule runs_mono_codes) (simp add: playback_codes_def)
  have events: "runs playback_codes (play_events A H img (header_info img) e fr index previous hz)
      (\<lambda>(index', previous', hz'). events_upto img index' previous')"
    if "events_upto img index previous" for e fr index previous hz
    using runs_play_events [OF assms(1) that] by (rule runs_mono_codes) (simp add: playback_codes_def)
  have body: "runs playback_codes
      (then_fw (shared_write ''playback_elapsed_ticks'' elapsed)
         (bind_fw (draw_frames img (header_info img) elapsed (frame p1) (video_cursor p1)) (\<lambda>(fr, cursor).
         bind_fw (play_events A H img (header_info img) elapsed fr (audio_index p1) (previous_audio_tick p1) (current_hz p1))
           (\<lambda>(index, previous, hz).
         bind_fw (report_progress H elapsed
             (p1\<lparr>frame := fr, video_cursor := cursor, audio_index := index,
                 previous_audio_tick := previous, current_hz := hz\<rparr>)) (\<lambda>p2.
         then_fw (kernel_call ''vTaskDelay'' [1]) (return_fw (Inl p2)))))))
      (case_sum (playing img) (playing img))" if p1: "playing img p1" for elapsed p1
  proof -
    from p1 obtain i where i: "i \<le> unat (img 4)" "frame p1 = of_nat i" "video_cursor p1 = of_nat (frame_pos img i)"
      and ev: "events_upto img (audio_index p1) (previous_audio_tick p1)"
      by (auto simp: playing_def)
    show ?thesis
      unfolding i(2,3)
      by (intro runs_then [OF runs_shared(2)] runs_bind [OF draw [OF i(1)]])
        (auto intro!: runs_bind [OF events [OF ev]] runs_bind [OF runs_report]
          runs_then [OF runs_kernel_call] runs_return simp: playing_def)
  qed
  show ?thesis
    unfolding playback_body_def
    by (rule runs_bind [OF runs_elapsed])
      (auto intro!: runs_return assms(2) body runs_bind [OF runs_elapsed] runs_bind [OF pause])
qed

definition task_codes :: "u32 set" where
  "task_codes = {0xba01..0xba08} \<union> playback_codes \<union> {0xba0b, 0xba0c}"

lemma runs_fails_in: "fails_in C f \<Longrightarrow> runs C f Q"
  unfolding fails_in_def by (auto intro: runs_fail)

lemma runs_validate: "runs task_codes (validate_asset img) (\<lambda>info. bam2_valid img \<and> info = header_info img)"
proof (cases "bam2_valid img")
  case True
  with validate_asset_spec [of img] show ?thesis by (simp add: runs_return)
next
  case False
  with validate_asset_spec [of img] have "fails_in task_codes (validate_asset img)"
    by (auto simp: task_codes_def elim!: fails_in_mono)
  then show ?thesis by (rule runs_fails_in)
qed

lemma runs_play_once:
  assumes "bam2_valid img"
  shows "runs task_codes (play_once A H img (header_info img) d0) (\<lambda>_. True)"
proof -
  have fresh: "playing img (playback_begin (header_info img) s)" for s
    using header_sizes(3) [of img] assms
    by (auto simp: playing_def playback_begin_def bam2_valid_def events_upto_def intro!: exI [of _ 0])
  have codes: "playback_codes \<subseteq> task_codes" by (auto simp: task_codes_def)
  have loop: "runs task_codes (loop_fw (playback_body A H img (header_info img)) (playback_begin (header_info img) s))
      (playing img)" for s
    by (rule runs_mono_codes [OF runs_loop [where J = "playing img", OF fresh runs_playback_body [OF assms]] codes])
  have finish: "runs task_codes (seq_fw [uart_puts x, uart_flush, gpio_write_led 5, media_state_update a 0,
      g, kernel_call f ys]) (\<lambda>_. True)" if "runs task_codes g (\<lambda>_. True)" for x a f ys g
    using that by (intro runs_seq) (auto intro: run_intros)
  have member: "0xba0b \<in> task_codes" "0xba0c \<in> task_codes" by (simp_all add: task_codes_def)
  show ?thesis
    unfolding play_once_def
    by (rule runs_bind [OF runs_devices(7)], intro runs_then [OF runs_media(2)] runs_then [OF runs_shared(2)]
        runs_bind [OF loop])
      (auto intro!: runs_fail member runs_then [OF runs_send] runs_then [OF finish] runs_return runs_write
        simp del: seq_fw.simps uart_puts.simps split del: if_split split: if_splits)
qed

lemma runs_playback_task: "runs task_codes (playback_task A H img) Q"
  unfolding playback_task_def
proof (rule runs_bind [OF runs_validate])
  fix info
  assume info: "bam2_valid img \<and> info = header_info img"
  have ready: "runs task_codes (loop_fw (\<lambda>_. bind_fw vga_is_ready (\<lambda>r.
         if r = 0 then then_fw (kernel_call ''taskYIELD'' []) (return_fw (Inl ())) else return_fw (Inr ()))) ()) (\<lambda>_. True)"
    by (rule runs_loop [where J = "\<lambda>_. True"])
      (auto intro!: runs_bind [OF runs_devices(6)] runs_then run_intros runs_return)
  show "runs task_codes (then_fw (loop_fw (\<lambda>_. bind_fw vga_is_ready (\<lambda>r.
         if r = 0 then then_fw (kernel_call ''taskYIELD'' []) (return_fw (Inl ())) else return_fw (Inr ()))) ())
       (then_fw (uart_puts (bytes ''bad apple full start'' @ [10]))
         (forever (play_once A H img info) False))) Q"
    using info by (intro runs_then [OF ready] runs_then [OF runs_puts] runs_forever [where J = "\<lambda>_. True"])
      (auto intro: runs_play_once)
qed

section \<open>What the board does\<close>

lemma does_any_kernel_call: "does hw (kernel_call f xs) (\<lambda>_ _. True)"
  unfolding kernel_call_def by (rule does_then [OF does_extern [where Q = "\<lambda>_ _. True"]]) (auto intro: does_return)

lemma fail_stops: "\<exists>m'. fail code message (soc_hw cfg s0) m = Some (Stop m') \<and> stopped_with {code} m'"
  unfolding fail_def buzzer_stop_def gpio_write_led_def
  by (rule exit_stops, rule does_any_seq)
    (auto simp del: uart_puts.simps intro: does_any_kernel_call does_any_emits emits_write
      soc_uart.emits_puts soc_uart.emits_flush)

lemma runtime_fail_stops:
  "\<exists>m'. runtime_fail code message e f w v (soc_hw cfg s0) m = Some (Stop m') \<and> stopped_with {code} m'"
  unfolding runtime_fail_def buzzer_stop_def gpio_write_led_def
  by (rule exit_stops, rule does_any_seq)
    (auto simp del: uart_puts.simps append_Cons intro: does_any_kernel_call does_any_emits emits_write
      soc_uart.emits_puts soc_uart.emits_put_hex soc_uart.emits_put_dec soc_uart.emits_flush)

section \<open>Properties\<close>



text \<open>A file with one full frame and one event, a tone of 6000 Hz at time 0.\<close>

definition loud_file :: image where
  "loud_file i = (if i < 12 then [0x324d4142, 2, 828, 1, 1, 48, 6, 1, 820, 96, 0, 0] ! unat i
     else if i = 12 then 96 else if i = 206 then 6000 else 0)"

lemma loud_file_words [simp]:
  "loud_file 0 = 0x324d4142" "loud_file 1 = 2" "loud_file 2 = 828" "loud_file 3 = 1" "loud_file 4 = 1"
  "loud_file 5 = 48" "loud_file 6 = 6" "loud_file 7 = 1" "loud_file 8 = 820" "loud_file 9 = 96"
  "loud_file 10 = 0" "loud_file 11 = 0" "loud_file 12 = 96" "loud_file 205 = 0" "loud_file 206 = 6000"
  by (simp_all add: loud_file_def)

lemma loud_file_valid: "bam2_valid loud_file"
proof -
  have words: "loud_file (of_nat (Suc 12 + 2 * j)) = 0" if "j < 96" for j
  proof -
    define w :: u32 where "w = of_nat (Suc 12 + 2 * j)"
    have w: "unat w = Suc 12 + 2 * j" unfolding w_def using that by (intro unat_of_nat_small) simp
    have "unat w \<noteq> 206" unfolding w by presburger
    then have "w \<noteq> 206" "w \<noteq> 12" "\<not> w < 12" using w by (auto simp: word_less_nat_alt)
    then show ?thesis unfolding w_def [symmetric] by (simp add: loud_file_def)
  qed
  have "bam2_header loud_file" by (simp add: bam2_header_def)
  moreover have "good_frame loud_file 205 True 12"
    using words unfolding good_frame_def frame_end_def by (simp del: of_nat_Suc of_nat_add of_nat_mult)
  moreover have "frame_pos loud_file 1 = 205" by (simp add: frame_pos_def frame_end_def)
  ultimately show ?thesis
    by (simp add: bam2_valid_def event_ok_def event_tick_def)
qed

text \<open>C32: Validity says nothing about the tones: a file that the player accepts makes it stop with
  \<open>0xba17\<close> when the event is due.\<close>

theorem valid_file_stops_playback:
  "validate_asset loud_file hw m = Some (Ret (header_info loud_file) m) \<and>
   (\<exists>m'. play_events A H loud_file (header_info loud_file) 0 1 0 0 0 (soc_hw cfg s0) m = Some (Stop m') \<and>
      stopped_with {0xba17} m')"
proof
  show "validate_asset loud_file hw m = Some (Ret (header_info loud_file) m)"
    using validate_asset_spec [of loud_file] loud_file_valid by (simp add: return_fw_def)
  have "(6000 :: u32) AND NOT AUDIO_BEAT_FLAG = 6000" by (simp add: AUDIO_BEAT_FLAG_def)
  moreover have "asset_get loud_file 205 = return_fw 0" "asset_get loud_file 206 = return_fw 6000"
    using asset_get_inside [of 205 loud_file] asset_get_inside [of 206 loud_file] by simp_all
  ultimately have "play_events A H loud_file (header_info loud_file) 0 1 0 0 0 =
      runtime_fail 0xba17 ''audio frequency'' 0 1 206 6000"
    by (subst play_events.simps) (simp add: Let_def)
  then show "\<exists>m'. play_events A H loud_file (header_info loud_file) 0 1 0 0 0 (soc_hw cfg s0) m = Some (Stop m') \<and>
      stopped_with {0xba17} m'"
    using runtime_fail_stops by simp
qed

text \<open>Drawing catches up with time: from a frame boundary of a valid stream, all frames due
  and not yet shown are drawn, in order, by exactly the stores their pairs describe, and the
  player stands on the boundary of the first frame that is not due.\<close>

lemma draw_frames_catches_up:
  assumes "bam2_valid img" "i \<le> unat (img 4)"
  shows "does hw (draw_frames img (header_info img) elapsed (of_nat i) (of_nat (frame_pos img i)))
    (\<lambda>r es. let j = max i (min (unat (img 4)) (unat elapsed div 6 + 1))
       in r = (of_nat j, of_nat (frame_pos img j)) \<and>
          es = concat (map (\<lambda>k. frame_writes img (frame_pos img k)) [i..<j]))"
  using draw_frames_does [OF assms] unfolding due_frames_def .

theorem draw_frames_catches_up_witness:
  "does (\<lambda>_ _. 0) (draw_frames loud_file (header_info loud_file) 0 0 12)
     (\<lambda>r es. r = (1, 205) \<and> length es = 96)"
proof -
  have "frame_pos loud_file (Suc 0) = 205" by (simp add: frame_pos_def frame_end_def)
  then show ?thesis
    using draw_frames_catches_up [OF loud_file_valid, of 0 "\<lambda>_ _. 0" 0] loud_file_valid
    by (auto simp: frame_writes_def elim!: does_mono)
qed

end
