(* ===== verification/Sdram_Memtest.thy ===== *)
theory Sdram_Memtest
  imports Testlib
begin

text \<open>
  The memory test \<open>firmware/apps/baremetal/sdram_memtest.c\<close>, and what a pass of it means: the
  second part is a memory with an arbitrary address decoder, on which the test passes exactly
  if the decoder keeps the addresses of each of its phases apart.
\<close>

section \<open>The test\<close>

definition SDRAM_WORD :: "u32 \<Rightarrow> u32" where
  "SDRAM_WORD index = TINYBUS_SDRAM_BASE + index * 4"

definition k_patterns :: "u32 list" where
  "k_patterns = [0x00000000, 0xFFFFFFFF, 0xA5A5A5A5, 0x5A5A5A5A, 0x12345678, 0xDEADBEEF]"

definition k_scatter_index :: "u32 list" where
  "k_scatter_index = [0, 1, 7, 255, 256, 512, 1023, 1024, 17408, 4194303, 8388607]"

definition SEQ_WORDS :: nat where "SEQ_WORDS = 64"

definition expect_word :: "u32 \<Rightarrow> u32 \<Rightarrow> u32 \<Rightarrow> unit fw" where
  "expect_word index v code = bind_fw (mmio_read (SDRAM_WORD index)) (\<lambda>r. test_expect (r = v) code)"

definition pattern_phase :: "unit fw" where
  "pattern_phase = for_fw [0..<length k_patterns] (\<lambda>p.
     then_fw (mmio_write (SDRAM_WORD 0) (k_patterns ! p))
       (expect_word 0 (k_patterns ! p) (0xdead0000 + of_nat p)))"

definition scatter_phase :: "unit fw" where
  "scatter_phase =
     then_fw
       (for_fw [0..<length k_scatter_index] (\<lambda>i.
          mmio_write (SDRAM_WORD (k_scatter_index ! i)) (0xC0DE0000 + k_scatter_index ! i)))
       (for_fw [0..<length k_scatter_index] (\<lambda>i.
          expect_word (k_scatter_index ! i) (0xC0DE0000 + k_scatter_index ! i) (0xdead1000 + of_nat i)))"

definition seq_value :: "u32 \<Rightarrow> u32" where
  "seq_value i = (i * 0x01010101) XOR 0x0F0F0F0F"

definition sequence_phase :: "unit fw" where
  "sequence_phase =
     then_fw
       (for_fw [0..<SEQ_WORDS] (\<lambda>i. mmio_write (SDRAM_WORD (of_nat i)) (seq_value (of_nat i))))
       (for_fw [0..<SEQ_WORDS] (\<lambda>i.
          expect_word (of_nat i) (seq_value (of_nat i)) (0xdead2000 + of_nat i)))"

definition sdram_memtest_main :: "'b fw" where
  "sdram_memtest_main =
     then_fw (seq_fw [test_banner ''sdram_memtest'', pattern_phase, scatter_phase, sequence_phase,
         uart_puts (bytes ''sdram_memtest: all patterns verified'' @ [10]), uart_flush])
       test_pass"

section \<open>A memory with an address decoder\<close>

text \<open>A cell keeps the last value stored at any address that decodes to the same location;
  the UART is always ready.\<close>

fun stored :: "(u32 \<Rightarrow> u32) \<Rightarrow> u32 \<Rightarrow> access list \<Rightarrow> u32" where
  "stored d a [] = 0"
| "stored d a (Wr b v # tr) =
     (if TINYBUS_SDRAM_BASE \<le> b \<and> d b = d a then v else stored d a tr)"
| "stored d a (_ # tr) = stored d a tr"

fun sdram_hw :: "(u32 \<Rightarrow> u32) \<Rightarrow> hw" where
  "sdram_hw d tr (Reg a) =
     (if TINYBUS_SDRAM_BASE \<le> a then stored d a tr
      else if a = TINYBUS_UART_STATUS then UART_STATUS_TX_READY else 0)"
| "sdram_hw d tr (Ext f xs) = 0"

lemma sdram_hw_ready: "sdram_hw d tr (Reg TINYBUS_UART_STATUS) = 1"
  by (simp add: addr_defs)

interpretation sdram_uart: uart_tx "sdram_hw d" for d
proof
  fix tr
  show "\<exists>n. sdram_hw d (poll_trace (sdram_hw d) TINYBUS_UART_STATUS n tr) (Reg TINYBUS_UART_STATUS)
      AND UART_STATUS_TX_READY \<noteq> 0"
    unfolding sdram_hw_ready by (simp add: UART_STATUS_TX_READY_def)
qed

text \<open>Storing a list of values, oldest first.\<close>

definition stores :: "(u32 \<times> u32) list \<Rightarrow> access list \<Rightarrow> access list" where
  "stores ws tr = rev (map (\<lambda>(a, v). Wr a v) ws) @ tr"

lemma stores_run:
  "for_fw is (\<lambda>i. mmio_write (addr i) (val i)) hw m =
     Some (Ret () (m\<lparr>trace := stores (map (\<lambda>i. (addr i, val i)) is) (trace m)\<rparr>))"
proof (induction "is" arbitrary: m)
  case Nil
  then show ?case by (simp add: stores_def return_fw_def)
next
  case (Cons i "is")
  then show ?case by (simp add: then_fw_def bind_fw_def mmio_write_def stores_def)
qed

text \<open>The last store wins.\<close>

lemma stored_stores:
  assumes "\<forall>(b, v) \<in> set ws. TINYBUS_SDRAM_BASE \<le> b" "i < length ws" "fst (ws ! i) = a"
  shows "stored d a (stores ws tr) =
    snd (ws ! (GREATEST j. j < length ws \<and> d (fst (ws ! j)) = d a))"
  using assms
proof (induction ws rule: rev_induct)
  case (snoc w ws)
  obtain b v where w: "w = (b, v)" by (cases w)
  show ?case
  proof (cases "d b = d a")
    case True
    have "(GREATEST j. j < length (ws @ [w]) \<and> d (fst ((ws @ [w]) ! j)) = d a) = length ws"
      using True by (intro Greatest_equality) (auto simp: w nth_append)
    moreover have "TINYBUS_SDRAM_BASE \<le> b" using snoc.prems(1) by (auto simp: w)
    ultimately show ?thesis using True by (simp add: stores_def w)
  next
    case False
    then have i: "i < length ws" using snoc.prems(2,3) by (auto simp: w nth_append less_Suc_eq split: if_splits)
    have "(j < length (ws @ [w]) \<and> d (fst ((ws @ [w]) ! j)) = d a) \<longleftrightarrow> (j < length ws \<and> d (fst (ws ! j)) = d a)" for j
      using False by (auto simp: w nth_append less_Suc_eq)
    moreover have "(GREATEST j. j < length ws \<and> d (fst (ws ! j)) = d a) < length ws"
      using snoc.prems(3) i by (intro GreatestI_nat [of "\<lambda>j. j < length ws \<and> d (fst (ws ! j)) = d a" i "length ws", THEN conjunct1])
        (auto simp: nth_append)
    ultimately show ?thesis
      using False snoc i by (simp add: stores_def w nth_append)
  qed
qed simp

lemma expect_run:
  "\<exists>m'. if stored d (SDRAM_WORD x) (trace m) = v
     then expect_word x v code (sdram_hw d) m = Some (Ret () m') \<and>
       trace m' = Rd (SDRAM_WORD x) v # trace m
     else expect_word x v code (sdram_hw d) m = Some (Stop m') \<and> stopped_with {code} m'"
  if "TINYBUS_SDRAM_BASE \<le> SDRAM_WORD x"
proof -
  let ?m = "m\<lparr>trace := Rd (SDRAM_WORD x) (stored d (SDRAM_WORD x) (trace m)) # trace m\<rparr>"
  have "expect_word x v code (sdram_hw d) m = test_expect (stored d (SDRAM_WORD x) (trace m) = v) code (sdram_hw d) ?m"
    using that by (simp add: expect_word_def bind_fw_def mmio_read_def Let_def)
  then show ?thesis
    using sdram_uart.test_fail_stops [of code d ?m]
    by (cases "stored d (SDRAM_WORD x) (trace m) = v") (auto simp: test_expect_def return_fw_def)
qed

lemma reads_run:
  assumes "\<forall>i \<in> set is. TINYBUS_SDRAM_BASE \<le> SDRAM_WORD (x i)"
  shows "\<exists>m'. if \<forall>i \<in> set is. stored d (SDRAM_WORD (x i)) (trace m) = v i
     then for_fw is (\<lambda>i. expect_word (x i) (v i) (code i)) (sdram_hw d) m = Some (Ret () m')
     else for_fw is (\<lambda>i. expect_word (x i) (v i) (code i)) (sdram_hw d) m = Some (Stop m') \<and>
       stopped_with (code ` set is) m'"
  using assms
proof (induction "is" arbitrary: m)
  case Nil
  then show ?case by (simp add: return_fw_def)
next
  case (Cons i "is")
  from Cons.prems have x: "TINYBUS_SDRAM_BASE \<le> SDRAM_WORD (x i)" by simp
  show ?case
  proof (cases "stored d (SDRAM_WORD (x i)) (trace m) = v i")
    case True
    with expect_run [OF x, of d m "v i" "code i"] obtain m1 where
        1: "expect_word (x i) (v i) (code i) (sdram_hw d) m = Some (Ret () m1)"
          "trace m1 = Rd (SDRAM_WORD (x i)) (v i) # trace m" by auto
    then have same: "stored d a (trace m1) = stored d a (trace m)" for a by simp
    have run: "for_fw (i # is) (\<lambda>i. expect_word (x i) (v i) (code i)) (sdram_hw d) m =
        for_fw is (\<lambda>i. expect_word (x i) (v i) (code i)) (sdram_hw d) m1"
      by (simp add: then_fw_def bind_fw_def 1(1))
    from Cons.IH [of m1] Cons.prems obtain m' where
        "if \<forall>i \<in> set is. stored d (SDRAM_WORD (x i)) (trace m1) = v i
         then for_fw is (\<lambda>i. expect_word (x i) (v i) (code i)) (sdram_hw d) m1 = Some (Ret () m')
         else for_fw is (\<lambda>i. expect_word (x i) (v i) (code i)) (sdram_hw d) m1 = Some (Stop m') \<and>
           stopped_with (code ` set is) m'" by auto
    with True show ?thesis
      unfolding run same by (intro exI [of _ m']) (auto simp: stopped_with_def split: if_splits)
  next
    case False
    with expect_run [OF x, of d m "v i" "code i"] obtain m1 where
        "expect_word (x i) (v i) (code i) (sdram_hw d) m = Some (Stop m1)" "stopped_with {code i} m1" by auto
    with False show ?thesis
      by (intro exI [of _ m1]) (auto simp: then_fw_def bind_fw_def stopped_with_def)
  qed
qed

text \<open>A phase that first stores distinct values at all its addresses and then reads them back
  passes exactly if the decoder keeps the addresses apart.\<close>

lemma phase_run:
  assumes "\<forall>i < n. TINYBUS_SDRAM_BASE \<le> SDRAM_WORD (x i)" "inj_on v {..<n}"
  shows "\<exists>m'. if inj_on (\<lambda>i. d (SDRAM_WORD (x i))) {..<n}
     then then_fw (for_fw [0..<n] (\<lambda>i. mmio_write (SDRAM_WORD (x i)) (v i)))
         (for_fw [0..<n] (\<lambda>i. expect_word (x i) (v i) (code i))) (sdram_hw d) m = Some (Ret () m')
     else then_fw (for_fw [0..<n] (\<lambda>i. mmio_write (SDRAM_WORD (x i)) (v i)))
         (for_fw [0..<n] (\<lambda>i. expect_word (x i) (v i) (code i))) (sdram_hw d) m = Some (Stop m') \<and>
       stopped_with (code ` {..<n}) m'"
proof -
  let ?ws = "map (\<lambda>i. (SDRAM_WORD (x i), v i)) [0..<n]"
  let ?m = "m\<lparr>trace := stores ?ws (trace m)\<rparr>"
  let ?P = "\<lambda>i j. j < n \<and> d (SDRAM_WORD (x j)) = d (SDRAM_WORD (x i))"
  define last where "last = (\<lambda>i. GREATEST j. ?P i j)"
  have stored: "stored d (SDRAM_WORD (x i)) (trace ?m) = v (last i)" "?P i (last i)" "i \<le> last i" if "i < n" for i
  proof -
    have Q: "?P i i" using that by simp
    show last: "?P i (last i)" unfolding last_def using Q by (rule GreatestI_nat [where b = n]) simp
    show "i \<le> last i" unfolding last_def using Q by (rule Greatest_le_nat [where b = n]) simp
    have "(j < length ?ws \<and> d (fst (?ws ! j)) = d (SDRAM_WORD (x i))) = ?P i j" for j by auto
    then have "stored d (SDRAM_WORD (x i)) (stores ?ws (trace m)) = snd (?ws ! last i)"
      using stored_stores [of ?ws i "SDRAM_WORD (x i)" d "trace m"] assms(1) that by (simp add: last_def)
    then show "stored d (SDRAM_WORD (x i)) (trace ?m) = v (last i)" using last by simp
  qed
  have "(\<forall>i \<in> set [0..<n]. stored d (SDRAM_WORD (x i)) (trace ?m) = v i) \<longleftrightarrow> (\<forall>i < n. last i = i)"
    using stored assms(2) by (auto simp: inj_on_def)
  also have "\<dots> \<longleftrightarrow> inj_on (\<lambda>i. d (SDRAM_WORD (x i))) {..<n}"
  proof
    assume *: "\<forall>i < n. last i = i"
    have "i = j" if "i < n" "j < n" "d (SDRAM_WORD (x i)) = d (SDRAM_WORD (x j))" for i j
    proof -
      have "last i = last j" unfolding last_def using that(3) by simp
      with * that show ?thesis by simp
    qed
    then show "inj_on (\<lambda>i. d (SDRAM_WORD (x i))) {..<n}" by (auto simp: inj_on_def)
  next
    assume "inj_on (\<lambda>i. d (SDRAM_WORD (x i))) {..<n}"
    then show "\<forall>i < n. last i = i" using stored(2) by (auto simp: inj_on_def)
  qed
  finally have keep: "(\<forall>i \<in> set [0..<n]. stored d (SDRAM_WORD (x i)) (trace ?m) = v i) \<longleftrightarrow>
      inj_on (\<lambda>i. d (SDRAM_WORD (x i))) {..<n}" .
  have run: "then_fw (for_fw [0..<n] (\<lambda>i. mmio_write (SDRAM_WORD (x i)) (v i)))
         (for_fw [0..<n] (\<lambda>i. expect_word (x i) (v i) (code i))) (sdram_hw d) m =
      for_fw [0..<n] (\<lambda>i. expect_word (x i) (v i) (code i)) (sdram_hw d) ?m"
    by (simp add: then_fw_def bind_fw_def stores_run)
  have set: "set [0..<n] = {..<n}" by auto
  have "\<forall>i \<in> set [0..<n]. TINYBUS_SDRAM_BASE \<le> SDRAM_WORD (x i)" using assms(1) by simp
  from reads_run [OF this, of d ?m v code] show ?thesis
    unfolding run keep unfolding set .
qed

section \<open>What a pass means\<close>

lemma pattern_phase_run: "\<exists>m'. pattern_phase (sdram_hw d) m = Some (Ret () m')"
proof -
  have base: "TINYBUS_SDRAM_BASE \<le> SDRAM_WORD 0" by (simp add: SDRAM_WORD_def)
  have step: "\<exists>m'. then_fw (mmio_write (SDRAM_WORD 0) v) (expect_word 0 v c) (sdram_hw d) m = Some (Ret () m')" for v c m
  proof -
    let ?m = "m\<lparr>trace := Wr (SDRAM_WORD 0) v # trace m\<rparr>"
    have "stored d (SDRAM_WORD 0) (trace ?m) = v" using base by simp
    with expect_run [OF base, of d ?m v c] show ?thesis
      by (auto simp: then_fw_def bind_fw_def mmio_write_def)
  qed
  have "\<exists>m'. for_fw is (\<lambda>p. then_fw (mmio_write (SDRAM_WORD 0) (f p)) (expect_word 0 (f p) (g p))) (sdram_hw d) m = Some (Ret () m')"
    for "is" f g m
  proof (induction "is" arbitrary: m)
    case (Cons i "is")
    obtain m1 where "then_fw (mmio_write (SDRAM_WORD 0) (f i)) (expect_word 0 (f i) (g i)) (sdram_hw d) m = Some (Ret () m1)"
      using step by blast
    with Cons.IH [of m1] show ?case by (simp add: then_fw_apply bind_fw_Ret)
  qed (simp add: return_fw_def)
  then show ?thesis unfolding pattern_phase_def .
qed

lemma scatter_values: "inj_on (\<lambda>i. 0xC0DE0000 + k_scatter_index ! i) {..<length k_scatter_index}"
proof -
  have "distinct k_scatter_index" by (simp add: k_scatter_index_def)
  then show ?thesis by (auto simp: inj_on_def nth_eq_iff_index_eq)
qed

lemma seq_values: "inj_on (\<lambda>i. seq_value (of_nat i)) {..<SEQ_WORDS}"
proof (rule inj_onI)
  fix i j assume ij: "i \<in> {..<SEQ_WORDS}" "j \<in> {..<SEQ_WORDS}" and eq: "seq_value (of_nat i) = seq_value (of_nat j)"
  have "(of_nat i :: u32) * 0x01010101 = of_nat j * 0x01010101"
    using arg_cong [OF eq, of "\<lambda>w. w XOR 0x0F0F0F0F"] by (simp add: seq_value_def xor.assoc)
  moreover have "unat ((of_nat k :: u32) * 0x01010101) = k * 0x01010101" if "k < 64" for k
    using that by (simp add: unat_word_ariths unat_of_nat_small)
  moreover have "i < 64" "j < 64" using ij by (simp_all add: SEQ_WORDS_def)
  ultimately have "i * 0x01010101 = j * 0x01010101" by metis
  then show "i = j" by simp
qed

lemma scatter_bases: "\<forall>i < length k_scatter_index. TINYBUS_SDRAM_BASE \<le> SDRAM_WORD (k_scatter_index ! i)"
proof -
  have "list_all (\<lambda>x. TINYBUS_SDRAM_BASE \<le> SDRAM_WORD x) k_scatter_index"
    by (simp add: k_scatter_index_def SDRAM_WORD_def TINYBUS_SDRAM_BASE_def)
  then show ?thesis by (simp add: list_all_length)
qed

lemma seq_bases: "\<forall>i < SEQ_WORDS. TINYBUS_SDRAM_BASE \<le> SDRAM_WORD (of_nat i)"
proof (intro allI impI)
  fix i assume "i < SEQ_WORDS"
  then have "unat (SDRAM_WORD (of_nat i)) = 0x80000000 + i * 4"
    by (simp add: SEQ_WORDS_def SDRAM_WORD_def TINYBUS_SDRAM_BASE_def unat_word_ariths unat_of_nat_small)
  then show "TINYBUS_SDRAM_BASE \<le> SDRAM_WORD (of_nat i)"
    by (simp add: word_le_nat_alt TINYBUS_SDRAM_BASE_def)
qed

text \<open>The decoder keeps the addresses of a list of words apart.\<close>

definition separates :: "(u32 \<Rightarrow> u32) \<Rightarrow> u32 list \<Rightarrow> bool" where
  "separates d xs = distinct (map (\<lambda>x. d (SDRAM_WORD x)) xs)"

lemma separates_inj:
  "separates d xs \<longleftrightarrow> inj_on (\<lambda>i. d (SDRAM_WORD (xs ! i))) {..<length xs}"
  unfolding separates_def distinct_conv_nth inj_on_def by auto

lemma stopped_with_codes:
  fixes code :: "nat \<Rightarrow> u32"
  assumes "stopped_with (code ` {..<n}) m" "\<And>i. i < n \<Longrightarrow> code i \<noteq> 1"
  shows "\<not> stopped_with {1} m"
  using assms by (auto simp: stopped_with_def)

lemma phase_codes:
  "k < 64 \<Longrightarrow> 0xdead1000 + of_nat k \<noteq> (1 :: u32)" "k < 64 \<Longrightarrow> 0xdead2000 + of_nat k \<noteq> (1 :: u32)"
  by (auto simp: word_unat_eq_iff unat_word_ariths unat_of_nat_small)

lemma scatter_decides:
  "\<exists>m'. if separates d k_scatter_index then scatter_phase (sdram_hw d) m = Some (Ret () m')
    else scatter_phase (sdram_hw d) m = Some (Stop m') \<and> \<not> stopped_with {1} m'"
proof -
  have "length k_scatter_index = 11" by (simp add: k_scatter_index_def)
  then have "\<not> stopped_with {1} m'"
    if "stopped_with ((\<lambda>i. 0xdead1000 + of_nat i) ` {..<length k_scatter_index}) m'" for m'
    using stopped_with_codes [OF that] phase_codes(1) by simp
  moreover note phase_run [OF scatter_bases scatter_values, where d = d and m = m and code = "\<lambda>i. 0xdead1000 + of_nat i"]
  ultimately show ?thesis unfolding scatter_phase_def separates_inj by (auto split: if_splits)
qed

lemma sequence_decides:
  "\<exists>m'. if separates d (map of_nat [0..<SEQ_WORDS]) then sequence_phase (sdram_hw d) m = Some (Ret () m')
    else sequence_phase (sdram_hw d) m = Some (Stop m') \<and> \<not> stopped_with {1} m'"
proof -
  have seq: "separates d (map of_nat [0..<SEQ_WORDS]) \<longleftrightarrow> inj_on (\<lambda>i. d (SDRAM_WORD (of_nat i))) {..<SEQ_WORDS}"
    by (auto simp: separates_inj inj_on_def)
  have "\<not> stopped_with {1} m'" if "stopped_with ((\<lambda>i. 0xdead2000 + of_nat i) ` {..<SEQ_WORDS}) m'" for m'
    using stopped_with_codes [OF that] phase_codes(2) by (simp add: SEQ_WORDS_def)
  moreover note phase_run [OF seq_bases seq_values, where d = d and m = m and code = "\<lambda>i. 0xdead2000 + of_nat i"]
  ultimately show ?thesis unfolding sequence_phase_def seq by (auto split: if_splits)
qed

lemma memtest_detects:
  "\<exists>m' :: machine. sdram_memtest_main (sdram_hw d) m = (Some (Stop m') :: unit outcome option) \<and>
     (stopped_with {1} m' \<longleftrightarrow>
        separates d k_scatter_index \<and> separates d (map of_nat [0..<SEQ_WORDS]))"
proof -
  let ?seq = "separates d (map of_nat [0..<SEQ_WORDS])"
  obtain m0 where 0: "test_banner ''sdram_memtest'' (sdram_hw d) m = Some (Ret () m0)"
    using sdram_uart.test_banner_emits [of d "''sdram_memtest''"] by (rule emits_run [where m = m])
  obtain m1 where 1: "pattern_phase (sdram_hw d) m0 = Some (Ret () m1)" using pattern_phase_run by blast
  obtain m2 where 2: "if separates d k_scatter_index then scatter_phase (sdram_hw d) m1 = Some (Ret () m2)
      else scatter_phase (sdram_hw d) m1 = Some (Stop m2) \<and> \<not> stopped_with {1} m2"
    using scatter_decides by blast
  obtain m3 where 3: "if ?seq then sequence_phase (sdram_hw d) m2 = Some (Ret () m3)
      else sequence_phase (sdram_hw d) m2 = Some (Stop m3) \<and> \<not> stopped_with {1} m3"
    using sequence_decides by blast
  obtain m4 where 4: "uart_puts (bytes ''sdram_memtest: all patterns verified'' @ [10]) (sdram_hw d) m3 = Some (Ret () m4)"
    using sdram_uart.emits_puts by (rule emits_run [where m = m3])
  obtain m5 where 5: "uart_flush (sdram_hw d) m4 = Some (Ret () m5)"
    using sdram_uart.emits_flush by (rule emits_run [where m = m4])
  obtain m6 where 6: "test_pass (sdram_hw d) m5 = (Some (Stop m6) :: unit outcome option)" "stopped_with {1} m6"
    using sdram_uart.test_pass_stops by blast
  note run = sdram_memtest_main_def then_fw_def bind_fw_def 0 1 4 5 6(1) return_fw_def
  show ?thesis using 2 3 6(2) by (cases "separates d k_scatter_index"; cases ?seq) (simp_all add: run)
qed

text \<open>A word-address line \<open>k\<close> of the memory that is stuck at 0.\<close>

definition stuck_line :: "nat \<Rightarrow> u32 \<Rightarrow> u32" where
  "stuck_line k a = a AND NOT (push_bit (k + 2) 1)"

lemma stuck_scatter:
  "filter (\<lambda>k. separates (stuck_line k) k_scatter_index) [6..<23] =
    [6, 7, 11, 12, 13, 15, 16, 17, 18, 19, 20, 21]"
  by code_simp

lemma stuck_low:
  "list_all (\<lambda>k. stuck_line k (SDRAM_WORD (of_nat (2 ^ k))) = stuck_line k (SDRAM_WORD (of_nat 0))) [0..<6]"
  by code_simp

lemma unat_seq_address: "i < 64 \<Longrightarrow> unat (SDRAM_WORD (of_nat i)) = 2 ^ 31 + i * 4"
  by (simp add: SDRAM_WORD_def TINYBUS_SDRAM_BASE_def unat_word_ariths unat_of_nat_small)

lemma stuck_high:
  assumes "6 \<le> k" "k < 23" "i < 64"
  shows "stuck_line k (SDRAM_WORD (of_nat i)) = SDRAM_WORD (of_nat i)"
proof -
  define w where "w = SDRAM_WORD (of_nat i)"
  have p: "(2::nat) ^ 31 = 2 ^ (29 - k) * 2 ^ (k + 2)" using assms(2) by (simp flip: power_add)
  have "(2::nat) ^ 8 \<le> 2 ^ (k + 2)" using assms(1) by (intro power_increasing) simp_all
  then have small: "i * 4 < 2 ^ (k + 2)" using assms(3) by simp
  have "unat w div 2 ^ (k + 2) = 2 ^ (29 - k)"
    unfolding w_def unat_seq_address [OF assms(3)] p using small by simp
  moreover have "even (2 ^ (29 - k) :: nat)" using assms(2) by simp
  ultimately have "\<not> bit (unat w) (k + 2)" by (simp add: bit_iff_odd)
  then have "\<not> bit w (k + 2)" by (simp add: bit_unsigned_iff)
  then have clear: "bit w j \<Longrightarrow> j \<noteq> k + 2" for j by auto
  have mask: "bit (push_bit (k + 2) 1 :: u32) j \<Longrightarrow> j = k + 2" for j
    by (simp only: bit_push_bit_iff bit_1_iff) simp
  show ?thesis
    unfolding w_def [symmetric] stuck_line_def
    by (rule bit_word_eqI) (use mask clear in \<open>auto simp: bit_and_iff bit_not_iff simp del: push_bit_of_1\<close>)
qed

lemma stuck_seq:
  assumes "k < 23"
  shows "separates (stuck_line k) (map of_nat [0..<SEQ_WORDS]) \<longleftrightarrow> 6 \<le> k"
proof (cases "6 \<le> k")
  case True
  have "i = j" if "i < 64" "j < 64" "SDRAM_WORD (of_nat i) = SDRAM_WORD (of_nat j)" for i j
    using arg_cong [OF that(3), of unat] unat_seq_address that(1,2) by simp
  with True assms show ?thesis
    by (simp add: separates_inj SEQ_WORDS_def inj_on_def stuck_high)
next
  case False
  then have k: "k < 6" by simp
  with stuck_low have "stuck_line k (SDRAM_WORD (of_nat (2 ^ k))) = stuck_line k (SDRAM_WORD (of_nat 0))"
    by (simp add: list_all_iff)
  moreover have "(2::nat) ^ k < 2 ^ 6" using k by (intro power_strict_increasing) simp_all
  then have "2 ^ k \<in> {..<64::nat}" "0 \<in> {..<64::nat}" "(2::nat) ^ k \<noteq> 0" by simp_all
  ultimately have "\<not> inj_on (\<lambda>i. stuck_line k (SDRAM_WORD (of_nat i))) {..<64}"
    by (metis inj_onD)
  with False show ?thesis by (auto simp: separates_inj SEQ_WORDS_def inj_on_def)
qed

text \<open>C34: On a memory that keeps what is stored but may decode addresses wrongly, the memory test
  always ends, and it reports success exactly when the decoder keeps the eleven scattered
  addresses apart and keeps the first 64 words apart.\<close>

theorem memtest_detects_aliases:
  "\<exists>m' :: machine. sdram_memtest_main (sdram_hw d) m = (Some (Stop m') :: unit outcome option) \<and>
     (stopped_with {1} m' \<longleftrightarrow>
        separates d k_scatter_index \<and> separates d (map of_nat [0..<SEQ_WORDS]))"
  by (rule memtest_detects)

text \<open>Of the 23 word-address lines of the 32 MB, a line stuck at 0 makes the test fail for eleven
  (0 to 5, 8, 9, 10, 14 and 22); lines 6, 7, 11 to 13 and 15 to 21 can be stuck and the test still
  passes.\<close>

lemma memtest_line_coverage:
  "{k. k < 23 \<and> (\<exists>m'. sdram_memtest_main (sdram_hw (stuck_line k)) m = (Some (Stop m') :: unit outcome option) \<and>
      stopped_with {1} m')} =
    {6, 7, 11, 12, 13, 15, 16, 17, 18, 19, 20, 21}"
proof -
  have "(\<exists>m'. sdram_memtest_main (sdram_hw (stuck_line k)) m = (Some (Stop m') :: unit outcome option) \<and>
      stopped_with {1} m') \<longleftrightarrow> separates (stuck_line k) k_scatter_index \<and> 6 \<le> k" if "k < 23" for k
    using memtest_detects [of "stuck_line k" m] stuck_seq [OF that] by auto
  then have "{k. k < 23 \<and> (\<exists>m'. sdram_memtest_main (sdram_hw (stuck_line k)) m = (Some (Stop m') :: unit outcome option) \<and>
      stopped_with {1} m')} = {k. k < 23 \<and> separates (stuck_line k) k_scatter_index \<and> 6 \<le> k}"
    by (intro Collect_cong conj_cong refl) simp
  also have "\<dots> = set (filter (\<lambda>k. separates (stuck_line k) k_scatter_index) [6..<23])"
    unfolding set_filter set_upt by (auto simp del: One_nat_def)
  finally show ?thesis unfolding stuck_scatter by simp
qed

end
