(* ===== verification/Boot_Verify.thy ===== *)
theory Boot_Verify
  imports Testlib
begin

text \<open>
  The verifier of loaded images \<open>firmware/apps/baremetal/boot_image_verify.c\<close>: it reads the
  asset that the boot loader has put into the SDRAM and reports by an exit code whether every
  word is the one that the pattern generator makes. The asset is the sequence of words that the
  memory answers at the addresses from \<open>ASSET_BASE\<close> on; all other registers but the UART
  status may answer anything.
\<close>

section \<open>The program\<close>

definition BTV_ASSET_BASE :: u32 where "BTV_ASSET_BASE = 0x81000000"
definition BTV_ASSET_MAGIC :: u32 where "BTV_ASSET_MAGIC = 0x31565442"
definition BTV_ASSET_VERSION :: u32 where "BTV_ASSET_VERSION = 1"
definition HEADER_WORDS :: u32 where "HEADER_WORDS = 4"
definition MAX_DATA_WORDS :: u32 where "MAX_DATA_WORDS = 1024 * 1024 div 4"
definition PATTERN_MULTIPLIER :: u32 where "PATTERN_MULTIPLIER = 0x9e3779b9"

definition btv_asset :: "u32 \<Rightarrow> u32 fw" where
  "btv_asset i = mmio_read (BTV_ASSET_BASE + i * 4)"

definition pattern_word :: "u32 \<Rightarrow> u32 \<Rightarrow> u32" where
  "pattern_word index seed = seed XOR (index * PATTERN_MULTIPLIER)"

definition verify_fail :: "u32 \<Rightarrow> u32 \<Rightarrow> u32 \<Rightarrow> u32 \<Rightarrow> 'a fw" where
  "verify_fail code index expected actual =
     then_fw (seq_fw [uart_puts (bytes ''boot_image_verify: FAIL code=''), uart_put_hex code,
         uart_puts (bytes '' index=''), uart_put_dec index,
         uart_puts (bytes '' expected=''), uart_put_hex expected,
         uart_puts (bytes '' actual=''), uart_put_hex actual,
         uart_puts [10], uart_flush, gpio_write_led 0xf])
       (then_fw (mmio_write TINYBUS_TEST_EXIT code) hang_fw)"

definition verify_word :: "u32 \<Rightarrow> u32 \<Rightarrow> unit fw" where
  "verify_word seed index =
     (let expected = pattern_word index seed
      in bind_fw (btv_asset (HEADER_WORDS + index)) (\<lambda>actual.
           if actual \<noteq> expected then verify_fail 0xb1000010 index expected actual else return_fw ()))"

definition verify_report :: "u32 \<Rightarrow> u32 \<Rightarrow> u32 \<Rightarrow> unit fw" where
  "verify_report data_words seed start_cycles =
     seq_fw [uart_puts (bytes ''boot_image_verify: PASS bytes=''), uart_put_dec (data_words * 4),
       uart_puts (bytes '' seed=''), uart_put_hex seed, uart_puts (bytes '' verify_cycles=''),
       bind_fw test_read_cycle (\<lambda>now. uart_put_dec (now - start_cycles)), uart_puts [10], uart_flush]"

definition boot_image_verify_main :: "'b fw" where
  "boot_image_verify_main =
     then_fw (seq_fw [gpio_write_led 1,
         uart_puts (bytes ''boot_image_verify: checking SDRAM asset at 0x81000000'' @ [10])])
     (bind_fw (btv_asset 0) (\<lambda>magic.
      then_fw (if magic \<noteq> BTV_ASSET_MAGIC
               then bind_fw (btv_asset 0) (verify_fail 0xb1000001 0 BTV_ASSET_MAGIC) else return_fw ())
     (bind_fw (btv_asset 1) (\<lambda>version.
      then_fw (if version \<noteq> BTV_ASSET_VERSION
               then bind_fw (btv_asset 1) (verify_fail 0xb1000002 1 BTV_ASSET_VERSION) else return_fw ())
     (bind_fw (btv_asset 2) (\<lambda>data_words. bind_fw (btv_asset 3) (\<lambda>seed.
      then_fw (if data_words = 0 \<or> MAX_DATA_WORDS < data_words
               then verify_fail 0xb1000003 2 MAX_DATA_WORDS data_words else return_fw ())
     (then_fw (gpio_write_led 2) (bind_fw test_read_cycle (\<lambda>start_cycles.
      then_fw (for_fw [0..<unat data_words] (\<lambda>i. verify_word seed (of_nat i)))
     (then_fw (verify_report data_words seed start_cycles) test_pass)))))))))))"

section \<open>The memory with an image\<close>

type_synonym asset_image = "u32 \<Rightarrow> u32"

fun asset_hw :: "(access list \<Rightarrow> query \<Rightarrow> u32) \<Rightarrow> asset_image \<Rightarrow> hw" where
  "asset_hw other img tr (Reg a) =
     (if BTV_ASSET_BASE \<le> a then img ((a - BTV_ASSET_BASE) div 4)
      else if a = TINYBUS_UART_STATUS then UART_STATUS_TX_READY else other tr (Reg a))"
| "asset_hw other img tr q = other tr q"

lemma asset_hw_ready: "asset_hw other img tr (Reg TINYBUS_UART_STATUS) = 1"
  by (simp add: addr_defs BTV_ASSET_BASE_def)

interpretation asset_uart: uart_tx "asset_hw other img" for other img
proof
  fix tr
  show "\<exists>n. asset_hw other img (poll_trace (asset_hw other img) TINYBUS_UART_STATUS n tr)
      (Reg TINYBUS_UART_STATUS) AND UART_STATUS_TX_READY \<noteq> 0"
    unfolding asset_hw_ready by (simp add: UART_STATUS_TX_READY_def)
qed

lemma asset_address:
  assumes "i < 0x400000"
  shows "BTV_ASSET_BASE \<le> BTV_ASSET_BASE + i * 4" "i * 4 div 4 = i"
proof -
  have i: "unat i < 0x400000" using assms by (simp add: word_less_nat_alt)
  then have four: "unat (i * 4) = unat i * 4" by (simp add: unat_word_ariths)
  with i have "unat (BTV_ASSET_BASE + i * 4) = 0x81000000 + unat i * 4"
    by (simp add: unat_word_ariths BTV_ASSET_BASE_def)
  then show "BTV_ASSET_BASE \<le> BTV_ASSET_BASE + i * 4"
    by (simp add: word_le_nat_alt BTV_ASSET_BASE_def)
  show "i * 4 div 4 = i"
    using four by (simp add: word_unat_eq_iff unat_div)
qed

lemma btv_asset_run:
  "i < 0x400000 \<Longrightarrow> \<exists>m'. btv_asset i (asset_hw other img) m = Some (Ret (img i) m')"
  by (simp add: btv_asset_def mmio_read_def Let_def asset_address)

section \<open>The verdict\<close>

definition word_ok :: "asset_image \<Rightarrow> u32 \<Rightarrow> bool" where
  "word_ok img i \<longleftrightarrow> img (HEADER_WORDS + i) = pattern_word i (img 3)"

text \<open>The exit code that a sound verifier gives to an image.\<close>

definition verdict :: "asset_image \<Rightarrow> u32" where
  "verdict img =
     (if img 0 \<noteq> BTV_ASSET_MAGIC then 0xb1000001
      else if img 1 \<noteq> BTV_ASSET_VERSION then 0xb1000002
      else if img 2 = 0 \<or> MAX_DATA_WORDS < img 2 then 0xb1000003
      else if list_all (\<lambda>i. word_ok img (of_nat i)) [0..<unat (img 2)] then 1 else 0xb1000010)"

context uart_tx
begin

lemma verify_fail_stops:
  "\<exists>m'. verify_fail code index expected actual hw m = Some (Stop m') \<and> stopped_with {code} m'"
  unfolding verify_fail_def gpio_write_led_def
  by (rule exit_stops, rule does_any_seq)
    (auto simp del: uart_puts.simps
      intro: does_any_emits emits_write emits_puts emits_put_hex emits_put_dec emits_flush)

end

lemma verify_words_run:
  assumes "\<forall>i \<in> set is. i < 0x40000"
  shows "\<exists>m'. if list_all (\<lambda>i. word_ok img (of_nat i)) is
     then for_fw is (\<lambda>i. verify_word (img 3) (of_nat i)) (asset_hw other img) m = Some (Ret () m')
     else for_fw is (\<lambda>i. verify_word (img 3) (of_nat i)) (asset_hw other img) m = Some (Stop m') \<and>
       stopped_with {0xb1000010} m'"
  using assms
proof (induction "is" arbitrary: m)
  case Nil
  then show ?case by (simp add: return_fw_def)
next
  case (Cons i "is")
  have "unat (HEADER_WORDS + of_nat i) = 4 + i"
    using Cons.prems by (simp add: HEADER_WORDS_def unat_word_ariths unat_of_nat_small)
  then have "HEADER_WORDS + of_nat i < 0x400000"
    using Cons.prems by (simp add: word_less_nat_alt)
  from btv_asset_run [OF this, of other img m] obtain m1 where
      read: "btv_asset (HEADER_WORDS + of_nat i) (asset_hw other img) m = Some (Ret (img (HEADER_WORDS + of_nat i)) m1)"
    by blast
  show ?case
  proof (cases "word_ok img (of_nat i)")
    case True
    with read have "verify_word (img 3) (of_nat i) (asset_hw other img) m = Some (Ret () m1)"
      by (simp add: verify_word_def Let_def bind_fw_def word_ok_def return_fw_def)
    then have step: "for_fw (i # is) (\<lambda>i. verify_word (img 3) (of_nat i)) (asset_hw other img) m =
        for_fw is (\<lambda>i. verify_word (img 3) (of_nat i)) (asset_hw other img) m1"
      by (simp add: then_fw_def bind_fw_def)
    from True Cons.prems Cons.IH [where m = m1] show ?thesis unfolding step by simp
  next
    case False
    with read asset_uart.verify_fail_stops [where 'a = unit, of "0xb1000010" "of_nat i" "pattern_word (of_nat i) (img 3)"
        "img (HEADER_WORDS + of_nat i)" other img m1]
    have "\<exists>m'. verify_word (img 3) (of_nat i) (asset_hw other img) m = Some (Stop m') \<and> stopped_with {0xb1000010} m'"
      by (simp add: verify_word_def Let_def bind_fw_def word_ok_def)
    with False show ?thesis by (auto simp: then_fw_def bind_fw_def)
  qed
qed

lemma verify_report_does: "does (asset_hw other img) (verify_report n seed t) (\<lambda>_ _. True)"
proof -
  have now: "does (asset_hw other img) (bind_fw test_read_cycle (\<lambda>now. uart_put_dec (now - t))) (\<lambda>_ _. True)"
    unfolding test_read_cycle_def
    by (rule does_bind [OF does_read]) (auto intro: does_any_emits asset_uart.emits_put_dec)
  then show ?thesis
    unfolding verify_report_def
    by (intro does_any_seq) (auto simp del: uart_puts.simps
      intro: does_any_emits asset_uart.emits_puts asset_uart.emits_put_hex asset_uart.emits_put_dec asset_uart.emits_flush)
qed

lemma stop_after_read:
  assumes "i < 0x400000"
  shows "\<exists>m'. bind_fw (btv_asset i) (verify_fail c k e :: u32 \<Rightarrow> unit fw) (asset_hw other img) m = Some (Stop m') \<and> stopped_with {c} m'"
proof -
  obtain m1 where "btv_asset i (asset_hw other img) m = Some (Ret (img i) m1)"
    using btv_asset_run [OF assms] by blast
  with asset_uart.verify_fail_stops show ?thesis by (simp add: bind_fw_def)
qed

lemma words_decide:
  assumes "\<not> MAX_DATA_WORDS < img 2"
  shows "\<exists>m'. then_fw (for_fw [0..<unat (img 2)] (\<lambda>i. verify_word (img 3) (of_nat i)))
      (then_fw (verify_report (img 2) (img 3) t) test_pass) (asset_hw other img) m = (Some (Stop m') :: 'b outcome option) \<and>
    stopped_with {if list_all (\<lambda>i. word_ok img (of_nat i)) [0..<unat (img 2)] then 1 else 0xb1000010} m'"
proof -
  let ?ok = "list_all (\<lambda>i. word_ok img (of_nat i)) [0..<unat (img 2)]"
  let ?words = "for_fw [0..<unat (img 2)] (\<lambda>i. verify_word (img 3) (of_nat i)) (asset_hw other img) m"
  from assms have "\<forall>i \<in> set [0..<unat (img 2)]. i < 0x40000"
    by (auto simp: word_less_nat_alt MAX_DATA_WORDS_def not_less)
  from verify_words_run [OF this, of img other m] obtain m1 where
    1: "if ?ok then ?words = Some (Ret () m1) else ?words = Some (Stop m1) \<and> stopped_with {0xb1000010} m1" by blast
  obtain m2 where 2: "verify_report (img 2) (img 3) t (asset_hw other img) m1 = Some (Ret () m2)"
    using verify_report_does by (rule does_any_run [where m = m1]) simp
  show ?thesis
    using 1 asset_uart.test_pass_stops [where 'a = 'b, of other img m2]
    by (cases ?ok) (simp_all add: then_fw_apply bind_fw_Ret bind_fw_Stop 2)
qed

text \<open>C35: Whatever the image and the other devices, the verifier ends, and its exit code is the
  verdict on the image: the first deviation in the header, a wrong data word, or success exactly
  when magic, version and size are right and every data word is the generated one.\<close>

theorem boot_verify_decides:
  "\<exists>m' :: machine. boot_image_verify_main (asset_hw other img) m = (Some (Stop m') :: unit outcome option) \<and>
     stopped_with {verdict img} m'"
proof -
  let ?hw = "asset_hw other img"
  let ?hello = "seq_fw [gpio_write_led 1,
      uart_puts (bytes ''boot_image_verify: checking SDRAM asset at 0x81000000'' @ [10])]"
  have "does ?hw ?hello (\<lambda>_ _. True)"
    unfolding gpio_write_led_def
    by (rule does_any_seq) (auto simp del: uart_puts.simps intro: does_any_emits emits_write asset_uart.emits_puts)
  then obtain m0 where 0: "?hello ?hw m = Some (Ret () m0)" by (rule does_any_run [where m = m]) simp
  obtain m1 where 1: "btv_asset 0 ?hw m0 = Some (Ret (img 0) m1)" using btv_asset_run [of 0] by force
  obtain m2 where 2: "btv_asset 1 ?hw m1 = Some (Ret (img 1) m2)" using btv_asset_run [of 1] by force
  obtain m3 where 3: "btv_asset 2 ?hw m2 = Some (Ret (img 2) m3)" using btv_asset_run [of 2] by force
  obtain m4 where 4: "btv_asset 3 ?hw m3 = Some (Ret (img 3) m4)" using btv_asset_run [of 3] by force
  obtain t m5 where 5: "then_fw (gpio_write_led 2) test_read_cycle ?hw m4 = Some (Ret t m5)"
    by (simp add: then_fw_def bind_fw_def gpio_write_led_def mmio_write_def test_read_cycle_def mmio_read_def Let_def)
  then have 5: "gpio_write_led 2 ?hw m4 = Some (Ret () (m4\<lparr>trace := Wr TINYBUS_GPIO_LED 2 # trace m4\<rparr>))"
      "test_read_cycle ?hw (m4\<lparr>trace := Wr TINYBUS_GPIO_LED 2 # trace m4\<rparr>) = Some (Ret t m5)"
    by (auto simp: then_fw_def bind_fw_def gpio_write_led_def mmio_write_def)
  note run = boot_image_verify_main_def then_fw_apply bind_fw_Ret bind_fw_Stop 0 1 2 3 4
  consider "img 0 \<noteq> BTV_ASSET_MAGIC" | "img 0 = BTV_ASSET_MAGIC" "img 1 \<noteq> BTV_ASSET_VERSION"
    | "img 0 = BTV_ASSET_MAGIC" "img 1 = BTV_ASSET_VERSION" "img 2 = 0 \<or> MAX_DATA_WORDS < img 2"
    | "img 0 = BTV_ASSET_MAGIC" "img 1 = BTV_ASSET_VERSION" "\<not> (img 2 = 0 \<or> MAX_DATA_WORDS < img 2)" by blast
  then show ?thesis
  proof cases
    case 1
    with stop_after_read [of 0 "0xb1000001" 0 BTV_ASSET_MAGIC other img m1]
    show ?thesis by (auto simp: run verdict_def simp del: seq_fw.simps)
  next
    case *: 2
    with stop_after_read [of 1 "0xb1000002" 1 BTV_ASSET_VERSION other img m2]
    show ?thesis by (auto simp: run verdict_def simp del: seq_fw.simps)
  next
    case *: 3
    with asset_uart.verify_fail_stops [where 'a = unit, of "0xb1000003" 2 MAX_DATA_WORDS "img 2" other img m4]
    show ?thesis by (auto simp: run verdict_def simp del: seq_fw.simps)
  next
    case *: 4
    with words_decide [of img t other m5, where 'b = unit]
    show ?thesis by (auto simp: run 5 verdict_def simp del: seq_fw.simps)
  qed
qed

text \<open>The multiplier is odd, so the generated words of one image are pairwise different: a word of
  the right image at the wrong place is noticed.\<close>

lemma pattern_word_inj: "pattern_word i seed = pattern_word j seed \<longleftrightarrow> i = j"
proof
  assume eq: "pattern_word i seed = pattern_word j seed"
  have cancel: "seed XOR (seed XOR w) = w" for w :: u32
    by (simp flip: xor.assoc)
  have "i * PATTERN_MULTIPLIER = j * PATTERN_MULTIPLIER"
    using arg_cong [OF eq, of "\<lambda>w. seed XOR w"] by (simp add: pattern_word_def cancel)
  then have "i * PATTERN_MULTIPLIER * 0x144cbc89 = j * PATTERN_MULTIPLIER * 0x144cbc89" by simp
  moreover have "PATTERN_MULTIPLIER * 0x144cbc89 = 1" by (simp add: PATTERN_MULTIPLIER_def)
  then have "k * PATTERN_MULTIPLIER * 0x144cbc89 = k" for k by (simp only: mult.assoc mult_1_right)
  ultimately show "i = j" by simp
qed simp

lemma misplaced_word_rejected:
  assumes "img (HEADER_WORDS + i) = pattern_word j (img 3)" "i < img 2" "j \<noteq> i"
  shows "verdict img \<noteq> 1"
proof -
  have "\<not> word_ok img (of_nat (unat i))" using assms by (simp add: word_ok_def pattern_word_inj)
  moreover have "unat i \<in> set [0..<unat (img 2)]" using assms(2) by (simp add: word_less_nat_alt)
  ultimately have "\<not> list_all (\<lambda>i. word_ok img (of_nat i)) [0..<unat (img 2)]"
    unfolding list_all_iff by blast
  then show ?thesis by (simp add: verdict_def)
qed

end
