(* ===== verification/Bad_Apple_Minimal.thy ===== *)
theory Bad_Apple_Minimal
  imports Freertos_Task
begin

text \<open>
  The first player \<open>firmware/apps/baremetal/bad_apple_minimal.c\<close>: without an operating system it
  plays a BAM1 file of tile differences and notes from SDRAM over and over. The file is the
  image \<open>img\<close> of its 32-bit words; a read that is neither in the eight words of the header nor
  inside the size the header announces is a fault.
\<close>

section \<open>The program\<close>

definition BAM1_ASSET_MAGIC :: u32 where "BAM1_ASSET_MAGIC = 0x314d4142"
definition BAM1_ASSET_VERSION :: u32 where "BAM1_ASSET_VERSION = 1"
definition SOC_CLOCK_HZ :: u32 where "SOC_CLOCK_HZ = 50000000"
definition BAM1_MAX_ASSET_BYTES :: u32 where "BAM1_MAX_ASSET_BYTES = 1024 * 1024"

definition bam1_asset :: "(u32 \<Rightarrow> u32) \<Rightarrow> u32 \<Rightarrow> u32 fw" where
  "bam1_asset img i = of_option_fw (if i < 8 \<or> i < img 2 div 4 then Some (img i) else None)"

definition minimal_fail :: "string \<Rightarrow> 'a fw" where
  "minimal_fail message =
     then_fw (seq_fw [gpio_write_led 0xf, buzzer_stop, uart_puts (bytes ''bad apple: ''),
         uart_puts (bytes message), uart_puts [10], uart_flush]) hang_fw"

definition wait_frames :: "u32 \<Rightarrow> unit fw" where
  "wait_frames count =
     bind_fw vga_frame_count (\<lambda>start. loop_fw (\<lambda>_.
       bind_fw vga_frame_count (\<lambda>now.
         return_fw (if (now - start) AND 0xffff < count then Inl () else Inr ()))) ())"

text \<open>The bounds of the header: size, frame count, frame period and the two sections.\<close>

definition bam1_bounds_bad :: "(u32 \<Rightarrow> u32) \<Rightarrow> bool" where
  "bam1_bounds_bad img \<longleftrightarrow>
     (let total_bytes = img 2; frame_count = img 3; video_offset = img 4; frame_period = img 5;
          note_count = img 6; note_offset = img 7
      in total_bytes < 32 \<or> BAM1_MAX_ASSET_BYTES < total_bytes \<or>
         frame_count = 0 \<or> 1000 < frame_count \<or> frame_period = 0 \<or>
         video_offset AND 3 \<noteq> 0 \<or> note_offset AND 3 \<noteq> 0 \<or>
         video_offset < 32 \<or> note_offset \<le> video_offset \<or> total_bytes \<le> note_offset \<or>
         256 < note_count \<or> total_bytes < note_offset + note_count * 8)"

definition draw_tiles :: "(u32 \<Rightarrow> u32) \<Rightarrow> u32 \<Rightarrow> u32 \<Rightarrow> u32 fw" where
  "draw_tiles img change_count video_word0 =
     fold_fw [0..<unat change_count] (\<lambda>_ video_word.
       bind_fw (bam1_asset img video_word) (\<lambda>word_index.
       bind_fw (bam1_asset img (video_word + 1)) (\<lambda>v.
         if VGA_TILE_WORDS \<le> word_index then minimal_fail ''tile index invalid''
         else then_fw (vga_write_word word_index v) (return_fw (video_word + 2))))) video_word0"

function play_notes :: "(u32 \<Rightarrow> u32) \<Rightarrow> u32 \<Rightarrow> u32 \<Rightarrow> u32 fw" where
  "play_notes img fr next_note =
     (if next_note < img 6
      then bind_fw (bam1_asset img (img 7 div 4 + next_note * 2)) (\<lambda>note_frame.
        if note_frame = fr
        then bind_fw (bam1_asset img (img 7 div 4 + (next_note * 2 + 1))) (\<lambda>hz.
          then_fw (buzzer_start_hz SOC_CLOCK_HZ hz) (play_notes img fr (next_note + 1)))
        else return_fw next_note)
      else return_fw next_note)"
  by auto
termination
  by (relation "measure (\<lambda>(img, fr, next_note). unat (img 6) - unat next_note)") (use count_up in auto)

declare play_notes.simps [simp del]

definition minimal_frame :: "(u32 \<Rightarrow> u32) \<Rightarrow> u32 \<Rightarrow> u32 \<times> u32 \<Rightarrow> (u32 \<times> u32) fw" where
  "minimal_frame img fr s =
     (let video_end_word = img 7 div 4; (video_word, next_note) = s
      in if video_end_word \<le> video_word then minimal_fail ''video stream truncated''
         else bind_fw (bam1_asset img video_word) (\<lambda>change_count.
           if VGA_TILE_WORDS < change_count \<or> (video_end_word - (video_word + 1)) div 2 < change_count
           then minimal_fail ''frame diff invalid''
           else bind_fw (draw_tiles img change_count (video_word + 1)) (\<lambda>video_word'.
             bind_fw (play_notes img fr next_note) (\<lambda>next_note'.
             then_fw (seq_fw [gpio_write_led ((fr AND 0xf) OR 1),
                 if fr AND 7 = 0 then uart_putc 0x2e else return_fw (), wait_frames (img 5)])
               (return_fw (video_word', next_note'))))))"

definition minimal_replay :: "(u32 \<Rightarrow> u32) \<Rightarrow> unit fw" where
  "minimal_replay img =
     bind_fw (fold_fw [0..<unat (img 3)] (\<lambda>k. minimal_frame img (of_nat k)) (img 4 div 4, 0)) (\<lambda>(video_word, _).
       if video_word \<noteq> img 7 div 4 then minimal_fail ''video stream trailing words''
       else seq_fw [buzzer_stop, uart_puts (bytes '' loop'' @ [10])])"

definition bad_apple_minimal_main :: "(u32 \<Rightarrow> u32) \<Rightarrow> 'b fw" where
  "bad_apple_minimal_main img =
     then_fw (seq_fw [gpio_write_led 1,
         uart_puts (bytes ''bad apple: image loaded, checking asset...'' @ [10]),
         if img 0 \<noteq> BAM1_ASSET_MAGIC \<or> img 1 \<noteq> BAM1_ASSET_VERSION
         then minimal_fail ''asset header mismatch'' else return_fw (),
         if bam1_bounds_bad img then minimal_fail ''asset bounds invalid'' else return_fw (),
         then_fw (poll_until TINYBUS_VGA_STATUS (\<lambda>v. drop_bit 1 v AND 1 \<noteq> 0)) (return_fw ()),
         uart_puts (bytes ''bad apple: playback start'' @ [10]), mmio_write TINYBUS_TEST_EXIT 1])
       (forever (\<lambda>_. minimal_replay img) ())"

section \<open>Every read is inside the file\<close>

lemma safely_minimal_fail: "safely (\<lambda>_. True) (minimal_fail message) Q"
proof -
  have hang: "safely (\<lambda>_. True) hang_fw Q" by (simp add: safely_in_def hang_fw_def)
  show ?thesis
    unfolding minimal_fail_def
    by (rule runs_then [OF runs_seq hang]) (auto simp del: uart_puts.simps intro: run_intros)
qed

text \<open>What the accepted headers have in common, as natural numbers.\<close>

lemma bam1_header:
  assumes "\<not> bam1_bounds_bad img"
  shows "unat (img 7 div 4) + 2 * unat (img 6) \<le> unat (img 2 div 4)"
    and "unat (img 2 div 4) \<le> 0x40000" and "unat (img 4 div 4) < unat (img 7 div 4)"
    and "unat (img 6) \<le> 256" and "8 \<le> unat (img 4 div 4)"
proof -
  have low: "x AND 3 = 0 \<Longrightarrow> unat x mod 4 = 0" for x :: u32
    using unat_mod4 [of x] by simp
  have T: "unat (img 2) \<le> 0x100000" and C: "unat (img 6) \<le> 256" and N: "unat (img 7) < unat (img 2)"
    and V: "unat (img 4) < unat (img 7)" "32 \<le> unat (img 4)" "unat (img 4) mod 4 = 0" "unat (img 7) mod 4 = 0"
    using assms low
    by (auto simp: bam1_bounds_bad_def BAM1_MAX_ASSET_BYTES_def Let_def not_less not_le word_le_nat_alt word_less_nat_alt)
  have "unat (img 7 + img 6 * 8) = unat (img 7) + unat (img 6) * 8"
    using T C N by (simp add: unat_word_ariths)
  moreover have "img 7 + img 6 * 8 \<le> img 2"
    using assms by (simp add: bam1_bounds_bad_def Let_def not_less)
  ultimately have "unat (img 7) + unat (img 6) * 8 \<le> unat (img 2)" by (simp add: word_le_nat_alt)
  then have "(unat (img 7) + unat (img 6) * 8) div 4 \<le> unat (img 2) div 4" by (rule div_le_mono)
  then show "unat (img 7 div 4) + 2 * unat (img 6) \<le> unat (img 2 div 4)" by (simp add: unat_div)
  show "unat (img 2 div 4) \<le> 0x40000" using T by (simp add: unat_div)
  show "unat (img 4 div 4) < unat (img 7 div 4)" "8 \<le> unat (img 4 div 4)" using V unfolding unat_div by simp_all presburger
  show "unat (img 6) \<le> 256" by (rule C)
qed

lemma safely_asset: "i < 8 \<or> unat i < unat (img 2 div 4) \<Longrightarrow> safely P (bam1_asset img i) (\<lambda>v. v = img i)"
  unfolding bam1_asset_def by (rule runs_of_option [where a = "img i"]) (auto simp: word_less_nat_alt)

lemma safely_draw_tiles:
  assumes bound: "unat video_word + 2 * unat n \<le> unat (img 2 div 4)"
  shows "safely (\<lambda>_. True) (draw_tiles img n video_word) (\<lambda>w. unat w = unat video_word + 2 * unat n)"
proof -
  define body where "body = (\<lambda>(_ :: nat) video_word.
       bind_fw (bam1_asset img video_word) (\<lambda>word_index.
       bind_fw (bam1_asset img (video_word + 1)) (\<lambda>v.
         if VGA_TILE_WORDS \<le> word_index then minimal_fail ''tile index invalid''
         else then_fw (vga_write_word word_index v) (return_fw (video_word + 2)))))"
  have "unat video_word + 2 * n \<le> unat (img 2 div 4) \<Longrightarrow>
      safely (\<lambda>_. True) (fold_fw [0..<n] body video_word) (\<lambda>w. unat w = unat video_word + 2 * n)" for n
  proof (induction n)
    case 0
    then show ?case by (simp add: runs_return)
  next
    case (Suc n)
    have size: "unat (img 2 div 4) < 2 ^ 30"
      using unsigned_less [of "img 2", where 'a = nat] by (simp add: unat_div)
    show ?case
      unfolding fold_fw_snoc
    proof (rule runs_bind)
      show "safely (\<lambda>_. True) (fold_fw [0..<n] body video_word) (\<lambda>w. unat w = unat video_word + 2 * n)"
        using Suc by simp
    next
      fix w :: u32
      assume w: "unat w = unat video_word + 2 * n"
      then have w1: "unat (w + 1) = unat w + 1" and w2: "unat (w + 2) = unat w + 2"
        using Suc.prems size by (simp_all add: unat_word_ariths)
      have store: "safely (\<lambda>_. True) (vga_write_word i v) (\<lambda>_. True)" for i v
        unfolding vga_write_word_def by (auto intro: run_intros runs_return)
      show "safely (\<lambda>_. True) (body n w) (\<lambda>w. unat w = unat video_word + 2 * Suc n)"
        unfolding body_def using Suc.prems w w1 w2
        by (intro runs_bind [OF safely_asset] runs_then store) (auto intro!: safely_minimal_fail runs_then store runs_return)
    qed
  qed
  with bound show ?thesis unfolding draw_tiles_def body_def by simp
qed

lemma safely_play_notes:
  assumes "\<not> bam1_bounds_bad img" "next_note \<le> img 6"
  shows "safely (\<lambda>_. True) (play_notes img fr next_note) (\<lambda>n. n \<le> img 6)"
  using assms
proof (induction img fr next_note rule: play_notes.induct [case_names step])
  case (step img fr k)
  show ?case
  proof (cases "k < img 6")
    case True
    note H = bam1_header [OF step.prems(1)]
    have k: "unat k < unat (img 6)" using True by (simp add: word_less_nat_alt)
    define nts where "nts = img 7 div 4"
    have small: "unat nts \<le> 0x40000" "unat k \<le> 256" using bam1_header(1,2,4) [OF step.prems(1), folded nts_def] k by simp_all
    have "unat (nts + k * 2) = unat nts + unat k * 2" "unat (nts + (k * 2 + 1)) = unat nts + (unat k * 2 + 1)"
      using small by (simp_all add: unat_word_ariths)
    then have words: "unat (img 7 div 4 + k * 2) = unat (img 7 div 4) + unat k * 2"
        "unat (img 7 div 4 + (k * 2 + 1)) = unat (img 7 div 4) + (unat k * 2 + 1)"
      unfolding nts_def .
    have r1: "safely (\<lambda>_. True) (bam1_asset img (img 7 div 4 + k * 2)) (\<lambda>v. v = img (img 7 div 4 + k * 2))"
      using words(1) bam1_header(1) [OF step.prems(1)] k by (intro safely_asset) linarith
    have r2: "safely (\<lambda>_. True) (bam1_asset img (img 7 div 4 + (k * 2 + 1))) (\<lambda>v. True)"
      by (rule runs_mono [OF safely_asset]) (use words(2) bam1_header(1) [OF step.prems(1)] k in auto)
    have "safely (\<lambda>_. True) (play_notes img fr (k + 1)) (\<lambda>n. n \<le> img 6)"
      if "img (img 7 div 4 + k * 2) = fr" for hz
      using step.IH True that step.prems inc_le [of k "img 6"] by (auto intro: inc_le)
    then show ?thesis
      by (subst play_notes.simps)
        (use True in \<open>auto intro!: runs_bind [OF r1] runs_bind [OF r2] runs_then runs_devices runs_return\<close>)
  next
    case False
    with step.prems show ?thesis by (simp add: play_notes.simps runs_return)
  qed
qed

lemma safely_wait_frames [run_intros]: "safely P (wait_frames count) (\<lambda>_. True)"
  unfolding wait_frames_def
  by (rule runs_bind [OF runs_devices(7)], rule runs_loop [where J = "\<lambda>_. True"])
    (auto intro!: runs_bind [OF runs_devices(7)] runs_return)

definition minimal_inv :: "(u32 \<Rightarrow> u32) \<Rightarrow> u32 \<times> u32 \<Rightarrow> bool" where
  "minimal_inv img s \<longleftrightarrow> unat (fst s) \<le> unat (img 7 div 4) \<and> snd s \<le> img 6"

lemma safely_minimal_frame:
  assumes ok: "\<not> bam1_bounds_bad img" and J: "minimal_inv img s"
  shows "safely (\<lambda>_. True) (minimal_frame img fr s) (minimal_inv img)"
proof -
  note H = bam1_header [OF ok]
  obtain w k where s: "s = (w, k)" by (cases s)
  with J have w: "unat w \<le> unat (img 7 div 4)" and k: "k \<le> img 6" by (simp_all add: minimal_inv_def)
  show ?thesis
  proof (cases "img 7 div 4 \<le> w")
    case True
    then show ?thesis by (simp add: minimal_frame_def s safely_minimal_fail)
  next
    case False
    then have less: "unat w < unat (img 7 div 4)" by (simp add: word_less_nat_alt not_le)
    with H have w1: "unat (w + 1) = unat w + 1" by (simp add: unat_word_ariths)
    have room: "unat (w + 1) + 2 * unat n \<le> unat (img 7 div 4)"
      if "\<not> (img 7 div 4 - (w + 1)) div 2 < n" for n
    proof -
      have "unat ((img 7 div 4 - (w + 1)) div 2) = (unat (img 7 div 4) - (unat w + 1)) div 2"
        using less w1 by (simp add: unat_div unat_sub word_le_nat_alt)
      with that less w1 show ?thesis by (simp add: word_less_nat_alt not_less)
    qed
    have draw: "safely (\<lambda>_. True) (draw_tiles img n (w + 1)) (\<lambda>v. unat v \<le> unat (img 7 div 4))"
      if "\<not> (img 7 div 4 - (w + 1)) div 2 < n" for n
      by (rule runs_mono [OF safely_draw_tiles]) (use room [OF that] H(1) in auto)
    have out: "safely (\<lambda>_. True) (seq_fw [gpio_write_led a, uart_putc 0x2e, wait_frames p]) (\<lambda>_. True)"
        "safely (\<lambda>_. True) (seq_fw [gpio_write_led a, return_fw (), wait_frames p]) (\<lambda>_. True)" for a p
      by (rule runs_seq; auto intro: run_intros runs_return)+
    have r: "safely (\<lambda>_. True) (bam1_asset img w) (\<lambda>_. True)"
      by (rule runs_mono [OF safely_asset]) (use less H(1) in auto)
    show ?thesis
      using False unfolding minimal_frame_def s
      by (auto simp: Let_def minimal_inv_def simp del: seq_fw.simps
        intro!: runs_bind [OF r] safely_minimal_fail runs_bind [OF draw] runs_bind [OF safely_play_notes [OF ok k]]
          runs_then out runs_return)
  qed
qed

lemma safely_minimal_replay:
  assumes ok: "\<not> bam1_bounds_bad img"
  shows "safely (\<lambda>_. True) (minimal_replay img) (\<lambda>_. True)"
proof -
  have start: "minimal_inv img (img 4 div 4, 0)" using bam1_header(3) [OF ok] by (simp add: minimal_inv_def)
  have finished: "safely (\<lambda>_. True) (seq_fw [buzzer_stop, uart_puts (bytes '' loop'' @ [10])]) (\<lambda>_. True)"
    by (rule runs_seq) (auto simp del: uart_puts.simps intro: run_intros)
  show ?thesis
    unfolding minimal_replay_def
    by (rule runs_bind [OF runs_fold [where J = "minimal_inv img", OF start safely_minimal_frame [OF ok]]])
      (auto simp del: seq_fw.simps intro!: safely_minimal_fail finished)
qed

text \<open>Whatever file lies in the SDRAM and whatever the devices answer, the player reads only
  the header and words inside the size that the header announces; it never returns, and it ends
  only in one of its failures.\<close>

lemma minimal_player_safe: "safely (\<lambda>_. True) (bad_apple_minimal_main img) (\<lambda>_. False)"
proof -
  have poll: "safely (\<lambda>_. True) (then_fw (poll_until a ok) (return_fw ())) (\<lambda>_. True)" for a ok
    by (rule runs_then [OF runs_poll runs_return]) simp
  have checks: "safely (\<lambda>_. True) (if c then minimal_fail message else return_fw ()) (\<lambda>_. \<not> c)" for c message
    by (simp add: safely_minimal_fail runs_return)
  have play: "safely (\<lambda>_. True) (forever (\<lambda>_. minimal_replay img) ()) (\<lambda>_. False)" if "\<not> bam1_bounds_bad img"
    using safely_minimal_replay [OF that] by (intro runs_forever [where J = "\<lambda>_. True"]) simp_all
  have puts: "safely (\<lambda>_. True) (uart_puts str) (\<lambda>_. True)" for str by (rule run_intros)
  show ?thesis
    unfolding bad_apple_minimal_main_def seq_fw.simps then_fw_def bind_assoc_fw return_bind_fw
    by (rule runs_bind [OF runs_devices(1)] runs_bind [OF puts] runs_bind [OF checks] runs_bind [OF runs_poll]
        runs_bind [OF runs_write] play | assumption)+
qed

text \<open>A frame period above 65535 passes the checks of the header, but the frame counter has only
  16 bits: the wait for the first frame never ends.\<close>

lemma wait_frames_never_ends:
  assumes "0xffff < count"
  shows "wait_frames count hw m = None"
proof -
  have "x AND 0xffff < count" for x :: u32
    using word_and_le1 [of x "0xffff"] assms by (rule order.strict_trans1)
  then have "safely (\<lambda>_. False) (wait_frames count) (\<lambda>_. False)"
    unfolding wait_frames_def
    by (intro runs_bind [OF runs_devices(7)] runs_loop [where J = "\<lambda>_. True"] TrueI)
      (simp add: runs_return)
  then show ?thesis
    unfolding safely_in_def
    by (cases "wait_frames count hw m"; cases "the (wait_frames count hw m)")
      (auto dest!: spec [of _ hw] spec [of _ m])
qed

end
