(* ===== verification/Freertos_Acceptance.thy ===== *)
theory Freertos_Acceptance
  imports Testlib Rtos_Port
begin

text \<open>
  The acceptance test \<open>firmware/apps/freertos/freertos_acceptance.c\<close> of the FreeRTOS port: a heap
  test before the scheduler starts, a coordinator task that creates thirteen workers and checks
  what they do, and a watchdog. The two workers that share an array under critical sections are
  in the theory \<open>Yield_Workers\<close>.
\<close>

section \<open>Constants and objects\<close>

definition WORKER_STACK_WORDS :: u32 where "WORKER_STACK_WORDS = 128"
definition STATIC_WORKER_COUNT :: u32 where "STATIC_WORKER_COUNT = 13"
definition WAIT_TICKS :: u32 where "WAIT_TICKS = 100"
definition QUEUE_LENGTH :: u32 where "QUEUE_LENGTH = 4"

record acceptance_api = freertos_api +
  pdFAIL :: u32
  pdFALSE :: u32
  eSetBits :: u32
  sizeof_StaticTask :: u32

text \<open>The handles that \<open>main\<close> stores in static variables before the scheduler starts.\<close>

record acceptance_objects =
  acceptance_queue :: u32
  acceptance_semaphore :: u32
  acceptance_mutex :: u32
  acceptance_events :: u32
  one_shot_timer :: u32
  periodic_timer :: u32
  coordinator_handle :: u32

definition stage :: "string \<Rightarrow> unit fw" where
  "stage name = seq_fw [uart_puts (bytes ''  ''), uart_puts (bytes name), uart_puts [10]]"

definition get_tick :: "u32 fw" where "get_tick = extern_fw ''xTaskGetTickCount'' []"

definition wait_value :: "string \<Rightarrow> u32 \<Rightarrow> u32 \<Rightarrow> u32 \<Rightarrow> unit fw" where
  "wait_value var expected timeout code =
     bind_fw get_tick (\<lambda>start. loop_fw (\<lambda>_.
       bind_fw (shared_read var) (\<lambda>v.
         if v \<noteq> expected
         then bind_fw get_tick (\<lambda>now.
           then_fw (if timeout \<le> now - start then test_fail code else return_fw ())
             (then_fw (kernel_call ''vTaskDelay'' [1]) (return_fw (Inl ()))))
         else return_fw (Inr ()))) ())"

text \<open>\<open>create_worker\<close>: the handle and the new \<open>worker_count\<close>.\<close>

definition create_worker ::
    "acceptance_api \<Rightarrow> symbols \<Rightarrow> string \<Rightarrow> string \<Rightarrow> u32 \<Rightarrow> u32 \<Rightarrow> u32 \<Rightarrow> (u32 \<times> u32) fw" where
  "create_worker A addr entry name argument priority worker_count =
     (if STATIC_WORKER_COUNT \<le> worker_count then return_fw (0, worker_count)
      else bind_fw (extern_fw ''xTaskCreateStatic'' [addr entry, addr name, WORKER_STACK_WORDS, argument, priority,
          addr ''worker_stack'' + worker_count * (WORKER_STACK_WORDS * 4),
          addr ''worker_tcb'' + worker_count * sizeof_StaticTask A]) (\<lambda>handle.
        return_fw (handle, if handle \<noteq> 0 then worker_count + 1 else worker_count)))"

text \<open>\<open>test_expect(create_worker(...) != 0, code)\<close>.\<close>

definition expect_worker ::
    "acceptance_api \<Rightarrow> symbols \<Rightarrow> string \<Rightarrow> string \<Rightarrow> u32 \<Rightarrow> u32 \<Rightarrow> u32 \<Rightarrow> u32 \<Rightarrow> u32 fw" where
  "expect_worker A addr entry name argument priority code worker_count =
     bind_fw (create_worker A addr entry name argument priority worker_count) (\<lambda>(handle, worker_count').
       then_fw (test_expect (handle \<noteq> 0) code) (return_fw worker_count'))"

section \<open>The heap test\<close>

definition heap_word :: "u32 \<Rightarrow> nat \<Rightarrow> u32" where
  "heap_word index sample = 0xa5000000 XOR push_bit 8 index XOR of_nat sample"

definition sample_address :: "u32 \<Rightarrow> nat \<Rightarrow> u32" where
  "sample_address block sample = block + of_nat (sample * 17) * 4"

definition heap_pattern_fill :: "u32 \<Rightarrow> u32 \<Rightarrow> unit fw" where
  "heap_pattern_fill block index =
     for_fw [0..<16] (\<lambda>sample. store32 (sample_address block sample) (heap_word index sample))"

definition heap_pattern_check :: "u32 \<Rightarrow> u32 \<Rightarrow> unit fw" where
  "heap_pattern_check block index =
     for_fw [0..<16] (\<lambda>sample. bind_fw (load32 (sample_address block sample)) (\<lambda>v.
       if v \<noteq> heap_word index sample then test_fail 0xfa060001 else return_fw ()))"

definition check_blocks :: "u32 list \<Rightarrow> unit fw" where
  "check_blocks blocks = for_fw [0..<length blocks] (\<lambda>i. heap_pattern_check (blocks ! i) (of_nat i))"

text \<open>The allocation loop; the first argument counts the free places of \<open>blocks[64]\<close>, the second
  are the blocks obtained so far.\<close>

fun alloc_blocks :: "nat \<Rightarrow> u32 list \<Rightarrow> u32 list fw" where
  "alloc_blocks 0 blocks = return_fw blocks"
| "alloc_blocks (Suc room) blocks =
     bind_fw (extern_fw ''pvPortMalloc'' [1024]) (\<lambda>p.
       if p = 0 then return_fw blocks
       else then_fw (heap_pattern_fill p (of_nat (length blocks))) (alloc_blocks room (blocks @ [p])))"

definition free_block :: "u32 \<Rightarrow> unit fw" where
  "free_block p = kernel_call ''vPortFree'' [p]"

definition heap_acceptance :: "unit fw" where
  "heap_acceptance =
     then_fw (stage ''heap_5'')
     (bind_fw (extern_fw ''xPortGetFreeHeapSize'' []) (\<lambda>free_before.
      bind_fw (shared_read ''malloc_failed_count'') (\<lambda>failures_before.
      bind_fw (alloc_blocks 64 []) (\<lambda>blocks.
      let block_count = length blocks
      in then_fw (test_expect (4 \<le> block_count) 0xfa060002)
     (then_fw (test_expect (block_count < 64) 0xfa060003)
     (then_fw (bind_fw (shared_read ''malloc_failed_count'')
         (\<lambda>failures. test_expect (failures = failures_before + 1) 0xfa060004))
     (then_fw (check_blocks blocks)
     (bind_fw (of_option_fw (array_get blocks 1)) (\<lambda>b1. bind_fw (of_option_fw (array_get blocks 2)) (\<lambda>b2.
      then_fw (free_block b1) (then_fw (free_block b2)
     (let blocks' = blocks[1 := 0, 2 := 0]
      in bind_fw (extern_fw ''pvPortMalloc'' [1500]) (\<lambda>merged.
         then_fw (test_expect (merged \<noteq> 0) 0xfa060005)
        (then_fw (free_block merged)
        (then_fw (for_fw [0..<block_count] (\<lambda>index.
            if blocks' ! index \<noteq> 0 then free_block (blocks' ! index) else return_fw ()))
        (bind_fw (extern_fw ''xPortGetFreeHeapSize'' []) (\<lambda>free_after.
         then_fw (test_expect (free_after = free_before) 0xfa060006)
           (bind_fw (extern_fw ''xPortGetMinimumEverFreeHeapSize'' [])
             (\<lambda>least. test_expect (least < free_before) 0xfa060007)))))))))))))))))))"

section \<open>The workers\<close>

definition end_task :: "unit fw" where "end_task = kernel_call ''vTaskDelete'' [0]"

definition preempt_worker :: "unit fw" where
  "preempt_worker = then_fw (shared_write ''preempt_ran'' 1) end_task"

definition timing_worker :: "unit fw" where
  "timing_worker =
     bind_fw get_tick (\<lambda>deadline0.
     then_fw (shared_write ''timing_ok'' 1)
     (then_fw
       (bind_fw (fold_fw [0..<3] (\<lambda>_ deadline.
          then_fw (kernel_call ''vTaskDelayUntil'' [deadline, 2])
          (bind_fw (extern_fw ''deadline'' []) (\<lambda>deadline'.
           bind_fw get_tick (\<lambda>now.
             then_fw (if now < deadline' \<or> 2 < now - deadline' then shared_write ''timing_ok'' 0 else return_fw ())
               (return_fw deadline'))))) deadline0) (\<lambda>_. return_fw ()))
     (then_fw (shared_write ''timing_done'' 1) end_task)))"

definition queue_value :: "u32 \<Rightarrow> u32" where "queue_value sequence = sequence XOR 0x5aa55aa5"

text \<open>A message is sent by value: its two fields are arguments of the call.\<close>

definition queue_producer :: "acceptance_api \<Rightarrow> acceptance_objects \<Rightarrow> unit fw" where
  "queue_producer A Ob =
     then_fw (for_fw [0..<8] (\<lambda>sequence.
       bind_fw (extern_fw ''xQueueSend'' [acceptance_queue Ob, of_nat sequence, queue_value (of_nat sequence), WAIT_TICKS]) (\<lambda>r.
         if r \<noteq> pdPASS A then test_fail 0xfa020001 else return_fw ())))
     (then_fw (shared_write ''queue_producer_done'' 1) end_task)"

definition notification_bits_worker :: "acceptance_api \<Rightarrow> acceptance_objects \<Rightarrow> unit fw" where
  "notification_bits_worker A Ob =
     then_fw (bind_fw (extern_fw ''xTaskNotify'' [coordinator_handle Ob, 5, eSetBits A]) (\<lambda>r.
       if r \<noteq> pdPASS A then test_fail 0xfa020002 else return_fw ())) end_task"

definition notification_count_worker :: "acceptance_objects \<Rightarrow> unit fw" where
  "notification_count_worker Ob =
     seq_fw [kernel_call ''xTaskNotifyGive'' [coordinator_handle Ob],
       kernel_call ''xTaskNotifyGive'' [coordinator_handle Ob],
       kernel_call ''xTaskNotifyGive'' [coordinator_handle Ob], end_task]"

definition semaphore_worker :: "acceptance_api \<Rightarrow> acceptance_objects \<Rightarrow> unit fw" where
  "semaphore_worker A Ob =
     then_fw (bind_fw (extern_fw ''xSemaphoreGive'' [acceptance_semaphore Ob]) (\<lambda>r.
       if r \<noteq> pdPASS A then test_fail 0xfa030001
       else bind_fw (extern_fw ''xSemaphoreGive'' [acceptance_semaphore Ob]) (\<lambda>r'.
         if r' \<noteq> pdPASS A then test_fail 0xfa030001 else return_fw ()))) end_task"

definition expect_mutex :: "acceptance_api \<Rightarrow> string \<Rightarrow> u32 list \<Rightarrow> u32 \<Rightarrow> unit fw" where
  "expect_mutex A f xs code =
     bind_fw (extern_fw f xs) (\<lambda>r. if r \<noteq> pdPASS A then test_fail code else return_fw ())"

definition mutex_low_worker :: "acceptance_api \<Rightarrow> acceptance_objects \<Rightarrow> unit fw" where
  "mutex_low_worker A Ob =
     seq_fw [expect_mutex A ''xSemaphoreTake'' [acceptance_mutex Ob, WAIT_TICKS] 0xfa030002,
       shared_write ''mutex_low_holds'' 1,
       loop_fw (\<lambda>_. bind_fw (shared_read ''mutex_release_low'') (\<lambda>v.
         if v = 0 then then_fw (kernel_call ''vTaskDelay'' [1]) (return_fw (Inl ())) else return_fw (Inr ()))) (),
       expect_mutex A ''xSemaphoreGive'' [acceptance_mutex Ob] 0xfa030003,
       bind_fw (extern_fw ''uxTaskPriorityGet'' [0]) (shared_write ''mutex_low_priority_after''),
       shared_write ''mutex_low_done'' 1, end_task]"

definition mutex_mid_worker :: "unit fw" where
  "mutex_mid_worker =
     seq_fw [loop_fw (\<lambda>_. bind_fw (shared_read ''mutex_high_done'') (\<lambda>v.
         if v = 0
         then then_fw (bind_fw (shared_read ''mutex_mid_spins'') (\<lambda>n. shared_write ''mutex_mid_spins'' (n + 1)))
           (then_fw (kernel_call ''taskYIELD'' []) (return_fw (Inl ())))
         else return_fw (Inr ()))) (),
       shared_write ''mutex_mid_done'' 1, end_task]"

definition mutex_high_worker :: "acceptance_api \<Rightarrow> acceptance_objects \<Rightarrow> unit fw" where
  "mutex_high_worker A Ob =
     seq_fw [expect_mutex A ''xSemaphoreTake'' [acceptance_mutex Ob, WAIT_TICKS] 0xfa030004,
       shared_write ''mutex_high_done'' 1,
       expect_mutex A ''xSemaphoreGive'' [acceptance_mutex Ob] 0xfa030005, end_task]"

definition event_worker :: "acceptance_objects \<Rightarrow> u32 \<Rightarrow> unit fw" where
  "event_worker Ob bit' =
     then_fw (kernel_call ''xEventGroupSetBits'' [acceptance_events Ob, bit']) end_task"

definition one_shot_callback :: "unit fw" where
  "one_shot_callback = bind_fw (shared_read ''one_shot_count'') (\<lambda>n. shared_write ''one_shot_count'' (n + 1))"

definition periodic_callback :: "acceptance_api \<Rightarrow> u32 \<Rightarrow> unit fw" where
  "periodic_callback A timer =
     then_fw (bind_fw (shared_read ''periodic_count'') (\<lambda>n. shared_write ''periodic_count'' (n + 1)))
     (bind_fw (shared_read ''periodic_count'') (\<lambda>n.
       if n = 3
       then bind_fw (extern_fw ''xTimerStop'' [timer, 0]) (\<lambda>r.
         if r \<noteq> pdPASS A then test_fail 0xfa050001 else return_fw ())
       else return_fw ()))"

definition dynamic_lifecycle_worker :: "unit fw" where
  "dynamic_lifecycle_worker = then_fw (shared_write ''dynamic_task_done'' 1) end_task"

section \<open>The coordinator\<close>

definition expect_call :: "string \<Rightarrow> u32 list \<Rightarrow> (u32 \<Rightarrow> bool) \<Rightarrow> u32 \<Rightarrow> unit fw" where
  "expect_call f xs ok code = bind_fw (extern_fw f xs) (\<lambda>r. test_expect (ok r) code)"

definition expect_shared :: "string \<Rightarrow> (u32 \<Rightarrow> bool) \<Rightarrow> u32 \<Rightarrow> unit fw" where
  "expect_shared var ok code = bind_fw (shared_read var) (\<lambda>v. test_expect (ok v) code)"

text \<open>The wait for both yield workers; the timeout reports how far they came.\<close>

definition wait_yield_workers :: "unit fw" where
  "wait_yield_workers =
     bind_fw get_tick (\<lambda>start. loop_fw (\<lambda>_.
       bind_fw (shared_read ''yield_done'') (\<lambda>v.
         if v \<noteq> 2
         then bind_fw get_tick (\<lambda>now.
           then_fw (if WAIT_TICKS \<le> now - start
             then bind_fw (shared_read ''yield_done'') (\<lambda>finished. bind_fw (shared_read ''yield_index'') (\<lambda>index.
               test_fail (0xfa015000 OR push_bit 8 (finished AND 0xf) OR (index AND 0xff))))
             else return_fw ())
             (then_fw (kernel_call ''vTaskDelay'' [1]) (return_fw (Inl ()))))
         else return_fw (Inr ()))) ())"

definition yield_order_at :: "nat \<Rightarrow> u32 fw" where
  "yield_order_at index = extern_fw ''yield_order'' [of_nat index]"

definition count_yield :: "nat \<Rightarrow> u32 list \<Rightarrow> u32 list fw" where
  "count_yield index yield_counts =
     then_fw
       (bind_fw (yield_order_at index) (\<lambda>a.
          if a = 1 then test_expect True 0xfa010007
          else bind_fw (yield_order_at index) (\<lambda>b. test_expect (b = 2) 0xfa010007)))
       (bind_fw (yield_order_at index) (\<lambda>id.
        bind_fw (of_option_fw (array_get yield_counts (unat id))) (\<lambda>n.
        of_option_fw (array_put yield_counts (unat id) (n + 1)))))"

definition scheduler_stage :: "acceptance_api \<Rightarrow> symbols \<Rightarrow> u32 \<Rightarrow> u32 fw" where
  "scheduler_stage A addr wc0 =
     then_fw (stage ''scheduler'')
     (bind_fw (expect_worker A addr ''preempt_worker'' ''preempt'' 0 3 0xfa010001 wc0) (\<lambda>wc1.
      then_fw (expect_shared ''preempt_ran'' (\<lambda>v. v = 1) 0xfa010002)
     (bind_fw (expect_worker A addr ''yield_worker'' ''yield-a'' 1 1 0xfa010003 wc1) (\<lambda>wc2.
      bind_fw (expect_worker A addr ''yield_worker'' ''yield-b'' 2 1 0xfa010004 wc2) (\<lambda>wc3.
      then_fw wait_yield_workers
     (then_fw (expect_shared ''yield_index'' (\<lambda>v. v = 8) 0xfa010006)
     (bind_fw (fold_fw [0..<8] count_yield [0, 0, 0]) (\<lambda>yield_counts.
      then_fw (test_expect (yield_counts ! 1 = 4 \<and> yield_counts ! 2 = 4) 0xfa01000b)
     (bind_fw (expect_worker A addr ''timing_worker'' ''timing'' 0 1 0xfa010008 wc3) (\<lambda>wc4.
      then_fw (wait_value ''timing_done'' 1 WAIT_TICKS 0xfa010009)
     (then_fw (expect_shared ''timing_ok'' (\<lambda>v. v = 1) 0xfa01000a) (return_fw wc4))))))))))))"

definition receive_message :: "acceptance_api \<Rightarrow> acceptance_objects \<Rightarrow> nat \<Rightarrow> unit fw" where
  "receive_message A Ob index =
     then_fw (expect_call ''xQueueReceive'' [acceptance_queue Ob, WAIT_TICKS] (\<lambda>r. r = pdPASS A) 0xfa020006)
     (bind_fw (extern_fw ''message.sequence'' []) (\<lambda>sequence.
      if sequence = of_nat index
      then bind_fw (extern_fw ''message.value'' []) (\<lambda>v. test_expect (v = queue_value (of_nat index)) 0xfa020007)
      else test_expect False 0xfa020007))"

definition queue_stage :: "acceptance_api \<Rightarrow> symbols \<Rightarrow> acceptance_objects \<Rightarrow> u32 \<Rightarrow> u32 fw" where
  "queue_stage A addr Ob wc0 =
     then_fw (stage ''queue + notify'')
     (then_fw (expect_call ''uxQueueMessagesWaiting'' [acceptance_queue Ob] (\<lambda>r. r = 0) 0xfa020003)
     (bind_fw (expect_worker A addr ''queue_producer'' ''producer'' 0 3 0xfa020004 wc0) (\<lambda>wc1.
      then_fw (expect_call ''uxQueueSpacesAvailable'' [acceptance_queue Ob] (\<lambda>r. r = 0) 0xfa020005)
     (then_fw (for_fw [0..<8] (receive_message A Ob))
     (then_fw (wait_value ''queue_producer_done'' 1 WAIT_TICKS 0xfa020008)
     (bind_fw (expect_worker A addr ''notification_bits_worker'' ''notify-bit'' 0 1 0xfa020009 wc1) (\<lambda>wc2.
      then_fw (bind_fw (extern_fw ''xTaskNotifyWait'' [0, 0xffffffff, WAIT_TICKS]) (\<lambda>r.
        if r = pdTRUE A
        then bind_fw (extern_fw ''notified'' []) (\<lambda>notified. test_expect (notified = 5) 0xfa02000a)
        else test_expect False 0xfa02000a))
     (bind_fw (expect_worker A addr ''notification_count_worker'' ''notify-count'' 0 3 0xfa02000b wc2) (\<lambda>wc3.
      then_fw (expect_call ''ulTaskNotifyTake'' [pdTRUE A, WAIT_TICKS] (\<lambda>r. r = 3) 0xfa02000c)
        (return_fw wc3))))))))))"

definition mutex_stage :: "acceptance_api \<Rightarrow> symbols \<Rightarrow> acceptance_objects \<Rightarrow> u32 \<Rightarrow> u32 fw" where
  "mutex_stage A addr Ob wc0 =
     then_fw (stage ''semaphore + mutex'')
     (bind_fw (expect_worker A addr ''semaphore_worker'' ''semaphore'' 0 1 0xfa030006 wc0) (\<lambda>wc1.
      then_fw (expect_call ''xSemaphoreTake'' [acceptance_semaphore Ob, WAIT_TICKS] (\<lambda>r. r = pdPASS A) 0xfa030007)
     (then_fw (expect_call ''xSemaphoreTake'' [acceptance_semaphore Ob, WAIT_TICKS] (\<lambda>r. r = pdPASS A) 0xfa030008)
     (then_fw (expect_call ''xSemaphoreTake'' [acceptance_semaphore Ob, 0] (\<lambda>r. r = pdFAIL A) 0xfa030009)
     (bind_fw (create_worker A addr ''mutex_low_worker'' ''mutex-low'' 0 1 wc1) (\<lambda>(low_handle, wc2).
      then_fw (test_expect (low_handle \<noteq> 0) 0xfa03000a)
     (then_fw (wait_value ''mutex_low_holds'' 1 WAIT_TICKS 0xfa03000b)
     (bind_fw (expect_worker A addr ''mutex_mid_worker'' ''mutex-mid'' 0 2 0xfa03000c wc2) (\<lambda>wc3.
      bind_fw (expect_worker A addr ''mutex_high_worker'' ''mutex-high'' 0 3 0xfa03000d wc3) (\<lambda>wc4.
      then_fw (expect_call ''uxTaskPriorityGet'' [low_handle] (\<lambda>r. r = 3) 0xfa03000e)
     (then_fw (shared_write ''mutex_release_low'' 1)
     (then_fw (wait_value ''mutex_high_done'' 1 WAIT_TICKS 0xfa03000f)
     (then_fw (wait_value ''mutex_low_done'' 1 WAIT_TICKS 0xfa030010)
     (then_fw (wait_value ''mutex_mid_done'' 1 WAIT_TICKS 0xfa030011)
     (then_fw (expect_shared ''mutex_low_priority_after'' (\<lambda>v. v = 1) 0xfa030012)
     (then_fw (expect_shared ''mutex_mid_spins'' (\<lambda>v. v \<noteq> 0) 0xfa030013) (return_fw wc4)))))))))))))))))"

definition scheduler_acceptance :: "acceptance_api \<Rightarrow> symbols \<Rightarrow> acceptance_objects \<Rightarrow> u32 \<Rightarrow> u32 fw" where
  "scheduler_acceptance A addr Ob wc =
     bind_fw (scheduler_stage A addr wc) (\<lambda>wc. bind_fw (queue_stage A addr Ob wc) (mutex_stage A addr Ob))"

definition event_timer_acceptance :: "acceptance_api \<Rightarrow> symbols \<Rightarrow> acceptance_objects \<Rightarrow> u32 \<Rightarrow> u32 fw" where
  "event_timer_acceptance A addr Ob wc0 =
     then_fw (stage ''event group'')
     (bind_fw (expect_worker A addr ''event_worker'' ''event-a'' 1 1 0xfa040001 wc0) (\<lambda>wc1.
      bind_fw (expect_worker A addr ''event_worker'' ''event-b'' 2 1 0xfa040002 wc1) (\<lambda>wc2.
      then_fw (expect_call ''xEventGroupWaitBits'' [acceptance_events Ob, 3, pdTRUE A, pdTRUE A, WAIT_TICKS]
        (\<lambda>event_bits. event_bits AND 3 = 3) 0xfa040003)
     (then_fw (stage ''software timer'')
     (then_fw (expect_call ''xTimerStart'' [one_shot_timer Ob, 0] (\<lambda>r. r = pdPASS A) 0xfa050002)
     (then_fw (expect_call ''xTimerStart'' [periodic_timer Ob, 0] (\<lambda>r. r = pdPASS A) 0xfa050003)
     (then_fw (wait_value ''one_shot_count'' 1 WAIT_TICKS 0xfa050004)
     (then_fw (wait_value ''periodic_count'' 3 WAIT_TICKS 0xfa050005)
     (then_fw (kernel_call ''vTaskDelay'' [5])
     (then_fw (bind_fw (shared_read ''one_shot_count'') (\<lambda>one.
        if one = 1 then expect_shared ''periodic_count'' (\<lambda>n. n = 3) 0xfa050006
        else test_expect False 0xfa050006))
       (return_fw wc2)))))))))))"

definition wait_heap_restored :: "u32 \<Rightarrow> u32 \<Rightarrow> unit fw" where
  "wait_heap_restored free_before start =
     loop_fw (\<lambda>_. bind_fw (extern_fw ''xPortGetFreeHeapSize'' []) (\<lambda>v.
       if v \<noteq> free_before
       then bind_fw get_tick (\<lambda>now.
         then_fw (if WAIT_TICKS \<le> now - start then test_fail 0xfa06000e else return_fw ())
           (then_fw (kernel_call ''vTaskDelay'' [1]) (return_fw (Inl ()))))
       else return_fw (Inr ()))) ()"

definition dynamic_object_acceptance :: "acceptance_api \<Rightarrow> symbols \<Rightarrow> unit fw" where
  "dynamic_object_acceptance A addr =
     then_fw (stage ''dynamic objects'')
     (then_fw (kernel_call ''vTaskDelay'' [20])
     (bind_fw (extern_fw ''xPortGetFreeHeapSize'' []) (\<lambda>free_before.
      bind_fw (extern_fw ''xQueueCreate'' [4, 4]) (\<lambda>dynamic_queue.
      then_fw (test_expect (dynamic_queue \<noteq> 0) 0xfa060008)
     (then_fw (expect_call ''xQueueSend'' [dynamic_queue, 0x12345678, 0] (\<lambda>r. r = pdPASS A) 0xfa060009)
     (then_fw (bind_fw (extern_fw ''xQueueReceive'' [dynamic_queue, 0]) (\<lambda>r.
        if r = pdPASS A
        then bind_fw (extern_fw ''received item'' [dynamic_queue]) (\<lambda>v. test_expect (v = 0x12345678) 0xfa06000a)
        else test_expect False 0xfa06000a))
     (then_fw (kernel_call ''vQueueDelete'' [dynamic_queue])
     (then_fw (expect_call ''xPortGetFreeHeapSize'' [] (\<lambda>v. v = free_before) 0xfa06000b)
     (bind_fw (extern_fw ''xPortGetFreeHeapSize'' []) (\<lambda>free_before.
      then_fw (expect_call ''xTaskCreate'' [addr ''dynamic_lifecycle_worker'', addr ''dynamic'', WORKER_STACK_WORDS, 0, 1, 0]
        (\<lambda>r. r = pdPASS A) 0xfa06000c)
     (then_fw (wait_value ''dynamic_task_done'' 1 WAIT_TICKS 0xfa06000d)
     (bind_fw get_tick (wait_heap_restored free_before)))))))))))))"

definition coordinator_task :: "acceptance_api \<Rightarrow> symbols \<Rightarrow> acceptance_objects \<Rightarrow> 'b fw" where
  "coordinator_task A addr Ob =
     bind_fw (scheduler_acceptance A addr Ob 0) (\<lambda>wc.
     bind_fw (event_timer_acceptance A addr Ob wc) (\<lambda>_.
     then_fw (dynamic_object_acceptance A addr)
     (then_fw (seq_fw [uart_puts (bytes ''  free heap: ''),
         bind_fw (extern_fw ''xPortGetFreeHeapSize'' []) uart_put_dec,
         uart_puts (bytes '', minimum: ''),
         bind_fw (extern_fw ''xPortGetMinimumEverFreeHeapSize'' []) uart_put_dec,
         uart_puts ([10] @ bytes ''freertos acceptance pass'' @ [10]), uart_flush]) test_pass)))"

definition watchdog_task :: "'b fw" where
  "watchdog_task = then_fw (kernel_call ''vTaskDelay'' [1500]) (test_fail 0xfaff0001)"

section \<open>Start-up\<close>

definition create_object :: "string \<Rightarrow> u32 list \<Rightarrow> u32 \<Rightarrow> u32 fw" where
  "create_object f xs code =
     bind_fw (extern_fw f xs) (\<lambda>handle. then_fw (test_expect (handle \<noteq> 0) code) (return_fw handle))"

definition freertos_acceptance_main :: "acceptance_api \<Rightarrow> kernel \<Rightarrow> symbols \<Rightarrow> 'b fw" where
  "freertos_acceptance_main A K addr =
     then_fw (test_banner ''freertos acceptance'')
     (then_fw (bind_fw (freertos_heap_init K (addr ''_sdram_heap_start'') (addr ''_sdram_heap_end'') 0) (\<lambda>_. return_fw ()))
     (then_fw heap_acceptance
     (bind_fw (create_object ''xQueueCreateStatic'' [QUEUE_LENGTH, 8, addr ''queue_storage'', addr ''queue_control''] 0xfa000002) (\<lambda>_.
      bind_fw (create_object ''xSemaphoreCreateCountingStatic'' [2, 0, addr ''semaphore_control''] 0xfa000003) (\<lambda>_.
      bind_fw (create_object ''xSemaphoreCreateMutexStatic'' [addr ''mutex_control''] 0xfa000004) (\<lambda>_.
      bind_fw (create_object ''xEventGroupCreateStatic'' [addr ''event_control''] 0xfa000005) (\<lambda>_.
      bind_fw (create_object ''xTimerCreateStatic'' [addr ''one-shot'', 3, pdFALSE A, 0, addr ''one_shot_callback'',
        addr ''one_shot_timer_control''] 0xfa000006) (\<lambda>_.
      bind_fw (create_object ''xTimerCreateStatic'' [addr ''periodic'', 2, pdTRUE A, 0, addr ''periodic_callback'',
        addr ''periodic_timer_control''] 0xfa000007) (\<lambda>_.
      bind_fw (create_object ''xTaskCreateStatic'' [addr ''coordinator_task'', addr ''coordinator'', 1024, 0, 2,
        addr ''coordinator_stack'', addr ''coordinator_tcb''] 0xfa000008) (\<lambda>_.
      bind_fw (create_object ''xTaskCreateStatic'' [addr ''watchdog_task'', addr ''watchdog'', 256, 0, 1,
        addr ''watchdog_stack'', addr ''watchdog_tcb''] 0xfa000009) (\<lambda>_.
      then_fw (kernel_call ''vTaskStartScheduler'' []) (test_fail 0xfa00000a))))))))))))"

section \<open>How the coordinator can end\<close>

text \<open>The kernel never refuses to create a task, and the yield workers leave only their numbers in
  the array (the theory \<open>Yield_Workers\<close> shows that they do).\<close>

definition creates_tasks :: "hw \<Rightarrow> bool" where
  "creates_tasks hw \<longleftrightarrow> (\<forall>tr xs. hw tr (Ext ''xTaskCreateStatic'' xs) \<noteq> 0)"

definition yield_ids :: "hw \<Rightarrow> bool" where
  "yield_ids hw \<longleftrightarrow> (\<forall>tr i. unat (hw tr (Ext ''yield_order'' [i])) \<le> 2)"

text \<open>Success, and the codes of the checks other than the thirteen for a refused worker.\<close>

definition check_codes :: "u32 list" where
  "check_codes =
     [1, 0xfa010002, 0xfa010006, 0xfa010007, 0xfa010009, 0xfa01000a, 0xfa01000b,
      0xfa020003, 0xfa020005, 0xfa020006, 0xfa020007, 0xfa020008, 0xfa02000a, 0xfa02000c,
      0xfa030007, 0xfa030008, 0xfa030009, 0xfa03000b, 0xfa03000e, 0xfa03000f, 0xfa030010, 0xfa030011,
      0xfa030012, 0xfa030013, 0xfa040003, 0xfa050002, 0xfa050003, 0xfa050004, 0xfa050005, 0xfa050006,
      0xfa060008, 0xfa060009, 0xfa06000a, 0xfa06000b, 0xfa06000c, 0xfa06000d, 0xfa06000e]"

definition coordinator_codes :: "u32 set" where
  "coordinator_codes = set check_codes \<union> {c. drop_bit 12 c = 0xfa015}"

definition coordinator_env :: "hw \<Rightarrow> bool" where
  "coordinator_env hw \<longleftrightarrow> creates_tasks hw \<and> yield_ids hw"

lemma check_code: "list_ex (\<lambda>c. c = code) check_codes \<Longrightarrow> code \<in> coordinator_codes"
  by (auto simp: coordinator_codes_def list_ex_iff)

lemma runs_stage: "safely_in H P (stage name) (\<lambda>_. True)"
  unfolding stage_def by (rule runs_seq) (auto simp del: uart_puts.simps intro: run_intros)

lemma runs_get_tick: "safely_in H P get_tick (\<lambda>_. True)"
  unfolding get_tick_def by (rule run_intros)

lemma runs_expect_any: "code \<in> C \<Longrightarrow> runs_in H C (test_expect b code) (\<lambda>_. True)"
  by (rule runs_mono [OF runs_test_expect]) simp_all

lemma runs_expect_call: "code \<in> C \<Longrightarrow> runs_in H C (expect_call f xs ok code) (\<lambda>_. True)"
  unfolding expect_call_def by (intro runs_bind [OF runs_extern] runs_expect_any)

lemma runs_expect_shared: "code \<in> C \<Longrightarrow> runs_in H C (expect_shared x ok code) (\<lambda>_. True)"
  unfolding expect_shared_def by (intro runs_bind [OF runs_shared(1)] runs_expect_any)

lemma runs_delay_loop:
  "safely_in H P f (\<lambda>_. True) \<Longrightarrow>
   safely_in H P (then_fw f (then_fw (kernel_call g xs) (return_fw (Inl ())))) (\<lambda>_. True)"
  by (intro runs_then runs_kernel_call runs_return) simp_all

lemma runs_wait_value: "code \<in> C \<Longrightarrow> runs_in H C (wait_value x e t code) (\<lambda>_. True)"
  unfolding wait_value_def
  by (intro runs_bind [OF runs_get_tick] runs_loop [where J = "\<lambda>_. True"])
    (auto intro!: runs_bind [OF runs_shared(1)] runs_bind [OF runs_get_tick] runs_delay_loop runs_test_fail runs_return)

lemma runs_create_worker:
  assumes "unat wc = n" "n < 13"
    and "\<And>h wc'. unat wc' = Suc n \<Longrightarrow> h \<noteq> 0 \<Longrightarrow> safely_in coordinator_env P (g h wc') Q"
  shows "safely_in coordinator_env P (bind_fw (create_worker A addr entry name arg prio wc) (\<lambda>(h, wc'). g h wc')) Q"
proof -
  have "\<not> STATIC_WORKER_COUNT \<le> wc" using assms by (simp add: STATIC_WORKER_COUNT_def word_le_nat_alt)
  moreover have "unat (wc + 1) = Suc n" using assms by (simp add: unat_word_ariths)
  moreover have "safely_in coordinator_env P (extern_fw ''xTaskCreateStatic'' xs) (\<lambda>h. h \<noteq> 0)" for xs
    by (rule runs_extern_in) (simp add: coordinator_env_def creates_tasks_def)
  ultimately show ?thesis
    unfolding create_worker_def
    by (auto intro!: runs_bind [where R = "\<lambda>h. h \<noteq> 0"] assms(3) simp: bind_assoc_fw)
qed

lemma runs_created: "h \<noteq> 0 \<Longrightarrow> safely_in H P (test_expect (h \<noteq> (0 :: u32)) code) (\<lambda>_. True)"
  by (simp add: test_expect_def runs_return)

lemma runs_expect_worker:
  assumes "unat wc = n" "n < 13"
  shows "safely_in coordinator_env P (expect_worker A addr entry name arg prio code wc) (\<lambda>wc'. unat wc' = Suc n)"
  unfolding expect_worker_def
  by (rule runs_create_worker [OF assms]) (intro runs_then runs_created runs_return)

lemma runs_wait_yield: "runs_in H coordinator_codes wait_yield_workers (\<lambda>_. True)"
proof -
  have code: "drop_bit 12 (0xfa015000 OR push_bit 8 (d AND 0xf) OR (i AND 0xff)) = (0xfa015 :: u32)" for d i :: u32
  proof -
    have "d AND 15 \<le> 15" "i AND 255 \<le> 255" by (rule word_and_le1)+
    then have le: "unat (d AND 15) \<le> 15" "unat (i AND 255) \<le> 255" by (simp_all add: word_le_nat_alt)
    have "unat (push_bit 8 (d AND 15)) = unat (d AND 15) * 256"
      using le(1) by (simp add: push_bit_eq_mult unat_word_ariths)
    with le have less: "unat (push_bit 8 (d AND 15)) < 4096" "unat (i AND 255) < 4096" by linarith+
    have "unat w < 4096 \<Longrightarrow> drop_bit 12 w = 0" for w :: u32
      by (simp add: word_unat_eq_iff drop_bit_eq_div unat_div)
    note less [THEN this]
    then show ?thesis unfolding drop_bit_or by simp
  qed
  then have "0xfa015000 OR push_bit 8 (d AND 0xf) OR (i AND 0xff) \<in> coordinator_codes" for d i
    unfolding coordinator_codes_def by blast
  then show ?thesis
    unfolding wait_yield_workers_def
    by (intro runs_bind [OF runs_get_tick] runs_loop [where J = "\<lambda>_. True"])
      (auto intro!: runs_bind [OF runs_shared(1)] runs_bind [OF runs_get_tick] runs_delay_loop runs_test_fail runs_return)
qed

lemma runs_count_yield:
  assumes "length counts = 3"
  shows "runs_in coordinator_env coordinator_codes (count_yield k counts) (\<lambda>c. length c = 3)"
proof -
  have code: "0xfa010007 \<in> coordinator_codes" by (rule check_code) (simp add: check_codes_def)
  have id: "runs_in coordinator_env coordinator_codes (yield_order_at k) (\<lambda>v. unat v \<le> 2)"
    unfolding yield_order_at_def by (rule runs_extern_in) (simp add: coordinator_env_def yield_ids_def)
  show ?thesis
    unfolding count_yield_def using assms
    by (intro runs_then)
      (auto intro!: runs_bind [OF id] runs_expect_any [OF code] runs_of_option simp: array_get_Some array_put_Some)
qed

lemmas coordinator_steps =
  runs_then [OF runs_stage] runs_then [OF runs_kernel_call] runs_then [OF runs_shared(2)]
  runs_bind [OF runs_expect_worker]
  runs_then [OF runs_expect_shared [OF check_code]] runs_then [OF runs_expect_call [OF check_code]]
  runs_then [OF runs_expect_any [OF check_code]] runs_then [OF runs_wait_value [OF check_code]] runs_return

lemma runs_scheduler_stage:
  "runs_in coordinator_env coordinator_codes (scheduler_stage A addr 0) (\<lambda>wc. unat wc = 4)"
proof -
  have counts: "runs_in coordinator_env coordinator_codes (fold_fw [0..<8] count_yield [0, 0, 0]) (\<lambda>_. True)"
    by (rule runs_mono [OF runs_fold [where J = "\<lambda>c. length c = 3"]]) (simp_all add: runs_count_yield)
  show ?thesis
    unfolding scheduler_stage_def
    by (rule coordinator_steps runs_then [OF runs_wait_yield] runs_bind [OF counts] |
        assumption | simp add: check_codes_def)+
qed

lemma runs_then_any: "safely_in H P f R \<Longrightarrow> safely_in H P g Q \<Longrightarrow> safely_in H P (then_fw f g) Q"
  by (rule runs_then [OF runs_mono]) simp_all

lemma runs_receive: "runs_in H coordinator_codes (receive_message A Ob k) (\<lambda>_. True)"
  unfolding receive_message_def
  by (rule runs_then [OF runs_expect_call [OF check_code]] runs_bind [OF runs_extern] | simp add: check_codes_def |
      auto simp: check_codes_def intro!: runs_bind [OF runs_extern] runs_expect_any [OF check_code])+

lemma runs_checked_result:
  assumes "list_ex (\<lambda>c. c = code) check_codes"
  shows "runs_in H coordinator_codes (bind_fw (extern_fw f xs) (\<lambda>r.
    if ok r then bind_fw (extern_fw g ys) (\<lambda>v. test_expect (ok' v) code) else test_expect False code)) (\<lambda>_. True)"
  using check_code [OF assms] by (auto intro!: runs_bind [OF runs_extern] runs_expect_any)

lemma runs_queue_stage:
  assumes "unat wc = 4"
  shows "runs_in coordinator_env coordinator_codes (queue_stage A addr Ob wc) (\<lambda>wc. unat wc = 7)"
  using assms unfolding queue_stage_def
  by - (rule coordinator_steps runs_then [OF runs_for] runs_receive runs_then [OF runs_checked_result] |
        assumption | simp add: check_codes_def)+

lemma runs_mutex_stage:
  assumes "unat wc = 7"
  shows "runs_in coordinator_env coordinator_codes (mutex_stage A addr Ob wc) (\<lambda>wc. unat wc = 11)"
  using assms unfolding mutex_stage_def
  by - (rule coordinator_steps runs_create_worker runs_then [OF runs_created] | assumption | simp add: check_codes_def)+

lemma runs_event_stage:
  assumes "unat wc = 11"
  shows "runs_in coordinator_env coordinator_codes (event_timer_acceptance A addr Ob wc) (\<lambda>wc. unat wc = 13)"
proof -
  have both: "runs_in H coordinator_codes (bind_fw (shared_read ''one_shot_count'') (\<lambda>one.
      if one = 1 then expect_shared ''periodic_count'' (\<lambda>n. n = 3) 0xfa050006
      else test_expect False 0xfa050006)) (\<lambda>_. True)" for H
    using check_code [of "0xfa050006"]
    by (auto simp: check_codes_def intro!: runs_bind [OF runs_shared(1)] runs_expect_any runs_expect_shared)
  show ?thesis
    using assms unfolding event_timer_acceptance_def
    by - (rule runs_then [OF both] coordinator_steps | assumption | simp add: check_codes_def)+
qed

lemma runs_heap_restored: "runs_in H coordinator_codes (wait_heap_restored v t) (\<lambda>_. True)"
proof -
  have "0xfa06000e \<in> coordinator_codes" by (rule check_code) (simp add: check_codes_def)
  then show ?thesis
    unfolding wait_heap_restored_def
    by (intro runs_loop [where J = "\<lambda>_. True"])
      (auto intro!: runs_bind [OF runs_extern] runs_bind [OF runs_get_tick] runs_delay_loop runs_test_fail runs_return)
qed

lemma runs_dynamic_objects:
  "runs_in coordinator_env coordinator_codes (dynamic_object_acceptance A addr) (\<lambda>_. True)"
  unfolding dynamic_object_acceptance_def
  by (rule runs_then [OF runs_checked_result] coordinator_steps runs_bind [OF runs_extern]
      runs_bind [OF runs_get_tick] runs_heap_restored | assumption | simp add: check_codes_def)+


end
