(* ===== verification/Heap_Test.thy ===== *)
theory Heap_Test
  imports Freertos_Acceptance "HOL-Library.Multiset"
begin

text \<open>
  What the heap test of \<open>firmware/apps/freertos/freertos_acceptance.c\<close> shows: the patterns tell
  overlapping blocks from disjoint ones, and every block is given back.
\<close>

section \<open>Storing and reading back words\<close>

definition put_all :: "(u32 \<times> u32) list \<Rightarrow> memory \<Rightarrow> memory" where
  "put_all ws mm = foldl (\<lambda>mm (a, v). put32 mm a v) mm ws"

lemma put_all_append: "put_all (ws @ ws') mm = put_all ws' (put_all ws mm)"
  by (simp add: put_all_def)

lemma get32_put_all:
  assumes "\<forall>(a, v) \<in> set ws. a AND 3 = 0" "b AND 3 = 0"
  shows "get32 (put_all ws mm) b = (case map_of (rev ws) b of Some v \<Rightarrow> v | None \<Rightarrow> get32 mm b)"
  using assms(1)
proof (induction ws rule: rev_induct)
  case (snoc w ws)
  obtain a v where w: "w = (a, v)" by (cases w)
  then have a: "a AND 3 = 0" using snoc.prems by simp
  have "put_all (ws @ [w]) mm = put32 (put_all ws mm) a v" by (simp add: put_all_def w)
  moreover have "get32 (put32 mm' a v) b = get32 mm' b" if "a \<noteq> b" for mm'
    using aligned_apart [OF a assms(2) that] aligned_apart [OF assms(2) a that [symmetric]]
    by (rule get32_put32_other)
  ultimately show ?case using snoc by (simp add: w)
qed (simp add: put_all_def)

text \<open>All words can be read back exactly if no address has been given two values.\<close>

lemma read_back:
  assumes "\<forall>(a, v) \<in> set ws. a AND 3 = 0"
  shows "(\<forall>(a, v) \<in> set ws. get32 (put_all ws mm) a = v) \<longleftrightarrow>
    (\<forall>a v v'. (a, v) \<in> set ws \<longrightarrow> (a, v') \<in> set ws \<longrightarrow> v = v')"
proof -
  have get: "\<exists>v'. get32 (put_all ws mm) a = v' \<and> (a, v') \<in> set ws" if "(a, v) \<in> set ws" for a v
  proof -
    from that have "a \<in> fst ` set (rev ws)" by force
    then obtain v' where "map_of (rev ws) a = Some v'" by (metis map_of_eq_None_iff option.exhaust)
    then show ?thesis
      using get32_put_all [OF assms, of a mm] assms that map_of_SomeD [of "rev ws" a v'] by auto
  qed
  show ?thesis
    using get by (auto split: prod.splits) (metis, metis)
qed

lemma one_value_distinct:
  assumes "distinct (map snd ws)"
  shows "(\<forall>a v v'. (a, v) \<in> set ws \<longrightarrow> (a, v') \<in> set ws \<longrightarrow> v = v') \<longleftrightarrow> distinct (map fst ws)"
proof
  assume one: "\<forall>a v v'. (a, v) \<in> set ws \<longrightarrow> (a, v') \<in> set ws \<longrightarrow> v = v'"
  have "inj_on fst (set ws)" using one by (auto simp: inj_on_def)
  then show "distinct (map fst ws)" using assms by (simp add: distinct_map)
next
  assume "distinct (map fst ws)"
  then show "\<forall>a v v'. (a, v) \<in> set ws \<longrightarrow> (a, v') \<in> set ws \<longrightarrow> v = v'"
    by (meson eq_key_imp_eq_value)
qed

section \<open>Filling and checking all blocks\<close>

definition pattern_words :: "u32 list \<Rightarrow> (u32 \<times> u32) list" where
  "pattern_words blocks =
     concat (map (\<lambda>i. map (\<lambda>s. (sample_address (blocks ! i) s, heap_word (of_nat i) s)) [0..<16]) [0..<length blocks])"

definition fill_blocks :: "u32 list \<Rightarrow> unit fw" where
  "fill_blocks blocks = for_fw [0..<length blocks] (\<lambda>i. heap_pattern_fill (blocks ! i) (of_nat i))"

lemma sample_address_slot: "sample_address block s = slot block (s * 17)"
  by (simp add: sample_address_def slot_def)

lemma sample_aligned: "block AND 3 = 0 \<Longrightarrow> sample_address block s AND 3 = 0"
  by (simp add: sample_address_slot slot_aligned)

lemma store_words_run:
  "\<forall>i \<in> set is. a i AND 3 = 0 \<Longrightarrow>
   for_fw is (\<lambda>i. store32 (a i) (v i)) hw m = Some (Ret () (m\<lparr>mem := put_all (map (\<lambda>i. (a i, v i)) is) (mem m)\<rparr>))"
  by (induction "is" arbitrary: m)
    (simp_all add: return_fw_def put_all_def then_fw_apply bind_word_access)

lemma fill_blocks_run:
  assumes "\<forall>b \<in> set blocks. b AND 3 = 0"
  shows "fill_blocks blocks hw m = Some (Ret () (m\<lparr>mem := put_all (pattern_words blocks) (mem m)\<rparr>))"
proof -
  have "for_fw is (\<lambda>i. heap_pattern_fill (blocks ! i) (of_nat i)) hw m =
      Some (Ret () (m\<lparr>mem := put_all (concat (map (\<lambda>i. map (\<lambda>s. (sample_address (blocks ! i) s, heap_word (of_nat i) s)) [0..<16]) is)) (mem m)\<rparr>))"
    if "\<forall>i \<in> set is. i < length blocks" for "is"
    using that
  proof (induction "is" arbitrary: m)
    case (Cons i "is")
    then have "\<forall>s \<in> set [0..<16]. sample_address (blocks ! i) s AND 3 = 0"
      using assms by (auto intro: sample_aligned)
    from store_words_run [OF this] Cons show ?case
      by (simp add: then_fw_def bind_fw_def heap_pattern_fill_def put_all_append del: upt_rec_numeral)
  qed (simp add: return_fw_def put_all_def)
  then show ?thesis unfolding fill_blocks_def pattern_words_def by simp
qed

text \<open>A sequence of checks changes nothing; the first one that fails ends the test.\<close>

lemma checks_run:
  assumes "\<forall>i \<in> set is. a i AND 3 = 0"
  shows "for_fw is (\<lambda>i. bind_fw (load32 (a i)) (\<lambda>x. if x \<noteq> v i then test_fail c else return_fw ())) hw m =
    (if \<forall>i \<in> set is. get32 (mem m) (a i) = v i then Some (Ret () m) else test_fail c hw m)"
  using assms
proof (induction "is")
  case (Cons i "is")
  let ?checks = "\<lambda>is. for_fw is (\<lambda>i. bind_fw (load32 (a i)) (\<lambda>x. if x \<noteq> v i then test_fail c else return_fw ()))"
  have "?checks (i # is) hw m = (if get32 (mem m) (a i) \<noteq> v i then test_fail c hw m else ?checks is hw m)"
    using Cons.prems by (simp add: then_fw_def bind_assoc_fw bind_word_access)
  with Cons show ?case by auto
qed (simp add: return_fw_def)

lemma check_blocks_run:
  assumes "\<forall>b \<in> set blocks. b AND 3 = 0"
  shows "check_blocks blocks hw m =
    (if \<forall>(a, v) \<in> set (pattern_words blocks). get32 (mem m) a = v then Some (Ret () m) else test_fail 0xfa060001 hw m)"
proof -
  let ?ok = "\<lambda>i. \<forall>s < 16. get32 (mem m) (sample_address (blocks ! i) s) = heap_word (of_nat i) s"
  have one: "heap_pattern_check (blocks ! i) (of_nat i) hw m = (if ?ok i then Some (Ret () m) else test_fail 0xfa060001 hw m)"
    if "i < length blocks" for i
    unfolding heap_pattern_check_def using assms that
    by (subst checks_run) (auto intro: sample_aligned simp del: upt_rec_numeral)
  have "for_fw is (\<lambda>i. heap_pattern_check (blocks ! i) (of_nat i)) hw m =
      (if \<forall>i \<in> set is. ?ok i then Some (Ret () m) else test_fail 0xfa060001 hw m)"
    if "\<forall>i \<in> set is. i < length blocks" for "is"
    using that
  proof (induction "is")
    case (Cons i "is")
    have "then_fw (heap_pattern_check (blocks ! i) (of_nat i)) g hw m =
        (if ?ok i then g hw m else test_fail 0xfa060001 hw m)" for g :: "unit fw"
    proof -
      have "bind_fw (test_fail 0xfa060001 :: unit fw) (\<lambda>_. g) hw m = test_fail 0xfa060001 hw m" by simp
      from this [unfolded bind_fw_def] one [of i] Cons.prems show ?thesis by (auto simp: then_fw_def bind_fw_def)
    qed
    with Cons show ?case by auto
  qed (simp add: return_fw_def)
  then show ?thesis unfolding check_blocks_def pattern_words_def by (auto simp del: upt_rec_numeral)
qed

lemma heap_words_distinct:
  assumes "n \<le> 64"
  shows "distinct (concat (map (\<lambda>i. map (heap_word (of_nat i)) [0..<16]) [0..<n]))"
proof -
  have eq: "i = j \<and> s = t" if "heap_word (of_nat i) s = heap_word (of_nat j) t" "i < 64" "j < 64" "s < 16" "t < 16" for i j s t
  proof -
    have cancel: "x XOR (x XOR y) = y" for x y :: u32 by (simp flip: xor.assoc)
    have w: "push_bit 8 (of_nat i) XOR of_nat s = (push_bit 8 (of_nat j) XOR of_nat t :: u32)"
      using arg_cong [OF that(1), of "\<lambda>w. 0xa5000000 XOR w"] by (simp add: heap_word_def xor.assoc cancel)
    have low: "drop_bit 8 (of_nat k :: u32) = 0" if "k < 16" for k
      using that by (simp add: word_unat_eq_iff drop_bit_eq_div unat_div unat_of_nat_small)
    have high: "drop_bit 8 (push_bit 8 (of_nat k :: u32)) = of_nat k" if "k < 64" for k
      using that by (simp add: word_unat_eq_iff drop_bit_eq_div push_bit_eq_mult unat_div unat_word_ariths unat_of_nat_small)
    have "(of_nat i :: u32) = of_nat j"
      using arg_cong [OF w, of "drop_bit 8"] low high that by (simp add: drop_bit_xor)
    then have "unat (of_nat i :: u32) = unat (of_nat j :: u32)" by simp
    then have ij: "i = j" using that by (simp add: unat_of_nat_small)
    have "(of_nat s :: u32) = of_nat t"
      using arg_cong [OF w, of "\<lambda>w. push_bit 8 (of_nat i) XOR w"] by (simp add: ij cancel)
    then have "unat (of_nat s :: u32) = unat (of_nat t :: u32)" by simp
    then have "s = t" using that by (simp add: unat_of_nat_small)
    with ij show ?thesis by simp
  qed
  have "inj_on (heap_word (of_nat i)) {0..<16}" if "i < 64" for i
    using eq [of i _ i] that by (auto simp: inj_on_def)
  then show ?thesis
    using assms
  proof (induction n)
    case (Suc n)
    have "heap_word (of_nat n) s \<noteq> heap_word (of_nat i) t" if "i < n" "s < 16" "t < 16" for i s t
      using eq [of n s i t] that Suc.prems by auto
    with Suc show ?case by (auto simp: distinct_map simp del: upt_rec_numeral)
  qed simp
qed

lemma pattern_words_maps:
  "map fst (pattern_words blocks) = concat (map (\<lambda>b. map (sample_address b) [0..<16]) blocks)"
  "map snd (pattern_words blocks) = concat (map (\<lambda>i. map (heap_word (of_nat i)) [0..<16]) [0..<length blocks])"
proof -
  have "map fst (pattern_words blocks) = concat (map ((\<lambda>b. map (sample_address b) [0..<16]) \<circ> (!) blocks) [0..<length blocks])"
    by (simp add: pattern_words_def map_concat comp_def del: upt_rec_numeral)
  then show "map fst (pattern_words blocks) = concat (map (\<lambda>b. map (sample_address b) [0..<16]) blocks)"
    by (simp only: flip: map_map) (simp add: map_nth del: upt_rec_numeral)
qed (simp add: pattern_words_def map_concat comp_def del: upt_rec_numeral)

text \<open>C39: Filling at most 64 aligned blocks with the pattern and checking them afterwards goes
  through, without any further effect, exactly if no two samples have the same address; otherwise
  the test stops with \<open>0xfa060001\<close>. So the check notices every block that overlaps another one in
  a sampled word.\<close>

theorem heap_pattern_detects_overlap:
  assumes "\<forall>b \<in> set blocks. b AND 3 = 0" "length blocks \<le> 64"
  shows "then_fw (fill_blocks blocks) (check_blocks blocks) hw m =
    (let m' = m\<lparr>mem := put_all (pattern_words blocks) (mem m)\<rparr>
     in if distinct (concat (map (\<lambda>b. map (sample_address b) [0..<16]) blocks))
        then Some (Ret () m') else test_fail 0xfa060001 hw m')"
proof -
  have aligned: "\<forall>(a, v) \<in> set (pattern_words blocks). a AND 3 = 0"
    using assms(1) by (auto simp: pattern_words_def sample_aligned simp del: upt_rec_numeral)
  have "distinct (map snd (pattern_words blocks))"
    unfolding pattern_words_maps using heap_words_distinct [OF assms(2)] .
  from read_back [OF aligned, of "mem m"] one_value_distinct [OF this] show ?thesis
    unfolding Let_def then_fw_apply bind_fw_Ret [OF fill_blocks_run [OF assms(1)]] check_blocks_run [OF assms(1)]
    by (simp add: pattern_words_maps del: upt_rec_numeral)
qed

lemma samples_apart:
  "distinct (concat (map (\<lambda>b. map (sample_address b) [0..<16]) [0x80000000, 0x80000400]))"
  "\<not> distinct (concat (map (\<lambda>b. map (sample_address b) [0..<16]) [0x80000000, 0x80000044]))"
  by code_simp+

theorem heap_pattern_detects_overlap_witness:
  "(let hw = \<lambda>_ _. 0; m = \<lparr>mem = \<lambda>_. 0, trace = []\<rparr>
    in (\<exists>m'. then_fw (fill_blocks [0x80000000, 0x80000400]) (check_blocks [0x80000000, 0x80000400]) hw m = Some (Ret () m')) \<and>
       (\<exists>m'. then_fw (fill_blocks [0x80000000, 0x80000044]) (check_blocks [0x80000000, 0x80000044]) hw m =
          test_fail 0xfa060001 hw m'))"
  using heap_pattern_detects_overlap [of "[0x80000000, 0x80000400]" "\<lambda>_ _. 0" "\<lparr>mem = \<lambda>_. 0, trace = []\<rparr>"]
    heap_pattern_detects_overlap [of "[0x80000000, 0x80000044]" "\<lambda>_ _. 0" "\<lparr>mem = \<lambda>_. 0, trace = []\<rparr>"]
  unfolding Let_def if_P [OF samples_apart(1)] if_not_P [OF samples_apart(2)] by simp blast

section \<open>What the program asks of the kernel\<close>

text \<open>\<open>asks f Q\<close>: when \<open>f\<close> returns, the external calls it has made satisfy \<open>Q\<close>, whatever devices
  and kernel answer.\<close>

fun is_call :: "access \<Rightarrow> bool" where
  "is_call (Call f xs r) = True"
| "is_call _ = False"

definition calls :: "machine \<Rightarrow> access list" where
  "calls m = filter is_call (rev (trace m))"

definition asks :: "'a fw \<Rightarrow> ('a \<Rightarrow> access list \<Rightarrow> bool) \<Rightarrow> bool" where
  "asks f Q \<longleftrightarrow>
     (\<forall>hw m a m'. f hw m = Some (Ret a m') \<longrightarrow> (\<exists>cs. calls m' = calls m @ cs \<and> Q a cs))"

lemma asks_return: "Q a [] \<Longrightarrow> asks (return_fw a) Q"
  by (simp add: asks_def return_fw_def)

lemma asks_of_option: "(\<And>a. x = Some a \<Longrightarrow> Q a []) \<Longrightarrow> asks (of_option_fw x) Q"
  by (auto simp: asks_def of_option_fw_def split: option.splits)

lemma asks_extern: "(\<And>r. Q r [Call f xs r]) \<Longrightarrow> asks (extern_fw f xs) Q"
  by (simp add: asks_def extern_fw_def Let_def calls_def)

lemma asks_mono: "asks f R \<Longrightarrow> (\<And>a cs. R a cs \<Longrightarrow> Q a cs) \<Longrightarrow> asks f Q"
  unfolding asks_def by blast

lemma asks_bind:
  assumes f: "asks f R" and g: "\<And>a cs. R a cs \<Longrightarrow> asks (g a) (\<lambda>b cs'. Q b (cs @ cs'))"
  shows "asks (bind_fw f g) Q"
  unfolding asks_def
proof (intro allI impI)
  fix hw m b m'
  assume "bind_fw f g hw m = Some (Ret b m')"
  then obtain a m1 where 1: "f hw m = Some (Ret a m1)" "g a hw m1 = Some (Ret b m')"
    by (auto simp: bind_fw_def split: option.splits outcome.splits)
  from f 1(1) obtain cs where 2: "calls m1 = calls m @ cs" "R a cs" unfolding asks_def by blast
  from g [OF 2(2)] 1(2) obtain cs' where "calls m' = calls m1 @ cs'" "Q b (cs @ cs')" unfolding asks_def by blast
  with 2(1) show "\<exists>cs. calls m' = calls m @ cs \<and> Q b cs" by simp
qed

text \<open>Computations that make no external call at all.\<close>

abbreviation silent :: "'a fw \<Rightarrow> bool" where
  "silent f \<equiv> asks f (\<lambda>_ cs. cs = [])"

named_theorems silent_intros

lemma silent_basic [silent_intros]:
  "silent (return_fw a)" "silent (mmio_write x v)" "silent (mmio_read x)" "silent hang_fw" "silent (of_option_fw y)"
  "silent (load32 x)" "silent (store32 x v)"
  by (auto simp: asks_def calls_def fw_simps mmio_write_def mmio_read_def load32_def store32_def Let_def split: option.splits)

lemma silent_poll [silent_intros]: "silent (poll_until x ok)"
  unfolding asks_def
proof (intro allI impI)
  fix hw m a m'
  assume "poll_until x ok hw m = Some (Ret a m')"
  then obtain tr rs where "trace m' = Rd x a # tr" "tr = rs @ trace m" "\<forall>y \<in> set rs. \<exists>w. y = Rd x w"
    using poll_until_last by fastforce
  then have "trace m' = (Rd x a # rs) @ trace m" "\<forall>y \<in> set rs. \<not> is_call y" by auto
  then show "\<exists>cs. calls m' = calls m @ cs \<and> cs = []" by (simp add: calls_def filter_empty_conv)
qed

lemma silent_bind: "silent f \<Longrightarrow> (\<And>a. silent (g a)) \<Longrightarrow> silent (bind_fw f g)"
  by (rule asks_bind [where R = "\<lambda>_ cs. cs = []"]) simp_all

lemma silent_then: "silent f \<Longrightarrow> asks g Q \<Longrightarrow> asks (then_fw f g) Q"
  unfolding then_fw_def by (rule asks_bind [where R = "\<lambda>_ cs. cs = []"]) simp_all

lemma silent_seq: "(\<And>f. f \<in> set fs \<Longrightarrow> silent f) \<Longrightarrow> silent (seq_fw fs)"
  by (induction fs) (auto intro: silent_intros silent_then)

lemma silent_for: "(\<And>i. silent (body i)) \<Longrightarrow> silent (for_fw is body)"
  by (induction "is") (auto intro: silent_intros silent_then)

lemma silent_fold: "(\<And>i s. silent (body i s)) \<Longrightarrow> silent (fold_fw is body s)"
  by (induction "is" arbitrary: s) (auto intro: silent_intros silent_bind)

lemma silent_putc [silent_intros]: "silent (uart_putc c)"
  unfolding uart_putc_def by (intro silent_then silent_intros)

lemma silent_puts [silent_intros]: "silent (uart_puts str)"
  by (induction str) (auto intro!: silent_then silent_intros)

lemma silent_flush [silent_intros]: "silent uart_flush"
  unfolding uart_flush_def by (intro silent_then silent_intros)

lemma silent_stage: "silent (stage name)"
  unfolding stage_def by (rule silent_seq) (auto simp del: uart_puts.simps intro: silent_intros)

lemma asks_never: "safely_in (\<lambda>_. True) P f (\<lambda>_. False) \<Longrightarrow> asks f Q"
  unfolding asks_def safely_in_def by (fastforce split: option.splits)

lemma asks_test_fail: "asks (test_fail code) Q"
  by (rule asks_never, rule runs_test_fail) (rule insertI1)

lemma silent_expect: "asks (test_expect b code) (\<lambda>_ cs. cs = [] \<and> b)"
  unfolding test_expect_def by (auto intro: asks_test_fail asks_return)

lemma silent_fill: "silent (heap_pattern_fill block index)"
  unfolding heap_pattern_fill_def by (intro silent_for silent_intros)

lemma silent_check: "silent (check_blocks blocks)"
  unfolding check_blocks_def heap_pattern_check_def
  by (intro silent_for silent_bind silent_intros) (auto intro: asks_test_fail silent_intros)

section \<open>Every block is given back\<close>

text \<open>The blocks the kernel handed out, and those given back to it, in order.\<close>

fun handed_out :: "access list \<Rightarrow> u32 list" where
  "handed_out [] = []"
| "handed_out (Call f xs r # cs) = (if f = ''pvPortMalloc'' \<and> r \<noteq> 0 then r # handed_out cs else handed_out cs)"
| "handed_out (_ # cs) = handed_out cs"

fun given_back :: "access list \<Rightarrow> u32 list" where
  "given_back [] = []"
| "given_back (Call f xs r # cs) = (if f = ''vPortFree'' then hd xs # given_back cs else given_back cs)"
| "given_back (_ # cs) = given_back cs"

lemma handed_out_append [simp]: "handed_out (cs @ cs') = handed_out cs @ handed_out cs'"
  by (induction cs rule: handed_out.induct) simp_all

lemma given_back_append [simp]: "given_back (cs @ cs') = given_back cs @ given_back cs'"
  by (induction cs rule: given_back.induct) simp_all

lemma asks_alloc_blocks:
  "0 \<notin> set blocks \<Longrightarrow> asks (alloc_blocks room blocks) (\<lambda>bs cs. bs = blocks @ handed_out cs \<and> given_back cs = [] \<and> 0 \<notin> set bs)"
proof (induction room arbitrary: blocks)
  case 0
  then show ?case by (auto intro!: asks_return)
next
  case (Suc room)
  have "asks (if p = 0 then return_fw blocks
       else then_fw (heap_pattern_fill p (of_nat (length blocks))) (alloc_blocks room (blocks @ [p])))
     (\<lambda>bs cs. bs = blocks @ handed_out (Call ''pvPortMalloc'' [1024] p # cs) \<and> given_back cs = [] \<and> 0 \<notin> set bs)" for p
  proof (cases "p = 0")
    case False
    with Suc.prems have "asks (alloc_blocks room (blocks @ [p])) (\<lambda>bs cs. bs = (blocks @ [p]) @ handed_out cs \<and> given_back cs = [] \<and> 0 \<notin> set bs)"
      by (intro Suc.IH) simp
    with False show ?thesis
      by (auto intro!: silent_then [OF silent_fill] elim!: asks_mono)
  qed (use Suc.prems in \<open>auto intro: asks_return\<close>)
  then show ?case
    by (auto intro!: asks_bind [OF asks_extern [where Q = "\<lambda>r cs. cs = [Call ''pvPortMalloc'' [1024] r]"]])
qed

lemma asks_kernel_call: "asks (kernel_call f xs) (\<lambda>_ cs. \<exists>r. cs = [Call f xs r])"
  unfolding kernel_call_def then_fw_def
  by (rule asks_bind [OF asks_extern [where Q = "\<lambda>_ cs. \<exists>r. cs = [Call f xs r]"]]) (auto intro: asks_return)

lemma asks_free: "asks (free_block p) (\<lambda>_ cs. handed_out cs = [] \<and> given_back cs = [p])"
  unfolding free_block_def by (rule asks_mono [OF asks_kernel_call]) auto

lemma asks_frees:
  "asks (for_fw is (\<lambda>i. if bs ! i \<noteq> 0 then free_block (bs ! i) else return_fw ()))
     (\<lambda>_ cs. handed_out cs = [] \<and> given_back cs = filter (\<lambda>b. b \<noteq> 0) (map ((!) bs) is))"
proof (induction "is")
  case (Cons i "is")
  have "asks (if bs ! i \<noteq> 0 then free_block (bs ! i) else return_fw ())
      (\<lambda>_ cs. handed_out cs = [] \<and> given_back cs = (if bs ! i \<noteq> 0 then [bs ! i] else []))"
    by (auto intro: asks_free asks_return)
  then show ?case
    unfolding for_fw.simps then_fw_def by (rule asks_bind) (rule asks_mono [OF Cons.IH], simp)
qed (simp add: asks_return)

text \<open>Blocks 1 and 2 are freed first and crossed out; together with the rest this is the list.\<close>

lemma crossed_out:
  assumes "0 \<notin> set bs" "2 < length bs"
  shows "add_mset (bs ! 1) (add_mset (bs ! 2) (mset (filter (\<lambda>b. b \<noteq> 0) (map ((!) (bs[1 := 0, 2 := 0])) [0..<length bs])))) = mset bs"
proof -
  obtain a b c rest where bs: "bs = a # b # c # rest"
    using assms(2) by (cases bs; cases "tl bs"; cases "tl (tl bs)") auto
  have "map ((!) (bs[1 := 0, 2 := 0])) [0..<length bs] = bs[1 := 0, 2 := 0]"
    using map_nth [of "bs[1 := 0, 2 := 0]"] by simp
  moreover have "filter (\<lambda>b. b \<noteq> 0) rest = rest" "a \<noteq> 0"
    using assms(1) bs by (auto simp: filter_id_conv)
  ultimately show ?thesis using bs by (simp add: numeral_2_eq_2)
qed

text \<open>\<open>owes B f\<close>: beyond what it is handed out itself, \<open>f\<close> gives back the blocks \<open>B\<close>.\<close>

definition owes :: "u32 multiset \<Rightarrow> 'a fw \<Rightarrow> bool" where
  "owes B f \<longleftrightarrow> asks f (\<lambda>_ cs. mset (handed_out cs) + B = mset (given_back cs))"

definition neutral :: "'a fw \<Rightarrow> bool" where
  "neutral f \<longleftrightarrow> asks f (\<lambda>_ cs. handed_out cs = [] \<and> given_back cs = [])"

lemma neutral_silent: "silent f \<Longrightarrow> neutral f"
  unfolding neutral_def by (erule asks_mono) simp

lemma neutral_expect: "neutral (test_expect b code)"
  unfolding neutral_def by (rule asks_mono [OF silent_expect]) simp

lemma neutral_call: "f \<noteq> ''pvPortMalloc'' \<Longrightarrow> f \<noteq> ''vPortFree'' \<Longrightarrow> neutral (extern_fw f xs)"
  unfolding neutral_def by (rule asks_extern) simp

lemma neutral_shared: "x \<noteq> ''pvPortMalloc'' \<Longrightarrow> x \<noteq> ''vPortFree'' \<Longrightarrow> neutral (shared_read x)"
  unfolding shared_read_def by (rule neutral_call)

lemma neutral_bind: "neutral f \<Longrightarrow> (\<And>a. neutral (g a)) \<Longrightarrow> neutral (bind_fw f g)"
  unfolding neutral_def by (rule asks_bind [where R = "\<lambda>_ cs. handed_out cs = [] \<and> given_back cs = []"]) simp_all

lemma neutral_then: "neutral f \<Longrightarrow> neutral g \<Longrightarrow> neutral (then_fw f g)"
  unfolding then_fw_def by (rule neutral_bind)

lemma owes_neutral: "neutral f \<Longrightarrow> owes {#} f"
  unfolding owes_def neutral_def by (erule asks_mono) simp

lemma owes_bind: "neutral f \<Longrightarrow> (\<And>a. owes B (g a)) \<Longrightarrow> owes B (bind_fw f g)"
  unfolding owes_def neutral_def
  by (rule asks_bind [where R = "\<lambda>_ cs. handed_out cs = [] \<and> given_back cs = []"]) simp_all

lemma owes_then: "neutral f \<Longrightarrow> owes B g \<Longrightarrow> owes B (then_fw f g)"
  unfolding then_fw_def by (rule owes_bind)

lemma owes_free: "owes B g \<Longrightarrow> owes (add_mset p B) (then_fw (free_block p) g)"
  unfolding owes_def then_fw_def by (rule asks_bind [OF asks_free]) simp

lemma owes_option: "(\<And>a. x = Some a \<Longrightarrow> owes B (g a)) \<Longrightarrow> owes B (bind_fw (of_option_fw x) g)"
  unfolding owes_def
  by (rule asks_bind [where R = "\<lambda>a cs. x = Some a \<and> cs = []"]) (auto intro: asks_of_option)

lemma owes_alloc:
  "(\<And>bs. 0 \<notin> set bs \<Longrightarrow> owes (mset bs) (g bs)) \<Longrightarrow> owes {#} (bind_fw (alloc_blocks room []) g)"
  unfolding owes_def
  by (rule asks_bind [OF asks_alloc_blocks]) (auto elim!: asks_mono [rotated] simp: union_ac)

lemma owes_merged:
  assumes "\<And>p. p \<noteq> 0 \<Longrightarrow> owes (add_mset p B) (g p)"
  shows "owes B (bind_fw (extern_fw ''pvPortMalloc'' [n]) (\<lambda>p. then_fw (test_expect (p \<noteq> 0) code) (g p)))"
  unfolding owes_def
proof (rule asks_bind [OF asks_extern [where Q = "\<lambda>r cs. cs = [Call ''pvPortMalloc'' [n] r]"]], rule refl)
  fix p cs assume "cs = [Call ''pvPortMalloc'' [n] p]"
  with assms [of p, unfolded owes_def]
  show "asks (then_fw (test_expect (p \<noteq> 0) code) (g p)) (\<lambda>b cs'. mset (handed_out (cs @ cs')) + B = mset (given_back (cs @ cs')))"
    unfolding then_fw_def by (intro asks_bind [OF silent_expect]) (auto elim!: asks_mono)
qed

lemma owes_frees:
  assumes "mset (filter (\<lambda>b. b \<noteq> 0) (map ((!) bs) is)) = B" "neutral g"
  shows "owes B (then_fw (for_fw is (\<lambda>i. if bs ! i \<noteq> 0 then free_block (bs ! i) else return_fw ())) g)"
  using assms(2) unfolding owes_def neutral_def then_fw_def
  by (intro asks_bind [OF asks_frees]) (use assms(1) in \<open>auto elim!: asks_mono\<close>)

text \<open>C38: Whenever the heap test comes to its end, it has given every block that the kernel handed
  out back to the kernel exactly once, and nothing else.\<close>

theorem heap_test_balanced:
  "asks heap_acceptance (\<lambda>_ cs. mset (handed_out cs) = mset (given_back cs))"
proof -
  have rest: "owes (mset bs)
      (then_fw (free_block b1) (then_fw (free_block b2)
        (bind_fw (extern_fw ''pvPortMalloc'' [1500]) (\<lambda>merged. then_fw (test_expect (merged \<noteq> 0) c)
          (then_fw (free_block merged)
          (then_fw (for_fw [0..<length bs] (\<lambda>i. if bs[1 := 0, 2 := 0] ! i \<noteq> 0 then free_block (bs[1 := 0, 2 := 0] ! i) else return_fw ()))
            last))))))"
    if "0 \<notin> set bs" "array_get bs 1 = Some b1" "array_get bs 2 = Some b2" "neutral last" for bs b1 b2 c and last :: "unit fw"
  proof -
    have b: "2 < length bs" "b1 = bs ! 1" "b2 = bs ! 2" using that(2,3) by (auto simp: array_get_def split: if_splits)
    show ?thesis
      unfolding crossed_out [OF that(1) b(1), symmetric] b(2,3)
      by (intro owes_free owes_merged owes_frees refl that(4))
  qed
  have "owes {#} heap_acceptance"
    unfolding heap_acceptance_def Let_def
    by (rule owes_then [OF neutral_silent [OF silent_stage]] owes_bind [OF neutral_call] owes_bind [OF neutral_shared]
        owes_alloc owes_then [OF neutral_expect] owes_then [OF neutral_bind [OF neutral_shared neutral_expect]]
        owes_then [OF neutral_silent [OF silent_check]] owes_option rest neutral_bind neutral_call
        neutral_then neutral_expect | assumption | simp)+
  then show ?thesis by (simp add: owes_def)
qed

end
