(* ===== verification/Yield_Workers.thy ===== *)
theory Yield_Workers
  imports Freertos_Acceptance
begin

text \<open>
  The two instances of \<open>yield_worker\<close> of \<open>firmware/apps/freertos/freertos_acceptance.c\<close> as a
  step relation. A worker writes its number into a shared array four times, each time inside a
  critical section, yields after each, and finally counts itself in \<open>yield_done\<close>. The kernel may
  switch between the workers at every point outside of a critical section; so a critical section
  is one step, and \<open>yield_done++\<close>, which is outside of one, is a read and a write.
\<close>

section \<open>The workers\<close>

record yield_shared =
  yield_index :: u32
  yield_order :: "u32 list"
  yield_done :: u32

text \<open>Where a worker is: before or after the critical section of an iteration, at the two
  accesses of \<open>yield_done++\<close>, or at its end.\<close>

datatype yield_pc = Enter nat | Yielding nat | Read_done | Write_done u32 | Deleted

text \<open>One step of the worker with number \<open>wid\<close>; \<open>None\<close> is a write outside of the array.\<close>

fun yield_worker :: "u32 \<Rightarrow> yield_pc \<Rightarrow> yield_shared \<Rightarrow> (yield_pc \<times> yield_shared) option" where
  "yield_worker wid (Enter iteration) g =
     (if iteration < 4
      then case array_put (yield_order g) (unat (yield_index g)) wid of
             None \<Rightarrow> None
           | Some order \<Rightarrow> Some (Yielding iteration, g\<lparr>yield_order := order, yield_index := yield_index g + 1\<rparr>)
      else Some (Read_done, g))"
| "yield_worker wid (Yielding iteration) g = Some (Enter (iteration + 1), g)"
| "yield_worker wid Read_done g = Some (Write_done (yield_done g), g)"
| "yield_worker wid (Write_done v) g = Some (Deleted, g\<lparr>yield_done := v + 1\<rparr>)"
| "yield_worker wid Deleted g = Some (Deleted, g)"

type_synonym yield_system = "yield_pc \<times> yield_pc \<times> yield_shared"

definition yield_start :: yield_system where
  "yield_start = (Enter 0, Enter 0, \<lparr>yield_index = 0, yield_order = replicate 8 0, yield_done = 0\<rparr>)"

text \<open>A step of the system is a step of one of the workers.\<close>

definition yield_turn :: "bool \<Rightarrow> yield_system \<Rightarrow> yield_system option" where
  "yield_turn first s =
     (case s of (a, b, g) \<Rightarrow>
        if first then map_option (\<lambda>(a', g'). (a', b, g')) (yield_worker 1 a g)
        else map_option (\<lambda>(b', g'). (a, b', g')) (yield_worker 2 b g))"

inductive yield_reachable :: "yield_system \<Rightarrow> bool" where
  start: "yield_reachable yield_start"
| turn: "yield_reachable s \<Longrightarrow> yield_turn first s = Some s' \<Longrightarrow> yield_reachable s'"

section \<open>The invariant\<close>

text \<open>How many entries a worker has written.\<close>

fun written :: "yield_pc \<Rightarrow> nat" where
  "written (Enter k) = k"
| "written (Yielding k) = k + 1"
| "written _ = 4"

fun pc_ok :: "yield_pc \<Rightarrow> bool" where
  "pc_ok (Enter k) = (k \<le> 4)"
| "pc_ok (Yielding k) = (k < 4)"
| "pc_ok _ = True"

text \<open>The array holds the entries of both workers, then zeros.\<close>

definition shared_inv :: "yield_shared \<Rightarrow> nat \<Rightarrow> nat \<Rightarrow> bool" where
  "shared_inv g n m \<longleftrightarrow>
     unat (yield_index g) = n + m \<and>
     (\<exists>xs. yield_order g = xs @ replicate (8 - (n + m)) 0 \<and> length xs = n + m \<and> set xs \<subseteq> {1, 2} \<and>
        count_list xs 1 = n \<and> count_list xs 2 = m)"

fun yield_inv :: "yield_system \<Rightarrow> bool" where
  "yield_inv (a, b, g) \<longleftrightarrow> pc_ok a \<and> pc_ok b \<and> shared_inv g (written a) (written b)"

lemma shared_invI:
  "unat (yield_index g) = n + m \<Longrightarrow> yield_order g = xs @ replicate (8 - (n + m)) 0 \<Longrightarrow> length xs = n + m \<Longrightarrow>
   set xs \<subseteq> {1, 2} \<Longrightarrow> count_list xs 1 = n \<Longrightarrow> count_list xs 2 = m \<Longrightarrow> shared_inv g n m"
  unfolding shared_inv_def by blast

lemma shared_inv_done [simp]: "shared_inv (g\<lparr>yield_done := v\<rparr>) n m \<longleftrightarrow> shared_inv g n m"
  by (simp add: shared_inv_def)

lemma written_le: "pc_ok p \<Longrightarrow> written p \<le> 4"
  by (cases p) auto

lemma yield_inv_start: "yield_inv yield_start"
  by (simp add: yield_start_def shared_inv_def)

text \<open>A critical section of either worker.\<close>

lemma critical_section:
  assumes "shared_inv g n m" "n + m < 8" "v \<in> {1, 2}"
  shows "\<exists>order. array_put (yield_order g) (unat (yield_index g)) v = Some order \<and>
    shared_inv (g\<lparr>yield_order := order, yield_index := yield_index g + 1\<rparr>)
      (if v = 1 then n + 1 else n) (if v = 1 then m else m + 1)"
proof -
  from assms(1) obtain xs where xs: "yield_order g = xs @ replicate (8 - (n + m)) 0" "length xs = n + m"
      "set xs \<subseteq> {1, 2}" "count_list xs 1 = n" "count_list xs 2 = m" and index: "unat (yield_index g) = n + m"
    by (auto simp: shared_inv_def)
  obtain k where k: "8 - (n + m) = Suc k" using assms(2) by (metis Suc_diff_Suc)
  have "array_put (yield_order g) (unat (yield_index g)) v = Some ((xs @ [v]) @ replicate k 0)"
    using xs(1,2) k index by (simp add: array_put_def list_update_append)
  moreover
  define n' m' where "n' = (if v = 1 then n + 1 else n)" and "m' = (if v = 1 then m else m + 1)"
  have sum: "n' + m' = n + m + 1" by (simp add: n'_def m'_def)
  have "unat (yield_index g + 1) = n' + m'" unfolding sum using index assms(2) by (simp add: unat_word_ariths)
  moreover have "8 - (n' + m') = k" "length (xs @ [v]) = n' + m'" unfolding sum using k xs(2) by simp_all
  moreover have "set (xs @ [v]) \<subseteq> {1, 2}" using xs(3) assms(3) by auto
  moreover have "count_list (xs @ [v]) 1 = n'" "count_list (xs @ [v]) 2 = m'"
    using xs(4,5) assms(3) by (auto simp: n'_def m'_def)
  ultimately have "array_put (yield_order g) (unat (yield_index g)) v = Some ((xs @ [v]) @ replicate k 0)"
      "shared_inv (g\<lparr>yield_order := (xs @ [v]) @ replicate k 0, yield_index := yield_index g + 1\<rparr>) n' m'"
    by (fast, intro shared_invI [where xs = "xs @ [v]"]) simp_all
  then show ?thesis unfolding n'_def m'_def by blast
qed

lemma turn_ok:
  assumes "yield_inv s"
  shows "\<exists>s'. yield_turn first s = Some s' \<and> yield_inv s'"
proof -
  obtain a b g where s: "s = (a, b, g)" by (cases s)
  with assms have inv: "pc_ok a" "pc_ok b" "shared_inv g (written a) (written b)" by simp_all
  have sum: "written a + written b < 8" if "written a < 4 \<or> written b < 4"
    using that written_le [OF inv(1)] written_le [OF inv(2)] by auto
  show ?thesis
  proof (cases first)
    case True
    show ?thesis
    proof (cases a)
      case (Enter k)
      with critical_section [OF inv(3), of 1] sum inv True s show ?thesis
        by (cases "k < 4") (auto simp: yield_turn_def)
    qed (use True s inv in \<open>auto simp: yield_turn_def\<close>)
  next
    case False
    show ?thesis
    proof (cases b)
      case (Enter k)
      with critical_section [OF inv(3), of 2] sum inv False s show ?thesis
        by (cases "k < 4") (auto simp: yield_turn_def)
    qed (use False s inv in \<open>auto simp: yield_turn_def\<close>)
  qed
qed

lemma reachable_inv: "yield_reachable s \<Longrightarrow> yield_inv s"
proof (induction rule: yield_reachable.induct)
  case (turn s first s')
  with turn_ok [of s first] show ?case by auto
qed (rule yield_inv_start)

section \<open>What the coordinator finds\<close>

text \<open>C36: In every interleaving of the two workers no write leaves the array and its entries are
  worker numbers or still 0; when both workers are through, the index is 8 and each worker has
  exactly four entries, so the checks of the coordinator on the array succeed.\<close>

theorem yield_workers_fill_array:
  assumes "yield_reachable s"
  shows "(\<exists>s'. yield_turn first s = Some s') \<and>
    (case s of (a, b, g) \<Rightarrow>
       list_all (\<lambda>v. v \<le> 2) (yield_order g) \<and> length (yield_order g) = 8 \<and>
       (a = Deleted \<and> b = Deleted \<longrightarrow>
          yield_index g = 8 \<and> count_list (yield_order g) 1 = 4 \<and> count_list (yield_order g) 2 = 4))"
proof
  show "\<exists>s'. yield_turn first s = Some s'" using turn_ok [OF reachable_inv [OF assms]] by blast
next
  obtain a b g where s: "s = (a, b, g)" by (cases s)
  with reachable_inv [OF assms] have inv: "pc_ok a" "pc_ok b" "shared_inv g (written a) (written b)" by simp_all
  then obtain xs where xs: "yield_order g = xs @ replicate (8 - (written a + written b)) 0"
      "length xs = written a + written b" "set xs \<subseteq> {1, 2}" "count_list xs 1 = written a" "count_list xs 2 = written b"
    by (auto simp: shared_inv_def)
  have "list_all (\<lambda>v. v \<le> 2) (yield_order g)" using xs(3) by (auto simp: xs(1) list_all_iff)
  moreover have "length (yield_order g) = 8"
    using xs(2) written_le [OF inv(1)] written_le [OF inv(2)] by (simp add: xs(1))
  moreover have "yield_index g = 8 \<and> count_list (yield_order g) 1 = 4 \<and> count_list (yield_order g) 2 = 4"
    if "a = Deleted" "b = Deleted"
    using xs inv(3) that by (simp add: shared_inv_def word_unat_eq_iff)
  ultimately show "case s of (a, b, g) \<Rightarrow>
       list_all (\<lambda>v. v \<le> 2) (yield_order g) \<and> length (yield_order g) = 8 \<and>
       (a = Deleted \<and> b = Deleted \<longrightarrow>
          yield_index g = 8 \<and> count_list (yield_order g) 1 = 4 \<and> count_list (yield_order g) 2 = 4)"
    by (simp add: s)
qed

text \<open>Runs of a given schedule, to find reachable states by evaluation.\<close>

fun yield_run :: "bool list \<Rightarrow> yield_system \<Rightarrow> yield_system option" where
  "yield_run [] s = Some s"
| "yield_run (first # turns) s = (case yield_turn first s of None \<Rightarrow> None | Some s' \<Rightarrow> yield_run turns s')"

lemma yield_run_reachable: "yield_run turns s = Some s' \<Longrightarrow> yield_reachable s \<Longrightarrow> yield_reachable s'"
proof (induction turns arbitrary: s)
  case (Cons f turns)
  then obtain s1 where "yield_turn f s = Some s1" "yield_run turns s1 = Some s'" by (auto split: option.splits)
  with Cons show ?case by (blast intro: yield_reachable.turn)
qed simp

text \<open>Both workers read \<open>yield_done\<close> before either of them writes it.\<close>

definition racing_turns :: "bool list" where
  "racing_turns = replicate 9 True @ replicate 9 False @ [True, False, True, False]"

lemma racing_run:
  "yield_run racing_turns yield_start =
     Some (Deleted, Deleted, \<lparr>yield_index = 8, yield_order = [1, 1, 1, 1, 2, 2, 2, 2], yield_done = 1\<rparr>)"
  by code_simp

lemma sequential_run:
  "yield_run (replicate 11 True @ replicate 11 False) yield_start =
     Some (Deleted, Deleted, \<lparr>yield_index = 8, yield_order = [1, 1, 1, 1, 2, 2, 2, 2], yield_done = 2\<rparr>)"
  by code_simp

theorem yield_workers_fill_array_witness:
  "\<exists>g. yield_reachable (Deleted, Deleted, g) \<and> yield_index g = 8 \<and> count_list (yield_order g) 1 = 4"
proof -
  have "yield_reachable (Deleted, Deleted, \<lparr>yield_index = 8, yield_order = [1, 1, 1, 1, 2, 2, 2, 2], yield_done = 2\<rparr>)"
    using yield_run_reachable [OF sequential_run yield_reachable.start] .
  with yield_workers_fill_array [OF this, of True] show ?thesis by force
qed

text \<open>A coordinator that always reads 1 never leaves its wait.\<close>

lemma wait_yield_stuck:
  assumes "\<And>hw tr. H hw \<Longrightarrow> hw tr (Ext ''yield_done'' []) = 1"
  shows "safely_in H (\<lambda>_. True) wait_yield_workers (\<lambda>_. False)"
proof -
  have one: "safely_in H (\<lambda>_. True) (shared_read ''yield_done'') (\<lambda>v. v = 1)"
    unfolding shared_read_def by (rule runs_extern_in) (rule assms)
  have stop: "safely_in H (\<lambda>_. True) (test_fail code) Q" for code and Q :: "unit \<Rightarrow> bool"
    by (rule runs_weaken [OF runs_test_fail [of code "{code}"]]) simp_all
  show ?thesis
    unfolding wait_yield_workers_def
  proof (intro runs_bind [OF runs_get_tick] runs_loop [where J = "\<lambda>_. True"] TrueI, rule runs_bind [OF one], goal_cases)
    case (1 start s v)
    then have "v \<noteq> 2" by simp
    then show ?case
      by (auto intro!: runs_bind [OF runs_get_tick] runs_then stop runs_bind [OF runs_shared(1)] runs_kernel_call runs_return)
  qed
qed

text \<open>C37: The increment \<open>yield_done++\<close> is not protected: there is an interleaving in which both
  workers are through and \<open>yield_done\<close> is 1. Then it stays 1, and the coordinator, which waits for
  2, never gets past its wait: the acceptance test fails although every task worked.\<close>

theorem yield_done_lost_update:
  "\<exists>g. yield_reachable (Deleted, Deleted, g) \<and> yield_done g = 1 \<and>
     yield_turn True (Deleted, Deleted, g) = Some (Deleted, Deleted, g) \<and>
     yield_turn False (Deleted, Deleted, g) = Some (Deleted, Deleted, g) \<and>
     safely_in (\<lambda>hw. \<forall>tr. hw tr (Ext ''yield_done'' []) = yield_done g) (\<lambda>_. True) wait_yield_workers (\<lambda>_. False)"
proof -
  let ?g = "\<lparr>yield_index = 8, yield_order = [1, 1, 1, 1, 2, 2, 2, 2], yield_done = 1\<rparr>"
  have "yield_reachable (Deleted, Deleted, ?g)"
    using yield_run_reachable [OF racing_run yield_reachable.start] .
  moreover have "safely_in (\<lambda>hw. \<forall>tr. hw tr (Ext ''yield_done'' []) = yield_done ?g) (\<lambda>_. True) wait_yield_workers (\<lambda>_. False)"
    by (rule wait_yield_stuck) simp
  ultimately show ?thesis
    by (intro exI [of _ ?g] conjI) (simp_all add: yield_turn_def)
qed

end
