(* ===== verification/Screen.thy ===== *)
theory Screen
  imports Bam2_Valid
begin

text \<open>
  What the viewer sees: the abstract movie of a BAM2 file is a sequence of screens, each made from
  the one before by the pairs of one frame. Drawing refines it: read as a screen, the framebuffer
  always shows the movie at the frame the player has reached.
\<close>

section \<open>The movie\<close>

text \<open>A screen is the contents of the 96 bitmap words.\<close>

type_synonym screen = "nat \<Rightarrow> u32"

definition apply_frame :: "image \<Rightarrow> nat \<Rightarrow> screen \<Rightarrow> screen" where
  "apply_frame img c s =
     fold (\<lambda>j s. s(unat (img (of_nat (Suc c + 2 * j))) := img (of_nat (Suc c + 2 * j + 1))))
       [0..<unat (img (of_nat c))] s"

primrec movie :: "image \<Rightarrow> screen \<Rightarrow> nat \<Rightarrow> screen" where
  "movie img s 0 = s"
| "movie img s (Suc k) = apply_frame img (frame_pos img k) (movie img s k)"

section \<open>The framebuffer as a screen\<close>

fun show_access :: "access \<Rightarrow> screen \<Rightarrow> screen" where
  "show_access (Wr a v) s =
     (if TINYBUS_VGA_FB_BASE \<le> a \<and> a < TINYBUS_VGA_FB_BASE + 4 * VGA_BITMAP_WORDS
      then s(unat (a - TINYBUS_VGA_FB_BASE) div 4 := v) else s)"
| "show_access _ s = s"

definition shown :: "access list \<Rightarrow> screen \<Rightarrow> screen" where
  "shown es s = fold show_access es s"

lemma show_bitmap_write:
  assumes "i < 96"
  shows "show_access (Wr (TINYBUS_VGA_FB_BASE + i * 4) v) s = s(unat i := v)"
proof -
  have i: "unat i < 96" using assms by (simp add: word_less_nat_alt)
  then have four: "unat (i * 4) = unat i * 4" by (simp add: unat_word_ariths)
  moreover have "unat (TINYBUS_VGA_FB_BASE + i * 4) = 0x10010000 + unat i * 4"
    using i four by (simp add: unat_word_ariths addr_defs)
  ultimately show ?thesis
    using i by (simp add: word_le_nat_alt word_less_nat_alt addr_defs VGA_BITMAP_WORDS_def)
qed

lemma shown_frame:
  assumes "\<forall>j < unat (img (of_nat c)). img (of_nat (Suc c + 2 * j)) < 96"
  shows "shown (frame_writes img c) s = apply_frame img c s"
proof -
  have "fold show_access (map (\<lambda>j. pair_write img (Suc c + 2 * j)) js) s =
      fold (\<lambda>j s. s(unat (img (of_nat (Suc c + 2 * j))) := img (of_nat (Suc c + 2 * j + 1)))) js s"
    if "\<forall>j \<in> set js. j < unat (img (of_nat c))" for js s
    using that assms
    by (induction js arbitrary: s) (simp_all add: pair_write_def show_bitmap_write del: show_access.simps)
  then show ?thesis by (simp add: shown_def frame_writes_def apply_frame_def)
qed

lemma shown_frames:
  assumes "bam2_valid img" "i \<le> j" "j \<le> unat (img 4)"
  shows "shown (concat (map (\<lambda>k. frame_writes img (frame_pos img k)) [i..<j])) (movie img s i) = movie img s j"
  using assms(2,3)
proof (induction j rule: dec_induct)
  case (step j)
  then have "good_frame img (unat (img 8) div 4) (j = 0) (frame_pos img j)"
    using assms(1) by (simp add: bam2_valid_def)
  then have "shown (frame_writes img (frame_pos img j)) s' = apply_frame img (frame_pos img j) s'" for s'
    by (intro shown_frame) (simp add: good_frame_def)
  with step show ?case by (simp add: shown_def)
qed (simp add: shown_def)

section \<open>Refinement\<close>

text \<open>C7: If the framebuffer shows the movie of a valid file at frame \<open>i\<close>, then after drawing it
  shows the movie at the first frame that is not due, and the player stands there; so the
  framebuffer, read as a screen, follows the abstract movie and no frame is left out.\<close>

theorem drawing_refines_movie:
  assumes "bam2_valid img" "i \<le> unat (img 4)"
  shows "does hw (draw_frames img (header_info img) elapsed (of_nat i) (of_nat (frame_pos img i)))
    (\<lambda>r es. let j = max i (min (unat (img 4)) (unat elapsed div 6 + 1))
       in r = (of_nat j, of_nat (frame_pos img j)) \<and> shown es (movie img s i) = movie img s j)"
proof -
  let ?j = "max i (min (unat (img 4)) (unat elapsed div 6 + 1))"
  have "i \<le> ?j" "?j \<le> unat (img 4)" using assms(2) by simp_all
  from shown_frames [OF assms(1) this] show ?thesis
    by (intro does_mono [OF draw_frames_does [OF assms, unfolded due_frames_def]]) (simp add: Let_def)
qed

theorem drawing_refines_movie_witness:
  "does (\<lambda>_ _. 0) (draw_frames loud_file (header_info loud_file) 0 0 12)
     (\<lambda>r es. r = (1, 205) \<and> shown es (\<lambda>_. 7) = apply_frame loud_file 12 (\<lambda>_. 7))"
proof -
  have "frame_pos loud_file (Suc 0) = 205" by (simp add: frame_pos_def frame_end_def)
  moreover have "movie loud_file (\<lambda>_. 7) 1 = apply_frame loud_file 12 (\<lambda>_. 7)" by (simp add: frame_pos_def)
  ultimately show ?thesis
    using drawing_refines_movie [OF loud_file_valid, of 0 "\<lambda>_ _. 0" 0 "\<lambda>_. 7"] loud_file_valid
    by (auto elim!: does_mono simp: frame_pos_def)
qed

end
