(* ===== verification/Timer_Irq.thy ===== *)
theory Timer_Irq
  imports Testlib Rtos_Port
begin

text \<open>
  The two bare-metal interrupt programs \<open>apps/irq/timer_irq_smoke.c\<close> and
  \<open>apps/irq/timer_demo.c\<close>. The first one proves its own context: its loop adds a constant to a
  signature kept in register \<open>s1\<close> and counts its rounds in memory, and when three timer
  interrupts have come it compares the two. The loop is a list of instructions with addresses,
  and an interrupt may be taken between any two of them: the trap entry of \<open>Trap_Frame\<close> saves
  the registers, the dispatcher runs and may leave every register and every byte outside of the
  frame changed, and the restore takes the frame back.
\<close>

section \<open>Constants and variables\<close>

definition TIMER_INTERVAL :: u64 where "TIMER_INTERVAL = 1000"
definition SIGNATURE_SEED :: u32 where "SIGNATURE_SEED = 0x13572468"
definition SIGNATURE_STEP :: u32 where "SIGNATURE_STEP = 0x31"

text \<open>The static variables; all of them start as 0.\<close>

record irq_vars =
  timer_irq_tick_count :: u32
  timer_loop_count :: u32
  irq_next_compare :: u64

definition irq_bss :: irq_vars where
  "irq_bss = \<lparr>timer_irq_tick_count = 0, timer_loop_count = 0, irq_next_compare = 0\<rparr>"

section \<open>The dispatcher of the interrupt test\<close>

definition timer_irq_trap_dispatch :: "u32 \<Rightarrow> irq_vars \<Rightarrow> (u32 \<times> irq_vars) fw" where
  "timer_irq_trap_dispatch frame v =
     bind_fw (load32 (slot frame 34)) (\<lambda>cause.
       if cause \<noteq> MACHINE_TIMER_INTERRUPT_CAUSE
       then then_fw (seq_fw [uart_puts (bytes ''timer irq fail: unexpected mcause=''),
                bind_fw (load32 (slot frame 34)) uart_put_hex, uart_putc 10, uart_flush])
              (then_fw (mmio_write TINYBUS_TEST_EXIT 0xdead0001) hang_fw)
       else let v1 = v\<lparr>timer_irq_tick_count := timer_irq_tick_count v + 1\<rparr>;
                v2 = v1\<lparr>irq_next_compare := irq_next_compare v1 + TIMER_INTERVAL\<rparr>
         in then_fw (machine_timer_set_compare (irq_next_compare v2)) (return_fw (frame, v2)))"

section \<open>The main program\<close>

text \<open>Up to the loop: banner, trap vector, first compare value, interrupts on.\<close>

definition timer_irq_setup :: "u32 \<Rightarrow> irq_vars \<Rightarrow> hart \<Rightarrow> (irq_vars \<times> hart) fw" where
  "timer_irq_setup trap_entry v h =
     then_fw (seq_fw [uart_puts (bytes ''timer irq test start'' @ [10]), uart_flush])
       (let h1 = trap_init trap_entry h
        in bind_fw machine_timer_now (\<lambda>now.
           let v1 = v\<lparr>irq_next_compare := now + TIMER_INTERVAL\<rparr>
           in then_fw (machine_timer_set_compare (irq_next_compare v1))
                (return_fw (v1, trap_enable_machine_timer h1))))"

text \<open>The loop \<open>while (timer_irq_tick_count < 3u)\<close> as instructions: both counters are volatile, so
  each access is a load or a store of its own, through the register \<open>tmp\<close> of the compiler's
  choice; the signature is \<open>s1\<close>, that is \<open>x9\<close>.\<close>

datatype irq_point =
  Load_Tick | Test_Tick | Add_Step | Load_Loops | Add_Loops | Store_Loops | Loop_Exit

definition set_reg :: "nat \<Rightarrow> u32 \<Rightarrow> hart \<Rightarrow> hart" where
  "set_reg r w h = h\<lparr>regs := (regs h)(r := w)\<rparr>"

fun timer_irq_loop :: "nat \<Rightarrow> irq_point \<Rightarrow> hart \<times> irq_vars \<Rightarrow> irq_point \<times> hart \<times> irq_vars" where
  "timer_irq_loop tmp Load_Tick (h, v) = (Test_Tick, set_reg tmp (timer_irq_tick_count v) h, v)"
| "timer_irq_loop tmp Test_Tick (h, v) = (if regs h tmp < 3 then Add_Step else Loop_Exit, h, v)"
| "timer_irq_loop tmp Add_Step (h, v) = (Load_Loops, set_reg 9 (regs h 9 + SIGNATURE_STEP) h, v)"
| "timer_irq_loop tmp Load_Loops (h, v) = (Add_Loops, set_reg tmp (timer_loop_count v) h, v)"
| "timer_irq_loop tmp Add_Loops (h, v) = (Store_Loops, set_reg tmp (regs h tmp + 1) h, v)"
| "timer_irq_loop tmp Store_Loops (h, v) = (Load_Tick, h, v\<lparr>timer_loop_count := regs h tmp\<rparr>)"
| "timer_irq_loop tmp Loop_Exit (h, v) = (Loop_Exit, h, v)"

text \<open>After the loop: the check and the report. Between them the program clears the timer bit of
  \<open>mie\<close>, so that no tick comes in while the report is sent.\<close>

definition timer_irq_mask :: "hart \<Rightarrow> hart" where
  "timer_irq_mask h = h\<lparr>csr_mie := csr_mie h AND NOT (push_bit 7 1)\<rparr>"

definition timer_irq_finish :: "u32 \<Rightarrow> irq_vars \<Rightarrow> 'a fw" where
  "timer_irq_finish signature v =
     (let expected = SIGNATURE_SEED + timer_loop_count v * SIGNATURE_STEP
      in if signature \<noteq> expected
         then then_fw (seq_fw [uart_puts (bytes ''timer irq fail: context corrupt'' @ [10]), uart_flush])
                (then_fw (mmio_write TINYBUS_TEST_EXIT 0xdead0002) hang_fw)
         else then_fw (seq_fw [uart_puts (bytes ''timer irq pass: ticks=''),
                  uart_put_dec (timer_irq_tick_count v), uart_puts (bytes '' loops=''),
                  uart_put_dec (timer_loop_count v), uart_putc 10, uart_flush])
                (then_fw (mmio_write TINYBUS_TEST_EXIT 1) hang_fw))"

section \<open>Interrupts between instructions\<close>

definition irq_enabled :: "hart \<Rightarrow> bool" where
  "irq_enabled h \<longleftrightarrow> bit (csr_mstatus h) 3 \<and> bit (csr_mie h) 7"

definition take_timer_irq :: "u32 \<Rightarrow> hart \<Rightarrow> hart" where
  "take_timer_irq pc h = take_trap MACHINE_TIMER_INTERRUPT_CAUSE pc h"

lemma timer_irq_mask_masks: "\<not> irq_enabled (timer_irq_mask h)"
  by (simp add: irq_enabled_def timer_irq_mask_def bit_simps)

record irq_system =
  sys_pc :: u32
  sys_hart :: hart
  sys_vars :: irq_vars
  sys_mach :: machine

text \<open>One interrupt: entry, dispatcher, and restore from the memory \<open>mm'\<close> and with the registers
  \<open>rs\<close> that the compiled dispatcher leaves; its frame is the 36 words it was given.\<close>

definition irq_saved :: "irq_system \<Rightarrow> u32 \<times> memory" where
  "irq_saved s = trap_entry_save (take_timer_irq (sys_pc s) (sys_hart s)) (mem (sys_mach s))"

definition frame_kept :: "irq_system \<Rightarrow> memory \<Rightarrow> bool" where
  "frame_kept s mm' \<longleftrightarrow>
     (\<forall>i < 36. get32 mm' (slot (fst (irq_saved s)) i) =
        get32 (snd (irq_saved s)) (slot (fst (irq_saved s)) i))"

definition timer_interrupt :: "hw \<Rightarrow> memory \<Rightarrow> (nat \<Rightarrow> u32) \<Rightarrow> irq_system \<Rightarrow> irq_system option" where
  "timer_interrupt hw mm' rs s =
     (case timer_irq_trap_dispatch (fst (irq_saved s)) (sys_vars s) hw
          ((sys_mach s)\<lparr>mem := snd (irq_saved s)\<rparr>) of
        Some (Ret (frame, v) m') \<Rightarrow>
          (case trap_restore_frame frame mm' ((take_timer_irq (sys_pc s) (sys_hart s))\<lparr>regs := rs\<rparr>) of
             (pc, h) \<Rightarrow> Some \<lparr>sys_pc = pc, sys_hart = h, sys_vars = v, sys_mach = m'\<lparr>mem := mm'\<rparr>\<rparr>)
      | _ \<Rightarrow> None)"

text \<open>\<open>irq_reachable at tmp hw s0 n s\<close>: after some instructions and exactly \<open>n\<close> interrupts the
  program that was in state \<open>s0\<close> is in state \<open>s\<close>. Instruction \<open>p\<close> is at address \<open>at p\<close>.\<close>

inductive irq_reachable ::
    "(irq_point \<Rightarrow> u32) \<Rightarrow> nat \<Rightarrow> hw \<Rightarrow> irq_system \<Rightarrow> nat \<Rightarrow> irq_system \<Rightarrow> bool"
  for at :: "irq_point \<Rightarrow> u32" and tmp :: nat and hw :: hw and s0 :: irq_system where
  irq_start: "irq_reachable at tmp hw s0 0 s0"
| irq_instruction: "irq_reachable at tmp hw s0 n s \<Longrightarrow> sys_pc s = at p \<Longrightarrow> p \<noteq> Loop_Exit \<Longrightarrow>
    timer_irq_loop tmp p (sys_hart s, sys_vars s) = (q, h, v) \<Longrightarrow>
    irq_reachable at tmp hw s0 n (s\<lparr>sys_pc := at q, sys_hart := h, sys_vars := v\<rparr>)"
| irq_interrupt: "irq_reachable at tmp hw s0 n s \<Longrightarrow> irq_enabled (sys_hart s) \<Longrightarrow>
    frame_kept s mm' \<Longrightarrow> timer_interrupt hw mm' rs s = Some s' \<Longrightarrow>
    irq_reachable at tmp hw s0 (Suc n) s'"

text \<open>The program as it enters its loop: \<open>timer_irq_setup\<close> has returned and \<open>s1\<close> is loaded.\<close>

definition irq_loop_entry :: "(irq_point \<Rightarrow> u32) \<Rightarrow> irq_vars \<Rightarrow> hart \<Rightarrow> machine \<Rightarrow> irq_system" where
  "irq_loop_entry at v h m =
     \<lparr>sys_pc = at Load_Tick, sys_hart = set_reg 9 SIGNATURE_SEED h, sys_vars = v, sys_mach = m\<rparr>"

text \<open>What the compiler and the ABI provide: word-aligned instructions at different addresses, a
  scratch register that is not \<open>x0\<close>, \<open>sp\<close> or \<open>s1\<close>.\<close>

definition compiled_loop :: "(irq_point \<Rightarrow> u32) \<Rightarrow> nat \<Rightarrow> bool" where
  "compiled_loop at tmp \<longleftrightarrow> inj at \<and> (\<forall>p. at p AND 3 = 0) \<and> tmp \<in> {1, 3, 4, 5, 6, 7, 8} \<union> {10..<32}"

section \<open>The dispatcher\<close>

lemma timer_irq_dispatch_run:
  assumes "frame AND 3 = 0" "get32 (mem m) (slot frame 34) = MACHINE_TIMER_INTERRUPT_CAUSE"
  shows "timer_irq_trap_dispatch frame v hw m =
    Some (Ret (frame, v\<lparr>timer_irq_tick_count := timer_irq_tick_count v + 1,
        irq_next_compare := irq_next_compare v + 1000\<rparr>)
      (m\<lparr>trace := [Wr TINYBUS_MTIMECMP_LO (ucast (irq_next_compare v + 1000)),
         Wr TINYBUS_MTIMECMP_HI (ucast (drop_bit 32 (irq_next_compare v + 1000))),
         Wr TINYBUS_MTIMECMP_LO 0xffffffff] @ trace m\<rparr>))"
  using assms by (simp add: timer_irq_trap_dispatch_def Let_def fw_simps bind_word_access
      set_compare_run TIMER_INTERVAL_def)

lemma runs_load32_slot [run_intros]:
  "a AND 3 = 0 \<Longrightarrow> safely_in H P (load32 (slot a i)) (\<lambda>_. True)"
  by (simp add: safely_in_def load32_slot)

lemma timer_irq_dispatch_unexpected:
  assumes "frame AND 3 = 0" "get32 (mem m) (slot frame 34) \<noteq> MACHINE_TIMER_INTERRUPT_CAUSE"
  shows "case timer_irq_trap_dispatch frame v hw m of
    None \<Rightarrow> True | Some (Stop m') \<Rightarrow> stopped_with {0xdead0001} m' | _ \<Rightarrow> False"
proof -
  let ?report = "then_fw (seq_fw [uart_puts (bytes ''timer irq fail: unexpected mcause=''),
      bind_fw (load32 (slot frame 34)) uart_put_hex, uart_putc 10, uart_flush])
    (then_fw (mmio_write TINYBUS_TEST_EXIT 0xdead0001) hang_fw) :: (u32 \<times> irq_vars) fw"
  have "runs {0xdead0001} ?report (\<lambda>_. False)"
    by (rule runs_then [OF runs_seq runs_exit])
      (auto simp del: uart_puts.simps intro: run_intros runs_bind assms(1))
  moreover have "timer_irq_trap_dispatch frame v hw m = ?report hw m"
    using assms by (simp add: timer_irq_trap_dispatch_def bind_word_access del: uart_puts.simps seq_fw.simps)
  ultimately show ?thesis by (auto simp: safely_in_def split: option.splits outcome.splits)
qed

section \<open>One interrupt\<close>

lemma take_timer_irq_simps [simp]:
  "regs (take_timer_irq pc h) = regs h" "csr_mie (take_timer_irq pc h) = csr_mie h"
  "csr_mcause (take_timer_irq pc h) = MACHINE_TIMER_INTERRUPT_CAUSE"
  "csr_mepc (take_timer_irq pc h) = pc AND NOT 3"
  "bit (csr_mstatus (take_timer_irq pc h)) 7 = bit (csr_mstatus h) 3"
  by (simp_all add: take_timer_irq_def)

lemma enabled_after_irq:
  "bit (csr_mstatus h) 3 \<Longrightarrow> bit (mret_mstatus (csr_mstatus (take_timer_irq pc h))) 3"
  by (simp add: take_timer_irq_def)

lemma irq_saved_words:
  assumes "frame_kept s mm'" "i < 36"
  shows "get32 mm' (slot (fst (irq_saved s)) i) =
    (if i = 0 \<or> i = 35 then 0 else if i = 32 then sys_pc s AND NOT 3
     else if i = 33 then csr_mstatus (take_timer_irq (sys_pc s) (sys_hart s))
     else if i = 34 then MACHINE_TIMER_INTERRUPT_CAUSE else regs (sys_hart s) i)"
  using assms saved_words [OF assms(2)] by (simp add: frame_kept_def irq_saved_def)

lemma irq_frame_aligned:
  assumes "regs (sys_hart s) 2 AND 3 = 0"
  shows "fst (irq_saved s) AND 3 = 0"
proof -
  have "slot (regs (sys_hart s) 2) 1073741788 = regs (sys_hart s) 2 - 144" by (simp add: slot_def)
  then show ?thesis
    using slot_aligned [OF assms, of 1073741788]
    by (simp add: irq_saved_def trap_entry_save_def Let_def TRAP_FRAME_SIZE_def)
qed

lemma timer_interrupt_result:
  assumes sp: "regs (sys_hart s) 2 AND 3 = 0" and pc: "sys_pc s AND 3 = 0"
    and kept: "frame_kept s mm'" and en: "irq_enabled (sys_hart s)"
  obtains s' where "timer_interrupt hw mm' rs s = Some s'" "sys_pc s' = sys_pc s"
    "\<And>i. i < 32 \<Longrightarrow> i \<noteq> 0 \<Longrightarrow> regs (sys_hart s') i = regs (sys_hart s) i"
    "irq_enabled (sys_hart s')"
    "sys_vars s' = (sys_vars s)\<lparr>timer_irq_tick_count := timer_irq_tick_count (sys_vars s) + 1,
        irq_next_compare := irq_next_compare (sys_vars s) + 1000\<rparr>"
proof -
  let ?fp = "fst (irq_saved s)"
  have same: "frame_kept s (snd (irq_saved s))" by (simp add: frame_kept_def)
  have cause: "get32 (snd (irq_saved s)) (slot ?fp 34) = MACHINE_TIMER_INTERRUPT_CAUSE"
    using irq_saved_words [OF same, of 34] by simp
  obtain m' where run: "timer_irq_trap_dispatch ?fp (sys_vars s) hw ((sys_mach s)\<lparr>mem := snd (irq_saved s)\<rparr>) =
      Some (Ret (?fp, (sys_vars s)\<lparr>timer_irq_tick_count := timer_irq_tick_count (sys_vars s) + 1,
        irq_next_compare := irq_next_compare (sys_vars s) + 1000\<rparr>) m')"
    using timer_irq_dispatch_run [OF irq_frame_aligned [OF sp]] cause by simp
  have words: "get32 mm' (slot ?fp i) = regs (sys_hart s) i" if "i < 32" "i \<noteq> 0" for i
    using irq_saved_words [OF kept, of i] that by simp
  have "get32 mm' (slot ?fp 32) = sys_pc s" "get32 mm' (slot ?fp 33) = csr_mstatus (take_timer_irq (sys_pc s) (sys_hart s))"
    using irq_saved_words [OF kept, of 32] irq_saved_words [OF kept, of 33] aligned_low_bits [OF pc] by simp_all
  with run words en that show thesis
    by (simp add: timer_interrupt_def trap_restore_frame_def Let_def irq_enabled_def enabled_after_irq)
qed

section \<open>The invariant of the loop\<close>

text \<open>Between the addition to the signature and the store of the counter the signature is one
  step ahead. \<open>v0\<close> are the variables at the entry of the loop.\<close>

fun steps_ahead :: "irq_point \<Rightarrow> u32" where
  "steps_ahead Load_Loops = 1"
| "steps_ahead Add_Loops = 1"
| "steps_ahead Store_Loops = 1"
| "steps_ahead _ = 0"

definition irq_invariant ::
    "(irq_point \<Rightarrow> u32) \<Rightarrow> nat \<Rightarrow> irq_vars \<Rightarrow> nat \<Rightarrow> irq_point \<Rightarrow> irq_system \<Rightarrow> bool" where
  "irq_invariant at tmp v0 n p s \<longleftrightarrow>
     sys_pc s = at p \<and> regs (sys_hart s) 2 AND 3 = 0 \<and> irq_enabled (sys_hart s) \<and>
     timer_irq_tick_count (sys_vars s) = of_nat n \<and>
     irq_next_compare (sys_vars s) = irq_next_compare v0 + of_nat n * 1000 \<and>
     regs (sys_hart s) 9 = SIGNATURE_SEED + (timer_loop_count (sys_vars s) + steps_ahead p) * SIGNATURE_STEP \<and>
     (p = Add_Loops \<longrightarrow> regs (sys_hart s) tmp = timer_loop_count (sys_vars s)) \<and>
     (p = Store_Loops \<longrightarrow> regs (sys_hart s) tmp = timer_loop_count (sys_vars s) + 1)"

lemma irq_invariant_start:
  assumes "irq_enabled h" "regs h 2 AND 3 = 0" "timer_irq_tick_count v = 0" "timer_loop_count v = 0"
  shows "irq_invariant at tmp v 0 Load_Tick (irq_loop_entry at v h m)"
  using assms by (simp add: irq_invariant_def irq_loop_entry_def set_reg_def irq_enabled_def)

lemma irq_invariant_instruction:
  assumes "compiled_loop at tmp" "irq_invariant at tmp v0 n p s"
    and "timer_irq_loop tmp p (sys_hart s, sys_vars s) = (q, h, v)"
  shows "irq_invariant at tmp v0 n q (s\<lparr>sys_pc := at q, sys_hart := h, sys_vars := v\<rparr>)"
  using assms
  by (cases p) (auto simp: irq_invariant_def compiled_loop_def set_reg_def irq_enabled_def
      algebra_simps split: if_splits)

lemma irq_invariant_interrupt:
  assumes c: "compiled_loop at tmp" and inv: "irq_invariant at tmp v0 n p s"
    and kept: "frame_kept s mm'" and run: "timer_interrupt hw mm' rs s = Some s'"
  shows "irq_invariant at tmp v0 (Suc n) p s'"
proof -
  have pc: "sys_pc s AND 3 = 0" and sp: "regs (sys_hart s) 2 AND 3 = 0" and en: "irq_enabled (sys_hart s)"
    using c inv by (simp_all add: irq_invariant_def compiled_loop_def)
  have tmp: "tmp < 32" "tmp \<noteq> 0" using c by (auto simp: compiled_loop_def)
  obtain s'' where s'': "timer_interrupt hw mm' rs s = Some s''" "sys_pc s'' = sys_pc s"
    "\<And>i. i < 32 \<Longrightarrow> i \<noteq> 0 \<Longrightarrow> regs (sys_hart s'') i = regs (sys_hart s) i"
    "irq_enabled (sys_hart s'')"
    "sys_vars s'' = (sys_vars s)\<lparr>timer_irq_tick_count := timer_irq_tick_count (sys_vars s) + 1,
        irq_next_compare := irq_next_compare (sys_vars s) + 1000\<rparr>"
    using timer_interrupt_result [OF sp pc kept en, of hw rs] by metis
  have "regs (sys_hart s'') tmp = regs (sys_hart s) tmp" "regs (sys_hart s'') 2 = regs (sys_hart s) 2"
    "regs (sys_hart s'') 9 = regs (sys_hart s) 9"
    using tmp by (simp_all add: s''(3))
  with s''(2,4,5) inv have "irq_invariant at tmp v0 (Suc n) p s''"
    by (simp add: irq_invariant_def algebra_simps)
  then show ?thesis using s''(1) run by simp
qed

lemma irq_reachable_invariant:
  assumes "irq_reachable at tmp hw s0 n s" "compiled_loop at tmp" "irq_invariant at tmp v0 0 Load_Tick s0"
  shows "\<exists>p. irq_invariant at tmp v0 n p s"
  using assms
proof (induction rule: irq_reachable.induct)
  case (irq_instruction n s p q h v)
  then obtain p' where p': "irq_invariant at tmp v0 n p' s" by auto
  then have "p' = p"
    using irq_instruction by (simp add: irq_invariant_def compiled_loop_def inj_eq)
  with p' irq_instruction show ?case using irq_invariant_instruction by blast
next
  case (irq_interrupt n s mm' rs s')
  then show ?case using irq_invariant_interrupt by blast
qed auto

section \<open>The loop ends\<close>

fun timer_irq_steps :: "(irq_point \<Rightarrow> u32) \<Rightarrow> nat \<Rightarrow> nat \<Rightarrow> irq_point \<Rightarrow> irq_system \<Rightarrow> irq_point \<times> irq_system" where
  "timer_irq_steps at tmp 0 p s = (p, s)"
| "timer_irq_steps at tmp (Suc k) p s =
     (case timer_irq_loop tmp p (sys_hart s, sys_vars s) of (q, h, v) \<Rightarrow>
        timer_irq_steps at tmp k q (s\<lparr>sys_pc := at q, sys_hart := h, sys_vars := v\<rparr>))"

lemma timer_irq_exit_stays: "fst (timer_irq_steps at tmp k Loop_Exit s) = Loop_Exit"
  by (induction k arbitrary: s) simp_all

lemma timer_irq_steps_reachable:
  assumes "irq_reachable at tmp hw s0 n s" "sys_pc s = at p"
  shows "\<exists>s'. irq_reachable at tmp hw s0 n s' \<and> sys_pc s' = at (fst (timer_irq_steps at tmp k p s))"
  using assms
proof (induction k arbitrary: p s)
  case (Suc k)
  obtain q h v where run: "timer_irq_loop tmp p (sys_hart s, sys_vars s) = (q, h, v)" by (metis prod.exhaust)
  let ?s = "s\<lparr>sys_pc := at q, sys_hart := h, sys_vars := v\<rparr>"
  show ?case
  proof (cases "p = Loop_Exit")
    case True
    with Suc.prems show ?thesis by (metis timer_irq_exit_stays)
  next
    case False
    then have "irq_reachable at tmp hw s0 n ?s" using Suc.prems run by (intro irq_instruction) simp_all
    with Suc.IH [of ?s q] run show ?thesis by simp
  qed
qed auto

text \<open>Once three ticks are counted seven instructions are enough, wherever the loop stands.\<close>

lemma timer_irq_exits:
  assumes "\<not> timer_irq_tick_count (sys_vars s) < 3"
  shows "fst (timer_irq_steps at tmp 7 p s) = Loop_Exit"
  using assms by (cases p) (simp_all add: numeral_eq_Suc set_reg_def)

section \<open>The set-up and the report\<close>

lemma timer_irq_setup_returns:
  assumes "timer_irq_setup te v0 h hw m0 = Some (Ret (v, h1) m)"
  shows "irq_enabled h1 \<and> regs h1 = regs h \<and> csr_mtvec h1 = te \<and>
    timer_irq_tick_count v = timer_irq_tick_count v0 \<and> timer_loop_count v = timer_loop_count v0"
proof -
  have "irq_enabled (trap_enable_machine_timer (trap_init te h)) \<and>
      regs (trap_enable_machine_timer (trap_init te h)) = regs h \<and>
      csr_mtvec (trap_enable_machine_timer (trap_init te h)) = te"
    by (simp add: trap_enable_machine_timer_def trap_enable_machine_timer_source_def trap_init_def
        irq_enabled_def Let_def bit_simps)
  with assms show ?thesis
    by (auto simp: timer_irq_setup_def then_fw_def bind_fw_def return_fw_def Let_def
        simp del: uart_puts.simps seq_fw.simps split: option.splits outcome.splits)
qed

lemma timer_irq_finish_passes:
  assumes "signature = SIGNATURE_SEED + timer_loop_count v * SIGNATURE_STEP"
  shows "runs {1} (timer_irq_finish signature v) Q"
proof -
  have "runs {1} (then_fw (seq_fw [uart_puts (bytes ''timer irq pass: ticks=''),
                  uart_put_dec (timer_irq_tick_count v), uart_puts (bytes '' loops=''),
                  uart_put_dec (timer_loop_count v), uart_putc 10, uart_flush])
                (then_fw (mmio_write TINYBUS_TEST_EXIT 1) hang_fw)) Q"
    by (rule runs_then [OF runs_seq runs_exit]) (auto simp del: uart_puts.simps intro: run_intros)
  with assms show ?thesis by (simp add: timer_irq_finish_def del: uart_puts.simps seq_fw.simps)
qed

text \<open>On the board the set-up returns with interrupts on, and leaves \<open>mtimecmp\<close> 1000 clocks after
  a moment of the set-up.\<close>

lemma timer_irq_setup_board:
  "\<exists>v h1 m t. timer_irq_setup te v0 h (soc_hw board_config d) m0 = Some (Ret (v, h1) m) \<and>
     irq_next_compare v = of_nat t + 1000 \<and>
     mtimecmp (soc_after board_config d (trace m)) = irq_next_compare v"
proof -
  have "emits (soc_hw board_config d) (seq_fw [uart_puts (bytes ''timer irq test start'' @ [10]), uart_flush])
      (map tx (crlf (bytes ''timer irq test start'' @ [10])) @ [] @ [])"
    by (intro emits_seq_Cons emits_seq_Nil soc_uart.emits_puts soc_uart.emits_flush)
  then obtain m1 where m1: "seq_fw [uart_puts (bytes ''timer irq test start'' @ [10]), uart_flush]
      (soc_hw board_config d) m0 = Some (Ret () m1)"
    by (rule emits_run)
  obtain t m2 where t: "machine_timer_now (soc_hw board_config d) m1 = Some (Ret (of_nat t) m2)"
    using soc_clock.timer_now_total [of d m1] by metis
  obtain tr where tr: "machine_timer_set_compare (of_nat t + 1000) (soc_hw board_config d) m2 =
      Some (Ret () (m2\<lparr>trace := tr\<rparr>))" "mtimecmp (soc_after board_config d tr) = of_nat t + 1000"
    using set_compare_run set_compare_steps(3) [of board_config "of_nat t + 1000"] by fastforce
  have "timer_irq_setup te v0 h (soc_hw board_config d) m0 =
      Some (Ret (v0\<lparr>irq_next_compare := of_nat t + 1000\<rparr>, trap_enable_machine_timer (trap_init te h)) (m2\<lparr>trace := tr\<rparr>))"
    unfolding timer_irq_setup_def then_fw_apply
      bind_fw_Ret [of "seq_fw [uart_puts (bytes ''timer irq test start'' @ [10]), uart_flush]", OF m1]
    by (simp add: Let_def TIMER_INTERVAL_def bind_fw_Ret [of machine_timer_now, OF t]
      bind_fw_Ret [of "machine_timer_set_compare (of_nat t + 1000)", OF tr(1)] then_fw_apply return_fw_def)
  with tr(2) show ?thesis by (intro exI [of _ t] exI) (simp_all, fastforce)
qed

section \<open>The timer demo\<close>

text \<open>\<open>apps/irq/timer_demo.c\<close>: the static variables are \<open>timer_ticks\<close> and \<open>next_compare\<close>; every
  other cause is ignored.\<close>

definition TIMER_DEMO_INTERVAL :: u64 where "TIMER_DEMO_INTERVAL = 50000000"

record demo_vars =
  timer_ticks :: u32
  demo_next_compare :: u64

definition timer_demo_trap_dispatch :: "u32 \<Rightarrow> demo_vars \<Rightarrow> (u32 \<times> demo_vars) fw" where
  "timer_demo_trap_dispatch frame v =
     bind_fw (load32 (slot frame 34)) (\<lambda>cause.
       if cause = MACHINE_TIMER_INTERRUPT_CAUSE
       then let v1 = v\<lparr>timer_ticks := timer_ticks v + 1\<rparr>
         in then_fw (gpio_write_led (timer_ticks v1 AND 0xf))
              (let v2 = v1\<lparr>demo_next_compare := demo_next_compare v1 + TIMER_DEMO_INTERVAL\<rparr>
               in then_fw (machine_timer_set_compare (demo_next_compare v2)) (return_fw (frame, v2)))
       else return_fw (frame, v))"

definition timer_demo_main :: "u32 \<Rightarrow> demo_vars \<Rightarrow> hart \<Rightarrow> (demo_vars \<times> hart) fw" where
  "timer_demo_main trap_entry v h =
     (let h1 = trap_init trap_entry h
      in bind_fw machine_timer_now (\<lambda>now.
         let v1 = v\<lparr>demo_next_compare := now + TIMER_DEMO_INTERVAL\<rparr>
         in then_fw (machine_timer_set_compare (demo_next_compare v1))
              (return_fw (v1, trap_enable_machine_timer h1))))"

fun timer_demo_traps :: "hw \<Rightarrow> (u32 \<times> memory) list \<Rightarrow> demo_vars \<Rightarrow> machine \<Rightarrow> (demo_vars \<times> machine) option" where
  "timer_demo_traps hw [] v m = Some (v, m)"
| "timer_demo_traps hw ((frame, mm) # traps) v m =
     (case timer_demo_trap_dispatch frame v hw (m\<lparr>mem := mm\<rparr>) of
        Some (Ret (f, v') m') \<Rightarrow> if f = frame then timer_demo_traps hw traps v' m' else None
      | _ \<Rightarrow> None)"

lemma timer_demo_dispatch_run:
  assumes "frame AND 3 = 0"
  shows "timer_demo_trap_dispatch frame v hw m =
    (if get32 (mem m) (slot frame 34) = MACHINE_TIMER_INTERRUPT_CAUSE
     then Some (Ret (frame, \<lparr>timer_ticks = timer_ticks v + 1, demo_next_compare = demo_next_compare v + 50000000\<rparr>)
        (m\<lparr>trace := [Wr TINYBUS_MTIMECMP_LO (ucast (demo_next_compare v + 50000000)),
         Wr TINYBUS_MTIMECMP_HI (ucast (drop_bit 32 (demo_next_compare v + 50000000))),
         Wr TINYBUS_MTIMECMP_LO 0xffffffff, Wr TINYBUS_GPIO_LED ((timer_ticks v + 1) AND 0xf)] @ trace m\<rparr>))
     else Some (Ret (frame, v) m))"
  using assms by (simp add: timer_demo_trap_dispatch_def Let_def fw_simps bind_word_access
      set_compare_run TIMER_DEMO_INTERVAL_def gpio_write_led_def mmio_write_def bind_fw_def)

text \<open>Over any sequence of traps the demo returns every frame it was given, counts exactly the
  timer interrupts among them, and stays on its grid of one second.\<close>

lemma timer_demo_counts:
  assumes "list_all (\<lambda>(frame, mm). frame AND 3 = 0) traps"
  shows "\<exists>v' m'. timer_demo_traps hw traps v m = Some (v', m') \<and>
    (let n = length (filter (\<lambda>(frame, mm). get32 mm (slot frame 34) = MACHINE_TIMER_INTERRUPT_CAUSE) traps)
     in timer_ticks v' = timer_ticks v + of_nat n \<and>
        demo_next_compare v' = demo_next_compare v + of_nat n * 50000000)"
  using assms
proof (induction traps arbitrary: v m)
  case (Cons x traps)
  obtain frame mm where x: "x = (frame, mm)" by (cases x)
  let ?m = "m\<lparr>mem := mm\<rparr>"
  obtain v1 m1 where run: "timer_demo_trap_dispatch frame v hw ?m = Some (Ret (frame, v1) m1)"
    and v1: "v1 = (if get32 mm (slot frame 34) = MACHINE_TIMER_INTERRUPT_CAUSE
      then \<lparr>timer_ticks = timer_ticks v + 1, demo_next_compare = demo_next_compare v + 50000000\<rparr> else v)"
    using Cons.prems x timer_demo_dispatch_run [of frame v hw ?m] by (simp split: if_splits)
  show ?case
    using Cons.IH [of v1 m1] Cons.prems run v1 x by (auto simp: Let_def algebra_simps)
qed simp

section \<open>Properties\<close>

text \<open>C15: Timer interrupts are invisible to the interrupted program: the test sets itself up, any
  number of interrupts is taken between any two instructions of its loop, each dispatcher run
  leaving arbitrary registers and arbitrary memory outside of the frame, and still, when the loop
  is left, the signature in \<open>s1\<close> agrees with the loop counter, the tick count is the number of
  interrupts, the compare value has moved by 1000 for each of them, and the report ends with
  success and not with 0xdead0002.\<close>

theorem timer_irq_context_intact:
  assumes "compiled_loop at tmp" "regs h 2 AND 3 = 0"
    and "timer_irq_setup te irq_bss h hw m0 = Some (Ret (v, h1) m)"
    and "irq_reachable at tmp hw (irq_loop_entry at v h1 m) n s" "sys_pc s = at Loop_Exit"
  shows "regs (sys_hart s) 9 = SIGNATURE_SEED + timer_loop_count (sys_vars s) * SIGNATURE_STEP \<and>
    timer_irq_tick_count (sys_vars s) = of_nat n \<and>
    irq_next_compare (sys_vars s) = irq_next_compare v + of_nat n * 1000 \<and>
    runs {1} (timer_irq_finish (regs (sys_hart s) 9) (sys_vars s)) (\<lambda>_. False)"
proof -
  from timer_irq_setup_returns [OF assms(3)] assms(2)
  have "irq_invariant at tmp v 0 Load_Tick (irq_loop_entry at v h1 m)"
    by (intro irq_invariant_start) (simp_all add: irq_bss_def)
  with irq_reachable_invariant [OF assms(4,1)] obtain p where p: "irq_invariant at tmp v n p s" by blast
  moreover have "p = Loop_Exit"
    using p assms(1,5) by (simp add: irq_invariant_def compiled_loop_def inj_eq)
  ultimately show ?thesis
    using timer_irq_finish_passes [OF refl] by (simp add: irq_invariant_def)
qed

text \<open>The loop of the interrupt test does not miss its end: from any state that three or more
  interrupts lead to, seven more instructions are enough to leave it, and a further interrupt
  can always be taken and returns to the instruction it interrupted.\<close>

lemma timer_irq_loop_ends:
  assumes "compiled_loop at tmp" "regs h 2 AND 3 = 0"
    and "timer_irq_setup te irq_bss h hw m0 = Some (Ret (v, h1) m)"
    and "irq_reachable at tmp hw (irq_loop_entry at v h1 m) n s" "n < 2 ^ 32"
  shows "\<exists>p. sys_pc s = at p \<and>
    (3 \<le> n \<longrightarrow> fst (timer_irq_steps at tmp 7 p s) = Loop_Exit) \<and>
    (\<forall>mm' rs. frame_kept s mm' \<longrightarrow>
       (\<exists>s'. timer_interrupt hw mm' rs s = Some s' \<and> sys_pc s' = at p))"
proof -
  from timer_irq_setup_returns [OF assms(3)] assms(2)
  have "irq_invariant at tmp v 0 Load_Tick (irq_loop_entry at v h1 m)"
    by (intro irq_invariant_start) (simp_all add: irq_bss_def)
  with irq_reachable_invariant [OF assms(4,1)] obtain p where p: "irq_invariant at tmp v n p s" by blast
  then have s: "regs (sys_hart s) 2 AND 3 = 0" "sys_pc s AND 3 = 0" "irq_enabled (sys_hart s)"
      "sys_pc s = at p" "timer_irq_tick_count (sys_vars s) = of_nat n"
    using assms(1) by (simp_all add: irq_invariant_def compiled_loop_def)
  have "\<not> timer_irq_tick_count (sys_vars s) < 3" if "3 \<le> n"
  proof -
    have "unat (of_nat n :: u32) = n" using assms(5) by (simp add: unat_of_nat)
    with that s(5) show ?thesis by (simp add: word_less_nat_alt)
  qed
  moreover have "\<exists>s'. timer_interrupt hw mm' rs s = Some s' \<and> sys_pc s' = at p"
    if "frame_kept s mm'" for mm' rs
    using timer_interrupt_result [OF s(1,2) that s(3), of hw rs] s(4) by metis
  ultimately show ?thesis using s(4) timer_irq_exits [of s at tmp p] by blast
qed

section \<open>A run with three interrupts\<close>

fun example_code :: "irq_point \<Rightarrow> u32" where
  "example_code Load_Tick = 0x100"
| "example_code Test_Tick = 0x104"
| "example_code Add_Step = 0x108"
| "example_code Load_Loops = 0x10c"
| "example_code Add_Loops = 0x110"
| "example_code Store_Loops = 0x114"
| "example_code Loop_Exit = 0x118"

lemma example_compiled: "compiled_loop example_code 15"
proof -
  have "inj example_code"
  proof (rule injI)
    fix p q assume "example_code p = example_code q"
    then show "p = q" by (cases p; cases q) simp_all
  qed
  moreover have "example_code p AND 3 = 0" for p by (cases p) simp_all
  ultimately show ?thesis by (simp add: compiled_loop_def)
qed

lemma irq_reachable_interrupts:
  assumes c: "compiled_loop at tmp" and start: "irq_invariant at tmp v0 0 Load_Tick s0"
  shows "\<exists>s. irq_reachable at tmp hw s0 n s \<and> sys_pc s = at Load_Tick"
proof (induction n)
  case 0
  have "irq_reachable at tmp hw s0 0 s0" by (rule irq_reachable.irq_start)
  then show ?case using start by (auto simp: irq_invariant_def)
next
  case (Suc n)
  then obtain s where s: "irq_reachable at tmp hw s0 n s" "sys_pc s = at Load_Tick" by blast
  obtain p where p: "irq_invariant at tmp v0 n p s" using irq_reachable_invariant [OF s(1) c start] by blast
  then have "regs (sys_hart s) 2 AND 3 = 0" "sys_pc s AND 3 = 0" "irq_enabled (sys_hart s)"
    using c by (simp_all add: irq_invariant_def compiled_loop_def)
  moreover have kept: "frame_kept s (snd (irq_saved s))" by (simp add: frame_kept_def)
  ultimately obtain s' where "timer_interrupt hw (snd (irq_saved s)) (\<lambda>_. 0xdead) s = Some s'"
      "sys_pc s' = sys_pc s" "irq_enabled (sys_hart s)"
    using timer_interrupt_result [of s "snd (irq_saved s)" hw "\<lambda>_. 0xdead"] by metis
  then show ?case using irq_reachable.irq_interrupt [OF s(1) _ kept] s(2) by auto
qed

abbreviation example_hw :: hw where
  "example_hw \<equiv> soc_hw board_config board_reset"

lemma example_irq_run:
  obtains v h1 m s where "regs example_hart 2 AND 3 = 0"
    and "timer_irq_setup 0x40 irq_bss example_hart example_hw \<lparr>mem = (\<lambda>_. 0), trace = []\<rparr> = Some (Ret (v, h1) m)"
    and "irq_reachable example_code 15 example_hw (irq_loop_entry example_code v h1 m) 3 s"
    and "sys_pc s = example_code Load_Tick"
proof -
  obtain v h1 m where ready: "timer_irq_setup 0x40 irq_bss example_hart example_hw \<lparr>mem = (\<lambda>_. 0), trace = []\<rparr> =
      Some (Ret (v, h1) m)"
    using timer_irq_setup_board by blast
  moreover have sp: "regs example_hart 2 AND 3 = 0" by (simp add: example_hart_def)
  ultimately have "irq_invariant example_code 15 v 0 Load_Tick (irq_loop_entry example_code v h1 m)"
    using timer_irq_setup_returns [OF ready] by (intro irq_invariant_start) (simp_all add: irq_bss_def)
  from irq_reachable_interrupts [OF example_compiled this] ready sp that show thesis by blast
qed

theorem timer_irq_loop_ends_witness:
  "\<exists>s. sys_pc s = 0x100 \<and> fst (timer_irq_steps example_code 15 7 Load_Tick s) = Loop_Exit"
proof -
  obtain v h1 m s where run: "regs example_hart 2 AND 3 = 0"
    "timer_irq_setup 0x40 irq_bss example_hart example_hw \<lparr>mem = (\<lambda>_. 0), trace = []\<rparr> = Some (Ret (v, h1) m)"
    "irq_reachable example_code 15 example_hw (irq_loop_entry example_code v h1 m) 3 s"
    "sys_pc s = example_code Load_Tick"
    by (rule example_irq_run)
  have "p = Load_Tick" if "example_code p = 0x100" for p using that by (cases p) simp_all
  then show ?thesis
    using timer_irq_loop_ends [OF example_compiled run(1-3)] run(4) by fastforce
qed

theorem timer_irq_context_intact_witness:
  "\<exists>s :: irq_system. sys_pc s = 0x118 \<and> timer_irq_tick_count (sys_vars s) = 3 \<and>
     runs {1} (timer_irq_finish (regs (sys_hart s) 9) (sys_vars s)) (\<lambda>_ :: unit. False)"
proof -
  obtain v h1 m s where run: "regs example_hart 2 AND 3 = 0"
    "timer_irq_setup 0x40 irq_bss example_hart example_hw \<lparr>mem = (\<lambda>_. 0), trace = []\<rparr> = Some (Ret (v, h1) m)"
    "irq_reachable example_code 15 example_hw (irq_loop_entry example_code v h1 m) 3 s"
    "sys_pc s = example_code Load_Tick"
    by (rule example_irq_run)
  have "irq_invariant example_code 15 v 0 Load_Tick (irq_loop_entry example_code v h1 m)"
    using timer_irq_setup_returns [OF run(2)] run(1) by (intro irq_invariant_start) (simp_all add: irq_bss_def)
  then have "\<not> timer_irq_tick_count (sys_vars s) < 3"
    using irq_reachable_invariant [OF run(3) example_compiled] by (fastforce simp: irq_invariant_def)
  with timer_irq_steps_reachable [OF run(3,4), of 7] timer_irq_exits obtain s' where
    "irq_reachable example_code 15 example_hw (irq_loop_entry example_code v h1 m) 3 s'"
    "sys_pc s' = example_code Loop_Exit" by metis
  note s' = this
  have "regs (sys_hart s') 9 = SIGNATURE_SEED + timer_loop_count (sys_vars s') * SIGNATURE_STEP \<and>
    timer_irq_tick_count (sys_vars s') = of_nat 3 \<and>
    irq_next_compare (sys_vars s') = irq_next_compare v + of_nat 3 * 1000 \<and>
    runs {1} (timer_irq_finish (regs (sys_hart s') 9) (sys_vars s')) (\<lambda>_ :: unit. False)"
    by (rule timer_irq_context_intact [OF example_compiled run(1,2) s'])
  with s'(2) show ?thesis by (metis example_code.simps(7) of_nat_numeral)
qed

end
