(* ===== verification/Busy_Wait.thy ===== *)
theory Busy_Wait
  imports Freertos_Task
begin

text \<open>
  Waiting for a moment of the 64-bit machine timer, as the FreeRTOS applications do it inside
  and outside of critical sections. The locale \<open>ticking_clock\<close> extends \<open>machine_clock\<close>: every
  register read takes time, so a wait ends. \<open>with_kernel\<close> adds the answers of the FreeRTOS
  kernel, which is not part of the repository, to the devices of the board.
\<close>

section \<open>Definitions\<close>

definition with_kernel :: "(access list \<Rightarrow> string \<Rightarrow> u32 list \<Rightarrow> u32) \<Rightarrow> hw \<Rightarrow> hw" where
  "with_kernel k hw tr q = (case q of Reg a \<Rightarrow> hw tr (Reg a) | Ext f xs \<Rightarrow> k tr f xs)"

text \<open>\<open>while (machine_timer_now() < deadline) {}\<close>\<close>

partial_function (option) wait_until :: "u64 \<Rightarrow> hw \<Rightarrow> machine \<Rightarrow> unit outcome option" where
  "wait_until deadline hw m =
     (case machine_timer_now hw m of
        Some (Ret now m') \<Rightarrow>
          if now < deadline then wait_until deadline hw m' else Some (Ret () m')
      | Some (Stop m') \<Rightarrow> Some (Stop m')
      | Some Fault \<Rightarrow> Some Fault
      | None \<Rightarrow> None)"

section \<open>Traces that only read\<close>

definition only_reads :: "machine \<Rightarrow> machine \<Rightarrow> bool" where
  "only_reads m m' \<longleftrightarrow> (\<exists>rs. trace m' = rs @ trace m \<and> list_all is_read rs)"

lemma only_reads_refl [simp]: "only_reads m m"
  by (simp add: only_reads_def)

lemma only_reads_trans: "only_reads a b \<Longrightarrow> only_reads b c \<Longrightarrow> only_reads a c"
  unfolding only_reads_def by (metis append_assoc list_all_append)

lemma timer_sample_reads:
  "\<exists>x m'. timer_sample hw m = Some (Ret x m') \<and>
    (\<exists>a b c. trace m' = [Rd TINYBUS_MTIME_HI c, Rd TINYBUS_MTIME_LO b, Rd TINYBUS_MTIME_HI a] @ trace m)"
  by (simp add: timer_sample_def bind_fw_def mmio_read_def return_fw_def Let_def)

lemma timer_now_reads:
  assumes "machine_timer_now hw m = Some r"
  shows "\<exists>t m'. r = Ret t m' \<and> only_reads m m' \<and> trace m' \<noteq> trace m"
proof -
  let ?P = "\<lambda>hw m r. \<exists>t m'. r = Ret t m' \<and> only_reads m m' \<and> trace m' \<noteq> trace m"
  show ?thesis
  proof (rule machine_timer_now.raw_induct [where P = ?P, OF _ assms])
    fix f :: "hw \<Rightarrow> machine \<Rightarrow> u64 outcome option" and hw m r
    assume IH: "\<And>hw m r. f hw m = Some r \<Longrightarrow> ?P hw m r"
      and eq: "(case timer_sample hw m of
        Some (Ret (hi0, lo, hi1) m') \<Rightarrow>
          if hi0 \<noteq> hi1 then f hw m' else Some (Ret (push_bit 32 (ucast hi1) OR ucast lo) m')
      | Some (Stop m') \<Rightarrow> Some (Stop m')
      | Some Fault \<Rightarrow> Some Fault
      | None \<Rightarrow> None) = Some r"
    obtain hi0 lo hi1 m1 a b c where s: "timer_sample hw m = Some (Ret (hi0, lo, hi1) m1)"
        "trace m1 = [Rd TINYBUS_MTIME_HI c, Rd TINYBUS_MTIME_LO b, Rd TINYBUS_MTIME_HI a] @ trace m"
      using timer_sample_reads [of hw m] by auto
    then have one: "only_reads m m1"
      unfolding only_reads_def by (intro exI [of _ "[Rd TINYBUS_MTIME_HI c, Rd TINYBUS_MTIME_LO b, Rd TINYBUS_MTIME_HI a]"]) simp
    show "?P hw m r"
    proof (cases "hi0 = hi1")
      case True
      with eq s one show ?thesis by auto
    next
      case False
      with eq s IH [of hw m1 r] obtain t m' where m': "r = Ret t m'" "only_reads m1 m'" by auto
      from m'(2) s(2) have "length (trace m) < length (trace m')" by (auto simp: only_reads_def)
      with m' one only_reads_trans show ?thesis by fastforce
    qed
  qed
qed

lemma wait_until_reads:
  assumes "wait_until d hw m = Some r"
  shows "\<exists>m'. r = Ret () m' \<and> only_reads m m'"
proof -
  let ?P = "\<lambda>d hw m r. \<exists>m'. r = Ret () m' \<and> only_reads m m'"
  show ?thesis
  proof (rule wait_until.raw_induct [where P = ?P, OF _ assms])
    fix f :: "u64 \<Rightarrow> hw \<Rightarrow> machine \<Rightarrow> unit outcome option" and d hw m r
    assume IH: "\<And>d hw m r. f d hw m = Some r \<Longrightarrow> ?P d hw m r"
      and eq: "(case machine_timer_now hw m of
        Some (Ret now m') \<Rightarrow> if now < d then f d hw m' else Some (Ret () m')
      | Some (Stop m') \<Rightarrow> Some (Stop m')
      | Some Fault \<Rightarrow> Some Fault
      | None \<Rightarrow> None) = Some r"
    obtain q where q: "machine_timer_now hw m = Some q" using eq by (auto split: option.splits)
    with timer_now_reads obtain t m1 where t: "q = Ret t m1" "only_reads m m1" by blast
    show "?P d hw m r"
    proof (cases "t < d")
      case True
      with eq q t IH [of d hw m1 r] show ?thesis by (auto intro: only_reads_trans)
    qed (use eq q t in auto)
  qed
qed

lemma runs_timer_now [run_intros]: "safely_in H P machine_timer_now (\<lambda>_. True)"
  unfolding safely_in_def by (auto split: option.split outcome.split dest!: timer_now_reads)

lemma runs_wait_until [run_intros]: "safely_in H P (wait_until d) (\<lambda>_. True)"
  unfolding safely_in_def by (auto split: option.split outcome.split dest!: wait_until_reads)

section \<open>A clock that moves with every read\<close>

locale ticking_clock = machine_clock +
  assumes progress: "now tr < now (Rd a v # tr)"
begin

lemma reads_take_time:
  assumes "only_reads m m'" "trace m' \<noteq> trace m"
  shows "now (trace m) < now (trace m')"
proof -
  have "rs \<noteq> [] \<Longrightarrow> list_all is_read rs \<Longrightarrow> now tr < now (rs @ tr)" for rs tr
  proof (induction rs)
    case (Cons x rs)
    then obtain a v where "x = Rd a v" by (cases x) auto
    with Cons progress [of "rs @ tr" a v] show ?case by (cases "rs = []") auto
  qed simp
  with assms show ?thesis by (auto simp: only_reads_def)
qed

text \<open>A wait for a deadline that is not at the very end of the 64-bit range ends, not before the
  deadline.\<close>

lemma wait_until_ends:
  assumes "now (trace m) + 6 * step < 2 ^ 64" "unat d + 12 * step < 2 ^ 64"
  obtains m' where "wait_until d hw m = Some (Ret () m')" "unat d \<le> now (trace m')"
    "now (trace m) \<le> now (trace m')" "only_reads m m'" "mem m' = mem m" "effects m' = effects m"
proof -
  have "\<exists>m'. wait_until d hw m = Some (Ret () m') \<and> unat d \<le> now (trace m') \<and>
      now (trace m) \<le> now (trace m') \<and> only_reads m m' \<and> mem m' = mem m \<and> effects m' = effects m"
    using assms(1)
  proof (induction "unat d - now (trace m)" arbitrary: m rule: less_induct)
    case less
    obtain t m1 where t: "machine_timer_now hw m = Some (Ret (of_nat t) m1)"
        "now (trace m) \<le> t" "t \<le> now (trace m1)" "mem m1 = mem m" "effects m1 = effects m"
        "now (trace m1) \<le> now (trace m) + 6 * step"
      by (rule timer_now_total)
    have reads: "only_reads m m1" "trace m1 \<noteq> trace m" using timer_now_reads [OF t(1)] by auto
    then have time: "now (trace m) < now (trace m1)" by (rule reads_take_time)
    have "t < 2 ^ 64" using t(3,6) less.prems by simp
    then have small: "unat (of_nat t :: u64) = t" by (simp only: unat_of_nat) simp
    show ?case
    proof (cases "(of_nat t :: u64) < d")
      case True
      then have d: "t < unat d" by (simp add: word_less_nat_alt small)
      have "unat d - now (trace m1) < unat d - now (trace m)" using d t(2) time by linarith
      moreover have "now (trace m1) + 6 * step < 2 ^ 64" using d t(2,6) assms(2) by linarith
      ultimately obtain m' where m': "wait_until d hw m1 = Some (Ret () m')" "unat d \<le> now (trace m')"
          "now (trace m1) \<le> now (trace m')" "only_reads m1 m'" "mem m' = mem m1" "effects m' = effects m1"
        using less.hyps [of m1] by blast
      have "wait_until d hw m = Some (Ret () m')" using t(1) True m'(1) by (subst wait_until.simps) simp
      with m' reads(1) time t show ?thesis by (intro exI [of _ m']) (auto intro: only_reads_trans)
    next
      case False
      then have "wait_until d hw m = Some (Ret () m1)" using t(1) by (subst wait_until.simps) simp
      moreover have "unat d \<le> now (trace m1)" using False t(3) by (simp add: word_less_nat_alt small)
      ultimately show ?thesis using reads time t by (intro exI [of _ m1]) simp
    qed
  qed
  with that show thesis by blast
qed

end

text \<open>The board with any kernel is such a clock.\<close>

lemma with_kernel_simps [simp]:
  "with_kernel k hw tr (Reg a) = hw tr (Reg a)" "with_kernel k hw tr (Ext f xs) = k tr f xs"
  by (simp_all add: with_kernel_def)

interpretation kernel_clock: ticking_clock "with_kernel k (soc_hw board_config s0)"
    "\<lambda>tr. clock (soc_after board_config s0 tr)" 2 for k s0
proof unfold_locales
  fix tr :: "access list" and a v :: u32
  show "with_kernel k (soc_hw board_config s0) tr (Reg TINYBUS_MTIME_LO) =
      of_nat (clock (soc_after board_config s0 (Rd TINYBUS_MTIME_LO v # tr)))"
    and "with_kernel k (soc_hw board_config s0) tr (Reg TINYBUS_MTIME_HI) =
      hi_half (clock (soc_after board_config s0 (Rd TINYBUS_MTIME_HI v # tr)))"
    unfolding with_kernel_simps by (rule soc_hw_mtime)+
  show "clock (soc_after board_config s0 tr) \<le> clock (soc_after board_config s0 (Rd a v # tr))"
    and "clock (soc_after board_config s0 (Rd a v # tr)) \<le> clock (soc_after board_config s0 tr) + 2"
    and "clock (soc_after board_config s0 tr) < clock (soc_after board_config s0 (Rd a v # tr))"
    unfolding soc_after_clock_read by (simp_all add: board_config_def)
qed simp

end
