(* ===== verification/Freertos_Smoke.thy ===== *)
theory Freertos_Smoke
  imports Busy_Wait Rtos_Port
begin

text \<open>
  The smoke test \<open>firmware/apps/freertos/freertos_smoke.c\<close> of the FreeRTOS port, and the queue
  demo \<open>queue_demo.c\<close>. Two tasks of the smoke test count in memory and add to a signature in
  register \<open>s1\<close> at the same time; a corrupted context shows as a signature that does not fit
  the counter. The loops are step functions, one step for each access to a shared variable, so
  that the kernel may switch tasks between any two of them. The rest of task A, which measures
  delays and a critical section against the machine timer, is firmware code in the monad.
\<close>

section \<open>Failure\<close>

definition COUNTS_PER_TICK :: u32 where
  "COUNTS_PER_TICK = configCPU_CLOCK_HZ div configTICK_RATE_HZ"

definition smoke_fail :: "u32 \<Rightarrow> 'a fw" where
  "smoke_fail code = then_fw (gpio_write_led 0xf) (then_fw (mmio_write TINYBUS_TEST_EXIT code) hang_fw)"

section \<open>The counting loops\<close>

record smoke_shared =
  task_a_counter :: u32
  task_b_counter :: u32
  smoke_phase :: u32

definition SIGNATURE_A :: u32 where "SIGNATURE_A = 0x13572468"
definition SIGNATURE_B :: u32 where "SIGNATURE_B = 0x24681357"

text \<open>Where a task is, with its signature and, within the increment, the value it has read.\<close>

datatype smoke_b_pc =
  B_Phase u32 | B_Load u32 | B_Store u32 u32 | B_Add u32 | B_Check u32 | B_Failed u32

fun smoke_task_b :: "smoke_b_pc \<Rightarrow> smoke_shared \<Rightarrow> smoke_b_pc \<times> smoke_shared" where
  "smoke_task_b (B_Phase signature) g = (if smoke_phase g = 0 then B_Load signature else B_Phase signature, g)"
| "smoke_task_b (B_Load signature) g = (B_Store signature (task_b_counter g), g)"
| "smoke_task_b (B_Store signature v) g = (B_Add signature, g\<lparr>task_b_counter := v + 1\<rparr>)"
| "smoke_task_b (B_Add signature) g = (B_Check (signature + 5), g)"
| "smoke_task_b (B_Check signature) g =
     (if signature \<noteq> SIGNATURE_B + task_b_counter g * 5 then B_Failed 0xf5010002 else B_Phase signature, g)"
| "smoke_task_b (B_Failed code) g = (B_Failed code, g)"

datatype smoke_a_pc =
  A_Test_B u32 | A_Test_A u32 | A_Load u32 | A_Store u32 u32 | A_Add u32 | A_Check u32
  | A_Phase | A_Measure | A_Failed u32

fun smoke_task_a :: "smoke_a_pc \<Rightarrow> smoke_shared \<Rightarrow> smoke_a_pc \<times> smoke_shared" where
  "smoke_task_a (A_Test_B signature) g =
     (if task_b_counter g = 0 then A_Load signature else A_Test_A signature, g)"
| "smoke_task_a (A_Test_A signature) g = (if task_a_counter g < 16 then A_Load signature else A_Phase, g)"
| "smoke_task_a (A_Load signature) g = (A_Store signature (task_a_counter g), g)"
| "smoke_task_a (A_Store signature v) g = (A_Add signature, g\<lparr>task_a_counter := v + 1\<rparr>)"
| "smoke_task_a (A_Add signature) g = (A_Check (signature + 3), g)"
| "smoke_task_a (A_Check signature) g =
     (if signature \<noteq> SIGNATURE_A + task_a_counter g * 3 then A_Failed 0xf5010001 else A_Test_B signature, g)"
| "smoke_task_a A_Phase g = (A_Measure, g\<lparr>smoke_phase := 1\<rparr>)"
| "smoke_task_a A_Measure g = (A_Measure, g)"
| "smoke_task_a (A_Failed code) g = (A_Failed code, g)"

type_synonym smoke_system = "smoke_a_pc \<times> smoke_b_pc \<times> smoke_shared"

definition smoke_start :: smoke_system where
  "smoke_start = (A_Test_B SIGNATURE_A, B_Phase SIGNATURE_B,
     \<lparr>task_a_counter = 0, task_b_counter = 0, smoke_phase = 0\<rparr>)"

definition smoke_turn :: "bool \<Rightarrow> smoke_system \<Rightarrow> smoke_system" where
  "smoke_turn task_a s =
     (case s of (a, b, g) \<Rightarrow>
        if task_a then (case smoke_task_a a g of (a', g') \<Rightarrow> (a', b, g'))
        else (case smoke_task_b b g of (b', g') \<Rightarrow> (a, b', g')))"

text \<open>The states after \<open>n\<close> steps, taken by the two tasks in any order.\<close>

inductive smoke_reachable :: "nat \<Rightarrow> smoke_system \<Rightarrow> bool" where
  smoke_init: "smoke_reachable 0 smoke_start"
| smoke_step: "smoke_reachable n s \<Longrightarrow> smoke_reachable (Suc n) (smoke_turn task_a s)"

section \<open>The measurements of task A\<close>

definition tick_count :: "u32 fw" where
  "tick_count = extern_fw ''xTaskGetTickCount'' []"

definition smoke_delay :: "unit fw" where
  "smoke_delay =
     bind_fw tick_count (\<lambda>delay_start. then_fw (kernel_call ''vTaskDelay'' [5])
       (bind_fw tick_count (\<lambda>delay_end.
          if delay_end - delay_start < 5 \<or> 8 \<le> delay_end - delay_start then smoke_fail 0xf5010003
          else return_fw ())))"

text \<open>The result is \<open>critical_tick\<close>.\<close>

definition smoke_critical :: "u32 fw" where
  "smoke_critical =
     then_fw (kernel_call ''taskENTER_CRITICAL'' [])
       (bind_fw tick_count (\<lambda>critical_tick.
        bind_fw machine_timer_now (\<lambda>now.
        then_fw (wait_until (now + 2 * ucast COUNTS_PER_TICK))
       (bind_fw tick_count (\<lambda>tick.
          if tick \<noteq> critical_tick then smoke_fail 0xf5010004
          else then_fw (kernel_call ''taskEXIT_CRITICAL'' []) (return_fw critical_tick))))))"

definition smoke_recovery :: "u32 \<Rightarrow> unit fw" where
  "smoke_recovery critical_tick =
     bind_fw machine_timer_now (\<lambda>now.
       let recovery_deadline = now + 8 * ucast COUNTS_PER_TICK
       in then_fw (loop_fw (\<lambda>_. bind_fw tick_count (\<lambda>tick.
              if tick = critical_tick
              then bind_fw machine_timer_now (\<lambda>t.
                return_fw (if t < recovery_deadline then Inl () else Inr ()))
              else return_fw (Inr ()))) ())
            (bind_fw tick_count (\<lambda>tick.
               if tick = critical_tick then smoke_fail 0xf5010005 else return_fw ())))"

definition smoke_long_wait :: "unit fw" where
  "smoke_long_wait =
     bind_fw tick_count (\<lambda>final_start.
       loop_fw (\<lambda>_. bind_fw tick_count (\<lambda>tick.
         return_fw (if tick - final_start < 1000 then Inl () else Inr ()))) ())"

definition smoke_verdict :: "'a fw" where
  "smoke_verdict =
     bind_fw (shared_read ''task_a_counter'') (\<lambda>a.
     bind_fw (if a = 0 then return_fw 0 else shared_read ''task_b_counter'') (\<lambda>b.
       then_fw (if b = 0 then smoke_fail 0xf5010006 else return_fw ())
         (then_fw (seq_fw [uart_puts (bytes ''freertos smoke pass'' @ [10]), uart_flush, gpio_write_led 5])
            (then_fw (mmio_write TINYBUS_TEST_EXIT 1) hang_fw))))"

definition smoke_measure :: "'a fw" where
  "smoke_measure =
     then_fw smoke_delay (then_fw (bind_fw smoke_critical smoke_recovery)
       (then_fw smoke_long_wait smoke_verdict))"

definition smoke_main :: "freertos_api \<Rightarrow> u32 \<Rightarrow> symbols \<Rightarrow> u32 \<Rightarrow> u32 \<Rightarrow> 'a fw" where
  "smoke_main A tskIDLE_PRIORITY addr sizeof_StackType sizeof_StaticTask =
     then_fw (if COUNTS_PER_TICK = 0 then smoke_fail 0xf5010007 else return_fw ())
     (bind_fw (extern_fw ''xTaskCreateStatic'' [addr ''smoke_task_a'', addr ''tick-a'', 512, 0,
          tskIDLE_PRIORITY + 1, addr ''task_stack'', addr ''task_tcb'']) (\<lambda>a.
      then_fw (if a = 0 then smoke_fail 0xf5010008 else return_fw ())
     (bind_fw (extern_fw ''xTaskCreateStatic'' [addr ''smoke_task_b'', addr ''tick-b'', 512, 0,
          tskIDLE_PRIORITY + 1, addr ''task_stack'' + 512 * sizeof_StackType, addr ''task_tcb'' + sizeof_StaticTask]) (\<lambda>b.
      then_fw (if b = 0 then smoke_fail 0xf5010009 else return_fw ())
     (then_fw (kernel_call ''vTaskStartScheduler'' []) (smoke_fail 0xf501000a))))))"

section \<open>The invariant of the two loops\<close>

fun smoke_a_ok :: "smoke_shared \<Rightarrow> smoke_a_pc \<Rightarrow> bool" where
  "smoke_a_ok g (A_Test_B s) = (s = SIGNATURE_A + task_a_counter g * 3)"
| "smoke_a_ok g (A_Test_A s) = (s = SIGNATURE_A + task_a_counter g * 3 \<and> task_b_counter g \<noteq> 0)"
| "smoke_a_ok g (A_Load s) = (s = SIGNATURE_A + task_a_counter g * 3)"
| "smoke_a_ok g (A_Store s v) = (s = SIGNATURE_A + task_a_counter g * 3 \<and> v = task_a_counter g)"
| "smoke_a_ok g (A_Add s) = (s + 3 = SIGNATURE_A + task_a_counter g * 3)"
| "smoke_a_ok g (A_Check s) = (s = SIGNATURE_A + task_a_counter g * 3)"
| "smoke_a_ok g A_Phase = (16 \<le> task_a_counter g \<and> task_b_counter g \<noteq> 0)"
| "smoke_a_ok g A_Measure = (16 \<le> task_a_counter g \<and> task_b_counter g \<noteq> 0 \<and> smoke_phase g = 1)"
| "smoke_a_ok g (A_Failed c) = False"

fun smoke_b_ok :: "smoke_shared \<Rightarrow> smoke_b_pc \<Rightarrow> bool" where
  "smoke_b_ok g (B_Phase s) = (s = SIGNATURE_B + task_b_counter g * 5)"
| "smoke_b_ok g (B_Load s) = (s = SIGNATURE_B + task_b_counter g * 5)"
| "smoke_b_ok g (B_Store s v) = (s = SIGNATURE_B + task_b_counter g * 5 \<and> v = task_b_counter g)"
| "smoke_b_ok g (B_Add s) = (s + 5 = SIGNATURE_B + task_b_counter g * 5)"
| "smoke_b_ok g (B_Check s) = (s = SIGNATURE_B + task_b_counter g * 5)"
| "smoke_b_ok g (B_Failed c) = False"

fun smoke_inv :: "nat \<Rightarrow> smoke_system \<Rightarrow> bool" where
  "smoke_inv n (a, b, g) \<longleftrightarrow> smoke_a_ok g a \<and> smoke_b_ok g b \<and> unat (task_b_counter g) \<le> n"

text \<open>A step of task A changes nothing task B relies on; and task B never takes the counter
  back to 0, as long as it cannot have wrapped around.\<close>

lemma smoke_a_step:
  assumes "smoke_a_ok g a" "smoke_b_ok g b" "smoke_task_a a g = (a', g')"
  shows "smoke_a_ok g' a' \<and> smoke_b_ok g' b \<and> task_b_counter g' = task_b_counter g"
  using assms by (cases a; cases b) (auto simp: algebra_simps not_less split: if_splits)

lemma smoke_b_step:
  assumes "smoke_a_ok g a" "smoke_b_ok g b" "unat (task_b_counter g) \<le> n" "Suc n < 2 ^ 32"
    "smoke_task_b b g = (b', g')"
  shows "smoke_a_ok g' a \<and> smoke_b_ok g' b' \<and> unat (task_b_counter g') \<le> Suc n"
proof (cases "\<exists>s v. b = B_Store s v")
  case True
  then obtain s where b: "b = B_Store s (task_b_counter g)" using assms(2) by auto
  then have g': "g' = g\<lparr>task_b_counter := task_b_counter g + 1\<rparr>" "b' = B_Add s" using assms(5) by auto
  have next_count: "unat (task_b_counter g + 1) = unat (task_b_counter g) + 1"
    using assms(3,4) by (simp add: unat_word_ariths)
  then have "task_b_counter g + 1 \<noteq> 0" by auto
  then have "smoke_a_ok g' a" using assms(1) g' by (cases a) auto
  then show ?thesis using b g' assms(2,3) next_count by (simp add: algebra_simps)
next
  case False
  then have "g' = g" "smoke_b_ok g b'" using assms(2,5) by (cases b; auto simp: algebra_simps split: if_splits)+
  with assms(1,3) show ?thesis by simp
qed

lemma smoke_reachable_inv:
  "smoke_reachable n s \<Longrightarrow> n < 2 ^ 32 \<Longrightarrow> smoke_inv n s"
proof (induction rule: smoke_reachable.induct)
  case smoke_init
  then show ?case by (simp add: smoke_start_def)
next
  case (smoke_step n s task_a)
  obtain a b g where s: "s = (a, b, g)" by (cases s)
  with smoke_step have inv: "smoke_a_ok g a" "smoke_b_ok g b" "unat (task_b_counter g) \<le> n" by simp_all
  obtain a' ga b' gb where steps: "smoke_task_a a g = (a', ga)" "smoke_task_b b g = (b', gb)"
    by (metis prod.exhaust)
  show ?case
    using smoke_a_step [OF inv(1,2) steps(1)] smoke_b_step [OF inv smoke_step.prems steps(2)] inv steps
    by (cases task_a) (simp_all add: s smoke_turn_def)
qed

section \<open>How the measurements can end\<close>

lemma runs_smoke_fail: "code \<in> C \<Longrightarrow> runs_in H C (smoke_fail code) Q"
  unfolding smoke_fail_def by (intro runs_then run_intros runs_exit)

lemma runs_tick_count: "safely_in H P tick_count (\<lambda>_. True)"
  unfolding tick_count_def by (rule run_intros)

lemma runs_smoke_measure_parts:
  "0xf5010003 \<in> C \<Longrightarrow> runs_in H C smoke_delay (\<lambda>_. True)"
  "0xf5010004 \<in> C \<Longrightarrow> runs_in H C smoke_critical (\<lambda>_. True)"
  "0xf5010005 \<in> C \<Longrightarrow> runs_in H C (smoke_recovery ct) (\<lambda>_. True)"
  "runs_in H C smoke_long_wait (\<lambda>_. True)"
proof -
  show "runs_in H C smoke_delay (\<lambda>_. True)" if "0xf5010003 \<in> C"
    unfolding smoke_delay_def
    by (rule runs_bind [OF runs_tick_count] runs_then [OF runs_kernel_call])+ (simp add: runs_smoke_fail runs_return that)
  show "runs_in H C smoke_critical (\<lambda>_. True)" if "0xf5010004 \<in> C"
    unfolding smoke_critical_def
    by (rule runs_bind [OF runs_tick_count] runs_then [OF runs_kernel_call] runs_bind [OF runs_timer_now]
        runs_then [OF runs_wait_until])+
      (simp add: runs_smoke_fail runs_return runs_then [OF runs_kernel_call] that)
  show "runs_in H C (smoke_recovery ct) (\<lambda>_. True)" if "0xf5010005 \<in> C"
    unfolding smoke_recovery_def Let_def
    by (rule runs_bind [OF runs_timer_now] runs_then runs_loop [where J = "\<lambda>_. True"]
        runs_bind [OF runs_tick_count] TrueI | simp add: runs_smoke_fail runs_return that
        runs_bind [OF runs_timer_now])+
  show "runs_in H C smoke_long_wait (\<lambda>_. True)"
    unfolding smoke_long_wait_def
    by (rule runs_bind [OF runs_tick_count] runs_loop [where J = "\<lambda>_. True"] TrueI)+ (simp add: runs_return)
qed

text \<open>The counters task A finds at its end: those of a state of the two loops in which it has left
  its own.\<close>

definition smoke_counters :: "hw \<Rightarrow> bool" where
  "smoke_counters hw \<longleftrightarrow>
     (\<forall>tr. \<exists>n b g. n < 2 ^ 32 \<and> smoke_reachable n (A_Measure, b, g) \<and>
        hw tr (Ext ''task_a_counter'' []) = task_a_counter g) \<and>
     (\<forall>tr. \<exists>n b g. n < 2 ^ 32 \<and> smoke_reachable n (A_Measure, b, g) \<and>
        hw tr (Ext ''task_b_counter'' []) = task_b_counter g)"

lemma smoke_counters_nonzero:
  assumes "smoke_counters hw"
  shows "hw tr (Ext ''task_a_counter'' []) \<noteq> 0" "hw tr (Ext ''task_b_counter'' []) \<noteq> 0"
proof -
  have "task_a_counter g \<noteq> 0 \<and> task_b_counter g \<noteq> 0"
    if "n < 2 ^ 32" "smoke_reachable n (A_Measure, b, g)" for n b g
    using smoke_reachable_inv [OF that(2,1)] by auto
  with assms show "hw tr (Ext ''task_a_counter'' []) \<noteq> 0" "hw tr (Ext ''task_b_counter'' []) \<noteq> 0"
    unfolding smoke_counters_def by metis+
qed

lemma runs_smoke_verdict:
  assumes "1 \<in> C"
  shows "runs_in smoke_counters C smoke_verdict Q"
proof -
  have pass: "runs_in smoke_counters C (then_fw (seq_fw [uart_puts (bytes ''freertos smoke pass'' @ [10]), uart_flush, gpio_write_led 5])
      (then_fw (mmio_write TINYBUS_TEST_EXIT 1) hang_fw)) Q"
    by (rule runs_then [OF runs_seq runs_exit [OF assms]]) (auto simp del: uart_puts.simps intro: run_intros)
  have a: "runs_in smoke_counters C (shared_read ''task_a_counter'') (\<lambda>v. v \<noteq> 0)"
    and b: "runs_in smoke_counters C (shared_read ''task_b_counter'') (\<lambda>v. v \<noteq> 0)"
    unfolding shared_read_def using smoke_counters_nonzero by (auto intro!: runs_extern_in)
  show ?thesis
    unfolding smoke_verdict_def
    by (rule runs_bind [OF a], rule runs_bind [where R = "\<lambda>v. v \<noteq> 0"])
      (simp_all add: b runs_then [OF runs_return pass] del: seq_fw.simps uart_puts.simps)
qed

text \<open>The measurements end with success or with one of the three timing codes.\<close>

lemma smoke_measure_ends:
  "runs_in smoke_counters {1, 0xf5010003, 0xf5010004, 0xf5010005} smoke_measure (\<lambda>_. False)"
  unfolding smoke_measure_def
  by (rule runs_then runs_bind runs_smoke_measure_parts runs_smoke_verdict | simp)+

section \<open>The critical section on the board\<close>

text \<open>What the kernel documents of a critical section of a task: the tick count does not move
  while it lasts.\<close>

definition ticks_masked :: "(access list \<Rightarrow> string \<Rightarrow> u32 list \<Rightarrow> u32) \<Rightarrow> bool" where
  "ticks_masked k \<longleftrightarrow>
     (\<forall>rs t r tr. list_all is_read rs \<longrightarrow>
        k (rs @ Call ''xTaskGetTickCount'' [] t # Call ''taskENTER_CRITICAL'' [] r # tr)
          ''xTaskGetTickCount'' [] = t)"

lemma masked_tick:
  assumes "ticks_masked k" "only_reads m m'"
    and "trace m = Call ''xTaskGetTickCount'' [] t # Call ''taskENTER_CRITICAL'' [] r # tr"
  shows "k (trace m') ''xTaskGetTickCount'' [] = t"
  using assms unfolding ticks_masked_def only_reads_def by auto

lemma two_ticks: "2 * ucast COUNTS_PER_TICK = (100000 :: u64)"
  by (simp add: COUNTS_PER_TICK_def configCPU_CLOCK_HZ_def configTICK_RATE_HZ_def)

lemma smoke_critical_run:
  fixes k d m
  defines "hw \<equiv> with_kernel k (soc_hw board_config d)"
  assumes masked: "ticks_masked k" and early: "clock (soc_after board_config d (trace m)) < 2 ^ 63"
  shows "\<exists>ct m'. smoke_critical hw m = Some (Ret ct m') \<and>
    clock (soc_after board_config d (trace m)) + 100000 \<le> clock (soc_after board_config d (trace m'))"
proof -
  let ?now = "\<lambda>m. clock (soc_after board_config d (trace m))"
  obtain r1 where enter: "kernel_call ''taskENTER_CRITICAL'' [] hw m =
      Some (Ret () (m\<lparr>trace := Call ''taskENTER_CRITICAL'' [] r1 # trace m\<rparr>))"
    by (simp add: kernel_call_def then_fw_def bind_fw_def extern_fw_def return_fw_def Let_def)
  let ?m1 = "m\<lparr>trace := Call ''taskENTER_CRITICAL'' [] r1 # trace m\<rparr>"
  obtain ct where tick: "tick_count hw ?m1 = Some (Ret ct (?m1\<lparr>trace := Call ''xTaskGetTickCount'' [] ct # trace ?m1\<rparr>))"
    by (simp add: tick_count_def extern_fw_def Let_def)
  let ?m2 = "?m1\<lparr>trace := Call ''xTaskGetTickCount'' [] ct # trace ?m1\<rparr>"
  obtain t m3 where timer: "machine_timer_now hw ?m2 = Some (Ret (of_nat t) m3)"
      "?now ?m2 \<le> t" "t \<le> ?now m3" "?now m3 \<le> ?now ?m2 + 6 * 2"
    unfolding hw_def using kernel_clock.timer_now_total [of k d ?m2] by metis
  have now2: "?now ?m2 = ?now m" by simp
  have far: "?now m3 \<le> ?now m + 12" using timer(4) unfolding now2 by simp
  then have "t + 100000 < 2 ^ 64" using timer(3) early by simp
  then have deadline: "unat (of_nat t + 100000 :: u64) = t + 100000"
    by (simp add: unat_word_ariths unat_of_nat)
  obtain m4 where wait: "wait_until (of_nat t + 100000) hw m3 = Some (Ret () m4)"
      "t + 100000 \<le> ?now m4" "only_reads m3 m4"
    unfolding hw_def
  proof (rule kernel_clock.wait_until_ends [of d m3 "of_nat t + 100000" k])
    show "?now m3 + 6 * 2 < 2 ^ 64" using far early by simp
    show "unat (of_nat t + 100000 :: u64) + 12 * 2 < 2 ^ 64"
      unfolding deadline using timer(3) far early by simp
  qed (auto simp: deadline hw_def)
  have "only_reads ?m2 m4" using timer_now_reads [OF timer(1)] wait(3) by (auto intro: only_reads_trans)
  from masked_tick [OF masked this] have same: "hw (trace m4) (Ext ''xTaskGetTickCount'' []) = ct"
    by (simp add: hw_def)
  have tick2: "tick_count hw m4 = Some (Ret ct (m4\<lparr>trace := Call ''xTaskGetTickCount'' [] ct # trace m4\<rparr>))"
    by (simp add: tick_count_def extern_fw_def Let_def same)
  let ?m5 = "m4\<lparr>trace := Call ''xTaskGetTickCount'' [] ct # trace m4\<rparr>"
  obtain r2 where leave: "kernel_call ''taskEXIT_CRITICAL'' [] hw ?m5 =
      Some (Ret () (?m5\<lparr>trace := Call ''taskEXIT_CRITICAL'' [] r2 # trace ?m5\<rparr>))"
    by (simp add: kernel_call_def then_fw_def bind_fw_def extern_fw_def return_fw_def Let_def)
  have "smoke_critical hw m = Some (Ret ct (?m5\<lparr>trace := Call ''taskEXIT_CRITICAL'' [] r2 # trace ?m5\<rparr>))"
    by (simp only: smoke_critical_def then_fw_apply bind_fw_Ret [of "kernel_call ''taskENTER_CRITICAL'' []" hw m, OF enter]
        bind_fw_Ret [of tick_count hw ?m1, OF tick] bind_fw_Ret [of machine_timer_now hw ?m2, OF timer(1)] two_ticks
        bind_fw_Ret [of "wait_until (of_nat t + 100000)" hw m3, OF wait(1)] bind_fw_Ret [of tick_count hw m4, OF tick2]
        simp_thms if_False bind_fw_Ret [of "kernel_call ''taskEXIT_CRITICAL'' []" hw ?m5, OF leave] return_fw_def)
  then show ?thesis using timer(2) wait(2) now2 by simp
qed

section \<open>The queue demo\<close>

text \<open>\<open>queue_demo.c\<close>: the producer sends 1, 2, 3, ... and the consumer shows what it receives on
  the LEDs. \<open>queue\<close> is the handle in \<open>demo_queue\<close>; the item is passed by value.\<close>

definition queue_demo_producer :: "freertos_api \<Rightarrow> u32 \<Rightarrow> 'b fw" where
  "queue_demo_producer A queue = forever (\<lambda>value0.
     let value = value0 + 1
     in then_fw (kernel_call ''xQueueSend'' [queue, value, portMAX_DELAY])
          (then_fw (kernel_call ''vTaskDelay'' [pdMS_TO_TICKS A 500]) (return_fw value))) 0"

definition queue_demo_consumer :: "freertos_api \<Rightarrow> u32 \<Rightarrow> 'b fw" where
  "queue_demo_consumer A queue = forever (\<lambda>_.
     bind_fw (extern_fw ''xQueueReceive'' [queue, portMAX_DELAY]) (\<lambda>r.
       if r = pdPASS A
       then bind_fw (extern_fw ''received item'' [queue]) (\<lambda>value. gpio_write_led (value AND 0xf))
       else return_fw ())) ()"

definition queue_demo_main :: "u32 \<Rightarrow> symbols \<Rightarrow> u32 \<Rightarrow> u32 \<Rightarrow> 'b fw" where
  "queue_demo_main tskIDLE_PRIORITY addr sizeof_StackType sizeof_StaticTask =
     bind_fw (extern_fw ''xQueueCreateStatic'' [1, 4, addr ''queue_storage'', addr ''queue_control'']) (\<lambda>_.
     then_fw (kernel_call ''xTaskCreateStatic'' [addr ''consumer'', addr ''consumer name'', 256, 0,
        tskIDLE_PRIORITY + 1, addr ''task_stack'', addr ''task_control''])
     (then_fw (kernel_call ''xTaskCreateStatic'' [addr ''producer'', addr ''producer name'', 256, 0,
        tskIDLE_PRIORITY + 1, addr ''task_stack'' + 256 * sizeof_StackType, addr ''task_control'' + sizeof_StaticTask])
     (then_fw (kernel_call ''vTaskStartScheduler'' []) hang_fw)))"

lemma queue_demo_never_stops:
  "safely (\<lambda>_. False) (queue_demo_producer A queue) (\<lambda>_. False)"
  "safely (\<lambda>_. False) (queue_demo_consumer A queue) (\<lambda>_. False)"
  unfolding queue_demo_producer_def queue_demo_consumer_def Let_def
  by (intro runs_forever [where J = "\<lambda>_. True"] runs_then run_intros runs_return TrueI)
    (intro runs_forever [where J = "\<lambda>_. True"] runs_bind [OF runs_extern], auto intro: run_intros runs_return runs_bind)

section \<open>Properties\<close>

text \<open>C16: In every interleaving of the two counting tasks neither of them ever finds its signature
  in disagreement with its counter (the failure codes 0xf5010001 and 0xf5010002 are unreachable
  without a corrupted context), and when task A has left its loop both counters are nonzero and
  the phase that stops task B is set; below 2^32 steps, before a counter can wrap around.\<close>

theorem smoke_signatures_agree:
  assumes "smoke_reachable n s" "n < 2 ^ 32"
  shows "case s of (a, b, g) \<Rightarrow>
    (\<forall>code. a \<noteq> A_Failed code \<and> b \<noteq> B_Failed code) \<and>
    (a = A_Measure \<longrightarrow> 16 \<le> task_a_counter g \<and> task_b_counter g \<noteq> 0 \<and> smoke_phase g = 1)"
proof -
  obtain a b g where s: "s = (a, b, g)" by (cases s)
  with smoke_reachable_inv [OF assms] show ?thesis by (cases a; cases b) auto
qed

text \<open>The critical section of task A passes its own test: if the kernel masks ticks in it, then
  on the board both waits and timer reads return, the tick count is found unchanged, the code
  0xf5010004 is not reached, and at least two tick periods have passed inside of the section.\<close>

lemma smoke_critical_passes:
  assumes "ticks_masked k" "clock (soc_after board_config d (trace m)) < 2 ^ 63"
  shows "\<exists>ct m'. smoke_critical (with_kernel k (soc_hw board_config d)) m = Some (Ret ct m') \<and>
    clock (soc_after board_config d (trace m)) + 2 * unat COUNTS_PER_TICK \<le>
      clock (soc_after board_config d (trace m'))"
proof -
  have "2 * unat COUNTS_PER_TICK = 100000"
    by (simp add: COUNTS_PER_TICK_def configCPU_CLOCK_HZ_def configTICK_RATE_HZ_def unat_div)
  with smoke_critical_run [OF assms] show ?thesis by simp
qed

section \<open>Witnesses\<close>

fun smoke_run :: "bool list \<Rightarrow> smoke_system \<Rightarrow> smoke_system" where
  "smoke_run [] s = s"
| "smoke_run (t # ts) s = smoke_run ts (smoke_turn t s)"

lemma smoke_run_reachable: "smoke_reachable n s \<Longrightarrow> smoke_reachable (n + length ts) (smoke_run ts s)"
proof (induction ts arbitrary: n s)
  case (Cons t ts)
  from Cons.IH [OF smoke_step [OF Cons.prems, of t]] show ?case by simp
qed simp

text \<open>Task B counts once, task A goes around sixteen times and raises the phase.\<close>

definition example_smoke :: smoke_system where
  "example_smoke = smoke_run (replicate 5 False @ replicate 99 True) smoke_start"

lemma example_smoke_value:
  "example_smoke = (A_Measure, B_Phase (SIGNATURE_B + 5), \<lparr>task_a_counter = 16, task_b_counter = 1, smoke_phase = 1\<rparr>)"
  by code_simp

theorem smoke_signatures_agree_witness:
  "case example_smoke of (a, b, g) \<Rightarrow> a = A_Measure \<and> 16 \<le> task_a_counter g \<and> smoke_phase g = 1"
proof -
  have "smoke_reachable (0 + length (replicate 5 False @ replicate 99 True)) example_smoke"
    unfolding example_smoke_def by (rule smoke_run_reachable [OF smoke_init])
  from smoke_signatures_agree [OF this] show ?thesis by (simp add: example_smoke_value)
qed

text \<open>A kernel whose tick count is always 7.\<close>

definition still_kernel :: "access list \<Rightarrow> string \<Rightarrow> u32 list \<Rightarrow> u32" where
  "still_kernel tr f xs = (if f = ''xTaskGetTickCount'' then
     (case filter (\<lambda>x. \<not> is_read x) tr of Call g ys t # _ \<Rightarrow> if g = f then t else 7 | _ \<Rightarrow> 7) else 0)"

theorem smoke_critical_passes_witness:
  "\<exists>ct m'. smoke_critical (with_kernel still_kernel (soc_hw board_config board_reset))
      \<lparr>mem = (\<lambda>_. 0), trace = []\<rparr> = Some (Ret ct m') \<and> 100000 \<le> clock (soc_after board_config board_reset (trace m'))"
proof -
  have "filter (\<lambda>x. \<not> is_read x) rs = []" if "list_all is_read rs" for rs
    using that by (auto simp: list_all_iff)
  then have "ticks_masked still_kernel" by (auto simp: ticks_masked_def still_kernel_def)
  moreover have "clock (soc_after board_config board_reset (trace \<lparr>mem = (\<lambda>_. 0), trace = []\<rparr>)) < 2 ^ 63"
    by (simp add: board_reset_def)
  ultimately obtain ct m' where "smoke_critical (with_kernel still_kernel (soc_hw board_config board_reset))
      \<lparr>mem = (\<lambda>_. 0), trace = []\<rparr> = Some (Ret ct m')"
    "2 * unat COUNTS_PER_TICK \<le> clock (soc_after board_config board_reset (trace m'))"
    using smoke_critical_passes by fastforce
  moreover have "2 * unat COUNTS_PER_TICK = 100000"
    by (simp add: COUNTS_PER_TICK_def configCPU_CLOCK_HZ_def configTICK_RATE_HZ_def unat_div)
  ultimately show ?thesis by auto
qed

end
