(* ===== verification/Board_Demo.thy ===== *)
theory Board_Demo
  imports Testlib
begin

text \<open>
  The board inspection program \<open>firmware/apps/baremetal/board_demo.c\<close>: it checks the data that
  the loader put into SDRAM, draws a test picture, plays a visible round on the LEDs, the traffic
  lights and the buzzer, reports, and goes on showing the round. The arrays in SDRAM are volatile,
  so their accesses are bus accesses; their addresses \<open>seed\<close> and \<open>scratch\<close> come from the linker.
\<close>

section \<open>The program\<close>

definition BOARD_CLOCK_HZ :: u32 where "BOARD_CLOCK_HZ = 50000000"
definition TONE_HZ :: u32 where "TONE_HZ = 1000"
definition FIRST_ROUND_DELAY :: u32 where "FIRST_ROUND_DELAY = 2000"
definition VISIBLE_LOOP_DELAY :: u32 where "VISIBLE_LOOP_DELAY = 400000"
definition VGA_READY_TIMEOUT :: u32 where "VGA_READY_TIMEOUT = 100000"

definition sdram_seed :: "u32 list" where
  "sdram_seed = [0x13579bdf, 0x2468ace0, 0x55aa55aa, 0xa5a5a5a5]"

definition k_led_pattern :: "u32 list" where "k_led_pattern = [1, 2, 4, 8]"

definition k_step_message :: "u8 list list" where
  "k_step_message = [bytes ''step 0 led=0x1'' @ [10], bytes ''step 1 led=0x2'' @ [10],
     bytes ''step 2 led=0x4'' @ [10], bytes ''step 3 led=0x8'' @ [10]]"

definition k_traffic_pattern :: "u32 list" where
  "k_traffic_pattern = [0x924, 0x492, 0x249, 0x492]"

text \<open>The counter of the delay is a volatile local variable, the body is empty.\<close>

definition busy_delay :: "u32 \<Rightarrow> unit fw" where
  "busy_delay rounds = for_fw [0..<unat rounds] (\<lambda>_. return_fw ())"

definition play_visible_round :: "u32 \<Rightarrow> unit fw" where
  "play_visible_round delay_rounds = for_fw [0..<4] (\<lambda>i.
     seq_fw [bind_fw (of_option_fw (array_get k_led_pattern i)) gpio_write_led,
       bind_fw (of_option_fw (array_get k_traffic_pattern i)) traffic_light_write,
       bind_fw (of_option_fw (array_get k_step_message i)) uart_puts,
       busy_delay delay_rounds])"

definition board_fail :: "u32 \<Rightarrow> 'a fw" where
  "board_fail code =
     then_fw (seq_fw [buzzer_stop, gpio_write_led 0xf, uart_puts (bytes ''board_demo FAIL code=''),
         uart_put_hex code, uart_puts [10], uart_flush])
       (then_fw (mmio_write TINYBUS_TEST_EXIT code) hang_fw)"

definition word_at :: "u32 \<Rightarrow> nat \<Rightarrow> u32" where
  "word_at base i = base + of_nat (4 * i)"

definition expected_seed :: "u32 list" where
  "expected_seed = [0x13579bdf, 0x2468ace0, 0x55aa55aa, 0xa5a5a5a5]"

definition check_seed :: "u32 \<Rightarrow> unit fw" where
  "check_seed seed = for_fw [0..<4] (\<lambda>i.
     bind_fw (mmio_read (word_at seed i)) (\<lambda>v.
     bind_fw (of_option_fw (array_get expected_seed i)) (\<lambda>e.
       if v \<noteq> e then board_fail (0xdead0100 + of_nat i) else return_fw ())))"

definition fill_scratch :: "u32 \<Rightarrow> u32 \<Rightarrow> unit fw" where
  "fill_scratch seed scratch = for_fw [0..<8] (\<lambda>i.
     bind_fw (mmio_read (word_at scratch i)) (\<lambda>v.
       if v \<noteq> 0 then board_fail (0xdead0200 + of_nat i)
       else bind_fw (mmio_read (word_at seed (i mod 4))) (\<lambda>s.
         mmio_write (word_at scratch i) (s XOR (0x01010101 * of_nat i)))))"

definition sum_scratch :: "u32 \<Rightarrow> u32 \<Rightarrow> u32 fw" where
  "sum_scratch seed scratch = fold_fw [0..<8] (\<lambda>i checksum.
     bind_fw (mmio_read (word_at seed (i mod 4))) (\<lambda>s.
       let expected = s XOR (0x01010101 * of_nat i)
       in bind_fw (mmio_read (word_at scratch i)) (\<lambda>v.
         if v \<noteq> expected then board_fail (0xdead0300 + of_nat i)
         else bind_fw (mmio_read (word_at scratch i)) (\<lambda>w. return_fw (checksum + w))))) 0"

definition check_sdram :: "u32 \<Rightarrow> u32 \<Rightarrow> u32 fw" where
  "check_sdram seed scratch =
     then_fw (check_seed seed) (then_fw (fill_scratch seed scratch) (sum_scratch seed scratch))"

definition vga_row_pattern :: "nat \<Rightarrow> u32" where
  "vga_row_pattern y =
     (if y = 0 \<or> y = unat VGA_BITMAP_HEIGHT div 2 \<or> y = unat VGA_BITMAP_HEIGHT - 1
      then 0xffffffff else 0x80000001)"

definition draw_vga_pattern :: "u32 fw" where
  "draw_vga_pattern =
     then_fw (loop_fw (\<lambda>wait_count. bind_fw vga_is_ready (\<lambda>ready.
         return_fw (if ready = 0 \<and> wait_count < VGA_READY_TIMEOUT then Inl (wait_count + 1) else Inr ()))) 0)
       (bind_fw vga_is_ready (\<lambda>ready.
          if ready = 0 then return_fw 0
          else then_fw (for_fw [0..<unat VGA_BITMAP_HEIGHT] (\<lambda>y.
                 let pattern = vga_row_pattern y
                 in then_fw (vga_bitmap_write_word (of_nat y * 2) pattern)
                      (vga_bitmap_write_word (of_nat y * 2 + 1) pattern)))
               (return_fw 1)))"

text \<open>\<open>main\<close> up to the endless loop.\<close>

definition board_demo_once :: "u32 \<Rightarrow> u32 \<Rightarrow> unit fw" where
  "board_demo_once seed scratch =
     then_fw (uart_puts (bytes ''board_demo boot'' @ [10]))
     (bind_fw perf_begin (\<lambda>perf0.
      bind_fw (check_sdram seed scratch) (\<lambda>checksum.
      then_fw (seq_fw [uart_puts (bytes ''board_demo SDRAM PASS checksum=''), uart_put_hex checksum, uart_puts [10]])
     (bind_fw draw_vga_pattern (\<lambda>vga_ready.
      then_fw (seq_fw [uart_puts (if vga_ready \<noteq> 0 then bytes ''board_demo VGA PASS'' @ [10]
                    else bytes ''board_demo VGA SKIP'' @ [10]),
          buzzer_start_hz BOARD_CLOCK_HZ TONE_HZ, play_visible_round FIRST_ROUND_DELAY, buzzer_stop])
     (bind_fw gpio_read_key (\<lambda>key0. let key = key0 AND 0xf in
      then_fw (seq_fw [uart_puts (bytes ''board_demo KEY=0x''), uart_put_hex key, uart_puts [10]])
     (bind_fw (perf_end perf0) (\<lambda>perf.
      then_fw (seq_fw [perf_report (bytes ''board_demo'') perf, uart_puts (bytes ''board_demo PASS'' @ [10]),
          uart_flush, traffic_light_write 0x249, gpio_write_led 5])
     (then_fw (mmio_write TINYBUS_TEST_EXIT 1) (busy_delay VISIBLE_LOOP_DELAY)))))))))))"

definition board_demo_main :: "u32 \<Rightarrow> u32 \<Rightarrow> 'b fw" where
  "board_demo_main seed scratch =
     then_fw (board_demo_once seed scratch) (forever (\<lambda>_.
       seq_fw [buzzer_start_hz BOARD_CLOCK_HZ TONE_HZ, play_visible_round VISIBLE_LOOP_DELAY,
         buzzer_stop, busy_delay VISIBLE_LOOP_DELAY]) ())"

section \<open>Delays and the round\<close>

lemma busy_delay_idle [simp]: "busy_delay rounds = return_fw ()"
proof -
  have "for_fw is (\<lambda>_. return_fw ()) = return_fw ()" for "is"
    by (induction "is") (simp_all add: then_fw_def)
  then show ?thesis by (simp add: busy_delay_def)
qed

section \<open>SDRAM behind the devices\<close>

text \<open>A word of SDRAM holds the last value stored in it, at first what the loader put there; below
  the SDRAM the devices \<open>hw\<close> answer.\<close>

fun ram_word :: "(u32 \<Rightarrow> u32) \<Rightarrow> u32 \<Rightarrow> access list \<Rightarrow> u32" where
  "ram_word img a [] = img a"
| "ram_word img a (Wr b v # tr) = (if b = a then v else ram_word img a tr)"
| "ram_word img a (_ # tr) = ram_word img a tr"

definition with_ram :: "(u32 \<Rightarrow> u32) \<Rightarrow> hw \<Rightarrow> hw" where
  "with_ram img hw tr q =
     (case q of Reg a \<Rightarrow> if TINYBUS_SDRAM_BASE \<le> a then ram_word img a tr else hw tr (Reg a)
      | Ext f xs \<Rightarrow> hw tr (Ext f xs))"

lemma with_ram_simps [simp]:
  "TINYBUS_SDRAM_BASE \<le> a \<Longrightarrow> with_ram img hw tr (Reg a) = ram_word img a tr"
  "\<not> TINYBUS_SDRAM_BASE \<le> a \<Longrightarrow> with_ram img hw tr (Reg a) = hw tr (Reg a)"
  by (simp_all add: with_ram_def)

interpretation ram_uart: uart_tx "with_ram img (soc_hw cfg s0)" for img cfg s0
proof
  fix tr
  have low: "\<not> TINYBUS_SDRAM_BASE \<le> TINYBUS_UART_STATUS" by (simp add: addr_defs)
  have "poll_trace (with_ram img (soc_hw cfg s0)) TINYBUS_UART_STATUS n tr =
      poll_trace (soc_hw cfg s0) TINYBUS_UART_STATUS n tr" for n tr
    by (induction n arbitrary: tr) (simp_all add: low del: soc_hw.simps)
  then show "\<exists>n. with_ram img (soc_hw cfg s0) (poll_trace (with_ram img (soc_hw cfg s0)) TINYBUS_UART_STATUS n tr)
      (Reg TINYBUS_UART_STATUS) AND UART_STATUS_TX_READY \<noteq> 0"
    using soc_tx_live [of cfg s0 tr] by (simp add: low UART_STATUS_TX_READY_def del: soc_hw.simps)
qed

abbreviation "cell img a m \<equiv> ram_word img a (trace m)"

lemma ram_word_filter: "ram_word img a (filter (\<lambda>x. \<not> is_read x) tr) = ram_word img a tr"
  by (induction img a tr rule: ram_word.induct) simp_all

lemma cell_effects:
  assumes "effects m' = effects m @ es" "\<And>v. Wr a v \<notin> set es"
  shows "cell img a m' = cell img a m"
proof -
  have "\<forall>v. Wr a v \<notin> set xs \<Longrightarrow> ram_word img a (xs @ tr) = ram_word img a tr" for xs tr
  proof (induction xs)
    case (Cons x xs)
    then show ?case by (cases x) auto
  qed simp
  moreover have "filter (\<lambda>x. \<not> is_read x) (trace m') = rev es @ filter (\<lambda>x. \<not> is_read x) (trace m)"
    using assms(1) by (simp add: effects_def) (metis rev_append rev_rev_ident)
  ultimately show ?thesis using assms(2) ram_word_filter [of img a "trace m'"] ram_word_filter [of img a "trace m"]
    by simp
qed

lemma read_cell:
  "TINYBUS_SDRAM_BASE \<le> a \<Longrightarrow> bind_fw (mmio_read a) g (with_ram img hw) m =
     g (cell img a m) (with_ram img hw) (m\<lparr>trace := Rd a (cell img a m) # trace m\<rparr>)"
  by (simp add: bind_fw_def mmio_read_def Let_def)

lemma board_fail_stops:
  "\<exists>m'. board_fail code (with_ram img (soc_hw cfg s0)) m = Some (Stop m') \<and> stopped_with {code} m'"
  unfolding board_fail_def buzzer_stop_def gpio_write_led_def
  by (rule exit_stops, rule does_any_seq)
    (auto simp del: uart_puts.simps intro: does_any_emits emits_write ram_uart.emits_puts
      ram_uart.emits_put_hex ram_uart.emits_flush)

lemma board_fail_bind [simp]: "bind_fw (board_fail code) g = board_fail code"
  by (simp add: board_fail_def then_fw_def bind_assoc_fw)

section \<open>Loops that check\<close>

lemma guarded_loop:
  assumes body: "\<And>i m. k \<le> i \<Longrightarrow> i < n \<Longrightarrow> Inv i m \<Longrightarrow> \<exists>m'. if ok i
      then body i hw m = Some (Ret () m') \<and> Inv (Suc i) m'
      else body i hw m = Some (Stop m') \<and> stopped_with {code i} m'"
    and "Inv k m" "k \<le> n"
  shows "\<exists>m'. case find (\<lambda>i. \<not> ok i) [k..<n] of
      None \<Rightarrow> for_fw [k..<n] body hw m = Some (Ret () m') \<and> Inv n m'
    | Some i \<Rightarrow> for_fw [k..<n] body hw m = Some (Stop m') \<and> stopped_with {code i} m'"
  using assms
proof (induction "n - k" arbitrary: k m)
  case 0
  then show ?case by (simp add: return_fw_def)
next
  case (Suc d)
  then have k: "k < n" "d = n - Suc k" by simp_all
  then have upt: "[k..<n] = k # [Suc k..<n]" by (simp add: upt_conv_Cons)
  obtain m1 where m1: "if ok k then body k hw m = Some (Ret () m1) \<and> Inv (Suc k) m1
      else body k hw m = Some (Stop m1) \<and> stopped_with {code k} m1"
    using Suc.prems(1) [OF order_refl k(1) Suc.prems(2)] by blast
  show ?case
  proof (cases "ok k")
    case True
    have "\<exists>m'. case find (\<lambda>i. \<not> ok i) [Suc k..<n] of
        None \<Rightarrow> for_fw [Suc k..<n] body hw m1 = Some (Ret () m') \<and> Inv n m'
      | Some i \<Rightarrow> for_fw [Suc k..<n] body hw m1 = Some (Stop m') \<and> stopped_with {code i} m'"
      using m1 True k by (intro Suc.hyps Suc.prems(1)) simp_all
    moreover have "for_fw [k..<n] body hw m = for_fw [Suc k..<n] body hw m1"
      using m1 True by (simp add: upt then_fw_def bind_fw_def)
    moreover have "find (\<lambda>i. \<not> ok i) [k..<n] = find (\<lambda>i. \<not> ok i) [Suc k..<n]" using True by (simp add: upt)
    ultimately show ?thesis by (cases "find (\<lambda>i. \<not> ok i) [Suc k..<n]") simp_all
  next
    case False
    with m1 show ?thesis by (auto simp: upt then_fw_def bind_fw_def)
  qed
qed

lemma fold_loop:
  assumes body: "\<And>i s m. k \<le> i \<Longrightarrow> i < n \<Longrightarrow> Inv m \<Longrightarrow> \<exists>m'. body i s hw m = Some (Ret (f i s) m') \<and> Inv m'"
    and "Inv m" "k \<le> n"
  shows "\<exists>m'. fold_fw [k..<n] body s hw m = Some (Ret (fold f [k..<n] s) m') \<and> Inv m'"
  using assms
proof (induction "n - k" arbitrary: k m s)
  case 0
  then show ?case by (simp add: return_fw_def)
next
  case (Suc d)
  then have k: "k < n" "d = n - Suc k" by simp_all
  then have upt: "[k..<n] = k # [Suc k..<n]" by (simp add: upt_conv_Cons)
  obtain m1 where m1: "body k s hw m = Some (Ret (f k s) m1)" "Inv m1"
    using Suc.prems(1) [OF order_refl k(1) Suc.prems(2)] by blast
  have "\<exists>m'. fold_fw [Suc k..<n] body (f k s) hw m1 = Some (Ret (fold f [Suc k..<n] (f k s)) m') \<and> Inv m'"
    using m1(2) k by (intro Suc.hyps Suc.prems(1)) simp_all
  then show ?case using m1(1) by (simp add: upt bind_fw_def)
qed

section \<open>The SDRAM check\<close>

definition sdram_layout :: "u32 \<Rightarrow> u32 \<Rightarrow> bool" where
  "sdram_layout seed scratch \<longleftrightarrow>
     distinct (map (word_at seed) [0..<4] @ map (word_at scratch) [0..<8]) \<and>
     list_all (\<lambda>a. TINYBUS_SDRAM_BASE \<le> a) (map (word_at seed) [0..<4] @ map (word_at scratch) [0..<8])"

lemma sdram_layoutD:
  assumes "sdram_layout seed scratch"
  shows "i < 4 \<Longrightarrow> TINYBUS_SDRAM_BASE \<le> word_at seed i"
    and "j < 8 \<Longrightarrow> TINYBUS_SDRAM_BASE \<le> word_at scratch j"
    and "i < 4 \<Longrightarrow> j < 8 \<Longrightarrow> word_at seed i \<noteq> word_at scratch j"
    and "j < 8 \<Longrightarrow> k < 8 \<Longrightarrow> (word_at scratch j = word_at scratch k) = (j = k)"
proof -
  have layout: "inj_on (word_at scratch) (set [0..<8])"
      "word_at seed ` set [0..<4] \<inter> word_at scratch ` set [0..<8] = {}"
      "\<forall>a \<in> word_at seed ` set [0..<4] \<union> word_at scratch ` set [0..<8]. TINYBUS_SDRAM_BASE \<le> a"
    using assms unfolding sdram_layout_def distinct_append distinct_map list_all_iff set_append set_map by blast+
  show "i < 4 \<Longrightarrow> TINYBUS_SDRAM_BASE \<le> word_at seed i" "j < 8 \<Longrightarrow> TINYBUS_SDRAM_BASE \<le> word_at scratch j"
    using layout(3) by simp_all
  show "i < 4 \<Longrightarrow> j < 8 \<Longrightarrow> word_at seed i \<noteq> word_at scratch j" using layout(2) by fastforce
  show "j < 8 \<Longrightarrow> k < 8 \<Longrightarrow> (word_at scratch j = word_at scratch k) = (j = k)"
    using layout(1) by (auto simp: inj_on_def)
qed

text \<open>What the check decides about the words \<open>w\<close> in SDRAM: the code of the first wrong seed, or of
  the first scratch word that is not 0.\<close>

definition sdram_verdict :: "(u32 \<Rightarrow> u32) \<Rightarrow> u32 \<Rightarrow> u32 \<Rightarrow> u32 option" where
  "sdram_verdict w seed scratch =
     (case find (\<lambda>i. w (word_at seed i) \<noteq> expected_seed ! i) [0..<4] of
        Some i \<Rightarrow> Some (0xdead0100 + of_nat i)
      | None \<Rightarrow> (case find (\<lambda>i. w (word_at scratch i) \<noteq> 0) [0..<8] of
          Some i \<Rightarrow> Some (0xdead0200 + of_nat i)
        | None \<Rightarrow> None))"

definition scratch_value :: "nat \<Rightarrow> u32" where
  "scratch_value i = expected_seed ! (i mod 4) XOR (0x01010101 * of_nat i)"

lemma sum_scratch_values: "fold (\<lambda>i s. s + scratch_value i) [0..<8] 0 = 0x6620881c"
  by code_simp

text \<open>The seeds are as expected, the first \<open>k\<close> words of the scratch array are filled, the others as
  in \<open>w\<close>.\<close>

definition filled :: "(u32 \<Rightarrow> u32) \<Rightarrow> u32 \<Rightarrow> u32 \<Rightarrow> (u32 \<Rightarrow> u32) \<Rightarrow> nat \<Rightarrow> machine \<Rightarrow> bool" where
  "filled img seed scratch w k m \<longleftrightarrow> (\<forall>i < 4. cell img (word_at seed i) m = expected_seed ! i) \<and>
     (\<forall>j < 8. cell img (word_at scratch j) m = (if j < k then scratch_value j else w (word_at scratch j)))"

lemma filled_read [simp]:
  "filled img seed scratch w k (m\<lparr>trace := Rd a v # tr\<rparr>) = filled img seed scratch w k (m\<lparr>trace := tr\<rparr>)"
  "filled img seed scratch w k (m\<lparr>trace := trace m\<rparr>) = filled img seed scratch w k m"
  by (simp_all add: filled_def)

lemma check_seed_run:
  fixes img cfg s0 m
  defines "hw \<equiv> with_ram img (soc_hw cfg s0)"
  assumes layout: "sdram_layout seed scratch"
  shows "\<exists>m'. case find (\<lambda>i. \<not> cell img (word_at seed i) m = expected_seed ! i) [0..<4] of
      None \<Rightarrow> check_seed seed hw m = Some (Ret () m') \<and> (\<forall>a. cell img a m' = cell img a m)
    | Some i \<Rightarrow> check_seed seed hw m = Some (Stop m') \<and> stopped_with {0xdead0100 + of_nat i} m'"
  unfolding check_seed_def
proof (rule guarded_loop [where Inv = "\<lambda>i m'. \<forall>a. cell img a m' = cell img a m" and code = "\<lambda>i. 0xdead0100 + of_nat i"])
  fix i :: nat and m1 :: machine
  assume i: "i < 4" and same: "\<forall>a. cell img a m1 = cell img a m"
  let ?m = "m1\<lparr>trace := Rd (word_at seed i) (cell img (word_at seed i) m) # trace m1\<rparr>"
  have "array_get expected_seed i = Some (expected_seed ! i)" using i by (simp add: array_get_def expected_seed_def)
  then have run: "bind_fw (mmio_read (word_at seed i)) (\<lambda>v.
      bind_fw (of_option_fw (array_get expected_seed i)) (\<lambda>e.
       if v \<noteq> e then board_fail (0xdead0100 + of_nat i) else return_fw ())) hw m1 =
     (if cell img (word_at seed i) m \<noteq> expected_seed ! i then board_fail (0xdead0100 + of_nat i) else return_fw ()) hw ?m"
    using sdram_layoutD(1) [OF layout i] same by (simp add: hw_def read_cell)
  show "\<exists>m'. if cell img (word_at seed i) m = expected_seed ! i
    then bind_fw (mmio_read (word_at seed i)) (\<lambda>v.
      bind_fw (of_option_fw (array_get expected_seed i)) (\<lambda>e.
       if v \<noteq> e then board_fail (0xdead0100 + of_nat i) else return_fw ())) hw m1 = Some (Ret () m') \<and>
      (\<forall>a. cell img a m' = cell img a m)
    else bind_fw (mmio_read (word_at seed i)) (\<lambda>v.
      bind_fw (of_option_fw (array_get expected_seed i)) (\<lambda>e.
       if v \<noteq> e then board_fail (0xdead0100 + of_nat i) else return_fw ())) hw m1 = Some (Stop m') \<and>
      stopped_with {0xdead0100 + of_nat i} m'"
    unfolding run using same board_fail_stops [of "0xdead0100 + of_nat i" img cfg s0 ?m]
    by (auto simp: hw_def return_fw_def)
qed simp_all

lemma scratch_guard:
  fixes img cfg s0 m
  defines "hw \<equiv> with_ram img (soc_hw cfg s0)"
  assumes layout: "sdram_layout seed scratch" and i: "i < 8" and filled: "filled img seed scratch w i m"
  shows "\<exists>m'. if w (word_at scratch i) = 0
    then bind_fw (mmio_read (word_at scratch i)) (\<lambda>v.
       if v \<noteq> 0 then board_fail (0xdead0200 + of_nat i)
       else bind_fw (mmio_read (word_at seed (i mod 4))) (\<lambda>s.
         mmio_write (word_at scratch i) (s XOR (0x01010101 * of_nat i)))) hw m = Some (Ret () m') \<and>
      filled img seed scratch w (Suc i) m'
    else bind_fw (mmio_read (word_at scratch i)) (\<lambda>v.
       if v \<noteq> 0 then board_fail (0xdead0200 + of_nat i)
       else bind_fw (mmio_read (word_at seed (i mod 4))) (\<lambda>s.
         mmio_write (word_at scratch i) (s XOR (0x01010101 * of_nat i)))) hw m = Some (Stop m') \<and>
      stopped_with {0xdead0200 + of_nat i} m'"
proof -
  note high = sdram_layoutD [OF layout]
  have read: "cell img (word_at scratch i) m = w (word_at scratch i)" using filled i by (simp add: filled_def)
  have quarter: "i mod 4 < 4" by simp
  have seed: "cell img (word_at seed (i mod 4)) m = expected_seed ! (i mod 4)"
    using filled quarter by (simp add: filled_def)
  show ?thesis
  proof (cases "w (word_at scratch i) = 0")
    case True
    let ?m = "m\<lparr>trace := Wr (word_at scratch i) (scratch_value i) #
        Rd (word_at seed (i mod 4)) (expected_seed ! (i mod 4)) # Rd (word_at scratch i) 0 # trace m\<rparr>"
    have apart: "word_at scratch i \<noteq> word_at seed j" if "j < 4" for j using high(3) [OF that i] by simp
    have "filled img seed scratch w (Suc i) ?m"
      using filled by (auto simp: filled_def less_Suc_eq apart high(4) [OF i])
    moreover have "bind_fw (mmio_read (word_at scratch i)) (\<lambda>v.
       if v \<noteq> 0 then board_fail (0xdead0200 + of_nat i)
       else bind_fw (mmio_read (word_at seed (i mod 4))) (\<lambda>s.
         mmio_write (word_at scratch i) (s XOR (0x01010101 * of_nat i)))) hw m = Some (Ret () ?m)"
      using True high(2) [OF i] high(1) [OF quarter] read seed
      by (simp add: hw_def read_cell scratch_value_def mmio_write_def)
    ultimately show ?thesis using True by auto
  next
    case False
    then show ?thesis
      using high(2) [OF i] read board_fail_stops [of "0xdead0200 + of_nat i" img cfg s0
          "m\<lparr>trace := Rd (word_at scratch i) (w (word_at scratch i)) # trace m\<rparr>"]
      by (simp add: hw_def read_cell)
  qed
qed

lemma fill_scratch_run:
  fixes img cfg s0 m
  defines "hw \<equiv> with_ram img (soc_hw cfg s0)"
  assumes layout: "sdram_layout seed scratch" and filled: "filled img seed scratch w 0 m"
  shows "\<exists>m'. case find (\<lambda>i. \<not> w (word_at scratch i) = 0) [0..<8] of
      None \<Rightarrow> fill_scratch seed scratch hw m = Some (Ret () m') \<and> filled img seed scratch w 8 m'
    | Some i \<Rightarrow> fill_scratch seed scratch hw m = Some (Stop m') \<and> stopped_with {0xdead0200 + of_nat i} m'"
  unfolding fill_scratch_def hw_def
  by (rule guarded_loop [where Inv = "filled img seed scratch w" and code = "\<lambda>i. 0xdead0200 + of_nat i"])
    (use layout filled in \<open>simp_all add: scratch_guard\<close>)

lemma sum_scratch_run:
  fixes img cfg s0 m
  defines "hw \<equiv> with_ram img (soc_hw cfg s0)"
  assumes layout: "sdram_layout seed scratch" and filled: "filled img seed scratch w 8 m"
  shows "\<exists>m'. sum_scratch seed scratch hw m = Some (Ret 0x6620881c m')"
proof -
  have "\<exists>m'. sum_scratch seed scratch hw m = Some (Ret (fold (\<lambda>i s. s + scratch_value i) [0..<8] 0) m') \<and>
      filled img seed scratch w 8 m'"
    unfolding sum_scratch_def
  proof (rule fold_loop)
    fix i :: nat and s :: u32 and m1 :: machine
    assume i: "i < 8" and now: "filled img seed scratch w 8 m1"
    have quarter: "i mod 4 < 4" by simp
    have "cell img (word_at scratch i) m1 = scratch_value i"
        "cell img (word_at seed (i mod 4)) m1 = expected_seed ! (i mod 4)"
      using now i quarter by (simp_all add: filled_def)
    then show "\<exists>m'. bind_fw (mmio_read (word_at seed (i mod 4))) (\<lambda>sa.
       let expected = sa XOR (0x01010101 * of_nat i)
       in bind_fw (mmio_read (word_at scratch i)) (\<lambda>v.
         if v \<noteq> expected then board_fail (0xdead0300 + of_nat i)
         else bind_fw (mmio_read (word_at scratch i)) (\<lambda>w. return_fw (s + w)))) hw m1 =
       Some (Ret (s + scratch_value i) m') \<and> filled img seed scratch w 8 m'"
      using sdram_layoutD(1) [OF layout quarter] sdram_layoutD(2) [OF layout i] now
      by (simp add: hw_def read_cell scratch_value_def return_fw_def)
  qed (use filled in simp_all)
  then show ?thesis by (auto simp: sum_scratch_values)
qed

lemma check_sdram_run:
  fixes img cfg s0 m
  defines "hw \<equiv> with_ram img (soc_hw cfg s0)"
  assumes layout: "sdram_layout seed scratch"
  shows "\<exists>m'. case sdram_verdict (\<lambda>a. cell img a m) seed scratch of
      None \<Rightarrow> check_sdram seed scratch hw m = Some (Ret 0x6620881c m')
    | Some c \<Rightarrow> check_sdram seed scratch hw m = Some (Stop m') \<and> stopped_with {c} m'"
proof -
  obtain m1 where m1: "case find (\<lambda>i. \<not> cell img (word_at seed i) m = expected_seed ! i) [0..<4] of
      None \<Rightarrow> check_seed seed hw m = Some (Ret () m1) \<and> (\<forall>a. cell img a m1 = cell img a m)
    | Some i \<Rightarrow> check_seed seed hw m = Some (Stop m1) \<and> stopped_with {0xdead0100 + of_nat i} m1"
    unfolding hw_def using check_seed_run [OF layout] by blast
  show ?thesis
  proof (cases "find (\<lambda>i. \<not> cell img (word_at seed i) m = expected_seed ! i) [0..<4]")
    case (Some i)
    with m1 show ?thesis
      by (intro exI [of _ m1]) (simp add: sdram_verdict_def check_sdram_def then_fw_def bind_fw_def)
  next
    case None
    then have seed: "\<forall>i < 4. cell img (word_at seed i) m = expected_seed ! i"
      by (simp add: find_None_iff)
    with None m1 have start: "filled img seed scratch (\<lambda>a. cell img a m) 0 m1" by (simp add: filled_def)
    obtain m2 where m2: "case find (\<lambda>i. \<not> cell img (word_at scratch i) m = 0) [0..<8] of
        None \<Rightarrow> fill_scratch seed scratch hw m1 = Some (Ret () m2) \<and> filled img seed scratch (\<lambda>a. cell img a m) 8 m2
      | Some i \<Rightarrow> fill_scratch seed scratch hw m1 = Some (Stop m2) \<and> stopped_with {0xdead0200 + of_nat i} m2"
      unfolding hw_def using fill_scratch_run [OF layout start] by blast
    have run: "check_sdram seed scratch hw m = then_fw (fill_scratch seed scratch) (sum_scratch seed scratch) hw m1"
      using m1 None by (simp add: check_sdram_def then_fw_def bind_fw_def)
    show ?thesis
    proof (cases "find (\<lambda>i. \<not> cell img (word_at scratch i) m = 0) [0..<8]")
      case (Some i)
      with m2 None show ?thesis
        unfolding run by (intro exI [of _ m2]) (simp add: sdram_verdict_def then_fw_def bind_fw_def)
    next
      case scratch: None
      with m2 have "filled img seed scratch (\<lambda>a. cell img a m) 8 m2" by simp
      then obtain m3 where "sum_scratch seed scratch hw m2 = Some (Ret 0x6620881c m3)"
        unfolding hw_def using sum_scratch_run [OF layout, of img _ m2 cfg s0] by blast
      with m2 None scratch show ?thesis
        unfolding run by (intro exI [of _ m3]) (simp add: sdram_verdict_def then_fw_def bind_fw_def)
    qed
  qed
qed

section \<open>The test picture\<close>

lemma wait_loop_ends:
  "does hw (loop_fw (\<lambda>wait_count. bind_fw vga_is_ready (\<lambda>ready.
     return_fw (if ready = 0 \<and> wait_count < VGA_READY_TIMEOUT then Inl (wait_count + 1) else Inr ()))) w)
   (\<lambda>_ es. es = [])"
proof (induction "unat VGA_READY_TIMEOUT - unat w" arbitrary: w rule: less_induct)
  case less
  let ?body = "\<lambda>wait_count. bind_fw vga_is_ready (\<lambda>ready.
     return_fw (if ready = 0 \<and> wait_count < VGA_READY_TIMEOUT then Inl (wait_count + 1) else Inr ()))"
  show ?case
    unfolding does_def
  proof
    fix m
    obtain v m1 where v: "vga_is_ready hw m = Some (Ret v m1)" "mem m1 = mem m" "effects m1 = effects m"
      by (simp add: vga_is_ready_def bind_fw_def mmio_read_def return_fw_def Let_def)
    show "\<exists>a m' es. loop_fw ?body w hw m = Some (Ret a m') \<and> mem m' = mem m \<and> effects m' = effects m @ es \<and> es = []"
    proof (cases "v = 0 \<and> w < VGA_READY_TIMEOUT")
      case True
      have "unat (w + 1) = unat w + 1"
        using True by (auto simp: word_less_nat_alt unat_word_ariths VGA_READY_TIMEOUT_def)
      then have "unat VGA_READY_TIMEOUT - unat (w + 1) < unat VGA_READY_TIMEOUT - unat w"
        using True by (simp add: word_less_nat_alt diff_less_mono2)
      from less [OF this] obtain a m' where
        "loop_fw ?body (w + 1) hw m1 = Some (Ret a m')" "mem m' = mem m1" "effects m' = effects m1"
        unfolding does_def by fastforce
      with v True show ?thesis
        by (subst loop_fw.simps) (simp add: bind_fw_def return_fw_def)
    next
      case False
      with v show ?thesis
        by (subst loop_fw.simps) (auto simp: bind_fw_def return_fw_def)
    qed
  qed
qed

text \<open>Every row of the picture is two words; the first, the middle and the last row are full, the
  others have only their border pixels set.\<close>

definition vga_picture :: "access list" where
  "vga_picture = concat (map (\<lambda>y. [Wr (TINYBUS_VGA_FB_BASE + of_nat y * 2 * 4) (vga_row_pattern y),
     Wr (TINYBUS_VGA_FB_BASE + (of_nat y * 2 + 1) * 4) (vga_row_pattern y)]) [0..<48])"

lemma row_in_bitmap:
  assumes "y < 48"
  shows "of_nat y * 2 < VGA_BITMAP_WORDS" "of_nat y * 2 + 1 < VGA_BITMAP_WORDS"
proof -
  have "of_nat (y * 2) < (96 :: u32)" "of_nat (y * 2 + 1) < (96 :: u32)"
    using assms by (simp_all only: word_less_nat_alt unat_of_nat) simp_all
  then show "of_nat y * 2 < VGA_BITMAP_WORDS" "of_nat y * 2 + 1 < VGA_BITMAP_WORDS"
    by (simp_all add: addr_defs add.commute)
qed

lemma emits_rows:
  assumes "\<And>y. y < 48 \<Longrightarrow> row y = vga_row_pattern y"
  shows "emits hw (for_fw [0..<48] (\<lambda>y. let pattern = row y
    in then_fw (vga_bitmap_write_word (of_nat y * 2) pattern) (vga_bitmap_write_word (of_nat y * 2 + 1) pattern))) vga_picture"
  unfolding vga_picture_def Let_def
proof (rule emits_for)
  fix y :: nat assume "y \<in> set [0..<48]"
  then have y: "y < 48" by simp
  from row_in_bitmap [OF y]
    emits_then [OF emits_bitmap_write [of hw "of_nat y * 2" "row y"]
      emits_bitmap_write [of hw "of_nat y * 2 + 1" "row y"]]
  show "emits hw (then_fw (vga_bitmap_write_word (of_nat y * 2) (row y))
      (vga_bitmap_write_word (of_nat y * 2 + 1) (row y)))
    [Wr (TINYBUS_VGA_FB_BASE + of_nat y * 2 * 4) (vga_row_pattern y),
     Wr (TINYBUS_VGA_FB_BASE + (of_nat y * 2 + 1) * 4) (vga_row_pattern y)]"
    by (simp add: assms [OF y])
qed

lemma draw_vga_does:
  "does hw draw_vga_pattern (\<lambda>r es. r = 0 \<and> es = [] \<or> r = 1 \<and> es = vga_picture)"
proof -
  have height: "unat VGA_BITMAP_HEIGHT = 48" by (simp add: addr_defs)
  note rows = emits_rows [of vga_row_pattern hw, OF refl]
  have ready: "does hw vga_is_ready (\<lambda>_ es. es = [])"
    unfolding vga_is_ready_def by (intro does_bind [OF does_read] does_return) simp_all
  show ?thesis
    unfolding draw_vga_pattern_def height
  proof (rule does_then [OF wait_loop_ends], rule does_bind [OF ready])
    fix es0 es :: "access list" and r :: u32
    assume "es0 = []" "es = []"
    moreover have "does hw (then_fw (for_fw [0..<48] (\<lambda>y. let pattern = vga_row_pattern y
        in then_fw (vga_bitmap_write_word (of_nat y * 2) pattern) (vga_bitmap_write_word (of_nat y * 2 + 1) pattern)))
      (return_fw (1 :: u32))) (\<lambda>r es. r = 0 \<and> es = [] \<or> r = 1 \<and> es = vga_picture)"
      using rows unfolding emits_def by (rule does_then) (simp add: does_return)
    ultimately show "does hw (if r = 0 then return_fw (0 :: u32) else then_fw (for_fw [0..<48] (\<lambda>y. let pattern = vga_row_pattern y
        in then_fw (vga_bitmap_write_word (of_nat y * 2) pattern) (vga_bitmap_write_word (of_nat y * 2 + 1) pattern)))
      (return_fw 1)) (\<lambda>b es'. b = 0 \<and> es0 @ es @ es' = [] \<or> b = 1 \<and> es0 @ es @ es' = vga_picture)"
      by (simp add: does_return)
  qed
qed

section \<open>The whole inspection\<close>

lemma does_last:
  "does hw f (\<lambda>_ _. True) \<Longrightarrow> (\<And>a. does hw (g a) (\<lambda>_ es. es \<noteq> [] \<and> last es = x)) \<Longrightarrow>
   does hw (bind_fw f g) (\<lambda>_ es. es \<noteq> [] \<and> last es = x)"
  by (rule does_bind, assumption, rule does_mono, blast, auto)

lemma does_last_then:
  "does hw f (\<lambda>_ _. True) \<Longrightarrow> does hw g (\<lambda>_ es. es \<noteq> [] \<and> last es = x) \<Longrightarrow>
   does hw (then_fw f g) (\<lambda>_ es. es \<noteq> [] \<and> last es = x)"
  unfolding then_fw_def by (rule does_last)

context uart_tx
begin

lemma does_round: "does hw (play_visible_round d) (\<lambda>_ _. True)"
proof -
  have "does hw (for_fw is (\<lambda>i. seq_fw [bind_fw (of_option_fw (array_get k_led_pattern i)) gpio_write_led,
       bind_fw (of_option_fw (array_get k_traffic_pattern i)) traffic_light_write,
       bind_fw (of_option_fw (array_get k_step_message i)) uart_puts, busy_delay d])) (\<lambda>_ _. True)"
    if "set is \<subseteq> {0..<4}" for "is"
    using that
  proof (induction "is")
    case (Cons i "is")
    then have "array_get k_led_pattern i = Some (k_led_pattern ! i)"
        "array_get k_traffic_pattern i = Some (k_traffic_pattern ! i)"
        "array_get k_step_message i = Some (k_step_message ! i)"
      by (simp_all add: array_get_def k_led_pattern_def k_traffic_pattern_def k_step_message_def)
    with Cons show ?case
      by (auto simp del: uart_puts.simps seq_fw.simps simp: does_return
          intro!: does_then [where R = "\<lambda>_ _. True"] does_any_seq intro: does_uart does_devices)
  qed (simp add: does_return)
  then show ?thesis by (simp add: play_visible_round_def del: seq_fw.simps)
qed

end

text \<open>After the SDRAM check nothing can fail: the inspection ends with success.\<close>

definition board_demo_rest :: "perf_snapshot \<Rightarrow> u32 \<Rightarrow> unit fw" where
  "board_demo_rest perf0 checksum =
     then_fw (seq_fw [uart_puts (bytes ''board_demo SDRAM PASS checksum=''), uart_put_hex checksum, uart_puts [10]])
     (bind_fw draw_vga_pattern (\<lambda>vga_ready.
      then_fw (seq_fw [uart_puts (if vga_ready \<noteq> 0 then bytes ''board_demo VGA PASS'' @ [10]
                    else bytes ''board_demo VGA SKIP'' @ [10]),
          buzzer_start_hz BOARD_CLOCK_HZ TONE_HZ, play_visible_round FIRST_ROUND_DELAY, buzzer_stop])
     (bind_fw gpio_read_key (\<lambda>key0. let key = key0 AND 0xf in
      then_fw (seq_fw [uart_puts (bytes ''board_demo KEY=0x''), uart_put_hex key, uart_puts [10]])
     (bind_fw (perf_end perf0) (\<lambda>perf.
      then_fw (seq_fw [perf_report (bytes ''board_demo'') perf, uart_puts (bytes ''board_demo PASS'' @ [10]),
          uart_flush, traffic_light_write 0x249, gpio_write_led 5])
     (then_fw (mmio_write TINYBUS_TEST_EXIT 1) (busy_delay VISIBLE_LOOP_DELAY))))))))"

context uart_tx
begin

lemma does_rest:
  "does hw (board_demo_rest perf0 checksum) (\<lambda>_ es. es \<noteq> [] \<and> last es = Wr TINYBUS_TEST_EXIT 1)"
proof -
  have any: "does hw f (\<lambda>_ _. True)" if "does hw f Q" for f :: "'a fw" and Q
    using that by (rule does_mono) simp
  have seqs: "\<forall>f \<in> set fs. does hw f (\<lambda>_ _. True) \<Longrightarrow> does hw (seq_fw fs) (\<lambda>_ _. True)" for fs
    by (rule does_any_seq) simp
  have vga: "does hw draw_vga_pattern (\<lambda>_ _. True)" using draw_vga_does by (rule does_mono) simp
  have perf: "does hw (perf_end perf0) (\<lambda>_ _. True)" using does_perf(2) by (rule does_mono) simp
  have key: "does hw gpio_read_key (\<lambda>_ _. True)" unfolding gpio_read_key_def by (rule does_read) simp
  have final: "does hw (then_fw (mmio_write TINYBUS_TEST_EXIT 1) (busy_delay VISIBLE_LOOP_DELAY))
      (\<lambda>_ es. es \<noteq> [] \<and> last es = Wr TINYBUS_TEST_EXIT 1)"
    unfolding busy_delay_idle by (intro does_then [where R = "\<lambda>_ es. es = [Wr TINYBUS_TEST_EXIT 1]"] does_write does_return) simp_all
  show ?thesis
    unfolding board_demo_rest_def Let_def
    by (rule does_last_then does_last vga perf key final seqs | simp add: does_uart does_devices does_round does_perf_report
        del: uart_puts.simps seq_fw.simps)+
qed

end

lemma board_demo_once_split:
  "board_demo_once seed scratch =
     then_fw (uart_puts (bytes ''board_demo boot'' @ [10]))
     (bind_fw perf_begin (\<lambda>perf0. bind_fw (check_sdram seed scratch) (board_demo_rest perf0)))"
  unfolding board_demo_once_def board_demo_rest_def by (rule refl)

lemma board_demo_run:
  fixes img cfg s0 m
  defines "hw \<equiv> with_ram img (soc_hw cfg s0)"
  assumes layout: "sdram_layout seed scratch"
  shows "\<exists>m'. case sdram_verdict (\<lambda>a. cell img a m) seed scratch of
      None \<Rightarrow> board_demo_once seed scratch hw m = Some (Ret () m') \<and> last (effects m') = Wr TINYBUS_TEST_EXIT 1
    | Some c \<Rightarrow> board_demo_once seed scratch hw m = Some (Stop m') \<and> stopped_with {c} m'"
proof -
  let ?boot = "bytes ''board_demo boot'' @ [10]"
  have "emits hw (uart_puts ?boot) (map tx (crlf ?boot))" unfolding hw_def by (rule ram_uart.emits_puts)
  then obtain m1 where m1: "uart_puts ?boot hw m = Some (Ret () m1)" "effects m1 = effects m @ map tx (crlf ?boot)"
    by (rule emits_run)
  obtain p m2 where m2: "perf_begin hw m1 = Some (Ret p m2)" "effects m2 = effects m1"
    using does_perf(1) [of hw] unfolding does_def by fastforce
  have same: "cell img a m2 = cell img a m" if "TINYBUS_SDRAM_BASE \<le> a" for a
  proof (rule cell_effects)
    show "effects m2 = effects m @ map tx (crlf ?boot)" using m1(2) m2(2) by simp
    show "Wr a v \<notin> set (map tx (crlf ?boot))" for v
      using that by (auto simp: tx_def addr_defs)
  qed
  have run: "board_demo_once seed scratch hw m = bind_fw (check_sdram seed scratch) (board_demo_rest p) hw m2"
    by (simp add: board_demo_once_split then_fw_def bind_fw_def m1(1) m2(1) del: uart_puts.simps)
  have cells: "map (\<lambda>i. cell img (word_at seed i) m2) [0..<4] = map (\<lambda>i. cell img (word_at seed i) m) [0..<4]"
    "map (\<lambda>i. cell img (word_at scratch i) m2) [0..<8] = map (\<lambda>i. cell img (word_at scratch i) m) [0..<8]"
    using sdram_layoutD(1,2) [OF layout] by (auto simp: same)
  have verdict: "sdram_verdict (\<lambda>a. cell img a m2) seed scratch = sdram_verdict (\<lambda>a. cell img a m) seed scratch"
  proof -
    have "find (\<lambda>i. cell img (word_at seed i) m2 \<noteq> expected_seed ! i) [0..<4] =
        find (\<lambda>i. cell img (word_at seed i) m \<noteq> expected_seed ! i) [0..<4]"
      "find (\<lambda>i. cell img (word_at scratch i) m2 \<noteq> 0) [0..<8] = find (\<lambda>i. cell img (word_at scratch i) m \<noteq> 0) [0..<8]"
      using cells by (auto intro!: find_cong)
    then show ?thesis by (simp add: sdram_verdict_def cong: option.case_cong)
  qed
  obtain m3 where m3: "case sdram_verdict (\<lambda>a. cell img a m) seed scratch of
      None \<Rightarrow> check_sdram seed scratch hw m2 = Some (Ret 0x6620881c m3)
    | Some c \<Rightarrow> check_sdram seed scratch hw m2 = Some (Stop m3) \<and> stopped_with {c} m3"
    unfolding hw_def using check_sdram_run [OF layout, where img = img and m = m2 and cfg = cfg and ?s0.0 = s0] verdict by auto
  show ?thesis
  proof (cases "sdram_verdict (\<lambda>a. cell img a m) seed scratch")
    case None
    obtain u m4 es where "board_demo_rest p 0x6620881c hw m3 = Some (Ret u m4)" "effects m4 = effects m3 @ es"
        "es \<noteq> []" "last es = Wr TINYBUS_TEST_EXIT 1"
      using ram_uart.does_rest [of img cfg s0 p "0x6620881c"] unfolding hw_def does_def by blast
    with None m3 show ?thesis
      unfolding run by (intro exI [of _ m4]) (simp add: bind_fw_def)
  next
    case (Some c)
    with m3 show ?thesis unfolding run by (intro exI [of _ m3]) (simp add: bind_fw_def)
  qed
qed

section \<open>Properties\<close>

text \<open>C17: On the board the inspection always comes to a verdict, and the verdict is that on SDRAM:
  with whatever contents the SDRAM starts, the program reaches its endless show with success as
  the last thing it wrote exactly if the four seeds are as loaded and the eight scratch words
  are 0; otherwise it stops with the code of the first wrong word. Words it wrote itself are
  found again (no code 0xdead03xx), and a missing display or any key state does not make it fail.\<close>

theorem board_demo_decides:
  assumes "sdram_layout seed scratch"
  shows "\<exists>m'. case sdram_verdict (\<lambda>a. ram_word img a (trace m)) seed scratch of
      None \<Rightarrow> board_demo_once seed scratch (with_ram img (soc_hw cfg s0)) m = Some (Ret () m') \<and>
        last (effects m') = Wr TINYBUS_TEST_EXIT 1
    | Some c \<Rightarrow> board_demo_once seed scratch (with_ram img (soc_hw cfg s0)) m = Some (Stop m') \<and>
        stopped_with {c} m' \<and> (\<exists>i < 8. c = 0xdead0100 + of_nat i \<or> c = 0xdead0200 + of_nat i)"
proof -
  have code: "\<exists>i < 8. c = 0xdead0100 + of_nat i \<or> c = 0xdead0200 + of_nat i"
    if "sdram_verdict (\<lambda>a. ram_word img a (trace m)) seed scratch = Some c" for c
  proof (cases "find (\<lambda>i. ram_word img (word_at seed i) (trace m) \<noteq> expected_seed ! i) [0..<4]")
    case (Some i)
    then have "i < 4" by (auto simp: find_Some_iff)
    with Some that show ?thesis by (intro exI [of _ i]) (simp add: sdram_verdict_def)
  next
    case None
    with that obtain i where "find (\<lambda>i. ram_word img (word_at scratch i) (trace m) \<noteq> 0) [0..<8] = Some i"
        "c = 0xdead0200 + of_nat i"
      by (auto simp: sdram_verdict_def split: option.splits)
    then show ?thesis by (auto simp: find_Some_iff)
  qed
  from board_demo_run [OF assms, where img = img and m = m and cfg = cfg and ?s0.0 = s0] obtain m' where
    m': "case sdram_verdict (\<lambda>a. ram_word img a (trace m)) seed scratch of
      None \<Rightarrow> board_demo_once seed scratch (with_ram img (soc_hw cfg s0)) m = Some (Ret () m') \<and>
        last (effects m') = Wr TINYBUS_TEST_EXIT 1
    | Some c \<Rightarrow> board_demo_once seed scratch (with_ram img (soc_hw cfg s0)) m = Some (Stop m') \<and>
        stopped_with {c} m'" by blast
  show ?thesis
  proof (cases "sdram_verdict (\<lambda>a. ram_word img a (trace m)) seed scratch")
    case (Some c)
    with m' code [OF Some] show ?thesis by (intro exI [of _ m']) simp
  qed (use m' in auto)
qed

text \<open>The image the loader leaves: the seeds at the start of SDRAM, zeros behind them.\<close>

definition loaded_image :: "u32 \<Rightarrow> u32" where
  "loaded_image a = (let k = unat (a - TINYBUS_SDRAM_BASE) div 4 in if k < 4 then sdram_seed ! k else 0)"

theorem board_demo_decides_witness:
  "\<exists>m'. board_demo_once 0x80000000 0x80000010 (with_ram loaded_image (soc_hw board_config board_reset))
      \<lparr>mem = (\<lambda>_. 0), trace = []\<rparr> = Some (Ret () m') \<and> last (effects m') = Wr TINYBUS_TEST_EXIT 1"
proof -
  have layout: "sdram_layout 0x80000000 0x80000010" by code_simp
  have "sdram_verdict (\<lambda>a. ram_word loaded_image a []) 0x80000000 0x80000010 = None" by code_simp
  with board_demo_decides [OF layout, where img = loaded_image and m = "\<lparr>mem = (\<lambda>_. 0), trace = []\<rparr>"
      and cfg = board_config and ?s0.0 = board_reset]
  show ?thesis by simp
qed

text \<open>For every display and all of its answers the drawing of the test picture ends: either it
  gives up after at most VGA_READY_TIMEOUT polls without having drawn anything, or the whole
  picture is written, each of the 96 words once.\<close>

lemma vga_pattern_total:
  "does hw draw_vga_pattern (\<lambda>r es. r = 0 \<and> es = [] \<or>
     r = 1 \<and> es = concat (map (\<lambda>y.
       [Wr (TINYBUS_VGA_FB_BASE + of_nat y * 2 * 4) (vga_row_pattern y),
        Wr (TINYBUS_VGA_FB_BASE + (of_nat y * 2 + 1) * 4) (vga_row_pattern y)]) [0..<48]))"
  by (intro does_mono [OF draw_vga_does]) (auto simp: vga_picture_def)

end
