(* ===== verification/Soc_Selftest.thy ===== *)
theory Soc_Selftest
  imports Rtos_Port Board_Demo
begin

text \<open>
  The self test of the system on chip: \<open>firmware/tests/selftest.c\<close> and the default application
  \<open>apps/baremetal/soc_selftest.c\<close> that runs it, reports and measures a loop. The array of the BRAM
  test lies in byte memory at the address \<open>buf\<close>.
\<close>

section \<open>The tests\<close>

definition SELFTEST_PASS :: u32 where "SELFTEST_PASS = 1"

text \<open>The operands come from volatile variables, \<open>g_seed\<close> and \<open>g_zero\<close>.\<close>

definition test_isa :: "u32 \<Rightarrow> u32 \<Rightarrow> u32" where
  "test_isa g_seed g_zero =
     (let a = g_seed; b = g_zero + 3
      in if a + b \<noteq> 0x1234567B then 0xdead0101
         else if a - b \<noteq> 0x12345675 then 0xdead0102
         else if a AND 0x0000FFFF \<noteq> 0x00005678 then 0xdead0103
         else if a OR 0xFFFF0000 \<noteq> 0xFFFF5678 then 0xdead0104
         else if a XOR 0xFFFFFFFF \<noteq> 0xEDCBA987 then 0xdead0105
         else if push_bit 4 a \<noteq> 0x23456780 then 0xdead0106
         else if drop_bit 8 a \<noteq> 0x00123456 then 0xdead0107
         else if \<not> b < a then 0xdead0108
         else if a \<le> b then 0xdead0109
         else if fold (\<lambda>i sum. sum + of_nat i) [0..<10] (0 :: u32) \<noteq> 45 then 0xdead010A
         else 0)"

definition bram_expect :: "nat \<Rightarrow> u32" where
  "bram_expect i = (if i = 0 then 0xA5A5A5A5 else if i = 1 then 0x5A5A5A5A else if i = 2 then 0 else 0xFFFFFFFF)"

definition bram_check :: "u32 \<Rightarrow> nat \<Rightarrow> u32 \<Rightarrow> u32 fw" where
  "bram_check buf i rc =
     (if rc \<noteq> 0 then return_fw rc
      else bind_fw (load32 (slot buf i)) (\<lambda>v.
        return_fw (if v \<noteq> bram_expect i then 0xdead0201 + of_nat i else 0)))"

definition test_bram :: "u32 \<Rightarrow> u32 fw" where
  "test_bram buf =
     then_fw (seq_fw [store32 (slot buf 0) 0xA5A5A5A5, store32 (slot buf 1) 0x5A5A5A5A,
         store32 (slot buf 2) 0, store32 (slot buf 3) 0xFFFFFFFF])
     (bind_fw (fold_fw [0..<4] (bram_check buf) 0) (\<lambda>rc.
      if rc \<noteq> 0 then return_fw rc
      else then_fw (store32 (slot buf 0) 0xFFFFFFFF)
             (then_fw (store8 buf 0x12)
               (bind_fw (load32 (slot buf 0)) (\<lambda>v. return_fw (if v \<noteq> 0xFFFFFF12 then 0xdead0210 else 0))))))"

definition test_mmio :: "u32 fw" where
  "test_mmio =
     then_fw (seq_fw [mmio_write TINYBUS_GPIO_LED 0, mmio_write TINYBUS_GPIO_LED 0xf, uart_flush])
     (bind_fw (mmio_read TINYBUS_UART_STATUS) (\<lambda>status.
        if status AND 1 = 0 then return_fw 0xdead0301
        else bind_fw (mmio_read TINYBUS_CYCLE) (\<lambda>c0. bind_fw (mmio_read TINYBUS_CYCLE) (\<lambda>c1.
          return_fw (if c1 = c0 then 0xdead0302 else 0)))))"

definition test_sdram :: "u32 fw" where
  "test_sdram = then_fw (mmio_write TINYBUS_SDRAM_BASE 0xdead0401) (return_fw 0)"

text \<open>A test with its line of the log; the next test runs only after \<open>ok\<close>.\<close>

definition logged_test :: "string \<Rightarrow> u32 fw \<Rightarrow> u32 fw \<Rightarrow> u32 fw" where
  "logged_test name test rest =
     then_fw (uart_puts (bytes name)) (bind_fw test (\<lambda>rc.
       if rc \<noteq> 0
       then then_fw (seq_fw [uart_puts (bytes ''FAIL ''), uart_put_hex rc, uart_putc 10]) (return_fw rc)
       else then_fw (uart_puts (bytes ''ok'' @ [10])) rest))"

definition selftest_run_all :: "u32 \<Rightarrow> u32 \<Rightarrow> u32 \<Rightarrow> u32 fw" where
  "selftest_run_all g_seed g_zero buf =
     logged_test ''[selftest] ISA  ... '' (return_fw (test_isa g_seed g_zero))
     (logged_test ''[selftest] BRAM ... '' (test_bram buf)
     (logged_test ''[selftest] MMIO ... '' test_mmio
     (logged_test ''[selftest] SDRAM path ... '' test_sdram (return_fw SELFTEST_PASS))))"

section \<open>The application\<close>

definition perf_demo :: "u32 \<Rightarrow> u32 \<Rightarrow> u32 fw" where
  "perf_demo g_perf_count g_perf_step =
     bind_fw perf_begin (\<lambda>snap0.
       let sum = fold (\<lambda>_ sum. sum + g_perf_step) [0..<unat g_perf_count] 0
       in bind_fw (perf_end snap0) (\<lambda>snap.
            then_fw (perf_report (bytes ''loop_1000x'') snap) (return_fw sum)))"

definition soc_selftest_main :: "u32 \<Rightarrow> 'a fw" where
  "soc_selftest_main buf =
     then_fw (uart_puts (bytes ''TecPlusRV boot'' @ [10]))
     (bind_fw (selftest_run_all 0x12345678 0 buf) (\<lambda>result.
      then_fw (if result = SELFTEST_PASS
          then then_fw (gpio_write_led 5) (then_fw (uart_puts (bytes ''SELFTEST PASS'' @ [10]))
                 (bind_fw (perf_demo 1000 3) (\<lambda>g_perf_sink. return_fw ())))
          else then_fw (gpio_write_led 0xf) (uart_puts (bytes ''SELFTEST FAIL'' @ [10])))
     (then_fw uart_flush (then_fw (mmio_write TINYBUS_TEST_EXIT result) hang_fw))))"

section \<open>Processor and memory\<close>

lemma test_isa_passes: "test_isa 0x12345678 0 = 0"
  by code_simp

lemma perf_demo_sum: "fold (\<lambda>_ sum. sum + step) [0..<n] (s :: u32) = s + of_nat n * step"
  by (induction n) (simp_all add: algebra_simps)

text \<open>Words read back as written, and a byte store changes its own byte lane only.\<close>

lemma bram_loop:
  assumes "buf AND 3 = 0" "\<forall>i < 4. get32 (mem m) (slot buf i) = bram_expect i" "n \<le> 4"
  shows "fold_fw [0..<n] (bram_check buf) 0 hw m = Some (Ret 0 m)"
  using assms(3)
proof (induction n)
  case (Suc n)
  then have "fold_fw [0..<n] (bram_check buf) 0 hw m = Some (Ret 0 m)" by simp
  moreover have "bram_check buf n 0 hw m = Some (Ret 0 m)"
    using Suc.prems assms(1,2) by (simp add: bram_check_def bind_word_access return_fw_def)
  ultimately show ?case unfolding fold_fw_snoc by (simp add: bind_fw_def)
qed (simp add: return_fw_def)

lemma byte_lane: "get32 ((put32 mm a 0xFFFFFFFF)(a := 0x12)) a = 0xFFFFFF12"
proof -
  have "byte_at (0xFFFFFFFF :: u32) 1 = 0xff" "byte_at (0xFFFFFFFF :: u32) 2 = 0xff" "byte_at (0xFFFFFFFF :: u32) 3 = 0xff"
    "word_of_bytes 0x12 0xff 0xff 0xff = 0xFFFFFF12" by code_simp+
  then show ?thesis by (simp add: get32_def put32_def off_distinct del: One_nat_def)
qed

lemma test_bram_passes:
  assumes "buf AND 3 = 0"
  shows "\<exists>mm. test_bram buf hw m = Some (Ret 0 (m\<lparr>mem := mm\<rparr>))"
proof -
  let ?mm = "put32 (put32 (put32 (put32 (mem m) (slot buf 0) 0xA5A5A5A5) (slot buf 1) 0x5A5A5A5A) (slot buf 2) 0)
    (slot buf 3) 0xFFFFFFFF"
  have words: "\<forall>i < 4. get32 (mem (m\<lparr>mem := ?mm\<rparr>)) (slot buf i) = bram_expect i"
  proof (intro allI impI)
    fix i :: nat assume "i < 4"
    then consider "i = 0" | "i = 1" | "i = 2" | "i = 3" by linarith
    then show "get32 (mem (m\<lparr>mem := ?mm\<rparr>)) (slot buf i) = bram_expect i"
      by cases (simp_all add: get_put_slot bram_expect_def del: slot_0)
  qed
  let ?fill = "seq_fw [store32 (slot buf 0) 0xA5A5A5A5, store32 (slot buf 1) 0x5A5A5A5A,
      store32 (slot buf 2) 0, store32 (slot buf 3) 0xFFFFFFFF]"
  have fill: "?fill hw m = Some (Ret () (m\<lparr>mem := ?mm\<rparr>))"
    using assms by (simp add: then_fw_def bind_word_access store32_slot return_fw_def)
  have "test_bram buf hw m = Some (Ret 0 (m\<lparr>mem := (put32 ?mm (slot buf 0) 0xFFFFFFFF)(buf := 0x12)\<rparr>))"
    unfolding test_bram_def then_fw_apply bind_fw_Ret [of ?fill hw m, OF fill]
      bind_fw_Ret [of "fold_fw [0..<4] (bram_check buf) 0" hw "m\<lparr>mem := ?mm\<rparr>", OF bram_loop [OF assms words order_refl]]
    using assms by (simp add: then_fw_apply bind_word_access bind_fw_def [of "store8 _ _"] store8_def byte_lane return_fw_def)
  then show ?thesis by blast
qed

section \<open>Peripherals of the board\<close>

lemma poll_trace_last:
  "poll_trace hw a (Suc k) tr = Rd a (hw (poll_trace hw a k tr) (Reg a)) # poll_trace hw a k tr"
  by (induction k arbitrary: tr) simp_all

text \<open>After a flush the transmitter stays ready as long as nothing is sent.\<close>

lemma flush_leaves_ready:
  obtains m' where "uart_flush (soc_hw cfg s0) m = Some (Ret () m')" "mem m' = mem m"
    "tx_ready (soc_after cfg s0 (trace m'))"
proof -
  let ?hw = "soc_hw cfg s0" and ?ok = "\<lambda>s :: u32. s AND UART_STATUS_TX_READY \<noteq> 0"
  obtain n where "?ok (?hw (poll_trace ?hw TINYBUS_UART_STATUS n (trace m)) (Reg TINYBUS_UART_STATUS))"
    using soc_tx_live [of cfg s0 "trace m"] by (auto simp: UART_STATUS_TX_READY_def simp del: soc_hw.simps)
  then obtain k where ready: "?ok (?hw (poll_trace ?hw TINYBUS_UART_STATUS k (trace m)) (Reg TINYBUS_UART_STATUS))"
    and run: "poll_until TINYBUS_UART_STATUS ?ok ?hw m =
      Some (Ret (?hw (poll_trace ?hw TINYBUS_UART_STATUS k (trace m)) (Reg TINYBUS_UART_STATUS))
        (m\<lparr>trace := poll_trace ?hw TINYBUS_UART_STATUS (Suc k) (trace m)\<rparr>))"
    by (rule poll_until_returns)
  let ?tr = "poll_trace ?hw TINYBUS_UART_STATUS k (trace m)"
  have "tx_ready (soc_advance (Suc (extra_cycles cfg)) (soc_after cfg s0 ?tr))"
    using ready uart_status_tx_ready by (simp add: soc_read_def addr_defs UART_STATUS_TX_READY_def)
  then have "tx_ready (soc_after cfg s0 (poll_trace ?hw TINYBUS_UART_STATUS (Suc k) (trace m)))"
    unfolding poll_trace_last by (simp add: Let_def addr_defs del: soc_hw.simps)
  then show thesis
    using run by (intro that [of "m\<lparr>trace := poll_trace ?hw TINYBUS_UART_STATUS (Suc k) (trace m)\<rparr>"])
      (simp_all add: uart_flush_def then_fw_def bind_fw_def return_fw_def)
qed

lemma mmio_read_run:
  "mmio_read a hw m = Some (Ret (hw (trace m) (Reg a)) (m\<lparr>trace := Rd a (hw (trace m) (Reg a)) # trace m\<rparr>))"
  by (simp add: mmio_read_def Let_def)

lemma cycle_moves:
  "soc_hw board_config s0 (Rd TINYBUS_CYCLE v # tr) (Reg TINYBUS_CYCLE) \<noteq> soc_hw board_config s0 tr (Reg TINYBUS_CYCLE)"
  by (simp add: soc_read_def addr_defs Let_def board_config_def)

lemma test_mmio_passes: "\<exists>m'. test_mmio (soc_hw board_config s0) m = Some (Ret 0 m')"
proof -
  let ?hw = "soc_hw board_config s0"
  let ?m1 = "m\<lparr>trace := Wr TINYBUS_GPIO_LED 0xf # Wr TINYBUS_GPIO_LED 0 # trace m\<rparr>"
  obtain m2 where m2: "uart_flush ?hw ?m1 = Some (Ret () m2)" "tx_ready (soc_after board_config s0 (trace m2))"
    by (rule flush_leaves_ready)
  let ?lead = "seq_fw [mmio_write TINYBUS_GPIO_LED 0, mmio_write TINYBUS_GPIO_LED 0xf, uart_flush]"
  have lead: "?lead ?hw m = Some (Ret () m2)"
    using m2(1) by (simp add: then_fw_def bind_fw_def mmio_write_def return_fw_def)
  have "?hw (trace m2) (Reg TINYBUS_UART_STATUS) AND 1 \<noteq> 0"
    using m2(2) by (simp add: soc_read_def addr_defs uart_status_tx_ready tx_ready_def)
  then show ?thesis
    unfolding test_mmio_def then_fw_apply bind_fw_Ret [of ?lead ?hw m, OF lead]
    by (simp add: bind_fw_def mmio_read_run return_fw_def cycle_moves del: soc_hw.simps)
qed

lemma test_sdram_passes: "\<exists>m'. test_sdram hw m = Some (Ret 0 m')"
  by (simp add: test_sdram_def then_fw_def bind_fw_def mmio_write_def return_fw_def)

section \<open>The whole self test\<close>

lemma logged_test_passes:
  assumes "\<And>m. \<exists>m'. test (soc_hw cfg s0) m = Some (Ret 0 m')"
  shows "\<exists>m'. logged_test name test rest (soc_hw cfg s0) m = rest (soc_hw cfg s0) m'"
proof -
  obtain m1 where m1: "uart_puts (bytes name) (soc_hw cfg s0) m = Some (Ret () m1)"
    using emits_run [OF soc_uart.emits_puts] by metis
  obtain m2 where m2: "test (soc_hw cfg s0) m1 = Some (Ret 0 m2)" using assms by blast
  obtain m3 where m3: "uart_puts (bytes ''ok'' @ [10]) (soc_hw cfg s0) m2 = Some (Ret () m3)"
    using emits_run [OF soc_uart.emits_puts] by metis
  show ?thesis
    by (intro exI [of _ m3]) (simp add: logged_test_def then_fw_def bind_fw_def m1 m2 m3 del: uart_puts.simps seq_fw.simps)
qed

lemma selftest_passes:
  assumes "buf AND 3 = 0"
  shows "\<exists>m'. selftest_run_all 0x12345678 0 buf (soc_hw board_config s0) m = Some (Ret SELFTEST_PASS m')"
proof -
  let ?hw = "soc_hw board_config s0"
  have isa: "\<exists>m'. return_fw (test_isa 0x12345678 0) ?hw m = Some (Ret 0 m')" for m
    by (simp add: return_fw_def test_isa_passes)
  have bram: "\<exists>m'. test_bram buf ?hw m = Some (Ret 0 m')" for m
    using test_bram_passes [OF assms, of ?hw m] by blast
  show ?thesis
    unfolding selftest_run_all_def
    using logged_test_passes [of "return_fw (test_isa 0x12345678 0)", OF isa] logged_test_passes [of "test_bram buf", OF bram]
      logged_test_passes [of test_mmio, OF test_mmio_passes] logged_test_passes [of test_sdram, OF test_sdram_passes]
    by (metis return_fw_def)
qed

text \<open>On any devices only the two checks of the peripherals can fail.\<close>

lemma runs_logged_test:
  assumes "safely_in H P test (\<lambda>rc. rc = 0 \<or> Q rc)" "safely_in H P rest Q"
  shows "safely_in H P (logged_test name test rest) Q"
  unfolding logged_test_def
proof (rule runs_then [OF runs_puts], rule runs_bind [OF assms(1)])
  fix rc assume "rc = 0 \<or> Q rc"
  then show "safely_in H P (if rc \<noteq> 0
       then then_fw (seq_fw [uart_puts (bytes ''FAIL ''), uart_put_hex rc, uart_putc 10]) (return_fw rc)
       else then_fw (uart_puts (bytes ''ok'' @ [10])) rest) Q"
    using assms(2) by (auto simp del: uart_puts.simps seq_fw.simps
        intro!: runs_then runs_puts runs_seq runs_return intro: run_intros)
qed

lemma runs_selftest:
  assumes "buf AND 3 = 0"
  shows "safely_in H P (selftest_run_all 0x12345678 0 buf) (\<lambda>rc. rc \<in> {SELFTEST_PASS, 0xdead0301, 0xdead0302})"
proof -
  have bram: "safely_in H P (test_bram buf) (\<lambda>rc. rc = 0)"
    unfolding safely_in_def
  proof (intro allI impI)
    fix hw m
    show "case test_bram buf hw m of None \<Rightarrow> True | Some (Ret a m') \<Rightarrow> a = 0 | Some (Stop m') \<Rightarrow> P m'
        | Some Fault \<Rightarrow> False"
      using test_bram_passes [OF assms, of hw m] by (elim exE) simp
  qed
  have mmio: "safely_in H P test_mmio (\<lambda>rc. rc = 0 \<or> rc \<in> {SELFTEST_PASS, 0xdead0301, 0xdead0302})"
  proof -
    have tail: "safely_in H P (bind_fw (mmio_read TINYBUS_CYCLE) (\<lambda>c0. bind_fw (mmio_read TINYBUS_CYCLE) (\<lambda>c1.
          return_fw (if c1 = c0 then 0xdead0302 else 0)))) (\<lambda>rc. rc = 0 \<or> rc \<in> {SELFTEST_PASS, 0xdead0301, 0xdead0302})"
      by (rule runs_bind [OF runs_read])+ (simp add: runs_return)
    show ?thesis
      unfolding test_mmio_def
    proof (rule runs_then, rule runs_seq)
      show "safely_in H P f (\<lambda>_. True)"
        if "f \<in> set [mmio_write TINYBUS_GPIO_LED 0, mmio_write TINYBUS_GPIO_LED 0xf, uart_flush]" for f
        using that by (auto intro: run_intros)
    qed (rule runs_bind [OF runs_read], simp add: runs_return tail [simplified])
  qed
  have sdram: "safely_in H P test_sdram (\<lambda>rc. rc = 0 \<or> rc \<in> {SELFTEST_PASS, 0xdead0301, 0xdead0302})"
    unfolding test_sdram_def by (intro runs_then run_intros runs_return) simp
  show ?thesis
    unfolding selftest_run_all_def
    by (intro runs_logged_test mmio sdram runs_mono [OF bram] runs_return) (simp_all add: test_isa_passes)
qed

lemma runs_perf_demo: "safely_in H P (perf_demo n step) (\<lambda>_. True)"
  unfolding perf_demo_def Let_def
  by (intro runs_bind [OF runs_perf(1)] runs_bind [OF runs_perf(2)] runs_then runs_perf_report runs_return TrueI)

section \<open>Properties\<close>

text \<open>C18: With an aligned buffer and whatever the devices answer, the self test never faults and
  never returns, and it can end only with success or with one of the two codes of the peripheral
  test: the expected results of the instruction test are those of RV32 arithmetic, and memory
  that works passes the memory test. On the board it always ends, and with success.\<close>

theorem soc_selftest_ends:
  assumes "buf AND 3 = 0"
  shows "runs {1, 0xdead0301, 0xdead0302} (soc_selftest_main buf :: 'a fw) (\<lambda>_. False) \<and>
    (\<exists>m'. (soc_selftest_main buf :: 'a fw) (soc_hw board_config s0) m = Some (Stop m') \<and> stopped_with {1} m')"
proof
  have verdict: "safely_in H P (if result = SELFTEST_PASS
          then then_fw (gpio_write_led 5) (then_fw (uart_puts (bytes ''SELFTEST PASS'' @ [10]))
                 (bind_fw (perf_demo 1000 3) (\<lambda>g_perf_sink. return_fw ())))
          else then_fw (gpio_write_led 0xf) (uart_puts (bytes ''SELFTEST FAIL'' @ [10]))) (\<lambda>_. True)" for H P and result :: u32
    by (auto simp del: uart_puts.simps intro!: runs_then runs_bind [OF runs_perf_demo] runs_return intro: run_intros)
  show "runs {1, 0xdead0301, 0xdead0302} (soc_selftest_main buf :: 'a fw) (\<lambda>_. False)"
    unfolding soc_selftest_main_def
    by (rule runs_then [OF runs_puts], rule runs_bind [OF runs_selftest [OF assms]],
        rule runs_then [OF verdict], rule runs_then [OF runs_flush], rule runs_exit)
      (auto simp: SELFTEST_PASS_def)
next
  let ?hw = "soc_hw board_config s0"
  let ?good = "then_fw (gpio_write_led 5) (then_fw (uart_puts (bytes ''SELFTEST PASS'' @ [10]))
      (bind_fw (perf_demo 1000 3) (\<lambda>g_perf_sink. return_fw ())))"
  obtain m1 where m1: "uart_puts (bytes ''TecPlusRV boot'' @ [10]) ?hw m = Some (Ret () m1)"
    using emits_run [OF soc_uart.emits_puts] by metis
  obtain m2 where m2: "selftest_run_all 0x12345678 0 buf ?hw m1 = Some (Ret SELFTEST_PASS m2)"
    using selftest_passes [OF assms] by blast
  have perf: "does ?hw (perf_demo n step) (\<lambda>_ _. True)" for n step
    unfolding perf_demo_def Let_def
    by (intro does_bind [OF does_perf(1)] does_bind [OF does_perf(2)] does_then [OF soc_uart.does_perf_report] does_return TrueI)
  have "does ?hw (then_fw ?good uart_flush) (\<lambda>_ _. True)"
    by (intro does_then [where R = "\<lambda>_ _. True"] does_bind [OF perf] does_return soc_uart.does_devices soc_uart.does_uart TrueI)
  from exit_stops [OF this, of SELFTEST_PASS m2, where ?'b = 'a]
  have "\<exists>m'. then_fw ?good (then_fw uart_flush (then_fw (mmio_write TINYBUS_TEST_EXIT SELFTEST_PASS) hang_fw :: 'a fw)) ?hw m2 =
      Some (Stop m') \<and> stopped_with {1} m'"
    by (simp add: then_fw_def bind_assoc_fw SELFTEST_PASS_def del: uart_puts.simps)
  then show "\<exists>m'. (soc_selftest_main buf :: 'a fw) ?hw m = Some (Stop m') \<and> stopped_with {1} m'"
    by (simp add: soc_selftest_main_def then_fw_apply bind_fw_Ret [of "uart_puts (bytes ''TecPlusRV boot'' @ [10])" ?hw m, OF m1]
        bind_fw_Ret [of "selftest_run_all 0x12345678 0 buf" ?hw m1, OF m2] del: uart_puts.simps)
qed

theorem soc_selftest_ends_witness:
  "\<exists>m'. (soc_selftest_main 0x1000 :: unit fw) (soc_hw board_config board_reset) \<lparr>mem = (\<lambda>_. 0), trace = []\<rparr> =
     Some (Stop m') \<and> stopped_with {1} m'"
  by (rule soc_selftest_ends [THEN conjunct2]) simp

end
