(* ===== verification/Demo_Apps.thy ===== *)
theory Demo_Apps
  imports Board_Demo
begin

text \<open>
  The small applications of \<open>firmware/apps/baremetal\<close>: the two VGA programs, the traffic light and
  buzzer checks, the boot payload, and two programs to look at with the debugger.
  \<open>DEBUG_BREAK()\<close> of \<open>runtime/debug.h\<close> is nothing in a normal build and a breakpoint instruction in
  a GDB build, so it is a parameter \<open>brk\<close>; what the debugger may change while the program stands at
  a breakpoint is read as a shared variable.
\<close>

section \<open>VGA\<close>

definition READY_TIMEOUT :: u32 where "READY_TIMEOUT = 1000000"

definition vga_smoke_row :: "u32 \<Rightarrow> u32" where
  "vga_smoke_row y =
     (if y = 0 \<or> y = VGA_BITMAP_HEIGHT - 1 \<or> y = VGA_BITMAP_HEIGHT div 2 then 0xffffffff else 0x80000001)"

text \<open>The wait gives up with a failure after \<open>READY_TIMEOUT\<close> polls.\<close>

definition vga_smoke_wait :: "unit fw" where
  "vga_smoke_wait = loop_fw (\<lambda>wait_count0.
     bind_fw vga_is_ready (\<lambda>ready.
       if ready = 0
       then let wait_count = wait_count0 + 1
         in if READY_TIMEOUT \<le> wait_count
            then then_fw (uart_puts (bytes ''vga bitmap fail: not ready'' @ [10])) (test_fail 0xdead0501)
            else return_fw (Inl wait_count)
       else return_fw (Inr ()))) 0"

definition wait_next_frame :: "u32 \<Rightarrow> unit fw" where
  "wait_next_frame start_frame = loop_fw (\<lambda>_. bind_fw vga_frame_count (\<lambda>frame.
     return_fw (if frame = start_frame then Inl () else Inr ()))) ()"

definition vga_smoke_main :: "'a fw" where
  "vga_smoke_main =
     then_fw (test_banner ''vga bitmap smoke'')
     (then_fw vga_smoke_wait
     (then_fw (for_fw [0..<unat VGA_BITMAP_HEIGHT] (\<lambda>y.
          let left = vga_smoke_row (of_nat y); right = vga_smoke_row (of_nat y)
          in then_fw (vga_bitmap_write_word (of_nat y * 2) left)
               (vga_bitmap_write_word (of_nat y * 2 + 1) right)))
     (then_fw (bind_fw vga_frame_count wait_next_frame)
     (then_fw (uart_puts (bytes ''vga bitmap smoke pass'' @ [10])) test_pass))))"

definition draw_checker :: "u32 \<Rightarrow> unit fw" where
  "draw_checker phase = for_fw [0..<unat VGA_BITMAP_HEIGHT] (\<lambda>y.
     let pattern = (if (of_nat y + phase) AND 1 \<noteq> 0 then 0xaaaaaaaa else 0x55555555)
     in then_fw (vga_bitmap_write_word (of_nat y * 2) pattern)
          (vga_bitmap_write_word (of_nat y * 2 + 1) pattern))"

text \<open>One round of the endless loop, on \<open>frame\<close> and \<open>phase\<close>.\<close>

definition animation_step :: "u32 \<times> u32 \<Rightarrow> (u32 \<times> u32) fw" where
  "animation_step s = (case s of (frame, phase) \<Rightarrow>
     bind_fw vga_frame_count (\<lambda>current.
       if current \<noteq> frame
       then bind_fw vga_frame_count (\<lambda>frame'.
         if frame' AND 15 = 0
         then let phase' = phase XOR 1
           in then_fw (draw_checker phase')
                (then_fw (gpio_write_led (if phase' \<noteq> 0 then 0xa else 5)) (return_fw (frame', phase')))
         else return_fw (frame', phase))
       else return_fw (frame, phase)))"

definition vga_animation_main :: "'a fw" where
  "vga_animation_main =
     then_fw (uart_puts (bytes ''vga bitmap animation start'' @ [10]))
     (then_fw (loop_fw (\<lambda>_. bind_fw vga_is_ready (\<lambda>ready.
          return_fw (if ready = 0 then Inl () else Inr ()))) ())
     (bind_fw vga_frame_count (\<lambda>frame. forever animation_step (frame, 0))))"

section \<open>Single devices\<close>

definition TRAFFIC_TEST_PATTERN :: u32 where "TRAFFIC_TEST_PATTERN = 0x0a55"

definition traffic_light_main :: "'a fw" where
  "traffic_light_main =
     then_fw (traffic_light_write TRAFFIC_TEST_PATTERN)
     (bind_fw (bind_fw traffic_light_read (\<lambda>v.
        if v = TRAFFIC_TEST_PATTERN then then_fw (gpio_write_led 5) (return_fw 1)
        else then_fw (gpio_write_led 0xf) (return_fw 0xdead0040))) (\<lambda>result.
      then_fw (mmio_write TINYBUS_TEST_EXIT result) hang_fw))"

definition buzzer_tone_main :: "'a fw" where
  "buzzer_tone_main = then_fw (buzzer_start_hz 50000000 1000) (then_fw (gpio_write_led 5) hang_fw)"

definition boot_payload_main :: "'a fw" where
  "boot_payload_main =
     then_fw (seq_fw [gpio_write_led 5, uart_puts (bytes ''Bad Apple boot payload running.'' @ [10]),
         uart_puts (bytes ''Hello Bootloader v1!!!'' @ [10]), uart_flush])
       (then_fw (mmio_write TINYBUS_TEST_EXIT 1) hang_fw)"

section \<open>Programs for the debugger\<close>

definition hello_main :: "unit fw \<Rightarrow> 'a fw" where
  "hello_main brk =
     then_fw (shared_write ''hello_value'' 0x12345678)
     (then_fw (gpio_write_led 1)
     (then_fw brk
       (forever (\<lambda>_. bind_fw (shared_read ''hello_value'') (\<lambda>v. shared_write ''hello_value'' (v + 1))) ())))"

definition gdb_sdram_checksum :: "u32 fw" where
  "gdb_sdram_checksum = fold_fw [0..<4] (\<lambda>i checksum.
     bind_fw (extern_fw ''gdb_demo_sdram'' [of_nat i]) (\<lambda>w. return_fw (checksum + w))) 0"

definition gdb_demo_main :: "unit fw \<Rightarrow> 'a fw" where
  "gdb_demo_main brk =
     then_fw (seq_fw [shared_write ''phase'' 1, shared_write ''input'' 7, shared_write ''multiplier'' 3,
         shared_write ''output'' 0, shared_write ''checksum'' 0, gpio_write_led 1, brk])
     (bind_fw (shared_read ''input'') (\<lambda>input. bind_fw (shared_read ''multiplier'') (\<lambda>multiplier.
      then_fw (shared_write ''output'' (input * multiplier))
     (bind_fw gdb_sdram_checksum (\<lambda>checksum.
      then_fw (seq_fw [shared_write ''checksum'' checksum, shared_write ''phase'' 2, gpio_write_led 2, brk,
          shared_write ''phase'' 3])
     (bind_fw (shared_read ''output'') (\<lambda>out.
      then_fw (gpio_write_led (out AND 0xf))
     (then_fw (mmio_write TINYBUS_TEST_EXIT 1) (forever (\<lambda>_. brk) ())))))))))"

section \<open>How they end\<close>

text \<open>On any devices the VGA test passes or reports a display that is not ready; it draws the same
  picture as the board demo.\<close>

lemma vga_smoke_row_same: "y < 48 \<Longrightarrow> vga_smoke_row (of_nat y) = vga_row_pattern y"
proof -
  have "list_all (\<lambda>y. vga_smoke_row (of_nat y) = vga_row_pattern y) [0..<48]" by code_simp
  then show "y < 48 \<Longrightarrow> vga_smoke_row (of_nat y) = vga_row_pattern y" by (simp add: list_all_iff)
qed

lemma smoke_draws_picture:
  "emits hw (for_fw [0..<48] (\<lambda>y. let pattern = vga_smoke_row (of_nat y)
    in then_fw (vga_bitmap_write_word (of_nat y * 2) pattern) (vga_bitmap_write_word (of_nat y * 2 + 1) pattern))) vga_picture"
  by (rule emits_rows) (rule vga_smoke_row_same)

lemma runs_vga_smoke: "runs {1, 0xdead0501} vga_smoke_main (\<lambda>_. False)"
proof -
  have wait: "runs {1, 0xdead0501} vga_smoke_wait (\<lambda>_. True)"
    unfolding vga_smoke_wait_def Let_def
    by (rule runs_loop [where J = "\<lambda>_. True"], rule TrueI, rule runs_bind [OF runs_devices(6)])
      (auto simp del: uart_puts.simps intro!: runs_then runs_test_fail runs_return intro: run_intros)
  have next_frame: "runs {1, 0xdead0501} (wait_next_frame start) (\<lambda>_. True)" for start
    unfolding wait_next_frame_def
    by (rule runs_loop [where J = "\<lambda>_. True"], rule TrueI, rule runs_bind [OF runs_devices(7)])
      (auto intro: runs_return)
  show ?thesis
    unfolding vga_smoke_main_def Let_def
    by (intro runs_then [OF runs_banner] runs_then [OF wait] runs_then [OF runs_for] runs_then [OF runs_devices(8)]
        runs_then [OF runs_bind [OF runs_devices(7) next_frame]] runs_then [OF runs_puts] runs_test_pass runs_devices(8)) simp
qed

lemma runs_animation: "safely (\<lambda>_. False) vga_animation_main (\<lambda>_. False)"
proof -
  have checker: "safely (\<lambda>_. False) (draw_checker phase) (\<lambda>_. True)" for phase
    unfolding draw_checker_def Let_def by (intro runs_for runs_then runs_devices(8))
  have step: "safely (\<lambda>_. False) (animation_step s) (\<lambda>_. True)" for s
    by (cases s) (auto simp: animation_step_def Let_def intro!: runs_bind [OF runs_devices(7)] runs_then
        checker runs_return runs_devices(1))
  have ready: "safely (\<lambda>_. False) (loop_fw (\<lambda>_. bind_fw vga_is_ready (\<lambda>ready.
      return_fw (if ready = 0 then Inl () else Inr ()))) ()) (\<lambda>_. True)"
    by (rule runs_loop [where J = "\<lambda>_. True"], rule TrueI, rule runs_bind [OF runs_devices(6)]) (auto intro: runs_return)
  show ?thesis
    unfolding vga_animation_main_def
    by (intro runs_then [OF runs_puts] runs_then [OF ready] runs_bind [OF runs_devices(7)]
        runs_forever [where J = "\<lambda>_. True"] step TrueI)
qed

text \<open>The traffic light test passes on the board, and on any device exactly if the pattern reads
  back.\<close>

lemma traffic_light_board:
  "\<exists>m'. traffic_light_main (soc_hw cfg s0) m = Some (Stop m') \<and> stopped_with {1} m'"
proof -
  show ?thesis
    by (simp add: traffic_light_main_def traffic_light_write_def traffic_light_read_def then_fw_def bind_fw_def
        mmio_write_def mmio_read_def return_fw_def hang_fw_def gpio_write_led_def Let_def soc_read_def soc_write_def
        addr_defs TRAFFIC_TEST_PATTERN_def stopped_with_def)
qed

lemma runs_traffic_light: "runs {1, 0xdead0040} traffic_light_main (\<lambda>_. False)"
proof -
  have "runs {1, 0xdead0040} (bind_fw traffic_light_read (\<lambda>v.
        if v = TRAFFIC_TEST_PATTERN then then_fw (gpio_write_led 5) (return_fw 1)
        else then_fw (gpio_write_led 0xf) (return_fw 0xdead0040))) (\<lambda>r. r \<in> {1, 0xdead0040 :: u32})"
    unfolding traffic_light_read_def
    by (rule runs_bind [where R = "\<lambda>_. True"], rule runs_bind [OF runs_read], rule runs_return)
      (auto intro!: runs_then runs_return intro: run_intros)
  then show ?thesis
    unfolding traffic_light_main_def
    by (intro runs_then [OF runs_devices(3)]) (rule runs_bind, assumption, rule runs_exit)
qed

lemma buzzer_tone_ends:
  "ends hw buzzer_tone_main [Wr TINYBUS_BUZZER_PERIOD 25000, Wr TINYBUS_BUZZER_CTRL 1, Wr TINYBUS_GPIO_LED 5]"
  using ends_then [OF emits_buzzer_start_hz [of hw 50000000 1000] ends_then [OF emits_devices(1) [of hw 5] ends_hang]]
  by (simp add: buzzer_tone_main_def half_period_def)

lemma runs_boot_payload: "runs {1} boot_payload_main (\<lambda>_. False)"
  unfolding boot_payload_main_def
  by (rule runs_then [OF runs_seq runs_exit]) (auto simp del: uart_puts.simps intro: run_intros)

end
