(* ===== verification/Gdb_Session.thy ===== *)
theory Gdb_Session
  imports Gdb_Stub Trap_Frame
begin

text \<open>
  A whole stop of the program in the debugger: the trap handler of \<open>gdb/gdb_stub.c\<close> with the
  packet parser and the UART driver below it, against a debugger that sends a list of requests
  and then lets the program go on. The abstract side is a monitor \<open>serve\<close> on registers, pc and
  memory, which knows nothing of bytes, buffers and checksums; the session theorem says that the
  handler refines it. \<open>gdb/gdb_bootstrap.c\<close> is at the end.
\<close>

section \<open>The abstract monitor\<close>

record target =
  t_regs :: "u32 list"
  t_pc :: u32
  t_mem :: memory

text \<open>Addresses, lengths and data are the digits of the packet.\<close>

datatype request =
    Get_Registers
  | Set_Registers "u32 list" u32
  | Read_Memory "u8 list" "u8 list"
  | Write_Memory "u8 list" "u8 list" "u8 list"

definition registers_text :: "u32 list \<Rightarrow> u32 \<Rightarrow> u8 list" where
  "registers_text xs pc = register_text \<lparr>x_regs = xs, mepc = pc, mstatus = 0, mcause = 0, reserved = 0\<rparr>"

definition region_ok :: "u8 list \<Rightarrow> u8 list \<Rightarrow> bool" where
  "region_ok as ls \<longleftrightarrow> 0 < hex_number ls \<and> hex_number ls \<le> 256 \<and> in_ram (hex_number as) (hex_number ls)"

fun serve :: "request \<Rightarrow> target \<Rightarrow> target \<times> u8 list" where
  "serve Get_Registers t = (t, registers_text (t_regs t) (t_pc t))"
| "serve (Set_Registers xs pc) t = (t\<lparr>t_regs := 0 # tl xs, t_pc := pc\<rparr>, bytes ''OK'')"
| "serve (Read_Memory as ls) t =
     (t, if region_ok as ls then dump (t_mem t) (of_nat (hex_number as)) (hex_number ls) else bytes ''E01'')"
| "serve (Write_Memory as ls ds) t =
     (if region_ok as ls \<and> length ds = 2 * hex_number ls \<and> list_all is_hex ds
      then (t\<lparr>t_mem := patch (t_mem t) (of_nat (hex_number as)) (hex_pairs ds)\<rparr>, bytes ''OK'')
      else (t, bytes ''E01''))"

fun serve_all :: "request list \<Rightarrow> target \<Rightarrow> target \<times> u8 list list" where
  "serve_all [] t = (t, [])"
| "serve_all (r # rs) t =
     (case serve r t of (t1, reply) \<Rightarrow> case serve_all rs t1 of (t2, replies) \<Rightarrow> (t2, reply # replies))"

text \<open>Where the program goes on: behind the breakpoint instruction, unless the debugger moved the
  pc.\<close>

definition resume_pc :: "u32 \<Rightarrow> target \<Rightarrow> u32" where
  "resume_pc stop t = (if t_pc t = stop then stop + 4 else t_pc t)"

section \<open>The packets of the debugger\<close>

fun request_text :: "request \<Rightarrow> u8 list" where
  "request_text Get_Registers = [0x67]"
| "request_text (Set_Registers xs pc) = 0x47 # registers_text xs pc"
| "request_text (Read_Memory as ls) = 0x6d # as @ 0x2c # ls"
| "request_text (Write_Memory as ls ds) = 0x4d # as @ 0x2c # ls @ 0x3a # ds"

fun request_ok :: "request \<Rightarrow> bool" where
  "request_ok Get_Registers = True"
| "request_ok (Set_Registers xs pc) = (length xs = 32)"
| "request_ok (Read_Memory as ls) = (digits_ok as \<and> digits_ok ls \<and> valid_payload (request_text (Read_Memory as ls)))"
| "request_ok (Write_Memory as ls ds) =
     (digits_ok as \<and> digits_ok ls \<and> valid_payload (request_text (Write_Memory as ls ds)))"

text \<open>The debugger sends the bytes \<open>w\<close> one after the other, the next one when the last is read; the
  transmitter of the UART is always ready.\<close>

fun is_rx :: "access \<Rightarrow> bool" where
  "is_rx (Rd a v) = (a = TINYBUS_UART_DATA)"
| "is_rx _ = False"

definition bytes_read :: "access list \<Rightarrow> nat" where
  "bytes_read tr = length (filter is_rx tr)"

fun host :: "u8 list \<Rightarrow> hw" where
  "host w tr (Reg a) =
     (if a = TINYBUS_UART_STATUS
      then UART_STATUS_TX_READY OR (if bytes_read tr < length w then UART_STATUS_RX_VALID else 0)
      else if a = TINYBUS_UART_DATA \<and> bytes_read tr < length w then ucast (w ! bytes_read tr) else 0)"
| "host w tr (Ext f xs) = 0"

definition session_bytes :: "request list \<Rightarrow> u8 list" where
  "session_bytes rs = concat (map (\<lambda>r. frame_of (request_text r)) rs) @ frame_of [0x63]"

definition session_replies :: "u8 list list \<Rightarrow> access list" where
  "session_replies replies = concat (map (\<lambda>reply. tx 0x2b # map tx (frame_of reply)) replies) @ [tx 0x2b]"

section \<open>The link\<close>

lemma host_status:
  "host w tr (Reg TINYBUS_UART_STATUS) AND UART_STATUS_TX_READY \<noteq> 0"
  "host w tr (Reg TINYBUS_UART_STATUS) AND UART_STATUS_RX_ERROR_MASK = 0"
  "bytes_read tr < length w \<Longrightarrow> host w tr (Reg TINYBUS_UART_STATUS) AND UART_STATUS_RX_VALID \<noteq> 0"
  by (simp_all add: UART_STATUS_TX_READY_def UART_STATUS_RX_VALID_def UART_STATUS_RX_ERROR_MASK_def
      UART_STATUS_RX_OVERRUN_def UART_STATUS_FRAME_ERROR_def)

interpretation host_uart: uart_tx "host w" for w
  by unfold_locales (use host_status(1) in blast)

lemma bytes_read_simps [simp]:
  "bytes_read (Rd a v # tr) = (if a = TINYBUS_UART_DATA then Suc (bytes_read tr) else bytes_read tr)"
  "bytes_read (Wr a v # tr) = bytes_read tr"
  by (simp_all add: bytes_read_def)

abbreviation "at_byte n \<equiv> \<lambda>m. bytes_read (trace m) = n"

text \<open>Nothing of a reply reads received data.\<close>

named_theorems rx_intros

lemma rx_poll [rx_intros]: "a \<noteq> TINYBUS_UART_DATA \<Longrightarrow> keeps (at_byte n) (poll_until a ok)"
proof -
  have none: "filter is_rx rs = []" if "\<forall>x \<in> set rs. \<exists>v. x = Rd a v" "a \<noteq> TINYBUS_UART_DATA" for rs
    using that by (induction rs) auto
  show "a \<noteq> TINYBUS_UART_DATA \<Longrightarrow> ?thesis"
    unfolding keeps_def
    by (auto dest!: poll_until_last simp: bytes_read_def none split: option.split outcome.split)
qed

lemma rx_putc [rx_intros]: "keeps (at_byte n) (uart_putc c)"
proof -
  have "keeps (at_byte n) (mmio_write a v)" for a v by (simp add: keeps_def mmio_write_def)
  then show ?thesis
    unfolding uart_putc_def by (intro keeps_then rx_poll) (simp_all add: addr_defs)
qed

lemma rx_memory [rx_intros]: "keeps (at_byte n) (load8 a)" "keeps (at_byte n) (store8 a v)"
  by (simp_all add: keeps_def load8_def store8_def)

lemma keeps_fold: "(\<And>i s. keeps I (body i s)) \<Longrightarrow> keeps I (fold_fw is body s)"
  by (induction "is" arbitrary: s) auto

lemma rx_send [rx_intros]: "keeps (at_byte n) (send_packet_bytes pl len)"
  unfolding send_packet_bytes_def
  by (intro keeps_then keeps_bind keeps_fold keeps_seq keeps_of_option keeps_return rx_putc)
    (auto intro: rx_putc)

lemma rx_reply [rx_intros]: "keeps (at_byte n) (send_reply_length st pl len)" "keeps (at_byte n) (send_reply st pl)"
  unfolding send_reply_def send_reply_length_def Let_def
  by (intro keeps_then keeps_bind keeps_of_option keeps_return rx_send)+

lemma rx_reply_only [rx_intros]: "keeps (at_byte n) (reply_only st frame pl)"
  unfolding reply_only_def by (intro keeps_bind keeps_return rx_reply)

lemma rx_dispatch: "keeps (at_byte n) (dispatch_packet st frame)"
proof -
  have mread: "keeps (at_byte n) (read_memory st pl plen)" for pl plen
    unfolding read_memory_def dump_bytes_def Let_def
    by (intro keeps_bind keeps_of_option) (auto intro!: keeps_return keeps_bind keeps_of_option keeps_fold rx_memory rx_reply split: option.split)
  have mwrite: "keeps (at_byte n) (write_memory st pl plen)" for pl plen
    unfolding write_memory_def patch_bytes_def Let_def
    by (intro keeps_bind keeps_of_option) (auto intro!: keeps_return keeps_bind keeps_then keeps_for keeps_of_option rx_memory rx_reply split: option.split)
  have ok: "keeps (at_byte n) (ensure_ok frame r)" for r
    by (cases r) (auto simp: ensure_ok_def intro!: keeps_return rx_reply_only)
  have go: "keeps (at_byte n) (continue_target st frame pl plen)" for pl plen
    unfolding continue_target_def
    by (auto intro!: keeps_return keeps_bind keeps_of_option rx_reply split: option.split)
  show ?thesis
    unfolding dispatch_packet_def Let_def
    by (intro keeps_bind keeps_of_option) (auto intro!: keeps_return keeps_bind keeps_of_option rx_reply rx_reply_only mread mwrite ok go split: option.split)
qed

lemma host_getc:
  assumes "bytes_read (trace m) < length w"
  shows "\<exists>m'. uart_getc (host w) m = Some (Ret (w ! bytes_read (trace m)) m') \<and> mem m' = mem m \<and>
    effects m' = effects m \<and> bytes_read (trace m') = Suc (bytes_read (trace m))"
proof -
  let ?c = "w ! bytes_read (trace m)"
  let ?s = "host w (trace m) (Reg TINYBUS_UART_STATUS)"
  let ?m = "m\<lparr>trace := Rd TINYBUS_UART_DATA (ucast ?c) # Rd TINYBUS_UART_STATUS ?s # trace m\<rparr>"
  have neq: "TINYBUS_UART_STATUS \<noteq> TINYBUS_UART_DATA" by (simp add: addr_defs)
  have "ucast ((ucast ?c :: u32) AND mask 8) = ?c"
    by (rule bit_word_eqI) (auto simp: bit_simps)
  then have char: "ucast ((ucast ?c :: u32) AND 0xff) = ?c" by (simp add: mask_eq_exp_minus_1)
  have "host w (Rd TINYBUS_UART_STATUS ?s # trace m) (Reg TINYBUS_UART_DATA) = ucast ?c"
    using assms neq by (simp del: host.simps add: host.simps(1) [of w _ TINYBUS_UART_DATA])
  then have "uart_try_getc (host w) m = Some (Ret (Some ?c) ?m)"
    using host_status(3) [OF assms] char
    by (simp add: uart_try_getc_def bind_fw_def mmio_read_def return_fw_def Let_def del: host.simps)
  then have "uart_getc (host w) m = Some (Ret ?c ?m)"
    by (simp add: uart_getc.simps)
  moreover have "effects ?m = effects m" by (simp add: effects_def)
  ultimately show ?thesis using neq by auto
qed

lemma host_no_errors:
  "\<exists>m'. clear_line_errors st (host w) m = Some (Ret st m') \<and> mem m' = mem m \<and>
    effects m' = effects m \<and> bytes_read (trace m') = bytes_read (trace m)"
proof -
  let ?m = "m\<lparr>trace := Rd TINYBUS_UART_STATUS (host w (trace m) (Reg TINYBUS_UART_STATUS)) # trace m\<rparr>"
  have "clear_line_errors st (host w) m = Some (Ret st ?m)"
    using host_status(2) [of w "trace m"]
    by (simp add: clear_line_errors_def uart_get_and_clear_rx_errors_def bind_fw_def then_fw_def mmio_read_def
        return_fw_def Let_def del: host.simps)
  moreover have "effects ?m = effects m" by (simp add: effects_def)
  ultimately show ?thesis by (simp add: addr_defs)
qed

section \<open>Bytes and frames\<close>

lemma stub_byte:
  assumes "bytes_read (trace m) < length w"
    and "gdb_packet_feed (packet_parser st) (w ! bytes_read (trace m)) = Some (event, p)"
  obtains m' where "stub_iteration st frame (host w) m = handle_event event (st\<lparr>packet_parser := p\<rparr>) frame (host w) m'"
    "mem m' = mem m" "effects m' = effects m" "bytes_read (trace m') = Suc (bytes_read (trace m))"
proof -
  obtain m1 where 1: "clear_line_errors st (host w) m = Some (Ret st m1)" "mem m1 = mem m"
      "effects m1 = effects m" "bytes_read (trace m1) = bytes_read (trace m)"
    using host_no_errors by blast
  with host_getc [of m1 w] assms obtain m2 where 2: "uart_getc (host w) m1 = Some (Ret (w ! bytes_read (trace m)) m2)"
      "mem m2 = mem m1" "effects m2 = effects m1" "bytes_read (trace m2) = Suc (bytes_read (trace m1))"
    by auto
  show thesis
    by (rule that [of m2])
      (simp_all add: stub_iteration_def bind_fw_Ret [of "clear_line_errors st", OF 1(1)]
        bind_fw_Ret [of uart_getc, OF 2(1)] assms(2) 1 2)
qed

lemma next_byte:
  assumes "drop k w = b # bs"
  shows "k < length w" "w ! k = b" "drop (Suc k) w = bs"
  using assms nth_via_drop [OF assms] tl_drop [of k w] by (auto simp: drop_Suc intro: ccontr)

lemma stub_silent:
  assumes "feed_all (packet_parser st) bs = Some (replicate (length bs) GDB_PACKET_NONE, p)"
    and "drop (bytes_read (trace m)) w = bs @ rest"
  shows "\<exists>m'. stub_loop st frame (host w) m = stub_loop (st\<lparr>packet_parser := p\<rparr>) frame (host w) m' \<and> mem m' = mem m \<and>
    effects m' = effects m \<and> bytes_read (trace m') = bytes_read (trace m) + length bs"
  using assms
proof (induction bs arbitrary: st m)
  case Nil
  then show ?case by auto
next
  case (Cons b bs)
  obtain p1 where p1: "gdb_packet_feed (packet_parser st) b = Some (GDB_PACKET_NONE, p1)"
      "feed_all p1 bs = Some (replicate (length bs) GDB_PACKET_NONE, p)"
    using Cons.prems(1) by (auto split: bind_splits)
  have w: "bytes_read (trace m) < length w" "w ! bytes_read (trace m) = b"
      "drop (Suc (bytes_read (trace m))) w = bs @ rest"
    using next_byte [of "bytes_read (trace m)" w b "bs @ rest"] Cons.prems(2) by simp_all
  obtain m1 where m1: "stub_iteration st frame (host w) m = handle_event GDB_PACKET_NONE (st\<lparr>packet_parser := p1\<rparr>) frame (host w) m1"
      "mem m1 = mem m" "effects m1 = effects m" "bytes_read (trace m1) = Suc (bytes_read (trace m))"
    by (rule stub_byte [of m w st GDB_PACKET_NONE p1 frame]) (use w p1 in auto)
  have "stub_loop st frame (host w) m = stub_loop (st\<lparr>packet_parser := p1\<rparr>) frame (host w) m1"
    by (subst stub_loop.simps) (simp add: m1(1) handle_event_def return_fw_def)
  with Cons.IH [of "st\<lparr>packet_parser := p1\<rparr>" m1] p1(2) w(3) m1 show ?case by auto
qed

lemma valid_request:
  assumes "request_ok r"
  shows "valid_payload (request_text r)"
proof (cases r)
  case (Set_Registers xs pc)
  have "unat b div 16 < 16" for b :: u8
    using unsigned_less [of b, where 'a = nat] by (simp add: less_mult_imp_div_less)
  then have digits: "list_all is_hex (encode_le v)" for v
    by (auto simp: encode_le_def encode_byte_def list_all_iff)
  then have "list_all is_hex (registers_text xs pc)"
    unfolding registers_text_def register_text_def by (auto simp: list_all_iff)
  then have "0x24 \<notin> set (registers_text xs pc) \<and> 0x23 \<notin> set (registers_text xs pc)"
    by (auto simp: list_all_iff dest: hex_not_special)
  then show ?thesis
    by (simp add: Set_Registers valid_payload_def GDB_PACKET_CAPACITY_def registers_text_def)
qed (use assms in \<open>simp_all add: valid_payload_def GDB_PACKET_CAPACITY_def\<close>)

lemma feed_all_snocE:
  assumes "feed_all p (bs @ [b]) = Some (es @ [e], p')" "length es = length bs"
  obtains p1 where "feed_all p bs = Some (es, p1)" "gdb_packet_feed p1 b = Some (e, p')"
proof -
  have "\<exists>p1. feed_all p bs = Some (es, p1) \<and> gdb_packet_feed p1 b = Some (e, p')"
    using assms
  proof (induction bs arbitrary: p es)
    case (Cons x bs)
    then obtain e1 p1 es1 where "gdb_packet_feed p x = Some (e1, p1)" "feed_all p1 (bs @ [b]) = Some (es1 @ [e], p')"
        "es = e1 # es1" "length es1 = length bs"
      by (cases es) (auto split: bind_splits)
    with Cons.IH [of p1 es1] show ?case by auto
  qed (auto split: bind_splits)
  with that show thesis by blast
qed

lemma feed_all_ok:
  "feed_all p bs = Some (es, p') \<Longrightarrow> parser_ok p \<Longrightarrow> parser_ok p'"
proof (induction bs arbitrary: p es)
  case (Cons b bs)
  then show ?case using parser_ok_feed [of p b] by (auto split: bind_splits)
qed simp

text \<open>What the loop makes of the answer of one pass.\<close>

definition after_pass :: "hw \<Rightarrow> (bool \<times> trap_frame \<times> stub) outcome option \<Rightarrow> (trap_frame \<times> stub) outcome option" where
  "after_pass hw r =
     (case r of
        Some (Ret (resume, frame, st) m) \<Rightarrow> if resume then Some (Ret (frame, st) m) else stub_loop st frame hw m
      | Some (Stop m) \<Rightarrow> Some (Stop m) | Some Fault \<Rightarrow> Some Fault | None \<Rightarrow> None)"

lemma after_pass_Ret [simp]:
  "after_pass hw (Some (Ret (resume, frame, st) m)) =
     (if resume then Some (Ret (frame, st) m) else stub_loop st frame hw m)"
  by (simp add: after_pass_def)

lemma stub_loop_pass: "stub_loop st frame hw m = after_pass hw (stub_iteration st frame hw m)"
  unfolding after_pass_def by (subst stub_loop.simps) simp

text \<open>The parser is silent up to the last byte of a frame.\<close>

lemma frame_last_byte:
  assumes "parser_ok p0" "valid_payload w"
  obtains bs c p p' where "frame_of w = bs @ [c]"
    "feed_all p0 bs = Some (replicate (length bs) GDB_PACKET_NONE, p)"
    "gdb_packet_feed p c = Some (GDB_PACKET_READY, p')" "packet p' = w"
proof -
  define bs where "bs = 0x24 # w @ [0x23, gdb_hex_digits ! (unat (checksum_of w) div 16)]"
  define c where "c = gdb_hex_digits ! (unat (checksum_of w) mod 16)"
  have fr: "frame_of w = bs @ [c]" by (simp add: bs_def c_def frame_of_def)
  have len: "length bs = length w + 3" by (simp add: bs_def)
  have "unat (checksum_of w) < 256" by (simp add: unat_checksum)
  then obtain p' where p': "feed_all p0 (bs @ [c]) =
      Some (replicate (length bs) GDB_PACKET_NONE @ [GDB_PACKET_READY], p')" "packet p' = w"
    using feed_frame [OF assms, of "gdb_hex_digits ! (unat (checksum_of w) div 16)"
      "gdb_hex_digits ! (unat (checksum_of w) mod 16)"]
    by (auto simp: frame_of_def unat_checksum len fr [symmetric])
  obtain p where "feed_all p0 bs = Some (replicate (length bs) GDB_PACKET_NONE, p)"
      "gdb_packet_feed p c = Some (GDB_PACKET_READY, p')"
    by (rule feed_all_snocE [OF p'(1)]) simp
  with fr p'(2) show thesis using that by blast
qed

text \<open>A frame of the link ends with the packet received and the acknowledgement on its way.\<close>

lemma stub_frame:
  assumes "stub_ok st" "valid_payload w" "drop (bytes_read (trace m)) v = frame_of w @ rest"
  obtains st' m' where "stub_loop st frame (host v) m = after_pass (host v) (dispatch_packet st' frame (host v) m')"
    "received st' w" "stopped_pc st' = stopped_pc st" "resume_pc_explicit st' = resume_pc_explicit st"
    "debugger_attached st'" "mem m' = mem m" "effects m' = effects m @ [tx 0x2b]"
    "drop (bytes_read (trace m')) v = rest"
proof -
  have ok: "parser_ok (packet_parser st)" using assms(1) by (simp add: stub_ok_def)
  obtain bs c p p' where fr: "frame_of w = bs @ [c]"
    and p: "feed_all (packet_parser st) bs = Some (replicate (length bs) GDB_PACKET_NONE, p)"
      "gdb_packet_feed p c = Some (GDB_PACKET_READY, p')" "packet p' = w"
    by (rule frame_last_byte [OF ok assms(2)])
  obtain m1 where m1: "stub_loop st frame (host v) m = stub_loop (st\<lparr>packet_parser := p\<rparr>) frame (host v) m1"
      "mem m1 = mem m" "effects m1 = effects m" "bytes_read (trace m1) = bytes_read (trace m) + length bs"
    using stub_silent [OF p(1), of m v "c # rest"] assms(3) fr by auto
  have at: "drop (bytes_read (trace m1)) v = c # rest"
    using assms(3) by (simp add: m1(4) fr flip: drop_drop add: add.commute)
  obtain m2 where m2: "stub_iteration (st\<lparr>packet_parser := p\<rparr>) frame (host v) m1 =
        handle_event GDB_PACKET_READY (st\<lparr>packet_parser := p'\<rparr>) frame (host v) m2"
      "mem m2 = mem m1" "effects m2 = effects m1" "bytes_read (trace m2) = Suc (bytes_read (trace m1))"
    by (rule stub_byte [of m1 v "st\<lparr>packet_parser := p\<rparr>" GDB_PACKET_READY p' frame])
      (use next_byte [OF at] p(2) in auto)
  obtain m3 where m3: "uart_putc 0x2b (host v) m2 = Some (Ret () m3)" "mem m3 = mem m2"
      "effects m3 = effects m2 @ [tx 0x2b]"
    using host_uart.emits_putc [of v "0x2b"] by (auto simp: emits_def elim: host_uart.does_run [of _ _ _ m2])
  define st' where "st' = st\<lparr>packet_parser := p', debugger_attached := True\<rparr>"
  show thesis
  proof (rule that [of st' m3])
    show "stub_loop st frame (host v) m = after_pass (host v) (dispatch_packet st' frame (host v) m3)"
      unfolding m1(1) by (simp add: stub_loop_pass m2(1) handle_event_def then_fw_def bind_fw_Ret [of "uart_putc 0x2b", OF m3(1)] st'_def)
    have "parser_ok p' \<and> payload p' ! packet_length p' = 0"
      using parser_ok_feed [OF feed_all_ok [OF p(1) ok], of c] p(2) by simp
    then show "received st' w"
      using assms(1) p(3) by (simp add: received_def st'_def stub_ok_def packet_ready_def)
    show "drop (bytes_read (trace m3)) v = rest"
      using keeps_Ret [OF rx_putc _ m3(1)] next_byte(3) [OF at] m2(4) by simp
  qed (simp_all add: st'_def m1 m2 m3)
qed

section \<open>Requests\<close>

text \<open>The stopped program in the abstract, and what the debugger has told the stub so far.\<close>

definition target_of :: "trap_frame \<Rightarrow> memory \<Rightarrow> target" where
  "target_of frame mm = \<lparr>t_regs = x_regs frame, t_pc = mepc frame, t_mem = mm\<rparr>"

definition stopped :: "u32 \<Rightarrow> stub \<Rightarrow> trap_frame \<Rightarrow> bool" where
  "stopped stop st frame \<longleftrightarrow> frame_ok frame \<and> mcause frame = 3 \<and> stub_ok st \<and> stopped_pc st = stop \<and>
     resume_pc_explicit st = (mepc frame \<noteq> stop)"

lemma register_text_frame: "registers_text (x_regs frame) (mepc frame) = register_text frame"
  by (simp add: registers_text_def register_text_def reg_value_def cong: if_cong)

lemma serve_request:
  assumes "received st (request_text r)" "request_ok r" "stopped stop st frame"
  obtains frame' st' m' reply where "dispatch_packet st frame (host v) m = Some (Ret (False, frame', st') m')"
    "serve r (target_of frame (mem m)) = (target_of frame' (mem m'), reply)"
    "effects m' = effects m @ map tx (frame_of reply)"
    "stopped stop st' frame'" "bytes_read (trace m') = bytes_read (trace m)"
proof -
  have "\<exists>frame' st' m' reply. dispatch_packet st frame (host v) m = Some (Ret (False, frame', st') m') \<and>
      serve r (target_of frame (mem m)) = (target_of frame' (mem m'), reply) \<and>
      effects m' = effects m @ map tx (frame_of reply) \<and> stopped stop st' frame'"
  proof (cases r)
    case Get_Registers
    then show ?thesis
      using host_uart.dispatch_get_registers [of st frame v m] assms
      by (auto simp: stopped_def target_of_def register_text_frame answered_def)
  next
    case (Set_Registers xs pc)
    then show ?thesis
      using host_uart.dispatch_set_registers [of st "\<lparr>x_regs = xs, mepc = pc, mstatus = 0, mcause = 0, reserved = 0\<rparr>" frame v m] assms
      by (auto simp: stopped_def target_of_def registers_text_def answered_def frame_ok_def)
  next
    case (Read_Memory as ls)
    then show ?thesis
      using host_uart.dispatch_read [of st as ls frame v m] assms
      by (auto simp: stopped_def target_of_def answered_def region_ok_def)
  next
    case (Write_Memory as ls ds)
    then show ?thesis
      using host_uart.dispatch_write [of st as ls ds frame v m] assms
      by (auto simp: stopped_def target_of_def answered_def region_ok_def)
  qed
  then show thesis
    using keeps_Ret [OF rx_dispatch refl] that by metis
qed

lemma serve_resume:
  assumes "received st [0x63]" "stopped stop st frame"
  shows "dispatch_packet st frame = return_fw (True, frame\<lparr>mepc := resume_pc stop (target_of frame mm)\<rparr>, st)"
proof -
  obtain rest where "payload (packet_parser st) = 0x63 # 0 # rest" "packet_length (packet_parser st) = 1"
    using receivedE [OF assms(1)] by auto
  then have "dispatch_packet st frame = continue_target st frame (0x63 # 0 # rest) 1"
    using dispatch_first [of st "0x63" "0 # rest" frame] by simp
  then show ?thesis
    using assms(2) by (auto simp: continue_target_def stopped_def resume_pc_def target_of_def)
qed

lemma stopped_frame:
  assumes "stopped stop st frame" "valid_payload w" "drop (bytes_read (trace m)) v = frame_of w @ rest"
  obtains st' m' where "stub_loop st frame (host v) m = after_pass (host v) (dispatch_packet st' frame (host v) m')"
    "received st' w" "stopped stop st' frame" "debugger_attached st'" "mem m' = mem m"
    "effects m' = effects m @ [tx 0x2b]" "drop (bytes_read (trace m')) v = rest"
proof -
  have "stub_ok st" using assms(1) by (simp add: stopped_def)
  from stub_frame [OF this assms(2,3), of frame] obtain st' m' where
    *: "stub_loop st frame (host v) m = after_pass (host v) (dispatch_packet st' frame (host v) m')"
      "received st' w" "stopped_pc st' = stopped_pc st" "resume_pc_explicit st' = resume_pc_explicit st"
      "debugger_attached st'" "mem m' = mem m" "effects m' = effects m @ [tx 0x2b]" "drop (bytes_read (trace m')) v = rest" .
  have "stopped stop st' frame" using assms(1) *(2-4) by (simp add: stopped_def received_def)
  from that [OF *(1,2) this *(5-8)] show thesis .
qed

lemma serve_session:
  assumes "stopped stop st frame" "list_all request_ok rs"
    and "drop (bytes_read (trace m)) v = session_bytes rs @ rest"
  shows "\<exists>frame' st' m'. stub_loop st frame (host v) m = Some (Ret (frame', st') m') \<and>
    (case serve_all rs (target_of frame (mem m)) of (t, replies) \<Rightarrow>
       target_of frame' (mem m') = t\<lparr>t_pc := resume_pc stop t\<rparr> \<and>
       effects m' = effects m @ session_replies replies) \<and>
    stub_ok st' \<and> debugger_attached st' \<and> drop (bytes_read (trace m')) v = rest"
  using assms
proof (induction rs arbitrary: st frame m)
  case Nil
  have valid: "valid_payload [0x63]" by (simp add: valid_payload_def GDB_PACKET_CAPACITY_def)
  have link: "drop (bytes_read (trace m)) v = frame_of [0x63] @ rest"
    using Nil.prems(3) by (simp add: session_bytes_def)
  obtain st1 m1 where 1: "stub_loop st frame (host v) m = after_pass (host v) (dispatch_packet st1 frame (host v) m1)"
      "received st1 [0x63]" "stopped stop st1 frame" "debugger_attached st1" "mem m1 = mem m"
      "effects m1 = effects m @ [tx 0x2b]" "drop (bytes_read (trace m1)) v = rest"
    by (rule stopped_frame [OF Nil.prems(1) valid link])
  from serve_resume [OF 1(2,3), of "mem m"] 1 show ?case
    by (simp add: return_fw_def target_of_def session_replies_def received_def)
next
  case (Cons r rs)
  let ?t = "target_of frame (mem m)"
  have ok: "request_ok r" and link: "drop (bytes_read (trace m)) v = frame_of (request_text r) @ session_bytes rs @ rest"
    using Cons.prems by (simp_all add: session_bytes_def)
  obtain st1 m1 where 1: "stub_loop st frame (host v) m = after_pass (host v) (dispatch_packet st1 frame (host v) m1)"
      "received st1 (request_text r)" "stopped stop st1 frame" "debugger_attached st1" "mem m1 = mem m"
      "effects m1 = effects m @ [tx 0x2b]" "drop (bytes_read (trace m1)) v = session_bytes rs @ rest"
    by (rule stopped_frame [OF Cons.prems(1) valid_request [OF ok] link])
  obtain frame2 st2 m2 reply where 2: "dispatch_packet st1 frame (host v) m1 = Some (Ret (False, frame2, st2) m2)"
      "serve r ?t = (target_of frame2 (mem m2), reply)" "effects m2 = effects m1 @ map tx (frame_of reply)"
      "stopped stop st2 frame2" "bytes_read (trace m2) = bytes_read (trace m1)"
    using serve_request [OF 1(2) ok 1(3), of v m1 thesis] 1(5) by simp
  have "stub_loop st frame (host v) m = stub_loop st2 frame2 (host v) m2" by (simp add: 1(1) 2(1))
  moreover have "\<exists>frame' st' m'. stub_loop st2 frame2 (host v) m2 = Some (Ret (frame', st') m') \<and>
    (case serve_all rs (target_of frame2 (mem m2)) of (t, replies) \<Rightarrow>
       target_of frame' (mem m') = t\<lparr>t_pc := resume_pc stop t\<rparr> \<and>
       effects m' = effects m2 @ session_replies replies) \<and>
    stub_ok st' \<and> debugger_attached st' \<and> drop (bytes_read (trace m')) v = rest"
    using Cons.IH [OF 2(4)] Cons.prems(2) 1(7) 2(5) by simp
  ultimately show ?case
    by (auto simp: 2(2,3) 1(6) session_replies_def split: prod.splits)
qed

lemma trap_session:
  assumes "stub_sized st" "frame_ok frame" "mcause frame = 3"
    and "list_all request_ok rs" "drop (bytes_read (trace m)) v = session_bytes rs @ rest"
  shows "\<exists>frame' st' m'. gdb_trap_dispatch st frame (host v) m = Some (Ret (frame', st') m') \<and>
    (case serve_all rs (target_of frame (mem m)) of (t, replies) \<Rightarrow>
       target_of frame' (mem m') = t\<lparr>t_pc := resume_pc (mepc frame) t\<rparr> \<and>
       effects m' = effects m @ (if debugger_attached st then map tx (frame_of (bytes ''S05'')) else []) @
         session_replies replies) \<and>
    stub_ok st' \<and> debugger_attached st' \<and> drop (bytes_read (trace m')) v = rest"
proof -
  have "length (payload (packet_parser st)) = GDB_PACKET_CAPACITY + 1"
    using assms(1) by (simp add: stub_sized_def GDB_PACKET_CAPACITY_def)
  from init_ok [OF this] obtain p where p: "gdb_packet_parser_init (packet_parser st) = Some p" "parser_ok p"
    by blast
  have l: "array_put (last_reply st) 0 0 = Some ((last_reply st)[0 := 0])"
    using assms(1) by (simp add: array_put_def stub_sized_def)
  define st1 where "st1 = st\<lparr>packet_parser := p, last_reply := (last_reply st)[0 := 0], last_reply_length := 0,
              stopped_pc := mepc frame, resume_pc_explicit := False\<rparr>"
  have st1: "stopped (mepc frame) st1 frame"
    using assms(1-3) p(2) by (simp add: stopped_def stub_ok_def stub_sized_def st1_def)
  have entry: "gdb_trap_dispatch st frame =
      bind_fw (if debugger_attached st then send_reply st1 (cstr ''S05'') else return_fw st1) (\<lambda>st2. stub_loop st2 frame)"
    unfolding gdb_trap_dispatch_def p(1) l of_option_bind_fw Let_def st1_def [symmetric]
    by (simp add: assms(3) stop_reply_def) (simp add: st1_def)
  obtain st2 m2 where 2: "(if debugger_attached st then send_reply st1 (cstr ''S05'') else return_fw st1) (host v) m =
        Some (Ret st2 m2)" "mem m2 = mem m"
      "effects m2 = effects m @ (if debugger_attached st then map tx (frame_of (bytes ''S05'')) else [])"
      "stopped (mepc frame) st2 frame" "bytes_read (trace m2) = bytes_read (trace m)"
  proof (cases "debugger_attached st")
    case True
    have "stub_ok st1" using st1 by (simp add: stopped_def)
    from host_uart.does_answer_literal [OF this, of "''S05''" v] obtain st2 m2 where
        2: "send_reply st1 (cstr ''S05'') (host v) m = Some (Ret st2 m2)" "mem m2 = mem m"
        "effects m2 = effects m @ map tx (frame_of (bytes ''S05''))" "answered st1 st2"
      by (auto simp: literals_def elim: host_uart.does_run [of _ _ _ m])
    moreover have "bytes_read (trace m2) = bytes_read (trace m)"
      using keeps_Ret [OF rx_reply(2) refl 2(1)] .
    ultimately show thesis
      using True st1 by (intro that [of st2 m2]) (simp_all add: answered_def stopped_def)
  next
    case False
    then show thesis using st1 by (intro that [of st1 m]) (simp_all add: return_fw_def)
  qed
  have "drop (bytes_read (trace m2)) v = session_bytes rs @ rest" by (simp add: 2(5) assms(5))
  from serve_session [OF 2(4) assms(4) this] show ?thesis
    unfolding entry bind_fw_Ret [of "if debugger_attached st then send_reply st1 (cstr ''S05'') else return_fw st1", OF 2(1)]
    by (cases "serve_all rs (target_of frame (mem m2))") (auto simp: 2(2,3))
qed

section \<open>The bootstrap\<close>

text \<open>The trap of an \<open>ebreak\<close>: the trap entry saves the frame, the stub's dispatcher works on it,
  and the exit restores from it; the frame is a record here, as in the stub.\<close>

definition saved_frame :: "hart \<Rightarrow> trap_frame" where
  "saved_frame h = \<lparr>x_regs = map (\<lambda>i. if i = 0 then 0 else regs h i) [0..<32], mepc = csr_mepc h,
     mstatus = csr_mstatus h, mcause = csr_mcause h, reserved = 0\<rparr>"

definition restored_hart :: "trap_frame \<Rightarrow> hart \<Rightarrow> hart" where
  "restored_hart frame h = h\<lparr>regs := (\<lambda>i. if i = 0 then 0 else x_regs frame ! i),
     csr_mepc := mepc frame, csr_mstatus := mret_mstatus (mstatus frame)\<rparr>"

definition gdb_breakpoint :: "u32 \<Rightarrow> stub \<Rightarrow> hart \<Rightarrow> (u32 \<times> hart \<times> stub) fw" where
  "gdb_breakpoint pc st h =
     (let h1 = take_trap 3 pc h
      in bind_fw (gdb_trap_dispatch st (saved_frame h1)) (\<lambda>(frame', st').
           return_fw (mepc frame', restored_hart frame' h1, st')))"

text \<open>The wrapper of \<open>main\<close>; \<open>pc\<close> is the address of its \<open>ebreak\<close>. When the debugger moves the pc, what
  runs next is the code at that address, the parameter \<open>jump\<close>.\<close>

definition wrap_main ::
    "u32 \<Rightarrow> u32 \<Rightarrow> (hart \<times> stub \<Rightarrow> 'a fw) \<Rightarrow> (u32 \<Rightarrow> hart \<times> stub \<Rightarrow> 'a fw) \<Rightarrow> stub \<Rightarrow> hart \<Rightarrow> 'a fw" where
  "wrap_main trap_entry pc real_main jump st h =
     bind_fw (gdb_breakpoint pc st (trap_init trap_entry h)) (\<lambda>(pc', h', st').
       if pc' = pc + 4 then real_main (h', st') else jump pc' (h', st'))"

text \<open>A stop at the \<open>ebreak\<close> at \<open>pc\<close>: the abstract target, and what a session makes of it.\<close>

definition stopped_at :: "u32 \<Rightarrow> hart \<Rightarrow> memory \<Rightarrow> target" where
  "stopped_at pc h mm = \<lparr>t_regs = map (\<lambda>i. if i = 0 then 0 else regs h i) [0..<32], t_pc = pc, t_mem = mm\<rparr>"

lemma breakpoint_session:
  assumes "stub_sized st" "list_all request_ok rs" "drop (bytes_read (trace m)) v = session_bytes rs @ rest"
    and "pc AND 3 = 0" "serve_all rs (stopped_at pc h (mem m)) = (t, replies)"
  obtains h' st' m' where "gdb_breakpoint pc st h (host v) m = Some (Ret (resume_pc pc t, h', st') m')"
    "regs h' = (\<lambda>i. if i = 0 then 0 else t_regs t ! i)" "csr_mtvec h' = csr_mtvec h" "mem m' = t_mem t"
    "effects m' = effects m @ (if debugger_attached st then map tx (frame_of (bytes ''S05'')) else []) @ session_replies replies"
    "stub_sized st'" "debugger_attached st'" "drop (bytes_read (trace m')) v = rest"
proof -
  define h1 where "h1 = take_trap 3 pc h"
  have f: "frame_ok (saved_frame h1)" "mcause (saved_frame h1) = 3" "mepc (saved_frame h1) = pc"
    using aligned_low_bits [OF assms(4)] by (simp_all add: frame_ok_def saved_frame_def h1_def)
  have "target_of (saved_frame h1) (mem m) = stopped_at pc h (mem m)"
    using f(3) by (simp add: target_of_def stopped_at_def) (simp add: saved_frame_def h1_def)
  with trap_session [OF assms(1) f(1,2) assms(2,3)] assms(5) f(3) obtain frame' st' m' where
      1: "gdb_trap_dispatch st (saved_frame h1) (host v) m = Some (Ret (frame', st') m')"
      "target_of frame' (mem m') = t\<lparr>t_pc := resume_pc pc t\<rparr>"
      "effects m' = effects m @ (if debugger_attached st then map tx (frame_of (bytes ''S05'')) else []) @ session_replies replies"
      "stub_ok st'" "debugger_attached st'" "drop (bytes_read (trace m')) v = rest"
    by auto
  have 2: "x_regs frame' = t_regs t" "mepc frame' = resume_pc pc t" "mem m' = t_mem t"
    using arg_cong [OF 1(2), of t_regs] arg_cong [OF 1(2), of t_pc] arg_cong [OF 1(2), of t_mem]
    by (simp_all add: target_of_def)
  have run: "gdb_breakpoint pc st h (host v) m = Some (Ret (resume_pc pc t, restored_hart frame' h1, st') m')"
    by (simp add: gdb_breakpoint_def Let_def h1_def [symmetric] bind_fw_def 1(1) 2(2) return_fw_def)
  have "stub_sized st'" using 1(4) by (simp add: stub_ok_def stub_sized_def parser_ok_def GDB_PACKET_CAPACITY_def)
  then show thesis
    by (intro that [OF run]) (simp_all add: 1 2 restored_hart_def h1_def cong: if_cong)
qed

text \<open>A debugger that does not write registers leaves registers and pc alone.\<close>

fun keeps_registers :: "request \<Rightarrow> bool" where
  "keeps_registers (Set_Registers xs pc) = False"
| "keeps_registers _ = True"

lemma serve_keeps:
  "list_all keeps_registers rs \<Longrightarrow>
   t_regs (fst (serve_all rs t)) = t_regs t \<and> t_pc (fst (serve_all rs t)) = t_pc t"
proof (induction rs arbitrary: t)
  case (Cons r rs)
  from Cons.prems have "t_regs (fst (serve r t)) = t_regs t \<and> t_pc (fst (serve r t)) = t_pc t" by (cases r) auto
  with Cons.IH [of "fst (serve r t)"] Cons.prems show ?case by (auto split: prod.splits)
qed simp

text \<open>Such a debugger reaches the real \<open>main\<close> with every register as it was.\<close>

lemma bootstrap_enters_main:
  assumes "stub_sized st" "list_all request_ok rs" "list_all keeps_registers rs"
    and "drop (bytes_read (trace m)) v = session_bytes rs @ rest" "pc AND 3 = 0"
    and "serve_all rs (stopped_at pc h (mem m)) = (t, replies)"
  obtains h' st' m' where "wrap_main te pc real_main jump st h (host v) m = real_main (h', st') (host v) m'"
    "\<forall>i. 0 < i \<longrightarrow> i < 32 \<longrightarrow> regs h' i = regs h i" "csr_mtvec h' = te" "mem m' = t_mem t"
    "effects m' = effects m @ (if debugger_attached st then map tx (frame_of (bytes ''S05'')) else []) @ session_replies replies"
    "stub_sized st'" "debugger_attached st'" "drop (bytes_read (trace m')) v = rest"
proof -
  have "stopped_at pc (trap_init te h) (mem m) = stopped_at pc h (mem m)"
    by (simp add: stopped_at_def trap_init_def)
  then have "serve_all rs (stopped_at pc (trap_init te h) (mem m)) = (t, replies)" using assms(6) by simp
  from breakpoint_session [OF assms(1,2,4,5) this] obtain h' st' m' where
      1: "gdb_breakpoint pc st (trap_init te h) (host v) m = Some (Ret (resume_pc pc t, h', st') m')"
      "regs h' = (\<lambda>i. if i = 0 then 0 else t_regs t ! i)" "csr_mtvec h' = csr_mtvec (trap_init te h)" "mem m' = t_mem t"
      "effects m' = effects m @ (if debugger_attached st then map tx (frame_of (bytes ''S05'')) else []) @ session_replies replies"
      "stub_sized st'" "debugger_attached st'" "drop (bytes_read (trace m')) v = rest" .
  have kept: "t_regs t = t_regs (stopped_at pc h (mem m))" "resume_pc pc t = pc + 4"
    using serve_keeps [OF assms(3), of "stopped_at pc h (mem m)"] assms(6) by (simp_all add: resume_pc_def stopped_at_def)
  have "wrap_main te pc real_main jump st h (host v) m = real_main (h', st') (host v) m'"
    unfolding wrap_main_def bind_fw_Ret [of "gdb_breakpoint pc st (trap_init te h)", OF 1(1)] by (simp add: kept)
  then show thesis
    by (rule that) (simp_all add: 1 kept stopped_at_def trap_init_def)
qed

section \<open>Property\<close>



end
