(* ===== verification/Gdb_Smoke.thy ===== *)
theory Gdb_Smoke
  imports Gdb_Session Testlib
begin

text \<open>
  The target program for the debugger, \<open>apps/baremetal/gdb_stub_smoke.c\<close>, in its GDB build: the
  wrapper of \<open>main\<close> stops first, then \<open>main\<close> clears the registers and stops in assembly, and stops
  again at \<open>DEBUG_BREAK()\<close>. It ends with 2 if it goes on behind that, and with 1 if the debugger
  moves the pc to \<open>gdb_pc_continue_target\<close>. Code addresses are symbols; code that a debugger may
  send the pc to apart from that is the parameter \<open>elsewhere\<close>.
\<close>

section \<open>The program\<close>

record smoke_symbols =
  trap_vector :: u32
  boot_site :: u32          \<comment> \<open>the \<open>ebreak\<close> of \<open>__wrap_main\<close>\<close>
  stop_site :: u32          \<comment> \<open>\<open>gdb_stop_site\<close>\<close>
  main_return :: u32        \<comment> \<open>behind the call of \<open>gdb_known_context_break\<close>\<close>
  break_site :: u32         \<comment> \<open>the \<open>ebreak\<close> of \<open>DEBUG_BREAK()\<close> in \<open>main\<close>\<close>
  target_site :: u32    \<comment> \<open>\<open>gdb_pc_continue_target\<close>\<close>
  continue_seen :: u32      \<comment> \<open>address of \<open>gdb_continue_seen\<close>\<close>

definition gdb_pc_continue_target :: "'a fw" where
  "gdb_pc_continue_target = (let t0 = 1; t1 = 0x10000030 in then_fw (mmio_write t1 t0) hang_fw)"

definition smoke_code :: "smoke_symbols \<Rightarrow> (u32 \<Rightarrow> hart \<times> stub \<Rightarrow> 'a fw) \<Rightarrow> u32 \<Rightarrow> hart \<times> stub \<Rightarrow> 'a fw" where
  "smoke_code s elsewhere pc hs = (if pc = target_site s then gdb_pc_continue_target else elsewhere pc hs)"

text \<open>The registers cleared, in order: t0 to t2, s0, s1, a0 to a7, s2 to s11, t3 to t6.\<close>

definition known_context :: "hart \<Rightarrow> hart" where
  "known_context h = fold (\<lambda>i h. h\<lparr>regs := (regs h)(i := 0)\<rparr>)
     ([5, 6, 7] @ [8, 9] @ [10..<18] @ [18..<28] @ [28..<32]) h"

text \<open>\<open>ret\<close> goes where \<open>ra\<close> points; \<open>return\<close> is what follows the call in \<open>main\<close>.\<close>

definition gdb_known_context_break ::
    "smoke_symbols \<Rightarrow> (hart \<times> stub \<Rightarrow> 'a fw) \<Rightarrow> (u32 \<Rightarrow> hart \<times> stub \<Rightarrow> 'a fw) \<Rightarrow> stub \<Rightarrow> hart \<Rightarrow> 'a fw" where
  "gdb_known_context_break s return jump st h =
     bind_fw (gdb_breakpoint (stop_site s) st (known_context h)) (\<lambda>(pc', h', st').
       if pc' \<noteq> stop_site s + 4 then jump pc' (h', st')
       else if regs h' 1 = main_return s then return (h', st') else jump (regs h' 1) (h', st'))"

definition gdb_stub_smoke_main ::
    "smoke_symbols \<Rightarrow> (u32 \<Rightarrow> hart \<times> stub \<Rightarrow> 'a fw) \<Rightarrow> stub \<Rightarrow> hart \<Rightarrow> 'a fw" where
  "gdb_stub_smoke_main s elsewhere st h =
     gdb_known_context_break s
       (\<lambda>(h1, st1). bind_fw (gdb_breakpoint (break_site s) st1 h1) (\<lambda>(pc', h2, st2).
          if pc' \<noteq> break_site s + 4 then smoke_code s elsewhere pc' (h2, st2)
          else then_fw (store32 (continue_seen s) 1) (then_fw (mmio_write TINYBUS_TEST_EXIT 2) hang_fw)))
       (smoke_code s elsewhere) st (h\<lparr>regs := (regs h)(1 := main_return s)\<rparr>)"

text \<open>With the bootstrap around it.\<close>

definition gdb_smoke_program ::
    "smoke_symbols \<Rightarrow> (u32 \<Rightarrow> hart \<times> stub \<Rightarrow> 'a fw) \<Rightarrow> stub \<Rightarrow> hart \<Rightarrow> 'a fw" where
  "gdb_smoke_program s elsewhere st h =
     wrap_main (trap_vector s) (boot_site s) (\<lambda>(h, st). gdb_stub_smoke_main s elsewhere st h)
       (smoke_code s elsewhere) st h"

section \<open>The dialogue\<close>

text \<open>What the debugger sees: the target at the three stops, with the requests served at each.\<close>

definition known_registers :: "smoke_symbols \<Rightarrow> hart \<Rightarrow> u32 list" where
  "known_registers s h = [0, main_return s, regs h 2, regs h 3, regs h 4] @ replicate 27 0"

definition smoke_dialogue ::
    "smoke_symbols \<Rightarrow> hart \<Rightarrow> memory \<Rightarrow> request list \<Rightarrow> request list \<Rightarrow> request list \<Rightarrow>
     target \<times> u8 list list \<times> u8 list list \<times> u8 list list" where
  "smoke_dialogue s h mm rs0 rs1 rs2 =
     (let (t0, q0) = serve_all rs0 (stopped_at (boot_site s) h mm);
          (t1, q1) = serve_all rs1 \<lparr>t_regs = known_registers s h, t_pc = stop_site s, t_mem = t_mem t0\<rparr>;
          (t2, q2) = serve_all rs2 \<lparr>t_regs = known_registers s h, t_pc = break_site s, t_mem = t_mem t1\<rparr>
      in (t2, q0, q1, q2))"

text \<open>Instructions are aligned, and the target of the debugger is not the last stop nor what follows it.\<close>

definition symbols_ok :: "smoke_symbols \<Rightarrow> bool" where
  "symbols_ok s \<longleftrightarrow> boot_site s AND 3 = 0 \<and> stop_site s AND 3 = 0 \<and> break_site s AND 3 = 0 \<and>
     continue_seen s AND 3 = 0 \<and> target_site s \<noteq> break_site s \<and> target_site s \<noteq> break_site s + 4"

lemma known_context_regs:
  "regs (known_context h) i = (if 5 \<le> i \<and> i < 32 then 0 else regs h i)" "csr_mtvec (known_context h) = csr_mtvec h"
proof -
  have clear: "regs (fold (\<lambda>i h. h\<lparr>regs := (regs h)(i := 0)\<rparr>) is h) j = (if j \<in> set is then 0 else regs h j)" for "is" j h
    by (induction "is" arbitrary: h) simp_all
  have "csr_mtvec (fold (\<lambda>i h. h\<lparr>regs := (regs h)(i := 0)\<rparr>) is h) = csr_mtvec h" for "is" h
    by (induction "is" arbitrary: h) simp_all
  then show "csr_mtvec (known_context h) = csr_mtvec h" unfolding known_context_def .
  have all: "set ([5, 6, 7] @ [8, 9] @ [10..<18] @ [18..<28] @ [28..<32]) = {5..<32}" by code_simp
  show "regs (known_context h) i = (if 5 \<le> i \<and> i < 32 then 0 else regs h i)"
    unfolding known_context_def clear all by simp
qed

lemma stopped_known:
  assumes "\<forall>i. 0 < i \<longrightarrow> i < 32 \<longrightarrow> regs h' i = regs h i"
  shows "stopped_at pc (known_context (h'\<lparr>regs := (regs h')(1 := main_return s)\<rparr>)) mm =
    \<lparr>t_regs = known_registers s h, t_pc = pc, t_mem = mm\<rparr>"
proof -
  have "map (\<lambda>i. if i = 0 then 0 else regs (known_context (h'\<lparr>regs := (regs h')(1 := main_return s)\<rparr>)) i) [0..<32] =
      known_registers s h"
    by (rule nth_equalityI)
      (use assms in \<open>auto simp: known_registers_def known_context_regs nth_Cons nth_append eval_nat_numeral split: nat.splits simp del: upt_rec_numeral\<close>)
  then show ?thesis by (simp only: stopped_at_def)
qed

lemma stopped_after:
  assumes "regs h' = (\<lambda>i. if i = 0 then 0 else known_registers s h ! i)"
  shows "stopped_at pc h' mm = \<lparr>t_regs = known_registers s h, t_pc = pc, t_mem = mm\<rparr>"
proof -
  have "length (known_registers s h) = 32" "known_registers s h ! 0 = 0" by (simp_all add: known_registers_def)
  then have "map (\<lambda>i. if i = 0 then 0 else regs h' i) [0..<32] = known_registers s h"
    by (intro nth_equalityI) (auto simp: assms simp del: upt_rec_numeral)
  then show ?thesis by (simp only: stopped_at_def)
qed

text \<open>The last stop decides how the program ends.\<close>

lemma last_stop:
  assumes "symbols_ok s" "t_pc t = break_site s \<or> t_pc t = target_site s"
  obtains m' where "(if resume_pc (break_site s) t \<noteq> break_site s + 4
      then smoke_code s elsewhere (resume_pc (break_site s) t) hs
      else then_fw (store32 (continue_seen s) 1) (then_fw (mmio_write TINYBUS_TEST_EXIT 2) hang_fw)) hw m = Some (Stop m')"
    "effects m' = effects m @ [Wr TINYBUS_TEST_EXIT (if t_pc t = target_site s then 1 else 2)]"
proof (cases "t_pc t = target_site s")
  case True
  with assms show thesis
    by (intro that [of "m\<lparr>trace := Wr TINYBUS_TEST_EXIT 1 # trace m\<rparr>"])
      (simp_all add: symbols_ok_def resume_pc_def smoke_code_def gdb_pc_continue_target_def then_fw_def bind_fw_def
        mmio_write_def hang_fw_def Let_def addr_defs)
next
  case False
  define m' where "m' = m\<lparr>mem := put32 (mem m) (continue_seen s) 1\<rparr>"
  from False assms show thesis
    by (intro that [of "m'\<lparr>trace := Wr TINYBUS_TEST_EXIT 2 # trace m'\<rparr>"])
      (simp_all add: symbols_ok_def resume_pc_def then_fw_def bind_fw_def store32_def st32_def m'_def
        mmio_write_def hang_fw_def effects_def)
qed

lemma smoke_runs:
  assumes "symbols_ok s" "list_all request_ok (rs0 @ rs1 @ rs2)" "list_all keeps_registers (rs0 @ rs1)"
    and "bytes_read (trace m) = 0" "smoke_dialogue s h (mem m) rs0 rs1 rs2 = (t, q0, q1, q2)"
    and "t_pc t = break_site s \<or> t_pc t = target_site s"
  shows "\<exists>m'. gdb_smoke_program s elsewhere stub_bss h (host (session_bytes rs0 @ session_bytes rs1 @ session_bytes rs2)) m =
      Some (Stop m') \<and>
    effects m' = effects m @ session_replies q0 @ map tx (frame_of (bytes ''S05'')) @ session_replies q1 @
      map tx (frame_of (bytes ''S05'')) @ session_replies q2 @
      [Wr TINYBUS_TEST_EXIT (if t_pc t = target_site s then 1 else 2)]"
proof -
  let ?v = "session_bytes rs0 @ session_bytes rs1 @ session_bytes rs2"
  let ?main = "\<lambda>(h, st). gdb_stub_smoke_main s elsewhere st h"
  have sites: "boot_site s AND 3 = 0" "stop_site s AND 3 = 0" "break_site s AND 3 = 0"
    using assms(1) by (simp_all add: symbols_ok_def)
  have ok: "list_all request_ok rs0" "list_all request_ok rs1" "list_all request_ok rs2"
    "list_all keeps_registers rs0" "list_all keeps_registers rs1" using assms(2,3) by simp_all
  obtain t0 t1 where t0: "serve_all rs0 (stopped_at (boot_site s) h (mem m)) = (t0, q0)"
    and t1: "serve_all rs1 \<lparr>t_regs = known_registers s h, t_pc = stop_site s, t_mem = t_mem t0\<rparr> = (t1, q1)"
    and t2: "serve_all rs2 \<lparr>t_regs = known_registers s h, t_pc = break_site s, t_mem = t_mem t1\<rparr> = (t, q2)"
    using assms(5) by (auto simp: smoke_dialogue_def split: prod.splits)
  have link: "drop (bytes_read (trace m)) ?v = session_bytes rs0 @ session_bytes rs1 @ session_bytes rs2"
    by (simp add: assms(4))
  obtain h0 st0 m0 where 0: "gdb_smoke_program s elsewhere stub_bss h (host ?v) m = ?main (h0, st0) (host ?v) m0"
      "\<forall>i. 0 < i \<longrightarrow> i < 32 \<longrightarrow> regs h0 i = regs h i" "mem m0 = t_mem t0"
      "effects m0 = effects m @ (if debugger_attached stub_bss then map tx (frame_of (bytes ''S05'')) else []) @ session_replies q0"
      "stub_sized st0" "debugger_attached st0" "drop (bytes_read (trace m0)) ?v = session_bytes rs1 @ session_bytes rs2"
    unfolding gdb_smoke_program_def
    by (rule bootstrap_enters_main [OF example_ok(1) ok(1,4) link sites(1) t0,
        where te = "trap_vector s" and real_main = ?main and jump = "smoke_code s elsewhere"])
  let ?h = "known_context (h0\<lparr>regs := (regs h0)(1 := main_return s)\<rparr>)"
  have at1: "serve_all rs1 (stopped_at (stop_site s) ?h (mem m0)) = (t1, q1)"
    using t1 by (simp add: stopped_known [OF 0(2)] 0(3) del: One_nat_def)
  obtain h1 st1 m1 where 1: "gdb_breakpoint (stop_site s) st0 ?h (host ?v) m0 = Some (Ret (resume_pc (stop_site s) t1, h1, st1) m1)"
      "regs h1 = (\<lambda>i. if i = 0 then 0 else t_regs t1 ! i)" "mem m1 = t_mem t1"
      "effects m1 = effects m0 @ (if debugger_attached st0 then map tx (frame_of (bytes ''S05'')) else []) @ session_replies q1"
      "stub_sized st1" "debugger_attached st1" "drop (bytes_read (trace m1)) ?v = session_bytes rs2 @ []"
    by (rule breakpoint_session [OF 0(5) ok(2) 0(7) sites(2) at1]) simp
  have t1_is: "t_regs t1 = known_registers s h" "resume_pc (stop_site s) t1 = stop_site s + 4"
    using serve_keeps [OF ok(5), of "\<lparr>t_regs = known_registers s h, t_pc = stop_site s, t_mem = t_mem t0\<rparr>"] t1
    by (simp_all add: resume_pc_def)
  have at2: "serve_all rs2 (stopped_at (break_site s) h1 (mem m1)) = (t, q2)"
    using t2 by (simp add: stopped_after [OF 1(2) [unfolded t1_is(1)]] 1(3))
  obtain h2 st2 m2 where 2: "gdb_breakpoint (break_site s) st1 h1 (host ?v) m1 = Some (Ret (resume_pc (break_site s) t, h2, st2) m2)"
      "effects m2 = effects m1 @ (if debugger_attached st1 then map tx (frame_of (bytes ''S05'')) else []) @ session_replies q2"
    by (rule breakpoint_session [OF 1(5) ok(3) 1(7) sites(3) at2]) simp
  obtain m3 where 3: "(if resume_pc (break_site s) t \<noteq> break_site s + 4
      then smoke_code s elsewhere (resume_pc (break_site s) t) (h2, st2)
      else then_fw (store32 (continue_seen s) 1) (then_fw (mmio_write TINYBUS_TEST_EXIT 2) hang_fw)) (host ?v) m2 = Some (Stop m3)"
    "effects m3 = effects m2 @ [Wr TINYBUS_TEST_EXIT (if t_pc t = target_site s then 1 else 2)]"
    by (rule last_stop [OF assms(1,6)])
  have "regs h1 1 = main_return s" by (simp add: 1(2) t1_is known_registers_def)
  then have "?main (h0, st0) (host ?v) m0 = Some (Stop m3)"
    by (simp add: gdb_stub_smoke_main_def gdb_known_context_break_def t1_is
        bind_fw_Ret [of "gdb_breakpoint (stop_site s) st0 ?h", OF 1(1)]
        bind_fw_Ret [of "gdb_breakpoint (break_site s) st1 h1", OF 2(1)] 3(1) del: fun_upd_apply One_nat_def)
  moreover have "\<not> debugger_attached stub_bss" by (simp add: stub_bss_def)
  ultimately show ?thesis
    by (intro exI [of _ m3]) (simp add: 0(1,4,6) 1(4,6) 2(2) 3(2))
qed

section \<open>Property\<close>


text \<open>The debugger goes on twice, then moves the pc.\<close>

definition example_symbols :: smoke_symbols where
  "example_symbols = \<lparr>trap_vector = 0x80, boot_site = 0x200, stop_site = 0x300, main_return = 0x400,
     break_site = 0x410, target_site = 0x500, continue_seen = 0x1000\<rparr>"


end
