(* ===== verification/Context_Switch.thy ===== *)
theory Context_Switch
  imports Rtos_Port
begin

text \<open>
  Multitasking as the tasks see it. The trap entry and exit of \<open>runtime/trap_entry.S\<close> and the
  dispatcher, initial stack and yield of \<open>freertos/port.c\<close> are composed with the hart into a step
  relation on one hart and one memory; the abstract side gives every task a processor of its
  own. The port refines it: a task is never touched by what runs while it is switched out, and
  goes on exactly where it was.
\<close>

section \<open>Virtual processors\<close>

text \<open>What a task sees of the hart: the next instruction, registers \<open>x1\<close> to \<open>x31\<close>, and whether
  interrupts are on.\<close>

record vcpu =
  v_pc :: u32
  v_regs :: "u32 list"
  v_irq :: bool

datatype task_event =
    Runs vcpu                  \<comment> \<open>instructions of the running task\<close>
  | Yields u32                 \<comment> \<open>\<open>ecall\<close> with interrupts on; the task that goes on\<close>
  | Defers                     \<comment> \<open>\<open>ecall\<close> with interrupts off\<close>
  | Ticks u32                  \<comment> \<open>timer interrupt; the task that goes on\<close>
  | Creates u32 vcpu           \<comment> \<open>a new task and how it starts\<close>

type_synonym vsystem = "u32 \<times> (u32 \<rightharpoonup> vcpu)"

fun v_step :: "task_event \<Rightarrow> vsystem \<Rightarrow> vsystem option" where
  "v_step (Runs c) (r, vs) = Some (r, vs(r \<mapsto> c))"
| "v_step (Yields t) (r, vs) =
     (case vs r of
        Some c \<Rightarrow> if v_irq c \<and> vs t \<noteq> None then Some (t, vs(r \<mapsto> c\<lparr>v_pc := v_pc c + 4\<rparr>)) else None
      | None \<Rightarrow> None)"
| "v_step Defers (r, vs) =
     (case vs r of
        Some c \<Rightarrow> if v_irq c then None else Some (r, vs(r \<mapsto> c\<lparr>v_pc := v_pc c + 4\<rparr>))
      | None \<Rightarrow> None)"
| "v_step (Ticks t) (r, vs) =
     (case vs r of
        Some c \<Rightarrow> if v_irq c \<and> vs t \<noteq> None then Some (t, vs) else None
      | None \<Rightarrow> None)"
| "v_step (Creates t c) (r, vs) = (if vs t = None then Some (r, vs(t \<mapsto> c)) else None)"

fun v_run :: "task_event list \<Rightarrow> vsystem \<Rightarrow> vsystem option" where
  "v_run [] s = Some s"
| "v_run (e # es) s = (case v_step e s of Some s' \<Rightarrow> v_run es s' | None \<Rightarrow> None)"

section \<open>The hart, the memory and the port\<close>

text \<open>\<open>rt_tasks\<close> are the control blocks of the tasks created so far.\<close>

record rtos =
  rt_pc :: u32
  rt_hart :: hart
  rt_port :: port
  rt_mach :: machine
  rt_tasks :: "u32 list"

text \<open>A trap: entry, dispatcher, and the return to whichever frame the dispatcher answers.\<close>

definition rtos_trap :: "kernel \<Rightarrow> hw \<Rightarrow> u32 \<Rightarrow> rtos \<Rightarrow> rtos option" where
  "rtos_trap K hw cause s =
     (let h = take_trap cause (rt_pc s) (rt_hart s); (frame, mm) = trap_entry_save h (mem (rt_mach s))
      in case rtos_trap_dispatch K (rt_port s) frame hw ((rt_mach s)\<lparr>mem := mm\<rparr>) of
           Some (Ret (next_frame, ps) m) \<Rightarrow>
             (case trap_restore_frame next_frame (mem m) h of
                (pc, h') \<Rightarrow> Some (s\<lparr>rt_pc := pc, rt_hart := h', rt_port := ps, rt_mach := m\<rparr>))
         | _ \<Rightarrow> None)"

text \<open>What the rest of the system has to respect: the control block of a task that is switched out
  points to its frame, and both are left alone.\<close>

definition top_of :: "memory \<Rightarrow> u32 \<Rightarrow> u32" where
  "top_of mm t = get32 mm t"

definition frames_kept :: "u32 set \<Rightarrow> memory \<Rightarrow> memory \<Rightarrow> bool" where
  "frames_kept T mm mm' \<longleftrightarrow> (\<forall>t \<in> T. top_of mm' t = top_of mm t \<and>
     (\<forall>i < 36. get32 mm' (slot (top_of mm t) i) = get32 mm (slot (top_of mm t) i)))"

definition kernel_respects :: "kernel \<Rightarrow> hw \<Rightarrow> u32 set \<Rightarrow> bool" where
  "kernel_respects K hw T \<longleftrightarrow>
     (\<forall>cur m t m'. vTaskSwitchContext K cur hw m = Some (Ret t m') \<longrightarrow> t \<in> T \<and> frames_kept T (mem m) (mem m')) \<and>
     (\<forall>m due m'. xTaskIncrementTick K hw m = Some (Ret due m') \<longrightarrow> frames_kept T (mem m) (mem m'))"

text \<open>Two areas of memory that do not overlap.\<close>

definition apart :: "u32 \<Rightarrow> nat \<Rightarrow> u32 \<Rightarrow> nat \<Rightarrow> bool" where
  "apart a n b k \<longleftrightarrow> n \<le> unat (b - a) \<and> k \<le> unat (a - b)"

definition frame_room :: "u32 \<Rightarrow> u32 list \<Rightarrow> u32 \<Rightarrow> memory \<Rightarrow> bool" where
  "frame_room fp ts cur mm \<longleftrightarrow> fp AND 3 = 0 \<and> (\<forall>t \<in> set ts. apart fp 144 t 4) \<and>
     (\<forall>t \<in> set ts - {cur}. apart fp 144 (top_of mm t) 144)"

abbreviation "rt_current s \<equiv> pxCurrentTCB (rt_port s)"
abbreviation "rt_memory s \<equiv> mem (rt_mach s)"

text \<open>How a created task starts.\<close>

definition fresh_vcpu :: "u32 \<Rightarrow> u32 \<Rightarrow> u32 \<Rightarrow> u32 \<Rightarrow> u32 \<Rightarrow> u32 \<Rightarrow> vcpu" where
  "fresh_vcpu ret sp gp tp code param =
     \<lparr>v_pc = code,
      v_regs = map (\<lambda>i. if i = 1 then ret else if i = 2 then sp else if i = 3 then gp
        else if i = 4 then tp else if i = 10 then param else 0) [1..<32],
      v_irq = True\<rparr>"

definition vcpu_of_hart :: "u32 \<Rightarrow> hart \<Rightarrow> vcpu" where
  "vcpu_of_hart pc h = \<lparr>v_pc = pc, v_regs = map (regs h) [1..<32], v_irq = bit (csr_mstatus h) 3\<rparr>"

text \<open>The steps. Instructions of the running task change what they like, but for the frames of the
  other tasks; a trap needs room for its frame below the stack pointer, which is what stack
  overflow would violate; a task is created, with \<open>pxPortInitialiseStack\<close>, by the running one.\<close>

inductive rtos_step :: "kernel \<Rightarrow> rtos \<Rightarrow> task_event \<Rightarrow> rtos \<Rightarrow> bool" for K :: kernel where
  instructions: "frames_kept (set (rt_tasks s) - {rt_current s}) (rt_memory s) (mem m') \<Longrightarrow> pc' AND 3 = 0 \<Longrightarrow>
    rtos_step K s (Runs (vcpu_of_hart pc' h'))
      (s\<lparr>rt_pc := pc', rt_hart := h', rt_mach := m',
         rt_port := (rt_port s)\<lparr>freertos_yield_pending := pending\<rparr>\<rparr>)"
| yield: "bit (csr_mstatus (rt_hart s)) 3 \<Longrightarrow>
    frame_room (regs (rt_hart s) 2 - TRAP_FRAME_SIZE) (rt_tasks s) (rt_current s) (rt_memory s) \<Longrightarrow>
    kernel_respects K hw (set (rt_tasks s)) \<Longrightarrow> rtos_trap K hw 0xb s = Some s' \<Longrightarrow>
    rtos_step K s (Yields (rt_current s')) s'"
| deferred_yield: "\<not> bit (csr_mstatus (rt_hart s)) 3 \<Longrightarrow>
    frame_room (regs (rt_hart s) 2 - TRAP_FRAME_SIZE) (rt_tasks s) (rt_current s) (rt_memory s) \<Longrightarrow>
    rtos_trap K hw 0xb s = Some s' \<Longrightarrow>
    rtos_step K s Defers s'"
| tick: "bit (csr_mstatus (rt_hart s)) 3 \<Longrightarrow>
    frame_room (regs (rt_hart s) 2 - TRAP_FRAME_SIZE) (rt_tasks s) (rt_current s) (rt_memory s) \<Longrightarrow>
    kernel_respects K hw (set (rt_tasks s)) \<Longrightarrow> rtos_trap K hw MACHINE_TIMER_INTERRUPT_CAUSE s = Some s' \<Longrightarrow>
    rtos_step K s (Ticks (rt_current s')) s'"
| create: "pxPortInitialiseStack ret gp tp stack code param (rt_memory s) = Some (fp, mm) \<Longrightarrow>
    frame_room fp (rt_tasks s) (rt_current s) (rt_memory s) \<Longrightarrow> apart fp 144 t 4 \<Longrightarrow> code AND 3 = 0 \<Longrightarrow>
    t AND 3 = 0 \<Longrightarrow> t \<notin> set (rt_tasks s) \<Longrightarrow> \<forall>u \<in> set (rt_tasks s). apart t 4 u 4 \<Longrightarrow>
    \<forall>u \<in> set (rt_tasks s) - {rt_current s}. apart (top_of (rt_memory s) u) 144 t 4 \<Longrightarrow>
    rtos_step K s (Creates t (fresh_vcpu ret (fp + 144) gp tp code param))
      (s\<lparr>rt_mach := (rt_mach s)\<lparr>mem := put32 mm t fp\<rparr>, rt_tasks := t # rt_tasks s\<rparr>)"

inductive rtos_run :: "kernel \<Rightarrow> rtos \<Rightarrow> task_event list \<Rightarrow> rtos \<Rightarrow> bool" for K :: kernel where
  stays: "rtos_run K s [] s"
| steps: "rtos_step K s e s1 \<Longrightarrow> rtos_run K s1 es s' \<Longrightarrow> rtos_run K s (e # es) s'"

section \<open>The abstraction\<close>

definition vcpu_of_frame :: "memory \<Rightarrow> u32 \<Rightarrow> vcpu" where
  "vcpu_of_frame mm fp = \<lparr>v_pc = get32 mm (slot fp 32), v_regs = map (\<lambda>i. get32 mm (slot fp i)) [1..<32],
     v_irq = bit (get32 mm (slot fp 33)) 7\<rparr>"

definition virtual :: "rtos \<Rightarrow> vsystem" where
  "virtual s = (rt_current s, \<lambda>t.
     if t \<notin> set (rt_tasks s) then None
     else if t = rt_current s then Some (vcpu_of_hart (rt_pc s) (rt_hart s))
     else Some (vcpu_of_frame (rt_memory s) (top_of (rt_memory s) t)))"

text \<open>Control blocks and the frames they point to are aligned and do not overlap.\<close>

definition frames_ok :: "u32 set \<Rightarrow> u32 set \<Rightarrow> memory \<Rightarrow> bool" where
  "frames_ok ts T mm \<longleftrightarrow> (\<forall>t \<in> ts. t AND 3 = 0 \<and> (\<forall>u \<in> ts. t \<noteq> u \<longrightarrow> apart t 4 u 4)) \<and>
     (\<forall>t \<in> T. top_of mm t AND 3 = 0 \<and> (\<forall>u \<in> ts. apart (top_of mm t) 144 u 4) \<and>
        (\<forall>u \<in> T. t \<noteq> u \<longrightarrow> apart (top_of mm t) 144 (top_of mm u) 144))"

definition layout_ok :: "rtos \<Rightarrow> bool" where
  "layout_ok s \<longleftrightarrow> rt_current s \<in> set (rt_tasks s) \<and> rt_pc s AND 3 = 0 \<and>
     frames_ok (set (rt_tasks s)) (set (rt_tasks s) - {rt_current s}) (rt_memory s) \<and>
     (\<forall>t \<in> set (rt_tasks s) - {rt_current s}. v_pc (vcpu_of_frame (rt_memory s) (top_of (rt_memory s) t)) AND 3 = 0)"

section \<open>Memory that does not overlap\<close>

definition agree_outside :: "u32 \<Rightarrow> nat \<Rightarrow> memory \<Rightarrow> memory \<Rightarrow> bool" where
  "agree_outside a n mm mm' \<longleftrightarrow> (\<forall>x. n \<le> unat (x - a) \<longrightarrow> mm' x = mm x)"

lemma apart_offset:
  assumes "apart a n b k" "j < k"
  shows "n \<le> unat (b + of_nat j - a)" "unat (b + of_nat j - a) = unat (b - a) + j"
proof -
  have "a - b \<noteq> 0" using assms by (auto simp: apart_def)
  moreover have "b - a = - (a - b)" by simp
  ultimately have sum: "unat (b - a) = 2 ^ 32 - unat (a - b)"
    using unat_sub_if' [of 0 "a - b"] unat_gt_0 [of "a - b"] by simp
  have "unat (a - b) < 2 ^ 32" using unsigned_less [of "a - b", where 'a = nat] by simp
  then have room: "unat (b - a) + j < 2 ^ 32" using sum assms unfolding apart_def by linarith
  have "j < 2 ^ 32" using room by simp
  then have j: "unat (of_nat j :: u32) = j" by (simp only: unat_of_nat) simp
  have "b + of_nat j - a = (b - a) + of_nat j" by simp
  also have "unat \<dots> = unat (b - a) + unat (of_nat j :: u32)"
    by (rule unat_add_lem [THEN iffD1]) (use j room in simp)
  finally show "unat (b + of_nat j - a) = unat (b - a) + j" using j by simp
  then show "n \<le> unat (b + of_nat j - a)" using assms(1) by (simp add: apart_def)
qed

lemma apart_sym: "apart a n b k \<longleftrightarrow> apart b k a n"
  by (auto simp: apart_def)

lemma apart_slot:
  assumes "apart a n b 144" "i < 36"
  shows "apart a n (slot b i) 4"
proof -
  have "n \<le> unat (slot b i - a)"
    using apart_offset(1) [OF assms(1), of "4 * i"] assms(2) by (simp add: slot_def)
  moreover have "4 \<le> unat (a - slot b i)"
  proof -
    have small: "4 * i < 2 ^ 32" using assms(2) by simp
    have "4 * i \<le> unat (a - b)" using assms by (simp add: apart_def)
    then have "unat (a - slot b i) = unat (a - b) - 4 * i"
      using unat_offset [OF small, of a b] by (simp add: slot_def)
    then show ?thesis using assms unfolding apart_def by linarith
  qed
  ultimately show ?thesis by (simp add: apart_def)
qed

lemma agree_get32:
  assumes "agree_outside a n mm mm'" "apart a n b 4"
  shows "get32 mm' b = get32 mm b"
proof -
  have "mm' (b + of_nat k) = mm (b + of_nat k)" if "k < 4" for k
    using assms apart_offset(1) [OF assms(2) that] by (simp add: agree_outside_def)
  from this [of 0] this [of 1] this [of 2] this [of 3] show ?thesis
    by (simp add: get32_def)
qed

lemma agree_trans: "agree_outside a n mm mm' \<Longrightarrow> agree_outside a n mm' mm'' \<Longrightarrow> agree_outside a n mm mm''"
  by (simp add: agree_outside_def)

lemma agree_put32: "agree_outside a 4 mm (put32 mm a v)"
  by (simp add: agree_outside_def put32_apply)

lemma agree_put_slot:
  assumes "i < 36"
  shows "agree_outside a 144 mm (put32 mm (slot a i) v)"
  using put_slots_outside [of "[(i, v)]" 36 _ a mm] assms
  by (simp add: agree_outside_def put_slots_def)

lemma agree_entry: "agree_outside (regs h 2 - TRAP_FRAME_SIZE) 144 mm (snd (trap_entry_save h mm))"
  using entry_outside [of _ h mm] by (simp add: agree_outside_def)

text \<open>A write outside of the frames and control blocks of \<open>T\<close> keeps them.\<close>

lemma agree_keeps_frames:
  assumes "agree_outside a n mm mm'" "\<And>t. t \<in> T \<Longrightarrow> apart a n t 4 \<and> apart a n (top_of mm t) 144"
  shows "frames_kept T mm mm'"
  using assms(2) agree_get32 [OF assms(1)] apart_slot by (simp add: frames_kept_def top_of_def)

lemma frames_kept_refl: "frames_kept T mm mm"
  by (simp add: frames_kept_def)

lemma frames_kept_trans: "frames_kept T mm mm' \<Longrightarrow> frames_kept T mm' mm'' \<Longrightarrow> frames_kept T mm mm''"
  by (simp add: frames_kept_def)

lemma frames_kept_mono: "frames_kept T mm mm' \<Longrightarrow> S \<subseteq> T \<Longrightarrow> frames_kept S mm mm'"
  by (auto simp: frames_kept_def)

lemma kept_vcpu:
  "frames_kept T mm mm' \<Longrightarrow> t \<in> T \<Longrightarrow> vcpu_of_frame mm' (top_of mm' t) = vcpu_of_frame mm (top_of mm t)"
  by (simp add: frames_kept_def vcpu_of_frame_def)

lemma kept_frames_ok: "frames_kept T mm mm' \<Longrightarrow> frames_ok ts T mm' = frames_ok ts T mm"
  by (simp add: frames_kept_def frames_ok_def)

section \<open>Runs that return\<close>

lemma bind_returns:
  assumes "bind_fw f g hw m = Some (Ret a m')"
  obtains b m1 where "f hw m = Some (Ret b m1)" "g b hw m1 = Some (Ret a m')"
  using assms unfolding bind_fw_def by (auto split: option.splits outcome.splits)

lemma load32_returns: "load32 a hw m = Some (Ret v m') \<Longrightarrow> v = get32 (mem m) a \<and> m' = m"
  by (auto simp: load32_def ld32_def of_option_fw_def split: option.splits if_splits)

lemma epilogue_returns:
  assumes "bind_fw (load32 (pxCurrentTCB ps2))
      (\<lambda>v. return_fw (v, ps2\<lparr>freertos_trap_depth := freertos_trap_depth ps2 - 1\<rparr>)) hw m = Some (Ret (next_frame, ps') m')"
  shows "ps' = ps2\<lparr>freertos_trap_depth := freertos_trap_depth ps2 - 1\<rparr> \<and> m' = m \<and>
    next_frame = top_of (mem m') (pxCurrentTCB ps')"
  using assms
  by (elim bind_returns) (auto simp: return_fw_def top_of_def dest: load32_returns)

lemma switch_returns:
  assumes "switch_task K (enter_trap ps) hw m = Some (Ret ps2 m')"
  shows "\<exists>t. vTaskSwitchContext K (pxCurrentTCB ps) hw m = Some (Ret t m') \<and> ps2 = enter_trap (ps\<lparr>pxCurrentTCB := t\<rparr>)"
  using assms unfolding switch_task_def
  by (elim bind_returns) (auto simp: return_fw_def enter_trap_def)

text \<open>What a dispatcher run that returns has done: the memory at the time the kernel is asked, and
  the frame it goes on with. The kernel has changed \<open>mm\<close> to the final memory.\<close>

definition hands_over :: "kernel \<Rightarrow> hw \<Rightarrow> port \<Rightarrow> memory \<Rightarrow> u32 \<Rightarrow> port \<Rightarrow> memory \<Rightarrow> bool" where
  "hands_over K hw ps mm next_frame ps' mm' \<longleftrightarrow>
     (\<forall>T. kernel_respects K hw T \<longrightarrow> frames_kept T mm mm' \<and>
        (pxCurrentTCB ps' = pxCurrentTCB ps \<or> pxCurrentTCB ps' \<in> T)) \<and>
     next_frame = top_of mm' (pxCurrentTCB ps')"

lemma ecall_returns:
  assumes "separate (pxCurrentTCB ps) frame" "get32 (mem m) (slot frame 34) = 0xb"
    and "rtos_trap_dispatch K ps frame hw m = Some (Ret (next_frame, ps') m')"
  defines "mm \<equiv> put32 (put32 (mem m) (pxCurrentTCB ps) frame) (slot frame 32) (get32 (mem m) (slot frame 32) + 4)"
  shows "if bit (get32 (mem m) (slot frame 33)) 7 then hands_over K hw ps mm next_frame ps' (mem m') \<and>
      (\<exists>m1. vTaskSwitchContext K (pxCurrentTCB ps) hw m1 = Some (Ret (pxCurrentTCB ps') m'))
    else ps' = ps\<lparr>freertos_yield_pending := 1\<rparr> \<and> mem m' = mm \<and> next_frame = top_of mm (pxCurrentTCB ps)"
proof -
  have m1: "(saved_top ps frame m)\<lparr>mem := put32 (mem (saved_top ps frame m)) (slot frame 32)
      (get32 (mem m) (slot frame 32) + 4)\<rparr> = m\<lparr>mem := mm\<rparr>"
    by (simp add: saved_top_def mm_def)
  have mpie: "w AND 0x80 \<noteq> 0 \<longleftrightarrow> bit w 7" for w :: u32
    using and_exp_eq_0_iff_not_bit [of w 7] by simp
  from assms(3) [unfolded ecall_run [OF assms(1,2)] m1 mpie]
  obtain ps2 m2 where 2: "(if bit (get32 (mem m) (slot frame 33)) 7 then switch_task K (enter_trap ps)
        else return_fw ((enter_trap ps)\<lparr>freertos_yield_pending := 1\<rparr>)) hw (m\<lparr>mem := mm\<rparr>) = Some (Ret ps2 m2)"
      "ps' = ps2\<lparr>freertos_trap_depth := freertos_trap_depth ps2 - 1\<rparr>" "m' = m2"
      "next_frame = top_of (mem m') (pxCurrentTCB ps')"
    by (elim bind_returns) (auto dest!: epilogue_returns)
  show ?thesis
  proof (cases "bit (get32 (mem m) (slot frame 33)) 7")
    case True
    with 2 switch_returns [of K ps hw "m\<lparr>mem := mm\<rparr>" ps2 m2] obtain t where
        "vTaskSwitchContext K (pxCurrentTCB ps) hw (m\<lparr>mem := mm\<rparr>) = Some (Ret t m')" "ps' = ps\<lparr>pxCurrentTCB := t\<rparr>"
      by auto
    moreover from this 2(4) have "hands_over K hw ps mm next_frame ps' (mem m')"
      by (fastforce simp: hands_over_def kernel_respects_def)
    ultimately show ?thesis using True by auto
  next
    case False
    with 2 show ?thesis by (auto simp: return_fw_def enter_trap_def)
  qed
qed

lemma tick_returns:
  assumes "separate (pxCurrentTCB ps) frame" "get32 (mem m) (slot frame 34) = MACHINE_TIMER_INTERRUPT_CAUSE"
    and "rtos_trap_dispatch K ps frame hw m = Some (Ret (next_frame, ps') m')"
  shows "hands_over K hw ps (put32 (mem m) (pxCurrentTCB ps) frame) next_frame ps' (mem m')"
proof -
  let ?m1 = "compare_written (next_compare (next_tick ps)) (saved_top ps frame m)"
  have mem: "mem ?m1 = put32 (mem m) (pxCurrentTCB ps) frame" by (simp add: compare_written_def saved_top_def)
  have sw: "next_tick (enter_trap ps) = enter_trap (next_tick ps)" by (simp add: next_tick_def enter_trap_def)
  from assms(3) [unfolded timer_run [OF assms(1,2)]]
  obtain due m2 ps2 where 2: "xTaskIncrementTick K hw ?m1 = Some (Ret due m2)"
      "(if due \<noteq> 0 then switch_task K (enter_trap (next_tick ps)) else return_fw (enter_trap (next_tick ps))) hw m2 =
        Some (Ret ps2 m')"
      "ps' = ps2\<lparr>freertos_trap_depth := freertos_trap_depth ps2 - 1\<rparr>"
      "next_frame = top_of (mem m') (pxCurrentTCB ps')"
    unfolding sw by (elim bind_returns) (auto dest!: epilogue_returns)
  have tcb: "pxCurrentTCB (next_tick ps) = pxCurrentTCB ps" by (simp add: next_tick_def)
  have counted: "frames_kept T (put32 (mem m) (pxCurrentTCB ps) frame) (mem m2)" if "kernel_respects K hw T" for T
    using that 2(1) mem unfolding kernel_respects_def by metis
  show ?thesis
  proof (cases "due = 0")
    case True
    with 2 have m2: "m' = m2" "ps' = next_tick ps" by (auto simp: return_fw_def enter_trap_def)
    with counted tcb 2(4) show ?thesis by (simp add: hands_over_def)
  next
    case False
    with 2 switch_returns [of K "next_tick ps" hw m2 ps2 m'] tcb obtain t where
        "vTaskSwitchContext K (pxCurrentTCB ps) hw m2 = Some (Ret t m')" "ps' = (next_tick ps)\<lparr>pxCurrentTCB := t\<rparr>"
      by auto
    moreover from this(1) have "t \<in> T \<and> frames_kept T (mem m2) (mem m')" if "kernel_respects K hw T" for T
      using that unfolding kernel_respects_def by blast
    ultimately show ?thesis
      using counted frames_kept_trans 2(4) unfolding hands_over_def by fastforce
  qed
qed

section \<open>Parking and resuming a task\<close>

text \<open>All tasks are switched out, the one that ran last in the state \<open>c\<close>, the others as they were.\<close>

definition parked :: "u32 set \<Rightarrow> u32 \<Rightarrow> vcpu \<Rightarrow> memory \<Rightarrow> memory \<Rightarrow> bool" where
  "parked ts cur c mm mm' \<longleftrightarrow> frames_kept (ts - {cur}) mm mm' \<and> frames_ok ts ts mm' \<and>
     vcpu_of_frame mm' (top_of mm' cur) = c"

lemma parked_kept:
  assumes "parked ts cur c mm mm'" "frames_kept ts mm' mm''" "cur \<in> ts"
  shows "parked ts cur c mm mm''"
  using assms frames_kept_trans frames_kept_mono [OF assms(2), of "ts - {cur}"] kept_frames_ok [OF assms(2)]
    kept_vcpu [OF assms(2,3)]
  unfolding parked_def by blast

lemma frame_separate:
  assumes "tcb AND 3 = 0" "fp AND 3 = 0" "apart fp 144 tcb 4"
  shows "separate tcb fp"
proof -
  have "4 \<le> unat (slot fp i - tcb) \<and> 4 \<le> unat (tcb - slot fp i)" if "i < 36" for i
    using apart_slot [OF assms(3) [unfolded apart_sym [of fp]] that] by (simp add: apart_def)
  from this [of 32] this [of 33] this [of 34] assms(1,2) show ?thesis by (simp add: separate_def)
qed

lemma entry_parks:
  fixes cause :: u32
  assumes ok: "frames_ok (set ts) (set ts - {cur}) mm" "cur \<in> set ts" "pc AND 3 = 0"
    and room: "frame_room (regs h 2 - TRAP_FRAME_SIZE) ts cur mm"
  defines "fp \<equiv> regs h 2 - TRAP_FRAME_SIZE" and "mm1 \<equiv> snd (trap_entry_save (take_trap cause pc h) mm)"
  shows "parked (set ts) cur (vcpu_of_hart pc h) mm (put32 mm1 cur fp)" "separate cur fp"
    "get32 mm1 (slot fp 34) = cause" "get32 mm1 (slot fp 32) = pc"
    "bit (get32 mm1 (slot fp 33)) 7 = bit (csr_mstatus h) 3" "top_of (put32 mm1 cur fp) cur = fp"
proof -
  let ?mm2 = "put32 mm1 cur fp"
  have fp: "fst (trap_entry_save (take_trap cause pc h) mm) = fp"
    by (simp add: trap_entry_save_def fp_def Let_def)
  have saved: "get32 mm1 (slot fp i) = (if i = 0 \<or> i = 35 then 0 else if i = 32 then pc
      else if i = 33 then csr_mstatus (take_trap cause pc h) else if i = 34 then cause else regs h i)" if "i < 36" for i
    using saved_words [OF that, of "take_trap cause pc h" mm] aligned_low_bits [OF ok(3)]
    by (simp add: fp mm1_def del: take_trap_simps(4)) simp
  have al: "fp AND 3 = 0" "cur AND 3 = 0" using room ok by (simp_all add: frame_room_def fp_def frames_ok_def)
  have blocks: "apart fp 144 t 4" if "t \<in> set ts" for t using room that by (simp add: frame_room_def fp_def)
  have frames: "apart fp 144 (top_of mm t) 144" if "t \<in> set ts" "t \<noteq> cur" for t
    using room that by (simp add: frame_room_def fp_def)
  have "agree_outside fp 144 mm mm1" using agree_entry [of "take_trap cause pc h" mm] by (simp add: mm1_def fp_def)
  then have 1: "frames_kept (set ts - {cur}) mm mm1"
    using blocks frames by (intro agree_keeps_frames) auto
  then have top1: "top_of mm1 t = top_of mm t" if "t \<in> set ts" "t \<noteq> cur" for t
    using that by (simp add: frames_kept_def)
  have "frames_kept (set ts - {cur}) mm1 ?mm2"
    using ok(1,2) top1 by (intro agree_keeps_frames [OF agree_put32]) (auto simp: frames_ok_def apart_sym [of cur])
  with 1 have kept: "frames_kept (set ts - {cur}) mm ?mm2" by (rule frames_kept_trans)
  then have top2: "top_of ?mm2 t = (if t = cur then fp else top_of mm t)" if "t \<in> set ts" for t
    using that by (simp add: frames_kept_def top_of_def)
  have "frames_ok (set ts) (set ts) ?mm2"
    using ok(1,2) al blocks frames apart_sym [of _ 144 fp 144] by (auto simp: frames_ok_def top2)
  moreover have words: "get32 ?mm2 (slot fp i) = get32 mm1 (slot fp i)" if "i < 36" for i
    using agree_get32 [OF agree_put32] apart_slot [of cur 4 fp i] blocks [OF ok(2)] that by (simp add: apart_sym)
  have "vcpu_of_frame ?mm2 fp = vcpu_of_hart pc h"
    by (simp add: vcpu_of_frame_def vcpu_of_hart_def words saved)
  ultimately show "parked (set ts) cur (vcpu_of_hart pc h) mm ?mm2"
    using kept top2 [OF ok(2)] by (simp add: parked_def)
  show "separate cur fp" using frame_separate al blocks [OF ok(2)] by blast
  show "get32 mm1 (slot fp 34) = cause" "get32 mm1 (slot fp 32) = pc"
    "bit (get32 mm1 (slot fp 33)) 7 = bit (csr_mstatus h) 3" by (simp_all add: saved)
  show "top_of ?mm2 cur = fp" using top2 [OF ok(2)] by simp
qed

text \<open>The dispatcher moves the saved pc behind an \<open>ecall\<close>.\<close>

lemma parked_advance:
  assumes "parked ts cur c mm mm'" "cur \<in> ts"
  defines "fp \<equiv> top_of mm' cur"
  shows "parked ts cur (c\<lparr>v_pc := v_pc c + 4\<rparr>) mm (put32 mm' (slot fp 32) (v_pc c + 4))"
proof -
  let ?mm = "put32 mm' (slot fp 32) (v_pc c + 4)"
  have ok: "frames_ok ts ts mm'" and c: "vcpu_of_frame mm' fp = c" using assms(1) by (simp_all add: parked_def fp_def)
  have agree: "agree_outside fp 144 mm' ?mm" by (rule agree_put_slot) simp
  have blocks: "apart fp 144 t 4" if "t \<in> ts" for t using ok assms(2) that by (simp add: frames_ok_def fp_def)
  have kept: "frames_kept (ts - {cur}) mm' ?mm"
    using ok assms(2) blocks by (intro agree_keeps_frames [OF agree]) (auto simp: frames_ok_def fp_def)
  have "top_of ?mm t = top_of mm' t" if "t \<in> ts" for t
    unfolding top_of_def by (rule agree_get32 [OF agree blocks [OF that]])
  then have tops: "frames_ok ts ts ?mm" "top_of ?mm cur = fp"
    using ok assms(2) by (simp_all add: frames_ok_def fp_def)
  have "vcpu_of_frame ?mm fp = c\<lparr>v_pc := v_pc c + 4\<rparr>"
    unfolding c [symmetric] by (auto simp: vcpu_of_frame_def get_put_slot)
  with kept tops show ?thesis
    using assms(1) frames_kept_trans by (auto simp: parked_def)
qed

lemma restored_vcpu:
  assumes "trap_restore_frame fp mm h = (pc, h')"
  shows "vcpu_of_hart pc h' = vcpu_of_frame mm fp"
  using assms by (auto simp: trap_restore_frame_def Let_def vcpu_of_hart_def vcpu_of_frame_def)

section \<open>The refinement\<close>

text \<open>After a trap that parks the running task in the state \<open>c\<close>, whichever task the hart resumes is
  where its processor is, and so are all others.\<close>

lemma resume_refines:
  assumes "layout_ok s" "parked (set (rt_tasks s)) (rt_current s) c (rt_memory s) (mem m')" "v_pc c AND 3 = 0"
    and "pxCurrentTCB ps' \<in> set (rt_tasks s)"
    and "trap_restore_frame (top_of (mem m') (pxCurrentTCB ps')) (mem m') h = (pc, h')"
  defines "s' \<equiv> s\<lparr>rt_pc := pc, rt_hart := h', rt_port := ps', rt_mach := m'\<rparr>"
  shows "virtual s' = (pxCurrentTCB ps', (snd (virtual s))(rt_current s \<mapsto> c))" "layout_ok s'"
proof -
  let ?ts = "set (rt_tasks s)" and ?vf = "\<lambda>mm t. vcpu_of_frame mm (top_of mm t)"
  have kept: "frames_kept (?ts - {rt_current s}) (rt_memory s) (mem m')" and ok: "frames_ok ?ts ?ts (mem m')"
      and c: "?vf (mem m') (rt_current s) = c"
    using assms(2) by (simp_all add: parked_def)
  have all: "?vf (mem m') t = (if t = rt_current s then c else ?vf (rt_memory s) t)" if "t \<in> ?ts" for t
    using kept_vcpu [OF kept, of t] that c by auto
  have resumed: "vcpu_of_hart pc h' = ?vf (mem m') (pxCurrentTCB ps')" by (rule restored_vcpu [OF assms(5)])
  show "virtual s' = (pxCurrentTCB ps', (snd (virtual s))(rt_current s \<mapsto> c))"
    using assms(1,4) all resumed by (auto simp: virtual_def s'_def layout_ok_def intro!: ext)
  have aligned: "v_pc (?vf (mem m') t) AND 3 = 0" if "t \<in> ?ts" for t
    using all [OF that] assms(1,3) that by (auto simp: layout_ok_def)
  have "pc = v_pc (?vf (mem m') (pxCurrentTCB ps'))" using resumed by (simp add: vcpu_of_hart_def flip: resumed)
  with aligned assms(4) ok show "layout_ok s'"
    by (auto simp: layout_ok_def s'_def frames_ok_def)
qed

text \<open>A trap that returns: what the dispatcher started from.\<close>

lemma trap_returns:
  assumes "rtos_trap K hw cause s = Some s'"
  obtains next_frame ps' m' pc h' where
    "rtos_trap_dispatch K (rt_port s) (regs (rt_hart s) 2 - TRAP_FRAME_SIZE) hw
       ((rt_mach s)\<lparr>mem := snd (trap_entry_save (take_trap cause (rt_pc s) (rt_hart s)) (rt_memory s))\<rparr>) =
       Some (Ret (next_frame, ps') m')"
    "trap_restore_frame next_frame (mem m') (take_trap cause (rt_pc s) (rt_hart s)) = (pc, h')"
    "s' = s\<lparr>rt_pc := pc, rt_hart := h', rt_port := ps', rt_mach := m'\<rparr>"
proof -
  have "fst (trap_entry_save (take_trap cause (rt_pc s) (rt_hart s)) (rt_memory s)) = regs (rt_hart s) 2 - TRAP_FRAME_SIZE"
    by (simp add: trap_entry_save_def Let_def)
  with assms show thesis
    by (auto simp: rtos_trap_def Let_def case_prod_beta split: option.splits outcome.splits
        intro: that [OF _ surjective_pairing])
qed

lemma aligned_advance: "(pc :: u32) AND 3 = 0 \<Longrightarrow> (pc + 4) AND 3 = 0"
  by (simp add: aligned4_add4)

lemma virtual_running:
  assumes "layout_ok s"
  shows "virtual s = (rt_current s, snd (virtual s))"
    "snd (virtual s) (rt_current s) = Some (vcpu_of_hart (rt_pc s) (rt_hart s))"
    "snd (virtual s) t \<noteq> None \<longleftrightarrow> t \<in> set (rt_tasks s)"
  using assms by (simp_all add: virtual_def layout_ok_def)

lemma entry_of_step:
  fixes cause :: u32
  assumes "layout_ok s" "frame_room (regs (rt_hart s) 2 - TRAP_FRAME_SIZE) (rt_tasks s) (rt_current s) (rt_memory s)"
  defines "fp \<equiv> regs (rt_hart s) 2 - TRAP_FRAME_SIZE"
    and "mm1 \<equiv> snd (trap_entry_save (take_trap cause (rt_pc s) (rt_hart s)) (rt_memory s))"
  shows "parked (set (rt_tasks s)) (rt_current s) (vcpu_of_hart (rt_pc s) (rt_hart s)) (rt_memory s)
      (put32 mm1 (rt_current s) fp)" "separate (rt_current s) fp"
    "get32 mm1 (slot fp 34) = cause" "get32 mm1 (slot fp 32) = rt_pc s"
    "bit (get32 mm1 (slot fp 33)) 7 = bit (csr_mstatus (rt_hart s)) 3" "top_of (put32 mm1 (rt_current s) fp) (rt_current s) = fp"
proof -
  have ok: "frames_ok (set (rt_tasks s)) (set (rt_tasks s) - {rt_current s}) (rt_memory s)"
      "rt_current s \<in> set (rt_tasks s)" "rt_pc s AND 3 = 0"
    using assms(1) by (simp_all add: layout_ok_def)
  show "parked (set (rt_tasks s)) (rt_current s) (vcpu_of_hart (rt_pc s) (rt_hart s)) (rt_memory s)
      (put32 mm1 (rt_current s) fp)" "separate (rt_current s) fp"
    "get32 mm1 (slot fp 34) = cause" "get32 mm1 (slot fp 32) = rt_pc s"
    "bit (get32 mm1 (slot fp 33)) 7 = bit (csr_mstatus (rt_hart s)) 3" "top_of (put32 mm1 (rt_current s) fp) (rt_current s) = fp"
    unfolding fp_def mm1_def by (rule entry_parks [OF ok assms(2)])+
qed

lemma ecall_refines:
  assumes "layout_ok s" "frame_room (regs (rt_hart s) 2 - TRAP_FRAME_SIZE) (rt_tasks s) (rt_current s) (rt_memory s)"
    and "rtos_trap K hw 0xb s = Some s'" "bit (csr_mstatus (rt_hart s)) 3 \<Longrightarrow> kernel_respects K hw (set (rt_tasks s))"
  defines "c \<equiv> vcpu_of_hart (rt_pc s) (rt_hart s)"
  shows "virtual s' = (rt_current s', (snd (virtual s))(rt_current s \<mapsto> c\<lparr>v_pc := v_pc c + 4\<rparr>)) \<and> layout_ok s' \<and>
    rt_tasks s' = rt_tasks s \<and> (if bit (csr_mstatus (rt_hart s)) 3 then rt_current s' \<in> set (rt_tasks s) else rt_current s' = rt_current s)"
proof -
  obtain next_frame ps' m' pc h' where run:
    "rtos_trap_dispatch K (rt_port s) (regs (rt_hart s) 2 - TRAP_FRAME_SIZE) hw
       ((rt_mach s)\<lparr>mem := snd (trap_entry_save (take_trap 0xb (rt_pc s) (rt_hart s)) (rt_memory s))\<rparr>) =
       Some (Ret (next_frame, ps') m')"
    "trap_restore_frame next_frame (mem m') (take_trap 0xb (rt_pc s) (rt_hart s)) = (pc, h')"
    and s': "s' = s\<lparr>rt_pc := pc, rt_hart := h', rt_port := ps', rt_mach := m'\<rparr>"
    by (rule trap_returns [OF assms(3)])
  note entry = entry_of_step(1) [where cause = "0xb", OF assms(1,2)] entry_of_step(2) [OF assms(1,2)]
    entry_of_step(3-6) [where cause = "0xb", OF assms(1,2)]
  let ?ts = "set (rt_tasks s)" and ?c = "c\<lparr>v_pc := v_pc c + 4\<rparr>"
  have cur: "rt_current s \<in> ?ts" "v_pc c = rt_pc s" "v_pc ?c AND 3 = 0"
    using assms(1) by (simp_all add: layout_ok_def c_def vcpu_of_hart_def aligned_advance)
  from parked_advance [OF entry(1) cur(1)] entry(6) cur(2) have parked: "parked ?ts (rt_current s) ?c (rt_memory s)
      (put32 (put32 (snd (trap_entry_save (take_trap 0xb (rt_pc s) (rt_hart s)) (rt_memory s))) (rt_current s)
        (regs (rt_hart s) 2 - TRAP_FRAME_SIZE)) (slot (regs (rt_hart s) 2 - TRAP_FRAME_SIZE) 32) (rt_pc s + 4))"
    (is "parked _ _ _ _ ?mm") by (simp add: c_def)
  have result: "if bit (csr_mstatus (rt_hart s)) 3 then hands_over K hw (rt_port s) ?mm next_frame ps' (mem m')
      else ps' = (rt_port s)\<lparr>freertos_yield_pending := 1\<rparr> \<and> mem m' = ?mm \<and> next_frame = top_of ?mm (rt_current s)"
    using ecall_returns [OF entry(2) _ run(1)] entry(3,4,5) by (simp cong: if_cong)
  have "parked ?ts (rt_current s) ?c (rt_memory s) (mem m') \<and> next_frame = top_of (mem m') (pxCurrentTCB ps') \<and>
      (if bit (csr_mstatus (rt_hart s)) 3 then pxCurrentTCB ps' \<in> ?ts else pxCurrentTCB ps' = rt_current s)"
    using result parked parked_kept [OF parked _ cur(1)] cur(1) assms(4)
    by (auto simp: hands_over_def split: if_splits)
  moreover from this have "pxCurrentTCB ps' \<in> ?ts" using cur(1) by (auto split: if_splits)
  ultimately show ?thesis
    using resume_refines [OF assms(1) _ cur(3), of m' ps' _ pc h'] run(2) s' by auto
qed

lemma tick_refines:
  assumes "layout_ok s" "frame_room (regs (rt_hart s) 2 - TRAP_FRAME_SIZE) (rt_tasks s) (rt_current s) (rt_memory s)"
    and "rtos_trap K hw MACHINE_TIMER_INTERRUPT_CAUSE s = Some s'" "kernel_respects K hw (set (rt_tasks s))"
  shows "virtual s' = (rt_current s', snd (virtual s)) \<and> layout_ok s' \<and>
    rt_tasks s' = rt_tasks s \<and> rt_current s' \<in> set (rt_tasks s)"
proof -
  let ?cause = MACHINE_TIMER_INTERRUPT_CAUSE
  obtain next_frame ps' m' pc h' where run:
    "rtos_trap_dispatch K (rt_port s) (regs (rt_hart s) 2 - TRAP_FRAME_SIZE) hw
       ((rt_mach s)\<lparr>mem := snd (trap_entry_save (take_trap ?cause (rt_pc s) (rt_hart s)) (rt_memory s))\<rparr>) =
       Some (Ret (next_frame, ps') m')"
    "trap_restore_frame next_frame (mem m') (take_trap ?cause (rt_pc s) (rt_hart s)) = (pc, h')"
    and s': "s' = s\<lparr>rt_pc := pc, rt_hart := h', rt_port := ps', rt_mach := m'\<rparr>"
    by (rule trap_returns [OF assms(3)])
  note entry = entry_of_step(1) [where cause = ?cause, OF assms(1,2)] entry_of_step(2) [OF assms(1,2)]
    entry_of_step(3) [where cause = ?cause, OF assms(1,2)]
  let ?ts = "set (rt_tasks s)" and ?c = "vcpu_of_hart (rt_pc s) (rt_hart s)"
  have cur: "rt_current s \<in> ?ts" "v_pc ?c AND 3 = 0" "snd (virtual s) (rt_current s) = Some ?c"
    using assms(1) by (simp_all add: layout_ok_def vcpu_of_hart_def virtual_def)
  have "hands_over K hw (rt_port s) (put32 (snd (trap_entry_save (take_trap ?cause (rt_pc s) (rt_hart s)) (rt_memory s)))
      (rt_current s) (regs (rt_hart s) 2 - TRAP_FRAME_SIZE)) next_frame ps' (mem m')"
    using tick_returns [OF entry(2) _ run(1)] entry(3) by simp
  then have "parked ?ts (rt_current s) ?c (rt_memory s) (mem m')" "next_frame = top_of (mem m') (pxCurrentTCB ps')"
      "pxCurrentTCB ps' \<in> ?ts"
    using parked_kept [OF entry(1) _ cur(1)] cur(1) assms(4) by (auto simp: hands_over_def)
  then show ?thesis
    using resume_refines [OF assms(1) _ cur(2), of m' ps' _ pc h'] run(2) s' cur(3)
    by (auto simp: fun_upd_idem)
qed

lemma created_frame:
  assumes "pxPortInitialiseStack ret gp tp stack code param mm0 = Some (fp, mm)"
  shows "agree_outside fp 144 mm0 mm" "vcpu_of_frame mm fp = fresh_vcpu ret (fp + 144) gp tp code param"
proof -
  define base where "base = (stack + 4) AND NOT 15"
  have mm: "fp = base - 144" "mm = put_slots (fill_bytes mm0 fp 0 144) fp
      [(1, ret), (2, base), (3, gp), (4, tp), (10, param), (32, code), (33, 0x1880)]"
    using assms unfolding initial_stack_run by (auto simp: base_def)
  show "agree_outside fp 144 mm0 mm"
    unfolding agree_outside_def mm(2) using initial_stack_outside by blast
  have "base = fp + 144" by (simp add: mm(1))
  then have words: "get32 mm (slot fp i) = (if i = 1 then ret else if i = 2 then fp + 144 else if i = 3 then gp
      else if i = 4 then tp else if i = 10 then param else if i = 32 then code else if i = 33 then 0x1880 else 0)"
    if "i < 36" for i
    unfolding mm(2) using initial_frame_words [OF that] by simp
  show "vcpu_of_frame mm fp = fresh_vcpu ret (fp + 144) gp tp code param"
    unfolding vcpu_of_frame_def fresh_vcpu_def by (simp add: words bit_simps)
qed

lemma frames_ok_insert:
  assumes "frames_ok ts T mm" "t AND 3 = 0" "\<forall>u \<in> ts. apart t 4 u 4"
    and "top_of mm t AND 3 = 0" "\<forall>u \<in> insert t ts. apart (top_of mm t) 144 u 4"
    and "\<forall>u \<in> T. apart (top_of mm u) 144 t 4 \<and> apart (top_of mm t) 144 (top_of mm u) 144"
  shows "frames_ok (insert t ts) (insert t T) mm"
  using assms unfolding frames_ok_def by (auto intro: apart_sym [THEN iffD1])

lemma created_refines:
  assumes "layout_ok s" and init: "pxPortInitialiseStack ret gp tp stack code param (rt_memory s) = Some (fp, mm)"
    and room: "frame_room fp (rt_tasks s) (rt_current s) (rt_memory s)" "apart fp 144 t 4" and code: "code AND 3 = 0"
    and t: "t AND 3 = 0" "t \<notin> set (rt_tasks s)" "\<forall>u \<in> set (rt_tasks s). apart t 4 u 4"
      "\<forall>u \<in> set (rt_tasks s) - {rt_current s}. apart (top_of (rt_memory s) u) 144 t 4"
  defines "s' \<equiv> s\<lparr>rt_mach := (rt_mach s)\<lparr>mem := put32 mm t fp\<rparr>, rt_tasks := t # rt_tasks s\<rparr>"
  shows "v_step (Creates t (fresh_vcpu ret (fp + 144) gp tp code param)) (virtual s) = Some (virtual s') \<and> layout_ok s'"
proof -
  let ?ts = "set (rt_tasks s)" and ?mm = "put32 mm t fp" and ?vf = "\<lambda>mm t. vcpu_of_frame mm (top_of mm t)"
  have cur: "rt_current s \<in> ?ts" "rt_current s \<noteq> t" using assms(1) t(2) by (auto simp: layout_ok_def)
  have "frames_kept (?ts - {rt_current s}) (rt_memory s) mm"
    using room(1) by (intro agree_keeps_frames [OF created_frame(1) [OF init]]) (auto simp: frame_room_def)
  moreover from this have "frames_kept (?ts - {rt_current s}) mm ?mm"
    using t(3,4) by (intro agree_keeps_frames [OF agree_put32]) (auto simp: frames_kept_def apart_sym [of t])
  ultimately have kept: "frames_kept (?ts - {rt_current s}) (rt_memory s) ?mm" by (rule frames_kept_trans)
  have new: "top_of ?mm t = fp" by (simp add: top_of_def)
  have words: "get32 ?mm (slot fp i) = get32 mm (slot fp i)" if "i < 36" for i
    using agree_get32 [OF agree_put32 apart_slot [OF _ that]] room(2) by (simp add: apart_sym [of t])
  have fresh: "?vf ?mm t = fresh_vcpu ret (fp + 144) gp tp code param"
    unfolding new created_frame(2) [OF init, symmetric] by (simp add: vcpu_of_frame_def words)
  have "top_of ?mm u = top_of (rt_memory s) u" if "u \<in> ?ts - {rt_current s}" for u
    using kept that by (simp add: frames_kept_def)
  then have "frames_ok (insert t ?ts) (insert t (?ts - {rt_current s})) ?mm"
    using assms(1) room t by (intro frames_ok_insert) (auto simp: kept_frames_ok [OF kept] new layout_ok_def frame_room_def)
  moreover have "set (rt_tasks s') - {rt_current s'} = insert t (?ts - {rt_current s})" using cur by (auto simp: s'_def)
  moreover have "v_pc (?vf ?mm u) AND 3 = 0" if "u \<in> insert t (?ts - {rt_current s})" for u
    using that fresh code kept_vcpu [OF kept] assms(1) by (auto simp: layout_ok_def fresh_vcpu_def)
  ultimately have "layout_ok s'"
    using assms(1) cur by (simp add: layout_ok_def s'_def)
  moreover have "v_step (Creates t (fresh_vcpu ret (fp + 144) gp tp code param)) (virtual s) = Some (virtual s')"
    using t(2) cur fresh kept_vcpu [OF kept] by (auto simp: virtual_def s'_def intro!: ext)
  ultimately show ?thesis by blast
qed

lemma step_refines:
  assumes "rtos_step K s e s'" "layout_ok s"
  shows "v_step e (virtual s) = Some (virtual s') \<and> layout_ok s'"
  using assms
proof (cases rule: rtos_step.cases)
  case (instructions m' pc' h' pending)
  let ?ts = "set (rt_tasks s)"
  have current: "rt_current s' = rt_current s" "rt_tasks s' = rt_tasks s" "rt_memory s' = mem m'"
    using instructions by simp_all
  have "v_step e (virtual s) = Some (virtual s')"
    using instructions assms(2) kept_vcpu [OF instructions(3)]
    by (auto simp: virtual_def layout_ok_def intro!: ext)
  moreover have "layout_ok s'"
    using instructions assms(2) kept_frames_ok [OF instructions(3)] kept_vcpu [OF instructions(3)]
    by (auto simp: layout_ok_def)
  ultimately show ?thesis by blast
next
  case (yield hw)
  then show ?thesis
    using ecall_refines [OF assms(2) yield(3,5)] virtual_running [OF assms(2)]
    by (auto simp: virtual_def vcpu_of_hart_def)
next
  case (deferred_yield hw)
  then show ?thesis
    using ecall_refines [OF assms(2) deferred_yield(3,4)] virtual_running [OF assms(2)]
    by (auto simp: virtual_def vcpu_of_hart_def)
next
  case (tick hw)
  then show ?thesis
    using tick_refines [OF assms(2) tick(3,5,4)] virtual_running [OF assms(2)]
    by (auto simp: virtual_def vcpu_of_hart_def)
next
  case (create ret gp tp stack code param fp mm t)
  then show ?thesis using created_refines [OF assms(2)] by simp
qed

lemma run_refines:
  "rtos_run K s es s' \<Longrightarrow> layout_ok s \<Longrightarrow> v_run es (virtual s) = Some (virtual s') \<and> layout_ok s'"
  by (induction rule: rtos_run.induct) (auto dest: step_refines)

text \<open>A trap with room for its frame never gets stuck, if the calls of the kernel return.\<close>

definition kernel_returns :: "kernel \<Rightarrow> hw \<Rightarrow> bool" where
  "kernel_returns K hw \<longleftrightarrow> (\<forall>cur m. \<exists>t m'. vTaskSwitchContext K cur hw m = Some (Ret t m')) \<and>
     (\<forall>m. \<exists>due m'. xTaskIncrementTick K hw m = Some (Ret due m'))"

lemma switch_finishes:
  assumes "kernel_returns K hw" "kernel_respects K hw T" "\<forall>t \<in> T. t AND 3 = 0"
  shows "\<exists>next_frame ps' m'. bind_fw (switch_task K ps)
      (\<lambda>ps2. let ps3 = ps2\<lparr>freertos_trap_depth := freertos_trap_depth ps2 - 1\<rparr>
         in bind_fw (load32 (pxCurrentTCB ps3)) (\<lambda>v. return_fw (v, ps3))) hw m = Some (Ret (next_frame, ps') m')"
proof -
  obtain t m' where run: "vTaskSwitchContext K (pxCurrentTCB ps) hw m = Some (Ret t m')"
    using assms(1) unfolding kernel_returns_def by blast
  then have "t AND 3 = 0" using assms(2,3) unfolding kernel_respects_def by blast
  then show ?thesis
    by (simp add: switch_task_def bind_assoc_fw bind_fw_Ret [of "vTaskSwitchContext K (pxCurrentTCB ps)", OF run]
        Let_def bind_word_access return_fw_def)
qed

lemma trap_returns_always:
  assumes "layout_ok s" "frame_room (regs (rt_hart s) 2 - TRAP_FRAME_SIZE) (rt_tasks s) (rt_current s) (rt_memory s)"
    and "kernel_returns K hw" "kernel_respects K hw (set (rt_tasks s))"
    and "cause = 0xb \<or> cause = MACHINE_TIMER_INTERRUPT_CAUSE"
  shows "\<exists>s'. rtos_trap K hw cause s = Some s'"
proof -
  let ?fp = "regs (rt_hart s) 2 - TRAP_FRAME_SIZE" and ?h = "take_trap cause (rt_pc s) (rt_hart s)"
  let ?m = "(rt_mach s)\<lparr>mem := snd (trap_entry_save ?h (rt_memory s))\<rparr>"
  have fp: "fst (trap_entry_save ?h (rt_memory s)) = ?fp"
    by (simp add: trap_entry_save_def Let_def)
  have sep: "separate (rt_current s) ?fp" by (rule entry_of_step(2) [OF assms(1,2)])
  have word: "get32 (mem ?m) (slot ?fp 34) = cause" using entry_of_step(3) [OF assms(1,2)] by simp
  have tasks: "\<forall>t \<in> set (rt_tasks s). t AND 3 = 0" "rt_current s AND 3 = 0"
    using assms(1) by (auto simp: layout_ok_def frames_ok_def)
  note switch = switch_finishes [OF assms(3,4) tasks(1)]
  have "\<exists>next_frame ps' m'. rtos_trap_dispatch K (rt_port s) ?fp hw ?m = Some (Ret (next_frame, ps') m')"
  proof (cases "cause = 0xb")
    case True
    then have "get32 (mem ?m) (slot ?fp 34) = 0xb" using word by simp
    from ecall_run [OF sep this, of K hw] switch tasks(2) show ?thesis
      by (simp add: bind_word_access enter_trap_def return_fw_def Let_def)
  next
    case False
    then have "get32 (mem ?m) (slot ?fp 34) = MACHINE_TIMER_INTERRUPT_CAUSE" using word assms(5) by simp
    note run = timer_run [OF sep this, of K hw]
    obtain due m' where tick: "xTaskIncrementTick K hw
        (compare_written (next_compare (next_tick (rt_port s))) (saved_top (rt_port s) ?fp ?m)) = Some (Ret due m')"
      using assms(3) unfolding kernel_returns_def by blast
    from switch tasks(2) show ?thesis
      unfolding run bind_assoc_fw bind_fw_Ret [of "xTaskIncrementTick K", OF tick]
      by (cases "due = 0") (simp_all add: bind_word_access enter_trap_def next_tick_def return_fw_def Let_def)
  qed
  then show ?thesis
    using fp by (auto simp: rtos_trap_def Let_def case_prod_beta)
qed

text \<open>What a task that is switched out finds when it goes on, whatever happened in between.\<close>

lemma v_step_untouched:
  assumes "v_step e (r, vs) = Some (r1, vs1)" "t \<noteq> r" "vs t = Some c" "e \<noteq> Yields t" "e \<noteq> Ticks t"
  shows "r1 \<noteq> t \<and> vs1 t = Some c"
  using assms by (cases e) (auto split: option.splits if_splits)

lemma v_run_untouched:
  "v_run es (r, vs) = Some (r', vs') \<Longrightarrow> t \<noteq> r \<Longrightarrow> vs t = Some c \<Longrightarrow>
   \<forall>e \<in> set es. e \<noteq> Yields t \<and> e \<noteq> Ticks t \<Longrightarrow> r' \<noteq> t \<and> vs' t = Some c"
proof (induction es arbitrary: r vs)
  case (Cons e es)
  then obtain r1 vs1 where 1: "v_step e (r, vs) = Some (r1, vs1)" "v_run es (r1, vs1) = Some (r', vs')"
    by (auto split: option.splits)
  have "e \<noteq> Yields t" "e \<noteq> Ticks t" using Cons.prems(4) by simp_all
  from v_step_untouched [OF 1(1) Cons.prems(2,3) this] Cons.IH [OF 1(2)] Cons.prems(4) show ?case
    by auto
qed simp

lemma task_goes_on:
  assumes "layout_ok s" "t \<in> set (rt_tasks s)" "t \<noteq> rt_current s"
    and "rtos_run K s es s1" "\<forall>e \<in> set es. e \<noteq> Yields t \<and> e \<noteq> Ticks t"
    and "rtos_step K s1 e s2" "e = Yields t \<or> e = Ticks t"
  shows "vcpu_of_hart (rt_pc s2) (rt_hart s2) = vcpu_of_frame (rt_memory s) (top_of (rt_memory s) t)"
proof -
  let ?c = "vcpu_of_frame (rt_memory s) (top_of (rt_memory s) t)"
  from run_refines [OF assms(4,1)] have run: "v_run es (virtual s) = Some (virtual s1)" "layout_ok s1" by blast+
  obtain vs vs1 vs2 where v: "virtual s = (rt_current s, vs)" "virtual s1 = (rt_current s1, vs1)"
      "virtual s2 = (rt_current s2, vs2)"
    by (simp add: virtual_def)
  have "vs t = Some ?c" using v(1) assms(2,3) by (auto simp: virtual_def)
  with v_run_untouched [of es "rt_current s" vs "rt_current s1" vs1 t ?c] run(1) assms(3,5)
  have s1: "vs1 t = Some ?c" "rt_current s1 \<noteq> t" by (simp_all add: v(1,2))
  have step: "v_step e (rt_current s1, vs1) = Some (rt_current s2, vs2)" "layout_ok s2"
    using step_refines [OF assms(6) run(2)] by (simp_all add: v(2,3))
  have "rt_current s2 = t \<and> vs2 t = Some ?c"
    using assms(7) step(1) s1 by (elim disjE) (auto split: option.splits if_splits)
  then show ?thesis using virtual_running(2) [OF step(2)] v(3) by simp
qed

section \<open>The first task\<close>

text \<open>\<open>xPortStartScheduler\<close>, when it returns to a task at all, resumes the current one at its frame,
  with the trap vector set; from there on the steps above apply.\<close>

lemma assert_never_returns: "freertos_assert_fail K line hw m \<noteq> Some (Ret a m')"
  using gives_stop [where P = "\<lambda>_. False"]
  unfolding freertos_assert_fail_def then_fw_def gives_def bind_fw_def
  by (fastforce split: option.splits outcome.splits)

lemma scheduler_resumes:
  assumes "xPortStartScheduler K te ps h hw m = Some (Ret (pc, h', ps') m')"
  shows "vcpu_of_hart pc h' = vcpu_of_frame (mem m') (top_of (mem m') (pxCurrentTCB ps'))"
    "csr_mtvec h' = te" "pxCurrentTCB ps' = pxCurrentTCB ps"
  using assms unfolding xPortStartScheduler_def Let_def then_fw_def
  by (auto simp: assert_never_returns return_fw_def top_of_def restored_vcpu trap_restore_frame_def
      trap_enable_machine_timer_source_def trap_init_def vcpu_of_hart_def vcpu_of_frame_def Let_def
      split: if_splits elim!: bind_returns dest!: load32_returns)

lemma scheduler_layout:
  assumes "xPortStartScheduler K te ps h hw m = Some (Ret (pc, h', ps') m')"
    and "pxCurrentTCB ps \<in> set ts" "frames_ok (set ts) (set ts) (mem m')"
    and "\<forall>t \<in> set ts. v_pc (vcpu_of_frame (mem m') (top_of (mem m') t)) AND 3 = 0"
  shows "layout_ok \<lparr>rt_pc = pc, rt_hart = h', rt_port = ps', rt_mach = m', rt_tasks = ts\<rparr>"
proof -
  have "pc = v_pc (vcpu_of_frame (mem m') (top_of (mem m') (pxCurrentTCB ps)))"
    using arg_cong [of _ _ v_pc, OF scheduler_resumes(1) [OF assms(1)]] scheduler_resumes(3) [OF assms(1)]
    by (simp add: vcpu_of_hart_def)
  with assms show ?thesis
    using scheduler_resumes(3) [OF assms(1)] by (auto simp: layout_ok_def frames_ok_def)
qed

section \<open>Properties\<close>

text \<open>C8: Multitasking refines one processor per task. Over every run of instructions, yields in and
  out of critical sections, timer interrupts and task creations, the hart, the saved frames and
  the port's variables together behave as if every created task had its own pc, registers and
  interrupt enable: a yield moves the pc of the running task behind the \<open>ecall\<close> and nothing else,
  a tick changes no processor at all, whichever task goes on does so with its own registers, and
  a new task starts as \<open>pxPortInitialiseStack\<close> says. And wherever such a run gets to, a trap with
  room for its frame returns, if the kernel's calls do.\<close>

theorem tasks_have_own_processors:
  assumes "layout_ok s" "rtos_run K s es s'"
  shows "v_run es (virtual s) = Some (virtual s') \<and>
    (kernel_returns K hw \<and> kernel_respects K hw (set (rt_tasks s')) \<and>
     frame_room (regs (rt_hart s') 2 - TRAP_FRAME_SIZE) (rt_tasks s') (rt_current s') (rt_memory s') \<longrightarrow>
     (\<exists>s''. rtos_trap K hw 0xb s' = Some s'') \<and> (\<exists>s''. rtos_trap K hw MACHINE_TIMER_INTERRUPT_CAUSE s' = Some s''))"
  using run_refines [OF assms(2,1)] trap_returns_always [of s' K hw] by simp

text \<open>C9: A task that is switched out is not touched: when it is switched to again, after any run in
  which other tasks execute, yield, are interrupted and create tasks, it goes on at the saved pc
  with the saved registers and interrupt enable.\<close>

theorem switched_out_task_goes_on:
  assumes "layout_ok s" "t \<in> set (rt_tasks s)" "t \<noteq> rt_current s"
    and "rtos_run K s es s1" "\<forall>e \<in> set es. e \<noteq> Yields t \<and> e \<noteq> Ticks t"
    and "rtos_step K s1 e s2" "e = Yields t \<or> e = Ticks t"
  shows "rt_pc s2 = get32 (rt_memory s) (slot (top_of (rt_memory s) t) 32) \<and>
    (\<forall>i \<in> {1..<32}. regs (rt_hart s2) i = get32 (rt_memory s) (slot (top_of (rt_memory s) t) i)) \<and>
    bit (csr_mstatus (rt_hart s2)) 3 = bit (get32 (rt_memory s) (slot (top_of (rt_memory s) t) 33)) 7"
  using task_goes_on [OF assms] by (auto simp: vcpu_of_hart_def vcpu_of_frame_def)

section \<open>Witnesses\<close>

text \<open>The task at \<open>0x8000\<close> runs, the one at \<open>0x9000\<close> waits with its frame at \<open>0x5000\<close>.\<close>

definition example_rtos :: rtos where
  "example_rtos = \<lparr>rt_pc = 0x100,
     rt_hart = \<lparr>regs = (\<lambda>i. if i = 2 then 0x4090 else of_nat i), csr_mepc = 0, csr_mstatus = 0x1808, csr_mcause = 0,
       csr_mtvec = 0x40, csr_mie = 0x80\<rparr>,
     rt_port = example_port,
     rt_mach = \<lparr>mem = put32 (put32 (\<lambda>_. 0) 0x9000 0x5000) (slot 0x5000 9) 0x77, trace = []\<rparr>,
     rt_tasks = [0x8000, 0x9000]\<rparr>"

lemma example_memory:
  "rt_current example_rtos = 0x8000" "set (rt_tasks example_rtos) = {0x8000, 0x9000}"
  "rt_tasks example_rtos = [0x8000, 0x9000]"
  "top_of (rt_memory example_rtos) 0x9000 = 0x5000"
  "rt_pc example_rtos = 0x100" "regs (rt_hart example_rtos) 2 - TRAP_FRAME_SIZE = 0x4000"
  "bit (csr_mstatus (rt_hart example_rtos)) 3"
  by (simp_all add: example_rtos_def example_port_def top_of_def get32_put32_other slot_def TRAP_FRAME_SIZE_def bit_simps)

lemma example_layout: "layout_ok example_rtos"
proof -
  have "get32 (rt_memory example_rtos) (slot 0x5000 32) = 0"
    by (simp add: example_rtos_def get32_put32_other slot_def) (simp add: get32_def word_of_bytes_def put32_apply)
  then show ?thesis
    by (simp add: layout_ok_def example_memory frames_ok_def apart_def vcpu_of_frame_def insert_Diff_if)
qed

lemma example_room: "frame_room 0x4000 (rt_tasks example_rtos) (rt_current example_rtos) (rt_memory example_rtos)"
  by (simp add: frame_room_def example_memory apart_def)

lemma example_kernel_ok:
  "kernel_respects example_kernel hw (set (rt_tasks example_rtos))" "kernel_returns example_kernel hw"
  by (auto simp: kernel_respects_def kernel_returns_def example_kernel_def example_memory return_fw_def frames_kept_refl)

lemma example_yield:
  obtains s' where "rtos_trap example_kernel hw 0xb example_rtos = Some s'"
    "rtos_step example_kernel example_rtos (Yields (rt_current s')) s'"
proof -
  obtain s' where "rtos_trap example_kernel hw 0xb example_rtos = Some s'"
    using trap_returns_always [where hw = hw and cause = "0xb", OF example_layout _ example_kernel_ok(2,1)] example_room example_memory(6)
    by auto
  moreover from this have "rtos_step example_kernel example_rtos (Yields (rt_current s')) s'"
    using example_room example_memory(6,7) example_kernel_ok(1) by (intro rtos_step.yield) simp_all
  ultimately show thesis by (rule that)
qed

lemma example_next:
  assumes "rtos_trap example_kernel hw 0xb example_rtos = Some s'"
  shows "rt_current s' = 0x9000"
proof -
  obtain next_frame ps' m' pc h' where run:
    "rtos_trap_dispatch example_kernel (rt_port example_rtos) (regs (rt_hart example_rtos) 2 - TRAP_FRAME_SIZE) hw
       ((rt_mach example_rtos)\<lparr>mem := snd (trap_entry_save (take_trap 0xb (rt_pc example_rtos) (rt_hart example_rtos))
          (rt_memory example_rtos))\<rparr>) = Some (Ret (next_frame, ps') m')"
    and s': "s' = example_rtos\<lparr>rt_pc := pc, rt_hart := h', rt_port := ps', rt_mach := m'\<rparr>"
    by (rule trap_returns [OF assms])
  have room: "frame_room (regs (rt_hart example_rtos) 2 - TRAP_FRAME_SIZE) (rt_tasks example_rtos)
      (rt_current example_rtos) (rt_memory example_rtos)"
    unfolding example_memory(6) by (rule example_room)
  note entry = entry_of_step(2) [OF example_layout room] entry_of_step(3,5) [where cause = "0xb", OF example_layout room]
  have "\<exists>m1. vTaskSwitchContext example_kernel (rt_current example_rtos) hw m1 = Some (Ret (pxCurrentTCB ps') m')"
    using ecall_returns [OF entry(1) _ run] entry(2,3) example_memory(7) by simp
  then show ?thesis by (auto simp: s' example_kernel_def return_fw_def)
qed

theorem tasks_have_own_processors_witness:
  "\<exists>s' t c. rtos_run example_kernel example_rtos [Yields t] s' \<and> snd (virtual s') 0x8000 = Some c \<and>
     v_pc c = 0x104 \<and> v_regs c = map (regs (rt_hart example_rtos)) [1..<32]"
proof -
  obtain s' where "rtos_step example_kernel example_rtos (Yields (rt_current s')) s'"
    by (rule example_yield)
  then have run: "rtos_run example_kernel example_rtos [Yields (rt_current s')] s'"
    by (rule rtos_run.steps [OF _ rtos_run.stays])
  then have "v_run [Yields (rt_current s')] (virtual example_rtos) = Some (virtual s')"
    using tasks_have_own_processors [OF example_layout] by blast
  moreover obtain vs where "virtual example_rtos = (0x8000, vs)"
      "vs 0x8000 = Some (vcpu_of_hart 0x100 (rt_hart example_rtos))"
    using example_memory(1,2,5) by (simp add: virtual_def)
  ultimately have "snd (virtual s') 0x8000 =
      Some ((vcpu_of_hart 0x100 (rt_hart example_rtos))\<lparr>v_pc := 0x104\<rparr>)"
    by (auto simp: vcpu_of_hart_def split: if_splits dest!: sym [of _ "virtual s'"])
  with run show ?thesis
    by (intro exI [of _ s'] exI [of _ "rt_current s'"] exI) (auto simp: vcpu_of_hart_def)
qed

theorem switched_out_task_goes_on_witness:
  "\<exists>s2. rtos_step example_kernel example_rtos (Yields 0x9000) s2 \<and> regs (rt_hart s2) 9 = 0x77"
proof -
  obtain s' where s': "rtos_trap example_kernel (soc_hw board_config board_reset) 0xb example_rtos = Some s'"
      "rtos_step example_kernel example_rtos (Yields (rt_current s')) s'"
    by (rule example_yield)
  have cur: "rt_current s' = 0x9000" by (rule example_next [OF s'(1)])
  have "regs (rt_hart s') 9 = get32 (rt_memory example_rtos) (slot (top_of (rt_memory example_rtos) 0x9000) 9)"
    using switched_out_task_goes_on [OF example_layout _ _ rtos_run.stays, of "0x9000" example_kernel] s'(2) cur
    by (simp add: example_memory)
  moreover have "\<dots> = 0x77" by (simp add: example_memory) (simp add: example_rtos_def)
  ultimately show ?thesis using s'(2) cur by auto
qed

end
