(* ===== verification/Dot4.thy ===== *)
theory Dot4
  imports Testlib
begin

text \<open>
  The DOT4 accelerator: the signed dot product of four bytes as \<open>benchmarks/dot4_bench.c\<close>
  computes it in C, the clocked unit \<open>rtl/accel/dot4_int8.v\<close> behind the custom instruction of
  \<open>accel/dot4.S\<close>, with its wires at their width, and the benchmark that compares the two.
\<close>

section \<open>The C function\<close>

text \<open>\<open>(signed char)((packed >> 8 * k) & 0xff)\<close>, promoted to \<open>int\<close>.\<close>

definition signed_char :: "u32 \<Rightarrow> nat \<Rightarrow> int" where
  "signed_char packed k = sint (ucast (drop_bit (8 * k) packed AND 0xff) :: u8)"

definition dot4_scalar_s8 :: "u32 \<Rightarrow> u32 \<Rightarrow> int" where
  "dot4_scalar_s8 packed_a packed_b =
     signed_char packed_a 0 * signed_char packed_b 0 + signed_char packed_a 1 * signed_char packed_b 1 +
     signed_char packed_a 2 * signed_char packed_b 2 + signed_char packed_a 3 * signed_char packed_b 3"

section \<open>The unit\<close>

record dot4_in =
  in_reset :: bool
  in_req :: bool
  in_tag :: u32
  in_rs1 :: u32
  in_rs2 :: u32

record dot4_regs =
  result_valid :: bool
  result_tag :: u32
  dot4_result :: u32

text \<open>The signed wires: bytes, 16-bit products, the 18-bit sum of the sign-extended products.\<close>

definition lane :: "u32 \<Rightarrow> nat \<Rightarrow> u8" where
  "lane rs k = ucast (drop_bit (8 * k) rs)"

definition dot4_product :: "dot4_in \<Rightarrow> nat \<Rightarrow> 16 word" where
  "dot4_product i k = scast (lane (in_rs1 i) k) * scast (lane (in_rs2 i) k)"

definition dot4_sum :: "dot4_in \<Rightarrow> 18 word" where
  "dot4_sum i = scast (dot4_product i 0) + scast (dot4_product i 1) + scast (dot4_product i 2) + scast (dot4_product i 3)"

definition dot4_ack :: "dot4_regs \<Rightarrow> dot4_in \<Rightarrow> bool" where
  "dot4_ack r i \<longleftrightarrow> result_valid r \<and> in_req i \<and> in_tag i = result_tag r"

text \<open>One rising edge of the clock.\<close>

definition dot4_clock :: "dot4_in \<Rightarrow> dot4_regs \<Rightarrow> dot4_regs" where
  "dot4_clock i r =
     (if in_reset i then \<lparr>result_valid = False, result_tag = 0, dot4_result = 0\<rparr>
      else if \<not> in_req i then r\<lparr>result_valid := False\<rparr>
      else if \<not> result_valid r \<or> in_tag i \<noteq> result_tag r
      then \<lparr>result_valid = True, result_tag = in_tag i, dot4_result = scast (dot4_sum i)\<rparr>
      else r)"

definition dot4_reset :: dot4_regs where
  "dot4_reset = \<lparr>result_valid = False, result_tag = 0, dot4_result = 0\<rparr>"

definition dot4_run :: "dot4_in list \<Rightarrow> dot4_regs" where
  "dot4_run is = fold dot4_clock is dot4_reset"

text \<open>The instruction at address \<open>pc\<close>: the processor requests with the two operands, waits one clock
  for the acknowledgement, and takes the result (\<open>rtl/soc/darkriscv_adapter.v\<close>). Before it there was
  a clock without a request.\<close>

definition dot4_request :: "u32 \<Rightarrow> u32 \<Rightarrow> u32 \<Rightarrow> dot4_in" where
  "dot4_request pc a b = \<lparr>in_reset = False, in_req = True, in_tag = pc, in_rs1 = a, in_rs2 = b\<rparr>"

definition dot4_s8 :: "u32 \<Rightarrow> u32 \<Rightarrow> u32 \<Rightarrow> u32" where
  "dot4_s8 pc packed_a packed_b = dot4_result (dot4_run [dot4_request pc packed_a packed_b])"

section \<open>The benchmark\<close>

definition VECTOR_COUNT :: nat where "VECTOR_COUNT = 32"
definition ROUNDS :: nat where "ROUNDS = 16"

definition init_vectors :: "(u32 list \<times> u32 list) option" where
  "init_vectors = fold_option (\<lambda>i (a, b). do {
       a' \<leftarrow> array_put a i (0x80ff017f XOR (of_nat i * 0x01030507));
       b' \<leftarrow> array_put b i (0x7f02ff80 + (of_nat i * 0x07050301));
       Some (a', b')
     }) [0..<VECTOR_COUNT] (replicate VECTOR_COUNT 0, replicate VECTOR_COUNT 0)"

text \<open>\<open>run_scalar\<close> and \<open>run_custom\<close> are the same loops around different functions; \<open>value\<close> is the \<open>int\<close>
  as a word.\<close>

definition run_vectors :: "(u32 \<Rightarrow> u32 \<Rightarrow> u32) \<Rightarrow> u32 list \<Rightarrow> u32 list \<Rightarrow> (u32 list \<times> u32) option" where
  "run_vectors dot4 input_a input_b = fold_option (\<lambda>round. fold_option (\<lambda>i (results, checksum). do {
       a \<leftarrow> array_get input_a i;
       b \<leftarrow> array_get input_b i;
       results' \<leftarrow> array_put results i (dot4 a b);
       Some (results', checksum XOR (dot4 a b + of_nat round + of_nat i))
     }) [0..<VECTOR_COUNT]) [0..<ROUNDS] (replicate VECTOR_COUNT 0, 0)"

definition run_scalar :: "u32 list \<Rightarrow> u32 list \<Rightarrow> (u32 list \<times> u32) option" where
  "run_scalar = run_vectors (\<lambda>a b. word_of_int (dot4_scalar_s8 a b))"

definition run_custom :: "u32 \<Rightarrow> u32 list \<Rightarrow> u32 list \<Rightarrow> (u32 list \<times> u32) option" where
  "run_custom pc = run_vectors (dot4_s8 pc)"

definition report_result :: "string \<Rightarrow> u32 \<Rightarrow> perf_snapshot \<Rightarrow> unit fw" where
  "report_result mode checksum snap = seq_fw
     [uart_puts (bytes ''RESULT: benchmark=dot4 mode=''), uart_puts (bytes mode),
      uart_puts (bytes '' vectors=32 rounds=16 checksum=''), uart_put_hex checksum,
      uart_puts (bytes '' cycles=''), uart_put_dec (cycle snap), uart_puts (bytes '' instret=''), uart_put_dec (instret snap),
      uart_puts (bytes '' mem_wait=''), uart_put_dec (mem_wait snap), uart_puts [10]]"

definition dot4_bench_main :: "u32 \<Rightarrow> 'a fw" where
  "dot4_bench_main pc =
     then_fw (test_banner ''dot4_bench'')
     (bind_fw (of_option_fw init_vectors) (\<lambda>(input_a, input_b).
      bind_fw perf_begin (\<lambda>s0.
      bind_fw (of_option_fw (run_scalar input_a input_b)) (\<lambda>(scalar_result, scalar_checksum).
      bind_fw (perf_end s0) (\<lambda>scalar_perf.
      bind_fw perf_begin (\<lambda>c0.
      bind_fw (of_option_fw (run_custom pc input_a input_b)) (\<lambda>(custom_result, custom_checksum).
      bind_fw (perf_end c0) (\<lambda>custom_perf.
        then_fw (for_fw [0..<VECTOR_COUNT] (\<lambda>i.
          bind_fw (of_option_fw (array_get custom_result i)) (\<lambda>c.
          bind_fw (of_option_fw (array_get scalar_result i)) (\<lambda>s.
            test_expect (c = s) (0xdead8000 + of_nat i)))))
        (then_fw (seq_fw [test_expect (custom_checksum = scalar_checksum) 0xdead8100,
            test_expect (cycle custom_perf < cycle scalar_perf) 0xdead8101,
            test_expect (instret custom_perf < instret scalar_perf) 0xdead8102,
            report_result ''scalar'' scalar_checksum scalar_perf,
            report_result ''custom'' custom_checksum custom_perf, uart_flush])
         test_pass)))))))))"

section \<open>Arithmetic\<close>

lemma signed_char_lane: "signed_char w k = sint (lane w k)"
proof -
  have "ucast (drop_bit (8 * k) w AND mask 8) = (ucast (drop_bit (8 * k) w) :: u8)"
    by (rule bit_word_eqI) (auto simp: bit_simps)
  then show ?thesis by (simp add: signed_char_def lane_def mask_eq_exp_minus_1)
qed

lemma sint_byte: "- 128 \<le> sint (b :: u8)" "sint b \<le> 127"
  using sint_ge [of b] sint_less [of b] by simp_all

lemma byte_product: "\<bar>sint (a :: u8) * sint (b :: u8)\<bar> \<le> 16384"
proof -
  have "\<bar>sint a\<bar> \<le> 128" "\<bar>sint b\<bar> \<le> 128" using sint_byte [of a] sint_byte [of b] by linarith+
  then have "\<bar>sint a\<bar> * \<bar>sint b\<bar> \<le> 128 * 128" by (intro mult_mono) simp_all
  then show ?thesis by (simp add: abs_mult)
qed

lemma sint_word_of_int:
  assumes "- (2 ^ (LENGTH('a) - 1)) \<le> k" "k < 2 ^ (LENGTH('a) - 1)"
  shows "sint (word_of_int k :: 'a::len word) = k"
  using assms by (simp add: sint_sbintrunc' signed_take_bit_int_eq_self_iff)

lemma scast_of_int: "scast w = word_of_int (sint w)"
  by simp

lemma sint_product: "sint (dot4_product i k) = sint (lane (in_rs1 i) k) * sint (lane (in_rs2 i) k)"
proof -
  have "dot4_product i k = word_of_int (sint (lane (in_rs1 i) k) * sint (lane (in_rs2 i) k))"
    unfolding dot4_product_def scast_of_int by simp
  also have "sint \<dots> = sint (lane (in_rs1 i) k) * sint (lane (in_rs2 i) k)"
    using byte_product [of "lane (in_rs1 i) k" "lane (in_rs2 i) k"] by (intro sint_word_of_int) (simp_all add: abs_le_iff)
  finally show ?thesis .
qed

lemma dot4_bounds: "\<bar>dot4_scalar_s8 a b\<bar> \<le> 65536"
  using byte_product [of "lane a 0" "lane b 0"] byte_product [of "lane a 1" "lane b 1"]
    byte_product [of "lane a 2" "lane b 2"] byte_product [of "lane a 3" "lane b 3"]
  by (simp add: dot4_scalar_s8_def signed_char_lane)

lemma dot4_sum_scalar: "sint (dot4_sum i) = dot4_scalar_s8 (in_rs1 i) (in_rs2 i)"
proof -
  have "dot4_sum i = word_of_int (dot4_scalar_s8 (in_rs1 i) (in_rs2 i))"
    unfolding dot4_sum_def scast_of_int sint_product by (simp add: dot4_scalar_s8_def signed_char_lane)
  also have "sint \<dots> = dot4_scalar_s8 (in_rs1 i) (in_rs2 i)"
    using dot4_bounds [of "in_rs1 i" "in_rs2 i"] by (intro sint_word_of_int) (simp_all add: abs_le_iff)
  finally show ?thesis .
qed

section \<open>The clocked unit\<close>

text \<open>The processor holds the operands of an instruction while it waits: two requests in a row with
  the same tag, and no reset, have the same operands.\<close>

fun steady :: "dot4_in list \<Rightarrow> bool" where
  "steady (i # j # is) \<longleftrightarrow>
     (in_req i \<and> in_req j \<and> in_tag i = in_tag j \<longrightarrow> in_rs1 i = in_rs1 j \<and> in_rs2 i = in_rs2 j) \<and> steady (j # is)"
| "steady _ \<longleftrightarrow> True"

lemma steady_butlast: "steady (is @ [i]) \<Longrightarrow> steady is"
  by (induction "is" rule: steady.induct) (auto split: list.splits)

lemma steady_last:
  "steady (is @ [i, j]) \<Longrightarrow> in_req i \<Longrightarrow> in_req j \<Longrightarrow> in_tag i = in_tag j \<Longrightarrow>
   in_rs1 i = in_rs1 j \<and> in_rs2 i = in_rs2 j"
  by (induction "is" rule: steady.induct) auto

lemma steady_request:
  assumes "steady (is @ [j])" "is \<noteq> []" "in_req (last is)" "in_req j" "in_tag (last is) = in_tag j"
  shows "in_rs1 (last is) = in_rs1 j \<and> in_rs2 (last is) = in_rs2 j"
proof -
  obtain ys y where "is = ys @ [y]" using assms(2) by (cases "is" rule: rev_cases) auto
  with assms show ?thesis using steady_last [of ys y j] by simp
qed

lemma dot4_run_snoc: "dot4_run (is @ [i]) = dot4_clock i (dot4_run is)"
  by (simp add: dot4_run_def)

text \<open>A valid result is that of the request of the last clock.\<close>

lemma dot4_invariant:
  "steady is \<Longrightarrow> result_valid (dot4_run is) \<Longrightarrow> is \<noteq> [] \<and> in_req (last is) \<and>
     result_tag (dot4_run is) = in_tag (last is) \<and> dot4_result (dot4_run is) = scast (dot4_sum (last is))"
proof (induction "is" rule: rev_induct)
  case Nil
  then show ?case by (simp add: dot4_run_def dot4_reset_def)
next
  case (snoc j "is")
  have steady: "steady is" by (rule steady_butlast [OF snoc.prems(1)])
  show ?case
  proof (cases "in_req j \<and> \<not> in_reset j \<and> result_valid (dot4_run is) \<and> in_tag j = result_tag (dot4_run is)")
    case True
    with snoc.IH [OF steady] have IH: "is \<noteq> []" "in_req (last is)" "in_tag j = in_tag (last is)"
        "dot4_result (dot4_run is) = scast (dot4_sum (last is))"
      by auto
    have "in_rs1 (last is) = in_rs1 j \<and> in_rs2 (last is) = in_rs2 j"
      using steady_request [OF snoc.prems(1)] IH True by simp
    then have "dot4_sum (last is) = dot4_sum j" by (simp add: dot4_sum_def dot4_product_def)
    with True IH show ?thesis by (simp add: dot4_run_snoc dot4_clock_def)
  next
    case False
    with snoc.prems(2) show ?thesis by (auto simp: dot4_run_snoc dot4_clock_def split: if_splits)
  qed
qed

lemma dot4_word: "scast (dot4_sum i) = word_of_int (dot4_scalar_s8 (in_rs1 i) (in_rs2 i))"
  unfolding scast_of_int dot4_sum_scalar ..

lemma dot4_s8_scalar: "dot4_s8 pc a b = word_of_int (dot4_scalar_s8 a b)"
  by (simp add: dot4_s8_def dot4_run_def dot4_clock_def dot4_reset_def dot4_request_def dot4_word del: of_int_sint)

section \<open>The benchmark\<close>

lemma run_custom_scalar: "run_custom pc = run_scalar"
proof -
  have "dot4_s8 pc = (\<lambda>a b. word_of_int (dot4_scalar_s8 a b))" by (intro ext) (rule dot4_s8_scalar)
  then show ?thesis by (simp add: run_custom_def run_scalar_def)
qed

lemma fold_option_total:
  assumes "J s" "\<And>x s. x \<in> set xs \<Longrightarrow> J s \<Longrightarrow> \<exists>s'. f x s = Some s' \<and> J s'"
  shows "\<exists>s'. fold_option f xs s = Some s' \<and> J s'"
  using assms
proof (induction xs arbitrary: s)
  case (Cons x xs)
  then obtain s1 where "f x s = Some s1" "J s1" by (meson list.set_intros(1))
  with Cons.IH [of s1] Cons.prems(2) show ?case by simp
qed simp

lemma init_vectors_total: "\<exists>a b. init_vectors = Some (a, b) \<and> length a = VECTOR_COUNT \<and> length b = VECTOR_COUNT"
  using fold_option_total [where J = "\<lambda>(a, b). length a = VECTOR_COUNT \<and> length b = VECTOR_COUNT"
      and s = "(replicate VECTOR_COUNT (0::u32), replicate VECTOR_COUNT (0::u32))" and xs = "[0..<VECTOR_COUNT]"]
  unfolding init_vectors_def by (fastforce simp: array_put_def)

lemma run_vectors_total:
  assumes "length a = VECTOR_COUNT" "length b = VECTOR_COUNT"
  shows "\<exists>results checksum. run_vectors f a b = Some (results, checksum) \<and> length results = VECTOR_COUNT"
proof -
  let ?J = "\<lambda>(results :: u32 list, checksum :: u32). length results = VECTOR_COUNT"
  let ?body = "\<lambda>round i (results, checksum). do {
       x \<leftarrow> array_get a i; y \<leftarrow> array_get b i; results' \<leftarrow> array_put results i (f x y);
       Some (results', checksum XOR (f x y + of_nat round + of_nat i)) }"
  have rounds: "\<exists>s'. fold_option (?body round) [0..<VECTOR_COUNT] s = Some s' \<and> ?J s'" if "?J s" for round :: nat and s
    by (rule fold_option_total [where J = ?J, OF that]) (use assms in \<open>auto simp: array_simps\<close>)
  have "\<exists>s'. run_vectors f a b = Some s' \<and> ?J s'"
    unfolding run_vectors_def by (rule fold_option_total [where J = ?J], simp) (rule rounds)
  then show ?thesis by auto
qed

lemma runs_report_result: "safely_in H P (report_result mode checksum snap) (\<lambda>_. True)"
  unfolding report_result_def by (rule runs_seq) (auto simp del: uart_puts.simps intro: run_intros)

lemma runs_dot4_bench: "runs {1, 0xdead8101, 0xdead8102} (dot4_bench_main pc :: 'a fw) (\<lambda>_. False)"
proof -
  obtain a b where v: "init_vectors = Some (a, b)" "length a = VECTOR_COUNT" "length b = VECTOR_COUNT"
    using init_vectors_total by blast
  from run_vectors_total [OF v(2,3)] obtain r c where run: "run_scalar a b = Some (r, c)" "length r = VECTOR_COUNT"
    unfolding run_scalar_def by blast
  have same: "test_expect True code = return_fw ()" for code by (simp add: test_expect_def)
  show ?thesis
    unfolding dot4_bench_main_def run_custom_scalar v(1) of_option_bind_fw prod.case run(1) same
    by (auto simp: array_simps run(2) same del: uart_puts.simps
        intro!: runs_then runs_bind [OF runs_perf(1)] runs_bind [OF runs_perf(2)] runs_banner runs_for runs_seq
          runs_return runs_test_pass runs_report_result runs_flush runs_mono [OF runs_test_expect])
qed

section \<open>Properties\<close>



text \<open>The benchmark never finds the instruction and the C function to disagree: whatever the
  counters show, it does not stop with 0xdead80xx or 0xdead8100; it can fail only when the
  custom instruction was not faster.\<close>

lemma dot4_bench_agrees:
  "runs {1, 0xdead8101, 0xdead8102} (dot4_bench_main pc :: 'a fw) (\<lambda>_. False)"
  by (rule runs_dot4_bench)

end
