(* ===== verification/Bench_Support.thy ===== *)
theory Bench_Support
  imports Testlib Trap_Frame
begin

text \<open>
  What the benchmarks share: total correctness of programs that work on memory and print, on
  devices with a live UART; and arrays of words in memory, which the loops of the benchmarks
  use like lists.
\<close>

section \<open>Total correctness with memory\<close>

text \<open>\<open>reaches hw A f Q\<close>: from memory that satisfies \<open>A\<close>, \<open>f\<close> returns, and its result and the
  memory satisfy \<open>Q\<close>. \<open>finishes hw A f C\<close>: \<open>f\<close> ends with one of the codes \<open>C\<close> in the exit
  register.\<close>

definition reaches :: "hw \<Rightarrow> (memory \<Rightarrow> bool) \<Rightarrow> 'a fw \<Rightarrow> ('a \<Rightarrow> memory \<Rightarrow> bool) \<Rightarrow> bool" where
  "reaches hw A f Q \<longleftrightarrow> (\<forall>m. A (mem m) \<longrightarrow> (\<exists>a m'. f hw m = Some (Ret a m') \<and> Q a (mem m')))"

definition finishes :: "hw \<Rightarrow> (memory \<Rightarrow> bool) \<Rightarrow> 'a fw \<Rightarrow> u32 set \<Rightarrow> bool" where
  "finishes hw A f C \<longleftrightarrow> (\<forall>m. A (mem m) \<longrightarrow> (\<exists>m'. f hw m = Some (Stop m') \<and> stopped_with C m'))"

lemma reaches_return: "(\<And>M. A M \<Longrightarrow> Q a M) \<Longrightarrow> reaches hw A (return_fw a) Q"
  by (simp add: reaches_def return_fw_def)

lemma reaches_pre: "reaches hw B f Q \<Longrightarrow> (\<And>M. A M \<Longrightarrow> B M) \<Longrightarrow> reaches hw A f Q"
  unfolding reaches_def by blast

lemma reaches_mono: "reaches hw A f R \<Longrightarrow> (\<And>a M. R a M \<Longrightarrow> Q a M) \<Longrightarrow> reaches hw A f Q"
  unfolding reaches_def by blast

lemma reaches_bind:
  assumes "reaches hw A f R" "\<And>a. reaches hw (R a) (g a) Q"
  shows "reaches hw A (bind_fw f g) Q"
  using assms unfolding reaches_def bind_fw_def by (auto 0 4)

lemma reaches_then: "reaches hw A f (\<lambda>_. R) \<Longrightarrow> reaches hw R g Q \<Longrightarrow> reaches hw A (then_fw f g) Q"
  unfolding then_fw_def by (rule reaches_bind)

lemma finishes_bind:
  assumes "reaches hw A f R" "\<And>a. finishes hw (R a) (g a) C"
  shows "finishes hw A (bind_fw f g) C"
  using assms unfolding reaches_def finishes_def bind_fw_def by (auto 0 4)

lemma finishes_then: "reaches hw A f (\<lambda>_. R) \<Longrightarrow> finishes hw R g C \<Longrightarrow> finishes hw A (then_fw f g) C"
  unfolding then_fw_def by (rule finishes_bind)

lemma finishes_mono: "finishes hw A f C \<Longrightarrow> C \<subseteq> D \<Longrightarrow> finishes hw A f D"
  unfolding finishes_def stopped_with_def by blast

text \<open>A known result.\<close>

lemma finishes_value:
  assumes "reaches hw A f (\<lambda>r M. r = v \<and> R M)" "finishes hw R (g v) C"
  shows "finishes hw A (bind_fw f g) C"
  using assms unfolding reaches_def finishes_def bind_fw_def by (auto 0 4)

lemma reaches_value:
  assumes "reaches hw A f (\<lambda>r M. r = v \<and> R M)" "reaches hw R (g v) Q"
  shows "reaches hw A (bind_fw f g) Q"
  using assms unfolding reaches_def bind_fw_def by (auto 0 4)

lemma finishes_pure: "(P \<Longrightarrow> finishes hw A f C) \<Longrightarrow> finishes hw (\<lambda>M. P \<and> A M) f C"
  unfolding finishes_def by blast

lemma reaches_pure: "(P \<Longrightarrow> reaches hw A f Q) \<Longrightarrow> reaches hw (\<lambda>M. P \<and> A M) f Q"
  unfolding reaches_def by blast

text \<open>Code that leaves memory alone.\<close>

lemma reaches_does: "does hw f (\<lambda>_ _. True) \<Longrightarrow> reaches hw A f (\<lambda>_. A)"
  unfolding does_def reaches_def by metis

lemma reaches_load8: "(\<And>M. A M \<Longrightarrow> Q (M a) M) \<Longrightarrow> reaches hw A (load8 a) Q"
  by (simp add: reaches_def load8_def)

lemma reaches_store8: "(\<And>M. A M \<Longrightarrow> Q () (M(a := v))) \<Longrightarrow> reaches hw A (store8 a v) Q"
  by (simp add: reaches_def store8_def)

lemma reaches_load32: "a AND 3 = 0 \<Longrightarrow> (\<And>M. A M \<Longrightarrow> Q (get32 M a) M) \<Longrightarrow> reaches hw A (load32 a) Q"
  by (simp add: reaches_def load32_def ld32_def of_option_fw_def)

lemma reaches_store32: "a AND 3 = 0 \<Longrightarrow> (\<And>M. A M \<Longrightarrow> Q () (put32 M a v)) \<Longrightarrow> reaches hw A (store32 a v) Q"
  by (simp add: reaches_def store32_def st32_def)

text \<open>Counted loops, with an invariant over the number of rounds done.\<close>

lemma fold_fw_bounds:
  assumes "\<And>i s. l \<le> i \<Longrightarrow> i < u \<Longrightarrow> reaches hw (J i s) (body i s) (J (Suc i))" "l \<le> u"
  shows "reaches hw (J l s) (fold_fw [l..<u] body s) (J u)"
  using assms(2,1)
proof (induction "u - l" arbitrary: l s)
  case 0
  then show ?case by (simp add: reaches_return)
next
  case (Suc k)
  then have "[l..<u] = l # [Suc l..<u]" by (simp add: upt_conv_Cons)
  then show ?case
    using Suc.hyps(1) [of "Suc l"] Suc.hyps(2) Suc.prems
    by (simp add: reaches_bind [where R = "J (Suc l)"])
qed

lemma reaches_fold:
  assumes "\<And>M. A M \<Longrightarrow> J l s M" "\<And>i s. l \<le> i \<Longrightarrow> i < u \<Longrightarrow> reaches hw (J i s) (body i s) (J (Suc i))" "l \<le> u"
  shows "reaches hw A (fold_fw [l..<u] body s) (J u)"
  using fold_fw_bounds [of l u hw J body, OF assms(2,3)] assms(1) by (blast intro: reaches_pre)

lemma for_fold_fw: "for_fw is body = fold_fw is (\<lambda>i _. body i) ()"
proof (induction "is")
  case (Cons i "is")
  then show ?case by (simp add: then_fw_def)
qed simp

lemma reaches_for:
  assumes "\<And>M. A M \<Longrightarrow> J l M" "\<And>i. l \<le> i \<Longrightarrow> i < u \<Longrightarrow> reaches hw (J i) (body i) (\<lambda>_. J (Suc i))" "l \<le> u"
  shows "reaches hw A (for_fw [l..<u] body) (\<lambda>_. J u)"
  unfolding for_fold_fw using assms by (intro reaches_fold [where J = "\<lambda>i _. J i"])

lemma reaches_expect: "(\<And>M. A M \<Longrightarrow> b) \<Longrightarrow> reaches hw A (test_expect b code) (\<lambda>_. A)"
  by (auto simp: test_expect_def reaches_def return_fw_def)

context uart_tx
begin

lemma finishes_pass: "finishes hw A test_pass {1}"
  by (auto simp: finishes_def intro: test_pass_stops)

lemma finishes_fail: "finishes hw A (test_fail code) {code}"
  by (auto simp: finishes_def intro: test_fail_stops)

lemma reaches_banner: "reaches hw A (test_banner name) (\<lambda>_. A)"
  by (rule reaches_does, rule does_any_emits, rule test_banner_emits)

lemma reaches_perf: "reaches hw A perf_begin (\<lambda>_. A)" "reaches hw A (perf_end p) (\<lambda>_. A)"
  by (rule reaches_does, rule does_mono [OF does_perf(1)], simp, rule reaches_does, rule does_mono [OF does_perf(2)], simp)

lemma reaches_print:
  "(\<And>f. f \<in> set fs \<Longrightarrow> does hw f (\<lambda>_ _. True)) \<Longrightarrow> reaches hw A (seq_fw fs) (\<lambda>_. A)"
  by (intro reaches_does does_any_seq)

lemma finishes_expect:
  assumes "finishes hw A f C" "code \<in> C"
  shows "finishes hw A (then_fw (test_expect b code) f) C"
proof (cases b)
  case True
  with assms(1) show ?thesis by (simp add: test_expect_def then_fw_def)
next
  case False
  then show ?thesis
    using assms(2) finishes_mono [OF finishes_fail, of code C A]
    by (simp add: test_expect_def then_fw_def)
qed

lemma finishes_expects:
  "(b \<Longrightarrow> finishes hw A (then_fw (seq_fw es) f) C) \<Longrightarrow> code \<in> C \<or> b \<Longrightarrow>
   finishes hw A (then_fw (seq_fw (test_expect b code # es)) f) C"
  "finishes hw A f C \<Longrightarrow> finishes hw A (then_fw (seq_fw []) f) C"
proof -
  assume "b \<Longrightarrow> finishes hw A (then_fw (seq_fw es) f) C" "code \<in> C \<or> b"
  then show "finishes hw A (then_fw (seq_fw (test_expect b code # es)) f) C"
    using finishes_expect [of A "then_fw (seq_fw es) f" C code b]
    by (cases b) (auto simp: then_fw_def bind_assoc_fw test_expect_def intro: finishes_mono [OF finishes_fail])
qed (simp add: then_fw_def)

end

section \<open>Arrays of words\<close>

text \<open>The words of an array of length \<open>n\<close> at an aligned address.\<close>

definition words_at :: "memory \<Rightarrow> u32 \<Rightarrow> nat \<Rightarrow> u32 list" where
  "words_at mm a n = map (\<lambda>i. get32 mm (slot a i)) [0..<n]"

text \<open>Aligned, and neither longer than memory nor overlapping.\<close>

definition array_ok :: "u32 \<Rightarrow> nat \<Rightarrow> bool" where
  "array_ok a n \<longleftrightarrow> a AND 3 = 0 \<and> 4 * n \<le> 2 ^ 32"

definition arrays_apart :: "u32 \<Rightarrow> nat \<Rightarrow> u32 \<Rightarrow> nat \<Rightarrow> bool" where
  "arrays_apart a n b k \<longleftrightarrow> 4 * n \<le> unat (b - a) \<and> 4 * k \<le> unat (a - b)"

lemma length_words_at [simp]: "length (words_at mm a n) = n"
  by (simp add: words_at_def)

lemma nth_words_at [simp]: "i < n \<Longrightarrow> words_at mm a n ! i = get32 mm (slot a i)"
  by (simp add: words_at_def)

lemma array_slot_aligned: "array_ok a n \<Longrightarrow> slot a i AND 3 = 0"
  by (simp add: array_ok_def slot_aligned)

lemma slot_inject:
  assumes "4 * n \<le> 2 ^ 32" "i < n" "j < n"
  shows "slot a i = slot a j \<longleftrightarrow> i = j"
proof
  assume "slot a i = slot a j"
  then have "(of_nat (4 * i) :: u32) = of_nat (4 * j)" unfolding slot_def by (rule add_left_imp_eq)
  moreover have "4 * i < 2 ^ 32" "4 * j < 2 ^ 32" using assms by simp_all
  ultimately have "4 * i = 4 * j" by (metis unat_of_nat_small)
  then show "i = j" by simp
qed simp

lemma words_store:
  assumes "array_ok a n" "i < n"
  shows "words_at (put32 mm (slot a i) v) a n = (words_at mm a n)[i := v]"
proof (rule nth_equalityI)
  fix j assume "j < length (words_at (put32 mm (slot a i) v) a n)"
  then have j: "j < n" by simp
  have "get32 (put32 mm (slot a i) v) (slot a j) = get32 mm (slot a j)" if "i \<noteq> j"
    using slot_inject [of n i j a] assms j that array_slot_aligned [OF assms(1)]
    by (intro get32_put32_other aligned_apart) (simp_all add: array_ok_def)
  then show "words_at (put32 mm (slot a i) v) a n ! j = (words_at mm a n)[i := v] ! j"
    using assms(2) j by (simp add: nth_list_update)
qed simp

lemma words_store_other:
  assumes "array_ok a n" "array_ok b k" "arrays_apart a n b k" "i < n"
  shows "words_at (put32 mm (slot a i) v) b k = words_at mm b k"
proof (rule nth_equalityI)
  fix j assume "j < length (words_at (put32 mm (slot a i) v) b k)"
  then have j: "j < k" by simp
  have "slot a i \<noteq> slot b j"
  proof
    assume "slot a i = slot b j"
    then have d: "b - a = of_nat (4 * i) - of_nat (4 * j)" "a - b = of_nat (4 * j) - of_nat (4 * i)"
      by (simp_all add: slot_def algebra_simps)
    have "unat (b - a) < 4 * n \<or> unat (a - b) < 4 * k"
    proof (cases "j \<le> i")
      case True
      then have "b - a = of_nat (4 * (i - j))" unfolding d by (simp only: of_nat_diff diff_mult_distrib2)
      also have "unat \<dots> \<le> 4 * (i - j)" by (simp only: unat_of_nat mod_less_eq_dividend)
      finally show ?thesis using assms(4) by linarith
    next
      case False
      then have "a - b = of_nat (4 * (j - i))" unfolding d by (simp only: of_nat_diff diff_mult_distrib2 nat_le_linear not_le less_imp_le)
      also have "unat \<dots> \<le> 4 * (j - i)" by (simp only: unat_of_nat mod_less_eq_dividend)
      finally show ?thesis using j by linarith
    qed
    then show False using assms(3) by (simp add: arrays_apart_def)
  qed
  then have "get32 (put32 mm (slot a i) v) (slot b j) = get32 mm (slot b j)"
    using array_slot_aligned [OF assms(1)] array_slot_aligned [OF assms(2)]
    by (intro get32_put32_other aligned_apart) simp_all
  then show "words_at (put32 mm (slot a i) v) b k ! j = words_at mm b k ! j" using j by simp
qed simp

lemma arrays_apart_sym: "arrays_apart a n b k \<Longrightarrow> arrays_apart b k a n"
  by (simp add: arrays_apart_def)

text \<open>What the stores to one array leave alone.\<close>

definition undisturbed :: "u32 \<Rightarrow> nat \<Rightarrow> (memory \<Rightarrow> bool) \<Rightarrow> bool" where
  "undisturbed a n R \<longleftrightarrow> (\<forall>M i v. i < n \<longrightarrow> R M \<longrightarrow> R (put32 M (slot a i) v))"

lemma undisturbed_other:
  assumes "array_ok a n" "array_ok b k" "arrays_apart a n b k"
  shows "undisturbed a n (\<lambda>M. P (words_at M b k))"
  using words_store_other [OF assms] by (simp add: undisturbed_def)

lemma undisturbed_conj: "undisturbed a n R \<Longrightarrow> undisturbed a n S \<Longrightarrow> undisturbed a n (\<lambda>M. R M \<and> S M)"
  by (simp add: undisturbed_def)

lemma undisturbed_True: "undisturbed a n (\<lambda>M. True)"
  by (simp add: undisturbed_def)

lemma get_store:
  assumes "array_ok a n" "i < n" "j < n"
  shows "get32 (put32 M (slot a i) v) (slot a j) = (if i = j then v else get32 M (slot a j))"
proof -
  have "words_at (put32 M (slot a i) v) a n ! j = (words_at M a n)[i := v] ! j"
    using words_store [OF assms(1,2)] by simp
  with assms show ?thesis by (simp add: nth_list_update)
qed

lemma words_at_eq: "(\<And>i. i < n \<Longrightarrow> get32 M (slot a i) = f i) \<Longrightarrow> words_at M a n = map f [0..<n]"
  by (rule nth_equalityI) simp_all

text \<open>Filling.\<close>

lemma fill_reaches:
  assumes "array_ok a n" "undisturbed a n R"
  shows "reaches hw R (for_fw [0..<n] (\<lambda>i. store32 (slot a i) (f i))) (\<lambda>_ M. words_at M a n = map f [0..<n] \<and> R M)"
proof -
  have "reaches hw R (for_fw [0..<n] (\<lambda>i. store32 (slot a i) (f i)))
      (\<lambda>_ M. (\<forall>j < n. get32 M (slot a j) = f j) \<and> R M)"
  proof (rule reaches_for [where J = "\<lambda>i M. (\<forall>j < i. get32 M (slot a j) = f j) \<and> R M"])
    fix i assume "i < n"
    then show "reaches hw (\<lambda>M. (\<forall>j < i. get32 M (slot a j) = f j) \<and> R M) (store32 (slot a i) (f i))
        (\<lambda>_ M. (\<forall>j < Suc i. get32 M (slot a j) = f j) \<and> R M)"
      using assms by (intro reaches_store32 array_slot_aligned [OF assms(1)])
        (auto simp: get_store [OF assms(1)] less_Suc_eq undisturbed_def)
  qed simp_all
  then show ?thesis by (rule reaches_mono) (auto intro: words_at_eq)
qed

section \<open>Arrays of bytes\<close>

definition read_bytes :: "memory \<Rightarrow> u32 \<Rightarrow> nat \<Rightarrow> u8 list" where
  "read_bytes mm a n = map (\<lambda>i. mm (a + of_nat i)) [0..<n]"

lemma length_read_bytes [simp]: "length (read_bytes mm a n) = n"
  by (simp add: read_bytes_def)

lemma nth_read_bytes [simp]: "i < n \<Longrightarrow> read_bytes mm a n ! i = mm (a + of_nat i)"
  by (simp add: read_bytes_def)

text \<open>No byte of one is a byte of the other.\<close>

definition bytes_apart :: "u32 \<Rightarrow> nat \<Rightarrow> u32 \<Rightarrow> nat \<Rightarrow> bool" where
  "bytes_apart a n b k \<longleftrightarrow> (\<forall>i < n. \<forall>j < k. a + of_nat i \<noteq> b + of_nat j)"

lemma bytes_apart_sym: "bytes_apart a n b k \<Longrightarrow> bytes_apart b k a n"
  unfolding bytes_apart_def by metis

lemma bytes_apart_less:
  assumes "bytes_apart a n b k" "j < k"
  shows "\<not> unat (b + of_nat j - a) < n"
proof
  assume less: "unat (b + of_nat j - a) < n"
  have "a + of_nat (unat (b + of_nat j - a)) = b + of_nat j" by simp
  with less assms show False unfolding bytes_apart_def by blast
qed

lemma unat_index:
  assumes "i < 2 ^ 32" "d < 2 ^ 32"
  shows "unat (a + of_nat i - (a + of_nat d :: u32)) = (if d \<le> i then i - d else i + 2 ^ 32 - d)"
  using unat_offset [OF assms(2), of "a + of_nat i" a] unat_of_nat_small [OF assms(1)] by simp

lemma read_store:
  assumes "i < n" "n \<le> 2 ^ 32"
  shows "read_bytes (mm(a + of_nat i := v)) a n = (read_bytes mm a n)[i := v]"
proof (rule nth_equalityI)
  fix j assume "j < length (read_bytes (mm(a + of_nat i := v)) a n)"
  then have j: "j < n" by simp
  then have "(of_nat j :: u32) = of_nat i \<longleftrightarrow> j = i" using assms by (metis order_less_le_trans unat_of_nat_small)
  with j assms(1) show "read_bytes (mm(a + of_nat i := v)) a n ! j = (read_bytes mm a n)[i := v] ! j"
    by (auto simp: nth_list_update)
qed simp

lemma read_store_other:
  "bytes_apart a n b k \<Longrightarrow> i < n \<Longrightarrow> read_bytes (mm(a + of_nat i := v)) b k = read_bytes mm b k"
  by (rule nth_equalityI) (auto simp: bytes_apart_def dest: sym)

lemma read_fill: "n < 2 ^ 32 \<Longrightarrow> read_bytes (fill_bytes mm a v n) a n = replicate n v"
  by (rule nth_equalityI) (simp_all add: fill_bytes_def unat_of_nat_small)

lemma read_fill_other: "bytes_apart a n b k \<Longrightarrow> read_bytes (fill_bytes mm a v n) b k = read_bytes mm b k"
  by (rule nth_equalityI) (simp_all add: fill_bytes_def bytes_apart_less)

text \<open>A copy into an array, from anywhere, and the rest of memory.\<close>

lemma read_copy:
  assumes "d + k \<le> n" "n < 2 ^ 32"
  shows "read_bytes (copy_bytes mm (a + of_nat d) s k) a n =
    take d (read_bytes mm a n) @ read_bytes mm s k @ drop (d + k) (read_bytes mm a n)"
proof (rule nth_equalityI)
  fix i assume "i < length (read_bytes (copy_bytes mm (a + of_nat d) s k) a n)"
  then have i: "i < n" by simp
  then have "unat (a + of_nat i - (a + of_nat d)) = (if d \<le> i then i - d else i + 2 ^ 32 - d)"
    using assms by (intro unat_index) simp_all
  moreover have "s + (a + of_nat i - (a + of_nat d)) = s + of_nat (i - d)" if "d \<le> i" using that by (simp add: of_nat_diff)
  ultimately show "read_bytes (copy_bytes mm (a + of_nat d) s k) a n ! i =
      (take d (read_bytes mm a n) @ read_bytes mm s k @ drop (d + k) (read_bytes mm a n)) ! i"
    using i assms by (auto simp: copy_bytes_def nth_append)
qed (use assms in simp)

lemma read_inside: "d + k \<le> n \<Longrightarrow> read_bytes mm (a + of_nat d) k = take k (drop d (read_bytes mm a n))"
  by (rule nth_equalityI) (simp_all add: add.assoc)

lemma read_copy_other:
  assumes "bytes_apart a n b m" "d + k \<le> n" "n < 2 ^ 32"
  shows "read_bytes (copy_bytes mm (a + of_nat d) s k) b m = read_bytes mm b m"
proof (rule nth_equalityI)
  fix j assume "j < length (read_bytes (copy_bytes mm (a + of_nat d) s k) b m)"
  then have j: "j < m" by simp
  have "\<not> unat (b + of_nat j - (a + of_nat d)) < k"
    using unat_offset [of d "b + of_nat j" a] bytes_apart_less [OF assms(1) j] assms(2,3) by (auto split: if_splits)
  with j show "read_bytes (copy_bytes mm (a + of_nat d) s k) b m ! j = read_bytes mm b m ! j" by (simp add: copy_bytes_def)
qed simp

end
