(* ===== verification/Word_Eval.thy ===== *)
theory Word_Eval
  imports Firmware_Prelude
begin

text \<open>
  Evaluation of 32-bit words in the kernel: a word as the list of its bits, lowest first, with
  the operations of the firmware's loops on such lists, and the rules that rewrite them.
  Thousands of rounds of a checksum loop evaluate in seconds.
\<close>

definition bits32 :: "u32 \<Rightarrow> bool list" where
  "bits32 w = map (bit w) [0..<32]"

lemma length_bits32 [simp]: "length (bits32 w) = 32"
  by (simp add: bits32_def)

lemma nth_bits32 [simp]: "i < 32 \<Longrightarrow> bits32 w ! i \<longleftrightarrow> bit w i"
  by (simp add: bits32_def del: upt_rec_numeral)

lemma bits32_inject: "bits32 a = bits32 b \<longleftrightarrow> a = b"
proof
  assume "bits32 a = bits32 b"
  then show "a = b" by (intro bit_word_eqI) (auto simp: bits32_def list_eq_iff_nth_eq simp del: upt_rec_numeral)
qed simp

lemma hd_bits32: "hd (bits32 w) \<longleftrightarrow> bit w 0"
  using hd_conv_nth [of "bits32 w"] length_bits32 [of w] nth_bits32 [of 0 w] by (metis length_0_conv zero_less_numeral zero_neq_numeral)

lemma bit_beyond: "32 \<le> n \<Longrightarrow> \<not> bit (w :: u32) n"
  using bit_imp_le_length [of w n] by auto

section \<open>Operations\<close>

fun xor_bits :: "bool list \<Rightarrow> bool list \<Rightarrow> bool list" where
  "xor_bits (x # xs) (y # ys) = (x \<noteq> y) # xor_bits xs ys"
| "xor_bits [] ys = ys"
| "xor_bits xs [] = []"

lemma length_xor_bits [simp]: "length (xor_bits xs ys) = length ys"
  by (induction xs ys rule: xor_bits.induct) auto

lemma nth_xor_bits: "i < length ys \<Longrightarrow>
   xor_bits xs ys ! i = (if i < length xs then xs ! i \<noteq> ys ! i else ys ! i)"
  by (induction xs ys arbitrary: i rule: xor_bits.induct) (auto simp: nth_Cons split: nat.split)

lemma bits32_xor: "bits32 (a XOR b) = xor_bits (bits32 a) (bits32 b)"
  by (rule nth_equalityI) (simp_all add: nth_xor_bits bit_xor_iff)

lemma bits32_push: "k \<le> 32 \<Longrightarrow> bits32 (push_bit k w) = take 32 (replicate k False @ bits32 w)"
  by (rule nth_equalityI) (auto simp: bit_push_bit_iff nth_append possible_bit_word)

lemma bits32_drop: "k \<le> 32 \<Longrightarrow> bits32 (drop_bit k w) = drop k (bits32 w @ replicate k False)"
  by (rule nth_equalityI) (auto simp: bit_drop_bit_eq nth_append bit_beyond)

text \<open>A shift to the left need not be cut to width before it is added.\<close>

lemma xor_bits_push:
  assumes "k \<le> 32"
  shows "xor_bits (replicate k False @ bits32 a) (bits32 b) = bits32 (push_bit k a XOR b)"
proof (rule nth_equalityI)
  fix i assume "i < length (xor_bits (replicate k False @ bits32 a) (bits32 b))"
  then show "xor_bits (replicate k False @ bits32 a) (bits32 b) ! i \<longleftrightarrow> bits32 (push_bit k a XOR b) ! i"
    using assms by (auto simp: nth_xor_bits nth_append bit_xor_iff bit_push_bit_iff)
qed simp

fun add_bits :: "bool \<Rightarrow> bool list \<Rightarrow> bool list \<Rightarrow> bool list" where
  "add_bits c (x # xs) (y # ys) = (c \<noteq> (x \<noteq> y)) # add_bits (if x = y then x else c) xs ys"
| "add_bits c _ _ = []"

text \<open>The lowest bits of a number.\<close>

fun low_bits :: "nat \<Rightarrow> nat \<Rightarrow> bool list" where
  "low_bits 0 x = []"
| "low_bits (Suc n) x = odd x # low_bits n (x div 2)"

lemma length_low_bits [simp]: "length (low_bits n x) = n"
  by (induction n arbitrary: x) auto

lemma nth_low_bits: "i < n \<Longrightarrow> low_bits n x ! i \<longleftrightarrow> bit x i"
  by (induction n arbitrary: x i) (auto simp: nth_Cons bit_0 bit_Suc split: nat.split)

lemma bits32_of_nat: "bits32 (of_nat x) = low_bits 32 x"
  by (rule nth_equalityI) (simp_all add: nth_low_bits bit_of_nat_iff possible_bit_word del: low_bits.simps)

lemma bits32_numeral: "bits32 (numeral k) = low_bits 32 (numeral k)"
  using bits32_of_nat [of "numeral k"] by simp

lemma bits32_low: "bits32 w = low_bits 32 (unat w)"
  using bits32_of_nat [of "unat w"] by simp

lemma add_low_bits: "add_bits c (low_bits n x) (low_bits n y) = low_bits n (x + y + of_bool c)"
proof (induction n arbitrary: c x y)
  case (Suc n)
  let ?c = "if odd x = odd y then odd x else c"
  have "(x + y + of_bool c) div 2 = x div 2 + y div 2 + of_bool ?c" by (cases c) (auto elim!: evenE oddE)
  moreover have "odd (x + y + of_bool c) \<longleftrightarrow> c \<noteq> (odd x \<noteq> odd y)" by auto
  ultimately show ?case using Suc by simp
qed simp

lemma bits32_add: "bits32 (a + b) = add_bits False (bits32 a) (bits32 b)"
proof -
  have "a + b = of_nat (unat a + unat b)" by simp
  then have "bits32 (a + b) = low_bits 32 (unat a + unat b)" by (metis bits32_of_nat)
  then show ?thesis by (simp add: bits32_low [of a] bits32_low [of b] add_low_bits del: low_bits.simps)
qed

section \<open>Rules for evaluation\<close>

named_theorems bit_eval

lemma xor_bits_eval [bit_eval]:
  "xor_bits [] ys = ys" "xor_bits (x # xs) [] = []"
  "xor_bits (True # xs) (False # ys) = True # xor_bits xs ys"
  "xor_bits (True # xs) (True # ys) = False # xor_bits xs ys"
  "xor_bits (False # xs) (y # ys) = y # xor_bits xs ys"
  by simp_all

lemma add_bits_eval [bit_eval]:
  "add_bits c [] ys = []"
  "add_bits False (False # xs) (y # ys) = y # add_bits False xs ys"
  "add_bits False (True # xs) (False # ys) = True # add_bits False xs ys"
  "add_bits False (True # xs) (True # ys) = False # add_bits True xs ys"
  "add_bits True (True # xs) (y # ys) = y # add_bits True xs ys"
  "add_bits True (False # xs) (False # ys) = True # add_bits False xs ys"
  "add_bits True (False # xs) (True # ys) = False # add_bits True xs ys"
  by simp_all

lemma low_bits_eval [bit_eval]:
  "low_bits 0 x = []"
  "low_bits (numeral k) 0 = False # low_bits (pred_numeral k) 0"
  "low_bits (numeral k) (numeral Num.One) = True # low_bits (pred_numeral k) 0"
  "low_bits (numeral k) (numeral (Num.Bit0 m)) = False # low_bits (pred_numeral k) (numeral m)"
  "low_bits (numeral k) (numeral (Num.Bit1 m)) = True # low_bits (pred_numeral k) (numeral m)"
  by (simp_all add: numeral_eq_Suc [of k])

lemma drop_eval [bit_eval]: "drop 0 xs = xs" "drop (numeral k) (x # xs) = drop (pred_numeral k) xs"
  by (simp_all add: numeral_eq_Suc [of k])

lemma replicate_eval [bit_eval]: "replicate 0 x = []" "replicate (numeral k) x = x # replicate (pred_numeral k) x"
  by (simp_all add: numeral_eq_Suc [of k])

text \<open>A counted loop on such a list.\<close>

fun iterate_bits :: "(nat \<Rightarrow> bool list \<Rightarrow> bool list) \<Rightarrow> nat \<Rightarrow> nat \<Rightarrow> bool list \<Rightarrow> bool list" where
  "iterate_bits f 0 i c = c"
| "iterate_bits f (Suc n) i c = iterate_bits f n (Suc i) (f i c)"

lemma iterate_bits_fold:
  "(\<And>j c. i \<le> j \<Longrightarrow> j < i + n \<Longrightarrow> f j (bits32 c) = bits32 (g j c)) \<Longrightarrow>
   iterate_bits f n i (bits32 c) = bits32 (fold g [i..<i + n] c)"
proof (induction n arbitrary: i c)
  case (Suc n)
  have "[i..<i + Suc n] = i # [Suc i..<Suc i + n]" by (simp add: upt_conv_Cons del: upt_Suc)
  then show ?case using Suc.IH [of "Suc i" "g i c"] Suc.prems by (simp del: upt_Suc)
qed simp

lemma iterate_bits_eval [bit_eval]:
  "iterate_bits f 0 i c = c"
  "iterate_bits f (numeral n) 0 c = iterate_bits f (pred_numeral n) (numeral Num.One) (f 0 c)"
  "iterate_bits f (numeral n) (numeral k) c = iterate_bits f (pred_numeral n) (numeral (k + Num.One)) (f (numeral k) c)"
  by (simp_all only: numeral_eq_Suc [of n] iterate_bits.simps Suc_numeral One_nat_def [symmetric] numeral_One)

lemmas [bit_eval] = append.simps pred_numeral_simps BitM.simps
  mult_0_right numeral_times_numeral numeral_plus_numeral mult_num_simps add_num_simps

end
