(* ===== verification/Crc32_Bench.thy ===== *)
theory Crc32_Bench
  imports Bench_Support Word_Eval
begin

text \<open>
  The checksum of \<open>benchmarks/crc32_bench.c\<close> and the benchmark around it. The checksum is the
  remainder of a division of polynomials over the two-element field, and detects every error
  burst of up to 32 bits. Buffers are byte memory.
\<close>

section \<open>The code\<close>

definition BYTES :: nat where "BYTES = 4096"
definition EXPECTED_CRC32 :: u32 where "EXPECTED_CRC32 = 0xc0e65e2b"

definition fill_byte :: "nat \<Rightarrow> u8" where
  "fill_byte i = ucast ((of_nat i * 37) XOR drop_bit 3 (of_nat i) XOR 0xa5 :: u32)"

definition fill_bytes4096 :: "u32 \<Rightarrow> unit fw" where
  "fill_bytes4096 buffer = for_fw [0..<BYTES] (\<lambda>i. store8 (buffer + of_nat i) (fill_byte i))"

definition crc32_bit :: "u32 \<Rightarrow> u32" where
  "crc32_bit crc = (if crc AND 1 \<noteq> 0 then drop_bit 1 crc XOR 0xedb88320 else drop_bit 1 crc)"

definition crc32_update :: "u32 \<Rightarrow> u8 \<Rightarrow> u32" where
  "crc32_update crc byte = fold (\<lambda>bit. crc32_bit) [0..<8] (crc XOR ucast byte)"

definition run_crc32 :: "u32 \<Rightarrow> u32 fw" where
  "run_crc32 buffer =
     bind_fw (fold_fw [0..<BYTES] (\<lambda>i crc. bind_fw (load8 (buffer + of_nat i)) (\<lambda>b. return_fw (crc32_update crc b)))
       0xffffffff) (\<lambda>crc. return_fw (crc XOR 0xffffffff))"

text \<open>The result is the checksum and the new value of \<open>crc32_bench_sink\<close>.\<close>

definition measure_crc32 :: "string \<Rightarrow> u32 \<Rightarrow> u32 \<Rightarrow> (u32 \<times> u32) fw" where
  "measure_crc32 memory buffer sink =
     then_fw (fill_bytes4096 buffer)
     (bind_fw perf_begin (\<lambda>snap0. bind_fw (run_crc32 buffer) (\<lambda>crc. bind_fw (perf_end snap0) (\<lambda>snap.
       let sink' = push_bit 5 sink XOR drop_bit 2 sink XOR crc
       in then_fw (seq_fw [uart_puts (bytes ''RESULT: benchmark=crc32_bench memory=''), uart_puts (bytes memory),
            uart_puts (bytes '' bytes=''), uart_put_dec (of_nat BYTES), uart_puts (bytes '' cycles=''),
            uart_put_dec (cycle snap), uart_puts (bytes '' instret=''), uart_put_dec (instret snap),
            uart_puts (bytes '' mem_wait=''), uart_put_dec (mem_wait snap), uart_puts (bytes '' crc=''),
            uart_put_hex crc, uart_puts [10]])
          (return_fw (crc, sink'))))))"

definition crc32_bench_main :: "u32 \<Rightarrow> u32 \<Rightarrow> 'a fw" where
  "crc32_bench_main bram_data sdram_data =
     then_fw (test_banner ''crc32_bench'')
     (bind_fw (measure_crc32 ''bram'' bram_data 0) (\<lambda>(bram_crc, sink1).
      bind_fw (measure_crc32 ''sdram'' sdram_data sink1) (\<lambda>(sdram_crc, sink2).
        then_fw (seq_fw [test_expect (bram_crc = EXPECTED_CRC32) 0xdead8201,
            test_expect (bram_crc = sdram_crc) 0xdead8202, test_expect (sink2 \<noteq> 0) 0xdead8203])
          test_pass)))"

section \<open>Division of polynomials\<close>

text \<open>A polynomial is the list of its coefficients, the highest first. The generator of degree 32
  without its leading term, and the remainder of a division by it.\<close>

definition crc32_generator :: "bool list" where
  "crc32_generator = map (bit (0x04c11db7 :: u32)) (rev [0..<32])"

fun poly_rem :: "bool list \<Rightarrow> bool list" where
  "poly_rem [] = []"
| "poly_rem (c # cs) =
     (if length cs < 32 then c # cs
      else if c then poly_rem (xor_bits crc32_generator cs) else poly_rem cs)"


text \<open>The bits of a message in the order they are sent, the lowest of each byte first; a word
  of the program is the list of coefficients \<open>bits32\<close>, its lowest bit the highest coefficient.\<close>

definition message_bits :: "u8 list \<Rightarrow> bool list" where
  "message_bits bs = concat (map (\<lambda>b. map (bit b) [0..<8]) bs)"

definition crc32 :: "u8 list \<Rightarrow> u32" where
  "crc32 bs = fold (\<lambda>b c. crc32_update c b) bs 0xffffffff XOR 0xffffffff"

section \<open>Bit by bit\<close>

lemma crc32_bit_iff: "bit (crc32_bit c) n \<longleftrightarrow> (bit c (Suc n) \<noteq> (bit c 0 \<and> bit (0xedb88320 :: u32) n))"
proof -
  have "c AND 1 \<noteq> 0 \<longleftrightarrow> bit c 0" using and_exp_eq_0_iff_not_bit [of c 0] by simp
  then show ?thesis
    using bit_imp_le_length [of c "Suc n"] by (auto simp: crc32_bit_def bit_xor_iff bit_drop_bit_eq)
qed

lemma crc32_bit_xor: "crc32_bit (a XOR b) = crc32_bit a XOR crc32_bit b"
  by (rule bit_word_eqI) (auto simp: crc32_bit_iff bit_xor_iff)

lemma crc32_bit_0 [simp]: "crc32_bit 0 = 0"
  by (simp add: crc32_bit_def)

lemma crc32_bit_nonzero:
  assumes "c \<noteq> 0"
  shows "crc32_bit c \<noteq> 0"
proof
  assume z: "crc32_bit c = 0"
  have "bit (0xedb88320 :: u32) 31" by (simp add: bit_simps)
  then have "\<not> bit c 0" using crc32_bit_iff [of c 31] z bit_imp_le_length [of c 32] by auto
  then have "\<not> bit c n" for n
    using crc32_bit_iff [of c "n - 1"] z by (cases n) simp_all
  then show False using assms by (simp add: bit_eq_iff)
qed

definition feed :: "bool list \<Rightarrow> u32 \<Rightarrow> u32" where
  "feed bs c = fold (\<lambda>b c. crc32_bit (c XOR of_bool b)) bs c"

lemma feed_simps [simp]: "feed [] c = c" "feed (b # bs) c = feed bs (crc32_bit (c XOR of_bool b))"
  by (simp_all add: feed_def)

lemma feed_append: "feed (as @ bs) c = feed bs (feed as c)"
  by (simp add: feed_def)

text \<open>The word with given low bits.\<close>

fun word_of_bits :: "bool list \<Rightarrow> u32" where
  "word_of_bits [] = 0"
| "word_of_bits (b # bs) = of_bool b XOR 2 * word_of_bits bs"

lemma bit_word_of_bits: "length bs \<le> 32 \<Longrightarrow> bit (word_of_bits bs) n \<longleftrightarrow> n < length bs \<and> bs ! n"
proof (induction bs arbitrary: n)
  case (Cons b bs)
  then show ?case by (cases n) (auto simp: bit_xor_iff bit_double_iff bit_of_bool_iff possible_bit_word)
qed simp

lemma feed_word:
  "length bs \<le> 32 \<Longrightarrow> feed bs c = (crc32_bit ^^ length bs) (c XOR word_of_bits bs)"
proof (induction bs arbitrary: c)
  case (Cons b bs)
  have "crc32_bit (2 * word_of_bits bs) = word_of_bits bs"
    using Cons.prems by (intro bit_word_eqI) (auto simp: crc32_bit_iff bit_double_iff possible_bit_word bit_word_of_bits)
  then have "crc32_bit (c XOR word_of_bits (b # bs)) = crc32_bit (c XOR of_bool b) XOR word_of_bits bs"
    using crc32_bit_xor [of "c XOR of_bool b" "2 * word_of_bits bs"] by (simp add: ac_simps)
  with Cons show ?case by (simp only: feed_simps length_Cons funpow_Suc_right comp_apply)
qed simp

lemma fold_ignore: "fold (\<lambda>i. f) xs s = (f ^^ length xs) s"
  by (induction xs arbitrary: s) (simp_all add: funpow_swap1)

lemma update_feeds: "crc32_update c b = feed (map (bit b) [0..<8]) c"
proof -
  have "word_of_bits (map (bit b) [0..<8]) = ucast b"
  proof (rule bit_word_eqI)
    fix n
    have "bit b n \<Longrightarrow> n < 8" using bit_imp_le_length [of b n] by simp
    then show "bit (word_of_bits (map (bit b) [0..<8])) n = bit (ucast b :: u32) n"
      by (auto simp: bit_word_of_bits bit_simps simp del: upt_rec_numeral)
  qed
  then show ?thesis by (subst feed_word) (simp_all add: crc32_update_def fold_ignore del: upt_rec_numeral)
qed

lemma updates_feed: "fold (\<lambda>b c. crc32_update c b) bs c = feed (message_bits bs) c"
  by (induction bs arbitrary: c) (simp_all add: message_bits_def update_feeds feed_append del: upt_rec_numeral)

section \<open>The remainder\<close>

lemma length_generator [simp]: "length crc32_generator = 32"
  by (simp add: crc32_generator_def)

lemma nth_generator: "i < 32 \<Longrightarrow> crc32_generator ! i = bit (0xedb88320 :: u32) i"
proof -
  have "list_all (\<lambda>i. crc32_generator ! i = bit (0xedb88320 :: u32) i) [0..<32]" by code_simp
  then show "i < 32 \<Longrightarrow> crc32_generator ! i = bit (0xedb88320 :: u32) i" by (simp add: list_all_iff)
qed

text \<open>The register as a list: it moves on by one coefficient, and the generator is added if the
  coefficient that leaves differs from the message bit.\<close>

definition move_on :: "bool \<Rightarrow> bool list \<Rightarrow> bool list" where
  "move_on b r = (if hd r \<noteq> b then xor_bits crc32_generator (tl r @ [False]) else tl r @ [False])"

lemma register_step: "move_on b (bits32 c) = bits32 (crc32_bit (c XOR of_bool b))"
proof (rule nth_equalityI)
  have "bits32 c = bit c 0 # map (bit c) [1..<32]" unfolding bits32_def by (subst upt_conv_Cons) simp_all
  then have move: "move_on b (bits32 c) =
      (if bit c 0 \<noteq> b then xor_bits crc32_generator (map (bit c) [1..<32] @ [False]) else map (bit c) [1..<32] @ [False])"
    unfolding move_on_def by simp
  fix i assume "i < length (move_on b (bits32 c))"
  then have i: "i < 32" by (simp add: move split: if_splits)
  have "\<not> bit c (Suc i)" if "\<not> i < 31" using bit_imp_le_length [of c "Suc i"] that by auto
  then show "move_on b (bits32 c) ! i \<longleftrightarrow> bits32 (crc32_bit (c XOR of_bool b)) ! i"
    unfolding move using i by (auto simp: nth_xor_bits nth_append nth_generator crc32_bit_iff bit_xor_iff
        bit_of_bool_iff bits32_def add.commute simp del: upt_rec_numeral)
qed (simp add: move_on_def)

lemma xor_bits_assoc:
  "length gs = length as \<Longrightarrow> xor_bits gs (xor_bits as xs) = xor_bits (xor_bits gs as) xs"
proof (induction gs as arbitrary: xs rule: list_induct2)
  case (Cons g gs a as)
  then show ?case by (cases xs) auto
qed simp

lemma xor_bits_pad: "length as < length xs \<Longrightarrow> xor_bits (as @ [False]) xs = xor_bits as xs"
proof (induction as arbitrary: xs)
  case Nil
  then show ?case by (cases xs) simp_all
next
  case (Cons a as)
  then show ?case by (cases xs) simp_all
qed

text \<open>One step of the division is one step of the register.\<close>

lemma division_step:
  assumes "length r = 32" "32 \<le> length xs"
  shows "poly_rem (xor_bits r (b # xs)) = poly_rem (xor_bits (move_on b r) xs)"
proof -
  obtain a as where r: "r = a # as" using assms(1) by (cases r) auto
  with assms have len: "length as < length xs" "length crc32_generator = length (as @ [False])" by simp_all
  show ?thesis
    using assms(2) by (auto simp: r move_on_def xor_bits_pad [OF len(1)] xor_bits_assoc [OF len(2), symmetric])
qed

lemma poly_rem_feed:
  "poly_rem (xor_bits (bits32 c) (xs @ replicate 32 False)) = bits32 (feed xs c)"
proof (induction xs arbitrary: c)
  case Nil
  have "xor_bits (bits32 c) (replicate 32 False) = bits32 c"
    by (rule nth_equalityI) (simp_all add: nth_xor_bits)
  moreover have "poly_rem (bits32 c) = bits32 c"
    by (cases "bits32 c") (use length_bits32 [of c] in auto)
  ultimately show ?case by simp
next
  case (Cons b xs)
  then show ?case using division_step [of "bits32 c" "xs @ replicate 32 False" b] by (simp add: register_step)
qed

lemma bits32_not: "bits32 (x XOR 0xffffffff) = map Not (bits32 x)"
proof -
  have "list_all (bit (0xffffffff :: u32)) [0..<32]" by code_simp
  then show ?thesis by (simp add: bits32_def bit_xor_iff list_all_iff del: upt_rec_numeral)
qed

lemma crc32_remainder:
  "bits32 (crc32 bs) =
     map Not (poly_rem (xor_bits (replicate 32 True) (message_bits bs @ replicate 32 False)))"
proof -
  have "bits32 0xffffffff = replicate 32 True" by code_simp
  then have "poly_rem (xor_bits (replicate 32 True) (message_bits bs @ replicate 32 False)) =
      bits32 (feed (message_bits bs) 0xffffffff)"
    using poly_rem_feed [of "0xffffffff"] by simp
  moreover have "bits32 (feed (message_bits bs) 0xffffffff XOR 0xffffffff) = map Not (bits32 (feed (message_bits bs) 0xffffffff))"
    by (rule bits32_not)
  ultimately show ?thesis by (simp add: crc32_def updates_feed)
qed

section \<open>Error bursts\<close>

lemma feed_xor:
  "length xs = length ys \<Longrightarrow> feed xs a XOR feed ys b = feed (map2 (\<noteq>) xs ys) (a XOR b)"
proof (induction xs ys arbitrary: a b rule: list_induct2)
  case (Cons x xs y ys)
  have "of_bool x XOR of_bool y = (of_bool (x \<noteq> y) :: u32)" by (cases x; cases y) simp_all
  then have "(a XOR of_bool x) XOR (b XOR of_bool y) = (a XOR b) XOR of_bool (x \<noteq> y)"
    by (metis xor.assoc xor.left_commute)
  then have "crc32_bit (a XOR of_bool x) XOR crc32_bit (b XOR of_bool y) = crc32_bit ((a XOR b) XOR of_bool (x \<noteq> y))"
    unfolding crc32_bit_xor [symmetric] by (rule arg_cong)
  with Cons.IH show ?case by (simp only: feed_simps list.map zip_Cons_Cons prod.case)
qed simp

lemma iterated_nonzero: "c \<noteq> 0 \<Longrightarrow> (crc32_bit ^^ n) c \<noteq> 0"
  by (induction n) (simp_all add: crc32_bit_nonzero)

lemma feed_zeros: "feed (replicate n False) c = (crc32_bit ^^ n) c"
  by (induction n arbitrary: c) (simp_all add: funpow_swap1)

lemma feed_burst:
  assumes "True \<in> set ws" "length ws \<le> 32"
  shows "feed (replicate k False @ ws @ replicate j False) 0 \<noteq> 0"
proof -
  have "(crc32_bit ^^ k) 0 = 0" by (induction k) simp_all
  moreover have "word_of_bits ws \<noteq> 0"
  proof
    assume "word_of_bits ws = 0"
    then have "\<not> (n < length ws \<and> ws ! n)" for n using bit_word_of_bits [OF assms(2), of n] by simp
    with assms(1) show False by (auto simp: in_set_conv_nth)
  qed
  ultimately show ?thesis
    using iterated_nonzero by (simp add: feed_append feed_zeros feed_word [OF assms(2)])
qed

lemma length_message_bits: "length (message_bits bs) = 8 * length bs"
  by (induction bs) (simp_all add: message_bits_def)

lemma message_bits_inject: "length bs = length cs \<Longrightarrow> message_bits bs = message_bits cs \<Longrightarrow> bs = cs"
proof (induction bs cs rule: list_induct2)
  case (Cons b bs c cs)
  then have "map (bit b) [0..<8] = map (bit c) [0..<8]" "message_bits bs = message_bits cs"
    by (simp_all add: message_bits_def del: upt_rec_numeral)
  moreover from this(1) have "b = c"
    by (intro bit_word_eqI) (auto simp: list_eq_iff_nth_eq simp del: upt_rec_numeral)
  ultimately show ?case using Cons.IH by simp
qed simp

lemma burst_split:
  assumes "True \<in> set d" "\<And>i. i < length d \<Longrightarrow> d ! i \<Longrightarrow> k \<le> i \<and> i < k + 32"
  obtains j ws l where "d = replicate j False @ ws @ replicate l False" "True \<in> set ws" "length ws \<le> 32"
proof -
  obtain i where i: "i < length d" "d ! i" using assms(1) by (auto simp: in_set_conv_nth)
  have "d = take k d @ take 32 (drop k d) @ drop 32 (drop k d)" by (simp only: append_take_drop_id)
  then have "d = take k d @ take 32 (drop k d) @ drop (k + 32) d" by (simp only: drop_drop add.commute)
  moreover have "take k d = replicate (length (take k d)) False"
    using assms(2) by (intro nth_equalityI) fastforce+
  moreover have "drop (k + 32) d = replicate (length (drop (k + 32) d)) False"
  proof (rule nth_equalityI)
    fix i assume "i < length (drop (k + 32) d)"
    moreover from this have "k + 32 + i < length d" by simp
    ultimately show "drop (k + 32) d ! i = replicate (length (drop (k + 32) d)) False ! i" using assms(2) [of "k + 32 + i"] by auto
  qed simp
  moreover have "True \<in> set (take 32 (drop k d))"
    using i assms(2) [OF i] by (auto simp: in_set_conv_nth intro!: exI [of _ "i - k"])
  ultimately show thesis using that by (metis length_take min.cobounded2)
qed

lemma nth_message_bits: "i < 8 * length bs \<Longrightarrow> message_bits bs ! i = bit (bs ! (i div 8)) (i mod 8)"
proof (induction bs arbitrary: i)
  case (Cons b bs)
  show ?case
  proof (cases "i < 8")
    case True
    then show ?thesis by (simp add: message_bits_def nth_append del: upt_rec_numeral)
  next
    case False
    then have "i div 8 = Suc ((i - 8) div 8)" "i mod 8 = (i - 8) mod 8" by (simp_all add: le_div_geq le_mod_geq)
    with False Cons show ?thesis by (simp add: message_bits_def nth_append del: upt_rec_numeral)
  qed
qed simp

lemma differ_somewhere: "length xs = length ys \<Longrightarrow> xs \<noteq> ys \<Longrightarrow> True \<in> set (map2 (\<noteq>) xs ys)"
  by (induction xs ys rule: list_induct2) auto

lemma crc32_burst:
  assumes "length bs = length cs" "bs \<noteq> cs"
    and "\<And>i. i < length (message_bits bs) \<Longrightarrow> message_bits bs ! i \<noteq> message_bits cs ! i \<Longrightarrow> k \<le> i \<and> i < k + 32"
  shows "crc32 bs \<noteq> crc32 cs"
proof -
  let ?xs = "message_bits bs" and ?ys = "message_bits cs"
  let ?d = "map2 (\<noteq>) ?xs ?ys"
  have len: "length ?xs = length ?ys" using assms(1) by (simp add: length_message_bits)
  have "?xs \<noteq> ?ys" using assms(1,2) message_bits_inject by blast
  then have "True \<in> set ?d" by (rule differ_somewhere [OF len])
  then obtain j ws l where d: "?d = replicate j False @ ws @ replicate l False" "True \<in> set ws" "length ws \<le> 32"
    by (rule burst_split [where k = k]) (use len assms(3) in simp_all)
  have "feed ?xs c XOR feed ?ys c \<noteq> 0" for c
    unfolding feed_xor [OF len] d(1) using feed_burst [OF d(2,3)] by simp
  then have "feed ?xs c \<noteq> feed ?ys c" for c by (metis xor_self_eq)
  moreover have "a XOR e = b XOR e \<Longrightarrow> a = b" for a b e :: u32 by (metis xor.assoc xor.right_neutral xor_self_eq)
  ultimately show ?thesis unfolding crc32_def updates_feed by blast
qed

section \<open>The test pattern\<close>

text \<open>Taking in the message bits, and rules that evaluate it.\<close>

definition shift_in :: "bool list \<Rightarrow> bool list \<Rightarrow> bool list" where
  "shift_in = fold move_on"

lemma shift_in_feed: "shift_in bs (bits32 c) = bits32 (feed bs c)"
  by (induction bs arbitrary: c) (simp_all add: shift_in_def register_step)

lemma shift_in_eval:
  "shift_in [] r = r"
  "shift_in (True # bs) (False # r) = shift_in bs (xor_bits crc32_generator (r @ [False]))"
  "shift_in (False # bs) (True # r) = shift_in bs (xor_bits crc32_generator (r @ [False]))"
  "shift_in (True # bs) (True # r) = shift_in bs (r @ [False])"
  "shift_in (False # bs) (False # r) = shift_in bs (r @ [False])"
  by (simp_all add: shift_in_def move_on_def)

definition pattern_bits :: "nat \<Rightarrow> bool list" where
  "pattern_bits i = xor_bits (low_bits 8 (37 * i)) (xor_bits (drop 3 (low_bits 11 i)) [True, False, True, False, False, True, False, True])"

lemma pattern_byte: "map (bit (fill_byte i)) [0..<8] = pattern_bits i"
proof (rule nth_equalityI)
  fix k assume "k < length (map (bit (fill_byte i)) [0..<8])"
  then have k: "k < 8" by simp
  have const: "list_all (\<lambda>k. bit (0xa5 :: u32) k = [True, False, True, False, False, True, False, True] ! k) [0..<8]" by code_simp
  have "bit (of_nat (37 * i) :: u32) k \<longleftrightarrow> bit (37 * i) k" using k by (simp add: bit_of_nat_iff possible_bit_word del: of_nat_mult)
  then have times: "bit (of_nat i * 37 :: u32) k \<longleftrightarrow> bit (37 * i) k" by (simp add: mult.commute)
  from const show "map (bit (fill_byte i)) [0..<8] ! k = pattern_bits i ! k"
    using k by (auto simp: pattern_bits_def times nth_xor_bits nth_low_bits fill_byte_def bit_simps list_all_iff add.commute
        simp del: upt_rec_numeral)
qed (simp add: pattern_bits_def)

definition pattern_step :: "nat \<Rightarrow> bool list \<Rightarrow> bool list" where
  "pattern_step i r = shift_in (pattern_bits i) r"

lemma generator_low_bits: "crc32_generator = low_bits 32 0xedb88320"
  unfolding bits32_numeral [symmetric] by (rule nth_equalityI) (simp_all add: nth_generator)

lemmas generator_eval = generator_low_bits [simplified bit_eval]

lemma pattern_register: "iterate_bits pattern_step 4096 0 (low_bits 32 0xffffffff) = low_bits 32 0x3f19a1d4"
  by (simp only: pattern_step_def pattern_bits_def shift_in_eval generator_eval bit_eval)

text \<open>The checksum of the pattern is the constant of the program.\<close>

lemma pattern_crc32: "crc32 (map fill_byte [0..<BYTES]) = EXPECTED_CRC32"
proof -
  let ?reg = "fold (\<lambda>i c. crc32_update c (fill_byte i)) [0..<BYTES] 0xffffffff"
  have "iterate_bits pattern_step 4096 0 (bits32 0xffffffff) = bits32 ?reg"
    using iterate_bits_fold [of 0 4096 pattern_step "\<lambda>i c. crc32_update c (fill_byte i)" "0xffffffff"]
    by (simp add: BYTES_def pattern_step_def update_feeds pattern_byte shift_in_feed del: upt_rec_numeral)
  then have "?reg = 0x3f19a1d4" unfolding bits32_numeral pattern_register by (metis bits32_numeral bits32_inject)
  then show ?thesis by (simp add: crc32_def fold_map comp_def EXPECTED_CRC32_def)
qed

section \<open>The program\<close>

lemma run_crc32_run: "run_crc32 buffer hw m = Some (Ret (crc32 (read_bytes (mem m) buffer BYTES)) m)"
proof -
  have "fold_fw is (\<lambda>i crc. bind_fw (load8 (buffer + of_nat i)) (\<lambda>b. return_fw (crc32_update crc b))) c hw m =
      Some (Ret (fold (\<lambda>b c. crc32_update c b) (map (\<lambda>i. mem m (buffer + of_nat i)) is) c) m)" for "is" c
    by (induction "is" arbitrary: c) (simp_all add: bind_fw_def load8_def return_fw_def)
  then show ?thesis
    unfolding run_crc32_def by (simp add: bind_fw_def return_fw_def crc32_def read_bytes_def)
qed

definition filled :: "memory \<Rightarrow> u32 \<Rightarrow> memory" where
  "filled mm buffer = fold (\<lambda>i mm. mm(buffer + of_nat i := fill_byte i)) [0..<BYTES] mm"

lemma fill_bytes4096_run: "fill_bytes4096 buffer hw m = Some (Ret () (m\<lparr>mem := filled (mem m) buffer\<rparr>))"
proof -
  have "for_fw is (\<lambda>i. store8 (buffer + of_nat i) (fill_byte i)) hw m =
      Some (Ret () (m\<lparr>mem := fold (\<lambda>i mm. mm(buffer + of_nat i := fill_byte i)) is (mem m)\<rparr>))" for "is"
    by (induction "is" arbitrary: m) (simp_all add: then_fw_def bind_fw_def store8_def return_fw_def)
  then show ?thesis by (simp add: fill_bytes4096_def filled_def)
qed

lemma BYTES_small: "n \<le> BYTES \<Longrightarrow> i \<le> n \<Longrightarrow> i < 2 ^ 32"
  by (simp add: BYTES_def)

lemma filled_bytes: "read_bytes (filled mm buffer) buffer BYTES = map fill_byte [0..<BYTES]"
proof -
  have "n \<le> BYTES \<Longrightarrow> i < n \<Longrightarrow> fold (\<lambda>i mm. mm(buffer + of_nat i := fill_byte i)) [0..<n] mm (buffer + of_nat i) = fill_byte i" for n i
  proof (induction n)
    case (Suc n)
    have "(of_nat i :: u32) = of_nat n \<longleftrightarrow> i = n"
      using BYTES_small [of n n] BYTES_small [of n i] Suc.prems by (metis Suc_leD less_Suc_eq_le order_refl unat_of_nat_small)
    with Suc show ?case by (auto simp: less_Suc_eq)
  qed simp
  then show ?thesis by (simp add: read_bytes_def filled_def)
qed

context uart_tx
begin

lemma measure_reaches:
  "reaches hw A (measure_crc32 memory buffer sink)
     (\<lambda>r _. r = (EXPECTED_CRC32, push_bit 5 sink XOR drop_bit 2 sink XOR EXPECTED_CRC32) \<and> True)"
proof -
  let ?P = "\<lambda>M. read_bytes M buffer BYTES = map fill_byte [0..<BYTES]"
  have fill: "reaches hw A (fill_bytes4096 buffer) (\<lambda>_. ?P)"
    by (simp add: reaches_def fill_bytes4096_run filled_bytes)
  have crc: "reaches hw ?P (run_crc32 buffer) (\<lambda>c M. c = EXPECTED_CRC32 \<and> ?P M)"
    by (simp add: reaches_def run_crc32_run pattern_crc32)
  show ?thesis
    unfolding measure_crc32_def Let_def
    by (rule reaches_then [OF fill], rule reaches_bind [OF reaches_perf(1)], rule reaches_bind [OF crc],
        rule reaches_bind [OF reaches_perf(2)], rule reaches_then [OF reaches_print])
      (auto simp del: uart_puts.simps intro: does_uart reaches_return)
qed

lemma crc32_bench_finishes: "finishes hw A (crc32_bench_main bram_data sdram_data :: 'a fw) {1}"
proof -
  let ?sink1 = "push_bit 5 0 XOR drop_bit 2 0 XOR EXPECTED_CRC32"
  let ?sink2 = "push_bit 5 ?sink1 XOR drop_bit 2 ?sink1 XOR EXPECTED_CRC32"
  have sink: "?sink2 \<noteq> 0" by code_simp
  show ?thesis
    unfolding crc32_bench_main_def
    by (rule finishes_then [OF reaches_banner], rule finishes_value [OF measure_reaches], unfold prod.case,
        rule finishes_value [OF measure_reaches], unfold prod.case, rule finishes_then [where R = "\<lambda>_. True", OF _ finishes_pass])
      (use sink in \<open>simp add: test_expect_def then_fw_def reaches_return\<close>)
qed

end

section \<open>Properties\<close>

text \<open>C28: The bitwise loop computes a CRC: whatever the buffer holds, \<open>run_crc32\<close> returns and leaves
  memory as it was, and the bits of its result are the complement of the remainder of the
  division, by the generator polynomial 0x04C11DB7, of the buffer's bits with the first 32
  complemented and 32 zeros appended.\<close>

theorem crc32_is_remainder:
  "\<exists>crc. run_crc32 buffer hw m = Some (Ret crc m) \<and>
     bits32 crc = map Not (poly_rem (xor_bits (replicate 32 True)
       (message_bits (read_bytes (mem m) buffer BYTES) @ replicate 32 False)))"
  using run_crc32_run crc32_remainder by blast

text \<open>C29: The checksum detects error bursts: if two buffers differ, and only in bits that lie within
  32 consecutive positions of the message, then the program computes different checksums for
  them.\<close>

theorem crc32_detects_bursts:
  assumes "read_bytes (mem m) buffer BYTES \<noteq> read_bytes (mem m') buffer' BYTES"
    and "\<forall>i < 8 * BYTES. message_bits (read_bytes (mem m) buffer BYTES) ! i \<noteq>
           message_bits (read_bytes (mem m') buffer' BYTES) ! i \<longrightarrow> k \<le> i \<and> i < k + 32"
  shows "\<exists>c c'. run_crc32 buffer hw m = Some (Ret c m) \<and> run_crc32 buffer' hw' m' = Some (Ret c' m') \<and> c \<noteq> c'"
proof -
  have "crc32 (read_bytes (mem m) buffer BYTES) \<noteq> crc32 (read_bytes (mem m') buffer' BYTES)"
    using assms by (intro crc32_burst [where k = k]) (simp_all add: length_message_bits read_bytes_def)
  then show ?thesis using run_crc32_run by blast
qed

text \<open>Two bytes in a row that differ.\<close>

theorem crc32_detects_bursts_witness:
  "\<exists>c c'. run_crc32 0 (\<lambda>_ _. 0) \<lparr>mem = \<lambda>_. 0, trace = []\<rparr> = Some (Ret c \<lparr>mem = \<lambda>_. 0, trace = []\<rparr>) \<and>
     run_crc32 0 (\<lambda>_ _. 0) \<lparr>mem = (\<lambda>_. 0)(10 := 0xff, 11 := 0x80), trace = []\<rparr> =
       Some (Ret c' \<lparr>mem = (\<lambda>_. 0)(10 := 0xff, 11 := 0x80), trace = []\<rparr>) \<and> c \<noteq> c'"
proof -
  let ?m = "\<lparr>mem = \<lambda>_. 0, trace = []\<rparr>" and ?m' = "\<lparr>mem = (\<lambda>_. 0)(10 := 0xff, 11 := 0x80), trace = []\<rparr>"
  have len: "length (read_bytes mm 0 BYTES) = BYTES" for mm by (simp add: read_bytes_def)
  have byte: "i < BYTES \<Longrightarrow> read_bytes mm 0 BYTES ! i = mm (of_nat i)" for mm i by (simp add: read_bytes_def)
  have "read_bytes (mem ?m) 0 BYTES ! 10 \<noteq> read_bytes (mem ?m') 0 BYTES ! 10"
    using byte [of 10 "mem ?m"] byte [of 10 "mem ?m'"] by (simp add: BYTES_def)
  then have differ: "read_bytes (mem ?m) 0 BYTES \<noteq> read_bytes (mem ?m') 0 BYTES" by metis
  have "80 \<le> i \<and> i < 80 + 32"
    if i: "i < 8 * BYTES" and bits: "message_bits (read_bytes (mem ?m) 0 BYTES) ! i \<noteq> message_bits (read_bytes (mem ?m') 0 BYTES) ! i" for i
  proof -
    have "i div 8 < BYTES" using i by simp
    then have "mem ?m (of_nat (i div 8)) \<noteq> mem ?m' (of_nat (i div 8))"
      using bits i by (simp add: nth_message_bits len byte del: fun_upd_apply) (metis bit_0_eq bot_apply bot_bool_def)
    then have "(of_nat (i div 8) :: u32) = 10 \<or> (of_nat (i div 8) :: u32) = 11" by (auto simp: fun_upd_def split: if_splits)
    then have "unat (of_nat (i div 8) :: u32) = 10 \<or> unat (of_nat (i div 8) :: u32) = 11" by auto
    then have "i div 8 = 10 \<or> i div 8 = 11" using BYTES_small [of BYTES "i div 8"] \<open>i div 8 < BYTES\<close> unat_of_nat_small by simp
    then show ?thesis by auto
  qed
  then show ?thesis using crc32_detects_bursts [OF differ, of 80] by blast
qed

text \<open>C30: The benchmark always passes: its constant is the CRC of its test pattern, both memories get the
  same pattern and give the same checksum, so with a live UART, wherever the two buffers lie and
  whatever memory held, it ends, and with the success code.\<close>

theorem crc32_bench_passes:
  assumes "uart_tx hw"
  shows "\<exists>m'. (crc32_bench_main bram_data sdram_data :: 'a fw) hw m = Some (Stop m') \<and> stopped_with {1} m'"
  using uart_tx.crc32_bench_finishes [OF assms, of "\<lambda>_. True" bram_data sdram_data] unfolding finishes_def by blast

theorem crc32_bench_passes_witness:
  "\<forall>s0. \<exists>m'. (crc32_bench_main 0x2000 TINYBUS_SDRAM_BASE :: unit fw) (soc_hw board_config s0) \<lparr>mem = \<lambda>_. 0, trace = []\<rparr> = Some (Stop m') \<and>
     stopped_with {1} m'"
  by (intro allI crc32_bench_passes soc_uart.uart_tx_axioms)

end
