(* ===== verification/Memory_Bench.thy ===== *)
theory Memory_Bench
  imports Bench_Support Word_Eval
begin

text \<open>
  The benchmarks that compare the two memories: \<open>memset_bench.c\<close>, \<open>sdram_sum_bench.c\<close>,
  \<open>stride_bench.c\<close> and \<open>system_bench.c\<close> of \<open>apps/baremetal/benchmarks\<close>. Buffers are byte memory;
  the loops over words are shown to compute the same functions of lists at every address.
\<close>

section \<open>\<open>memset_bench.c\<close>\<close>

definition MEMSET_BYTES :: nat where "MEMSET_BYTES = 4096"

definition checksum_step :: "nat \<Rightarrow> u8 \<Rightarrow> u32 \<Rightarrow> u32" where
  "checksum_step i b checksum = push_bit 5 checksum XOR drop_bit 2 checksum XOR ucast b XOR of_nat i"

definition checksum_buffer :: "u32 \<Rightarrow> u32 fw" where
  "checksum_buffer buffer = fold_fw [0..<MEMSET_BYTES] (\<lambda>i checksum.
     bind_fw (load8 (buffer + of_nat i)) (\<lambda>b. return_fw (checksum_step i b checksum))) 0x12345678"

definition count_mismatch :: "u32 \<Rightarrow> u8 \<Rightarrow> u32 fw" where
  "count_mismatch buffer expected = fold_fw [0..<MEMSET_BYTES] (\<lambda>i mismatch.
     bind_fw (load8 (buffer + of_nat i)) (\<lambda>b. return_fw (if b \<noteq> expected then mismatch + 1 else mismatch))) 0"

definition call_memset :: "u32 \<Rightarrow> u32 \<Rightarrow> nat \<Rightarrow> unit fw" where
  "call_memset dest v n hw m =
     (case rt_memset (mem m) dest v (of_nat n) of
        None \<Rightarrow> Some Fault
      | Some (_, mm) \<Rightarrow> Some (Ret () (m\<lparr>mem := mm\<rparr>)))"

text \<open>The result is the checksum and the new value of the benchmark's sink.\<close>

definition measure_memset :: "string \<Rightarrow> u32 \<Rightarrow> u32 \<Rightarrow> u32 \<Rightarrow> (u32 \<times> u32) fw" where
  "measure_memset memory buffer v sink =
     bind_fw perf_begin (\<lambda>snap0. then_fw (call_memset buffer v MEMSET_BYTES) (bind_fw (perf_end snap0) (\<lambda>snap.
     bind_fw (count_mismatch buffer (ucast v)) (\<lambda>mismatch. then_fw (test_expect (mismatch = 0) 0xdead8001)
     (bind_fw (checksum_buffer buffer) (\<lambda>checksum.
       let sink' = push_bit 5 sink XOR drop_bit 2 sink XOR checksum
       in then_fw (seq_fw [uart_puts (bytes ''RESULT: benchmark=memset_bench memory=''), uart_puts (bytes memory),
            uart_puts (bytes '' bytes=''), uart_put_dec (of_nat MEMSET_BYTES), uart_puts (bytes '' cycles=''),
            uart_put_dec (cycle snap), uart_puts (bytes '' instret=''), uart_put_dec (instret snap),
            uart_puts (bytes '' mem_wait=''), uart_put_dec (mem_wait snap), uart_puts (bytes '' checksum=''),
            uart_put_hex checksum, uart_puts [10]])
          (return_fw (checksum, sink'))))))))"

definition memset_bench_main :: "u32 \<Rightarrow> u32 \<Rightarrow> 'a fw" where
  "memset_bench_main bram_buf sdram_buf =
     then_fw (test_banner ''memset_bench'')
     (bind_fw (measure_memset ''bram'' bram_buf 0x5a 0) (\<lambda>(bram_checksum, sink1).
      bind_fw (measure_memset ''sdram'' sdram_buf 0x5a sink1) (\<lambda>(sdram_checksum, sink2).
        then_fw (seq_fw [test_expect (bram_checksum = sdram_checksum) 0xdead8002, test_expect (sink2 \<noteq> 0) 0xdead8003])
          test_pass)))"

section \<open>\<open>sdram_sum_bench.c\<close>\<close>

definition BENCH_WORDS :: nat where "BENCH_WORDS = 1024"

text \<open>\<open>SDRAM_WORD(i)\<close> is \<open>slot TINYBUS_SDRAM_BASE i\<close>.\<close>

definition sdram_sum :: "u32 fw" where
  "sdram_sum = fold_fw [0..<BENCH_WORDS] (\<lambda>i sum.
     bind_fw (load32 (slot TINYBUS_SDRAM_BASE i)) (\<lambda>v. return_fw (sum + v))) 0"

definition sdram_sum_bench_main :: "'a fw" where
  "sdram_sum_bench_main =
     (let expected = of_nat (BENCH_WORDS * (BENCH_WORDS - 1) div 2)
      in then_fw (test_banner ''sdram_sum_bench'')
     (then_fw (for_fw [0..<BENCH_WORDS] (\<lambda>i. store32 (slot TINYBUS_SDRAM_BASE i) (of_nat i)))
     (bind_fw test_read_cycle (\<lambda>cycle0. bind_fw test_read_instret (\<lambda>inst0.
      bind_fw sdram_sum (\<lambda>bench_sum.
      bind_fw test_read_cycle (\<lambda>cycle1. bind_fw test_read_instret (\<lambda>inst1.
        let bench_cycle_delta = cycle1 - cycle0; bench_instret_delta = inst1 - inst0
        in then_fw (seq_fw [uart_puts (bytes ''sdram_sum_bench: words=''), uart_put_dec (of_nat BENCH_WORDS),
             uart_puts (bytes '' sum=''), uart_put_hex bench_sum, uart_puts (bytes '' cycles=''),
             uart_put_dec bench_cycle_delta, uart_puts (bytes '' instret=''), uart_put_dec bench_instret_delta,
             uart_puts [10], uart_flush])
           (then_fw (seq_fw [test_expect (bench_sum = expected) 0xdead3001,
              test_expect (bench_cycle_delta \<noteq> 0) 0xdead3002, test_expect (bench_instret_delta \<noteq> 0) 0xdead3003])
            test_pass)))))))))"

section \<open>\<open>stride_bench.c\<close>\<close>

definition STRIDE_WORDS :: nat where "STRIDE_WORDS = 1024"
definition ACCESSES :: nat where "ACCESSES = 2048"

definition fill_words :: "u32 \<Rightarrow> unit fw" where
  "fill_words buffer = for_fw [0..<STRIDE_WORDS] (\<lambda>i. store32 (slot buffer i) (of_nat i * 0x10203 XOR 0x5a5aa5a5))"

definition stride_index :: "u32 \<Rightarrow> nat \<Rightarrow> nat" where
  "stride_index stride i = unat ((of_nat i * stride) AND (of_nat STRIDE_WORDS - 1))"

definition stride_mix :: "nat \<Rightarrow> u32 \<Rightarrow> u32 \<Rightarrow> u32" where
  "stride_mix i v checksum = push_bit 3 checksum XOR drop_bit 7 checksum XOR v XOR of_nat i"

definition run_stride :: "u32 \<Rightarrow> u32 \<Rightarrow> u32 fw" where
  "run_stride buffer stride = fold_fw [0..<ACCESSES] (\<lambda>i checksum.
     bind_fw (load32 (slot buffer (stride_index stride i))) (\<lambda>v.
       then_fw (store32 (slot buffer (stride_index stride i)) (v + stride_mix i v checksum + stride))
         (return_fw (stride_mix i v checksum)))) 0x2468ace0"

definition measure_stride :: "string \<Rightarrow> string \<Rightarrow> u32 \<Rightarrow> u32 \<Rightarrow> u32 \<Rightarrow> (u32 \<times> u32) fw" where
  "measure_stride memory case_name buffer stride sink =
     then_fw (fill_words buffer)
     (bind_fw perf_begin (\<lambda>snap0. bind_fw (run_stride buffer stride) (\<lambda>checksum. bind_fw (perf_end snap0) (\<lambda>snap.
       let sink' = push_bit 5 sink XOR drop_bit 2 sink XOR checksum
       in then_fw (seq_fw [uart_puts (bytes ''RESULT: benchmark=stride_bench case=''), uart_puts (bytes case_name),
            uart_puts (bytes '' memory=''), uart_puts (bytes memory),
            uart_puts (bytes '' words=''), uart_put_dec (of_nat STRIDE_WORDS),
            uart_puts (bytes '' accesses=''), uart_put_dec (of_nat ACCESSES), uart_puts (bytes '' cycles=''),
            uart_put_dec (cycle snap), uart_puts (bytes '' instret=''), uart_put_dec (instret snap),
            uart_puts (bytes '' mem_wait=''), uart_put_dec (mem_wait snap), uart_puts (bytes '' checksum=''),
            uart_put_hex checksum, uart_puts [10]])
          (return_fw (checksum, sink'))))))"

definition measure_pair :: "u32 \<Rightarrow> u32 \<Rightarrow> string \<Rightarrow> u32 \<Rightarrow> u32 \<Rightarrow> u32 \<Rightarrow> u32 fw" where
  "measure_pair bram_words sdram_words case_name stride error_code sink =
     bind_fw (measure_stride ''bram'' case_name bram_words stride sink) (\<lambda>(bram_checksum, sink1).
     bind_fw (measure_stride ''sdram'' case_name sdram_words stride sink1) (\<lambda>(sdram_checksum, sink2).
       then_fw (test_expect (bram_checksum = sdram_checksum) error_code) (return_fw sink2)))"

definition stride_bench_main :: "u32 \<Rightarrow> u32 \<Rightarrow> 'a fw" where
  "stride_bench_main bram_words sdram_words =
     then_fw (test_banner ''stride_bench'')
     (bind_fw (measure_pair bram_words sdram_words ''stride1'' 1 0xdead8101 0) (\<lambda>sink.
      bind_fw (measure_pair bram_words sdram_words ''stride2'' 2 0xdead8102 sink) (\<lambda>sink.
      bind_fw (measure_pair bram_words sdram_words ''stride4'' 4 0xdead8103 sink) (\<lambda>sink.
      bind_fw (measure_pair bram_words sdram_words ''stride8'' 8 0xdead8104 sink) (\<lambda>sink.
      bind_fw (measure_pair bram_words sdram_words ''stride16'' 16 0xdead8105 sink) (\<lambda>sink.
        then_fw (test_expect (sink \<noteq> 0) 0xdead8106) test_pass))))))"

section \<open>\<open>system_bench.c\<close>\<close>

definition SYSTEM_WORDS :: nat where "SYSTEM_WORDS = 256"
definition SYSTEM_ROUNDS :: nat where "SYSTEM_ROUNDS = 4"

definition fill_buffer :: "u32 \<Rightarrow> unit fw" where
  "fill_buffer buffer = for_fw [0..<SYSTEM_WORDS] (\<lambda>i. store32 (slot buffer i) (of_nat i * 0x10203 XOR 0x5a5aa5a5))"

definition stencil_value :: "nat \<Rightarrow> nat \<Rightarrow> u32 \<Rightarrow> u32 \<Rightarrow> u32 \<Rightarrow> u32" where
  "stencil_value round i x y z = (x + push_bit 1 y + z) XOR (of_nat round * 0x9e37 + of_nat i)"

definition stencil_body :: "u32 \<Rightarrow> u32 \<Rightarrow> nat \<Rightarrow> nat \<Rightarrow> u32 \<Rightarrow> u32 fw" where
  "stencil_body src dst round i checksum =
     bind_fw (load32 (slot src (i - 1))) (\<lambda>x. bind_fw (load32 (slot src i)) (\<lambda>y. bind_fw (load32 (slot src (i + 1))) (\<lambda>z.
       then_fw (store32 (slot dst i) (stencil_value round i x y z))
         (return_fw (checksum XOR drop_bit (i mod 8) (stencil_value round i x y z))))))"

definition run_stencil :: "u32 \<Rightarrow> u32 \<Rightarrow> u32 fw" where
  "run_stencil src dst =
     fold_fw [0..<SYSTEM_ROUNDS] (\<lambda>round. fold_fw [1..<SYSTEM_WORDS - 1] (stencil_body src dst round)) 0"

definition measure_stencil :: "string \<Rightarrow> u32 \<Rightarrow> u32 \<Rightarrow> u32 fw" where
  "measure_stencil memory src dst =
     bind_fw perf_begin (\<lambda>snap0. bind_fw (run_stencil src dst) (\<lambda>checksum. bind_fw (perf_end snap0) (\<lambda>snap.
       then_fw (seq_fw [uart_puts (bytes ''RESULT: benchmark=system_bench case=stencil memory=''), uart_puts (bytes memory),
            uart_puts (bytes '' words=256 rounds=4 cycles=''), uart_put_dec (cycle snap), uart_puts (bytes '' instret=''),
            uart_put_dec (instret snap), uart_puts (bytes '' mem_wait=''), uart_put_dec (mem_wait snap), uart_puts [10]])
         (return_fw checksum))))"

definition system_bench_main :: "u32 \<Rightarrow> u32 \<Rightarrow> u32 \<Rightarrow> u32 \<Rightarrow> 'a fw" where
  "system_bench_main bram_src bram_dst sdram_src sdram_dst =
     then_fw (test_banner ''system_bench'')
     (then_fw (fill_buffer bram_src) (then_fw (fill_buffer sdram_src)
     (bind_fw (measure_stencil ''bram'' bram_src bram_dst) (\<lambda>bram_checksum.
      bind_fw (measure_stencil ''sdram'' sdram_src sdram_dst) (\<lambda>sdram_checksum.
        then_fw (test_expect (bram_checksum = sdram_checksum) 0xdead7001)
        (bind_fw (load32 (slot bram_dst 127)) (\<lambda>b. bind_fw (load32 (slot sdram_dst 127)) (\<lambda>s.
          then_fw (test_expect (b = s) 0xdead7002) test_pass))))))))"

section \<open>The loops on lists\<close>

definition fill_value :: "nat \<Rightarrow> u32" where
  "fill_value i = of_nat i * 0x10203 XOR 0x5a5aa5a5"

definition stride_step :: "u32 \<Rightarrow> nat \<Rightarrow> u32 list \<times> u32 \<Rightarrow> u32 list \<times> u32" where
  "stride_step stride i = (\<lambda>(xs, checksum).
     let v = xs ! stride_index stride i
     in (xs[stride_index stride i := v + stride_mix i v checksum + stride], stride_mix i v checksum))"

definition stride_checksum :: "u32 \<Rightarrow> u32 list \<Rightarrow> u32" where
  "stride_checksum stride xs = snd (fold (stride_step stride) [0..<ACCESSES] (xs, 0x2468ace0))"

definition stencil_step :: "u32 list \<Rightarrow> nat \<Rightarrow> nat \<Rightarrow> u32 \<Rightarrow> u32" where
  "stencil_step xs round i checksum =
     checksum XOR drop_bit (i mod 8) (stencil_value round i (xs ! (i - 1)) (xs ! i) (xs ! (i + 1)))"

definition stencil_checksum :: "u32 list \<Rightarrow> u32" where
  "stencil_checksum xs = fold (\<lambda>round. fold (stencil_step xs round) [1..<SYSTEM_WORDS - 1]) [0..<SYSTEM_ROUNDS] 0"

lemma fill_words_reaches:
  "array_ok a STRIDE_WORDS \<Longrightarrow> undisturbed a STRIDE_WORDS R \<Longrightarrow>
     reaches hw R (fill_words a) (\<lambda>_ M. words_at M a STRIDE_WORDS = map fill_value [0..<STRIDE_WORDS] \<and> R M)"
  "array_ok a SYSTEM_WORDS \<Longrightarrow> undisturbed a SYSTEM_WORDS R \<Longrightarrow>
     reaches hw R (fill_buffer a) (\<lambda>_ M. words_at M a SYSTEM_WORDS = map fill_value [0..<SYSTEM_WORDS] \<and> R M)"
  unfolding fill_words_def fill_buffer_def fill_value_def [symmetric] by (rule fill_reaches, assumption+)+

text \<open>The strided loop.\<close>

lemma stride_index_less: "stride_index stride i < STRIDE_WORDS"
proof -
  have "((of_nat i * stride) AND (of_nat STRIDE_WORDS - 1) :: u32) \<le> of_nat STRIDE_WORDS - 1" by (rule word_and_le1)
  then have "stride_index stride i \<le> unat (of_nat STRIDE_WORDS - 1 :: u32)" by (simp add: stride_index_def word_le_nat_alt)
  then show ?thesis by (simp add: STRIDE_WORDS_def)
qed

lemma fold_upt_Suc: "l \<le> i \<Longrightarrow> fold f [l..<Suc i] s = f i (fold f [l..<i] s)"
  by simp

lemma run_stride_reaches:
  assumes "array_ok buf STRIDE_WORDS"
  shows "reaches hw (\<lambda>M. words_at M buf STRIDE_WORDS = xs) (run_stride buf stride) (\<lambda>c _. c = stride_checksum stride xs)"
proof -
  let ?J = "\<lambda>i c M. fold (stride_step stride) [0..<i] (xs, 0x2468ace0) = (words_at M buf STRIDE_WORDS, c)"
  have "reaches hw (\<lambda>M. words_at M buf STRIDE_WORDS = xs) (run_stride buf stride) (?J ACCESSES)"
    unfolding run_stride_def
  proof (rule reaches_fold)
    fix i and c :: u32
    let ?k = "stride_index stride i"
    note k = stride_index_less [of stride i] and al = array_slot_aligned [OF assms]
    let ?R = "\<lambda>v M. words_at M buf STRIDE_WORDS ! ?k = v \<and> ?J i c M"
    have load: "reaches hw (?J i c) (load32 (slot buf ?k)) ?R"
      by (rule reaches_load32 [OF al]) (use k in simp)
    have store: "reaches hw (?R v) (then_fw (store32 (slot buf ?k) (v + stride_mix i v c + stride))
        (return_fw (stride_mix i v c))) (?J (Suc i))" for v
    proof (rule reaches_then [OF reaches_store32 [OF al] reaches_return])
      fix M assume "?R v M"
      then show "?J (Suc i) (stride_mix i v c) (put32 M (slot buf ?k) (v + stride_mix i v c + stride))"
        unfolding words_store [OF assms k] fold_upt_Suc [OF le0] by (auto simp: stride_step_def Let_def)
    qed
    show "reaches hw (?J i c) (bind_fw (load32 (slot buf ?k)) (\<lambda>v.
        then_fw (store32 (slot buf ?k) (v + stride_mix i v c + stride)) (return_fw (stride_mix i v c)))) (?J (Suc i))"
      by (rule reaches_bind [OF load store])
  qed simp_all
  then show ?thesis by (rule reaches_mono) (simp add: stride_checksum_def)
qed

text \<open>The stencil.\<close>

definition stencil_layout :: "u32 \<Rightarrow> u32 \<Rightarrow> (memory \<Rightarrow> bool) \<Rightarrow> bool" where
  "stencil_layout src dst R \<longleftrightarrow> array_ok src SYSTEM_WORDS \<and> array_ok dst SYSTEM_WORDS \<and>
     arrays_apart dst SYSTEM_WORDS src SYSTEM_WORDS \<and> undisturbed dst SYSTEM_WORDS R"

definition stencil_of :: "u32 list \<Rightarrow> nat \<Rightarrow> nat \<Rightarrow> u32" where
  "stencil_of xs round i = stencil_value round i (xs ! (i - 1)) (xs ! i) (xs ! (i + 1))"

text \<open>In round \<open>round\<close> before word \<open>i\<close>: the source is \<open>xs\<close>, and word 127 of the result is done or not.\<close>

definition stencil_inv :: "u32 \<Rightarrow> u32 \<Rightarrow> u32 list \<Rightarrow> (memory \<Rightarrow> bool) \<Rightarrow> nat \<Rightarrow> nat \<Rightarrow> memory \<Rightarrow> bool" where
  "stencil_inv src dst xs R round i M \<longleftrightarrow> words_at M src SYSTEM_WORDS = xs \<and> R M \<and>
     (127 < i \<longrightarrow> get32 M (slot dst 127) = stencil_of xs round 127)"

lemma stencil_inv_load: "stencil_inv src dst xs R round i M \<Longrightarrow> k < SYSTEM_WORDS \<Longrightarrow> get32 M (slot src k) = xs ! k"
  unfolding stencil_inv_def by (metis nth_words_at)

lemma stencil_inv_store:
  assumes "stencil_layout src dst R" "stencil_inv src dst xs R round i M" "i < SYSTEM_WORDS"
  shows "stencil_inv src dst xs R round (Suc i) (put32 M (slot dst i) (stencil_of xs round i))"
  using assms get_store [of dst SYSTEM_WORDS i 127] words_store_other [of dst SYSTEM_WORDS src SYSTEM_WORDS i]
  by (auto simp: stencil_layout_def stencil_inv_def undisturbed_def less_Suc_eq SYSTEM_WORDS_def)

lemma stencil_body_reaches:
  assumes "stencil_layout src dst R" "1 \<le> i" "i < SYSTEM_WORDS - 1"
  shows "reaches hw (stencil_inv src dst xs R round i) (stencil_body src dst round i c)
    (\<lambda>c' M. c' = stencil_step xs round i c \<and> stencil_inv src dst xs R round (Suc i) M)"
proof -
  have lt: "i - 1 < SYSTEM_WORDS" "i < SYSTEM_WORDS" "i + 1 < SYSTEM_WORDS" using assms(2,3) by linarith+
  have al: "slot src k AND 3 = 0" "slot dst k AND 3 = 0" for k
    using assms(1) by (auto simp: stencil_layout_def intro: array_slot_aligned)
  have load: "reaches hw (stencil_inv src dst xs R round i) (load32 (slot src k))
      (\<lambda>v M. v = xs ! k \<and> stencil_inv src dst xs R round i M)" if "k < SYSTEM_WORDS" for k
    by (rule reaches_load32 [OF al(1)]) (simp add: stencil_inv_load [OF _ that])
  show ?thesis
    unfolding stencil_body_def
    by (rule reaches_value [OF load [OF lt(1)]], rule reaches_value [OF load [OF lt(2)]], rule reaches_value [OF load [OF lt(3)]],
        rule reaches_then [OF reaches_store32 [OF al(2)] reaches_return],
        rule stencil_inv_store [OF assms(1) _ lt(2), unfolded stencil_of_def], assumption) (simp add: stencil_step_def)
qed

lemma stencil_round_reaches:
  assumes "stencil_layout src dst R"
  shows "reaches hw (\<lambda>M. words_at M src SYSTEM_WORDS = xs \<and> R M) (fold_fw [1..<SYSTEM_WORDS - 1] (stencil_body src dst round) c)
    (\<lambda>c' M. c' = fold (stencil_step xs round) [1..<SYSTEM_WORDS - 1] c \<and> stencil_inv src dst xs R round (SYSTEM_WORDS - 1) M)"
proof (rule reaches_fold [where J = "\<lambda>i c' M. c' = fold (stencil_step xs round) [1..<i] c \<and> stencil_inv src dst xs R round i M"])
  fix i and c' :: u32 assume i: "1 \<le> i" "i < SYSTEM_WORDS - 1"
  show "reaches hw (\<lambda>M. c' = fold (stencil_step xs round) [1..<i] c \<and> stencil_inv src dst xs R round i M)
      (stencil_body src dst round i c')
      (\<lambda>c'' M. c'' = fold (stencil_step xs round) [1..<Suc i] c \<and> stencil_inv src dst xs R round (Suc i) M)"
    by (rule reaches_pure, rule reaches_mono [OF stencil_body_reaches [OF assms i]]) (use i in simp)
qed (simp_all add: stencil_inv_def SYSTEM_WORDS_def)

lemma run_stencil_reaches:
  assumes "stencil_layout src dst R"
  shows "reaches hw (\<lambda>M. words_at M src SYSTEM_WORDS = xs \<and> R M) (run_stencil src dst)
    (\<lambda>c M. c = stencil_checksum xs \<and> get32 M (slot dst 127) = stencil_of xs 3 127 \<and> R M)"
proof -
  let ?sum = "\<lambda>n. fold (\<lambda>round. fold (stencil_step xs round) [1..<SYSTEM_WORDS - 1]) [0..<n] 0"
  let ?J = "\<lambda>n c M. c = ?sum n \<and> (0 < n \<longrightarrow> get32 M (slot dst 127) = stencil_of xs (n - 1) 127) \<and>
      words_at M src SYSTEM_WORDS = xs \<and> R M"
  have "reaches hw (\<lambda>M. words_at M src SYSTEM_WORDS = xs \<and> R M) (run_stencil src dst) (?J SYSTEM_ROUNDS)"
    unfolding run_stencil_def
  proof (rule reaches_fold)
    fix n and c :: u32
    have "reaches hw (\<lambda>M. words_at M src SYSTEM_WORDS = xs \<and> R M) (fold_fw [1..<SYSTEM_WORDS - 1] (stencil_body src dst n) c)
        (\<lambda>c' M. c = ?sum n \<longrightarrow> ?J (Suc n) c' M)"
      by (rule reaches_mono [OF stencil_round_reaches [OF assms]])
        (simp add: stencil_inv_def fold_upt_Suc SYSTEM_WORDS_def del: upt_rec_numeral upt_Suc)
    then show "reaches hw (?J n c) (fold_fw [1..<SYSTEM_WORDS - 1] (stencil_body src dst n) c) (?J (Suc n))"
      unfolding reaches_def by blast
  qed simp_all
  then show ?thesis
    by (rule reaches_mono) (auto simp: stencil_checksum_def SYSTEM_ROUNDS_def simp del: upt_rec_numeral)
qed

section \<open>Sums and checksums\<close>

lemma sdram_sum_reaches:
  "reaches hw (\<lambda>M. words_at M TINYBUS_SDRAM_BASE BENCH_WORDS = map of_nat [0..<BENCH_WORDS]) sdram_sum
     (\<lambda>c M. c = of_nat (BENCH_WORDS * (BENCH_WORDS - 1) div 2) \<and> True)"
proof -
  let ?W = "\<lambda>M. words_at M TINYBUS_SDRAM_BASE BENCH_WORDS = map of_nat [0..<BENCH_WORDS]"
  have al: "slot TINYBUS_SDRAM_BASE i AND 3 = 0" for i by (rule slot_aligned) (simp add: addr_defs)
  have gauss: "i * (i - 1) div 2 + i = Suc i * (Suc i - 1) div 2" for i :: nat
    by (cases i) (simp_all add: algebra_simps)
  have "reaches hw ?W sdram_sum (\<lambda>c M. c = of_nat (BENCH_WORDS * (BENCH_WORDS - 1) div 2) \<and> ?W M)"
    unfolding sdram_sum_def
  proof (rule reaches_fold [where J = "\<lambda>i c M. c = of_nat (i * (i - 1) div 2) \<and> ?W M"])
    fix i and c :: u32 assume i: "i < BENCH_WORDS"
    have load: "reaches hw (\<lambda>M. c = of_nat (i * (i - 1) div 2) \<and> ?W M) (load32 (slot TINYBUS_SDRAM_BASE i))
        (\<lambda>v M. v = of_nat i \<and> c = of_nat (i * (i - 1) div 2) \<and> ?W M)"
    proof (rule reaches_load32 [OF al])
      fix M assume A: "c = of_nat (i * (i - 1) div 2) \<and> ?W M"
      then have "words_at M TINYBUS_SDRAM_BASE BENCH_WORDS ! i = of_nat i" using i by simp
      with A show "get32 M (slot TINYBUS_SDRAM_BASE i) = of_nat i \<and> c = of_nat (i * (i - 1) div 2) \<and> ?W M" unfolding nth_words_at [OF i] by simp
    qed
    show "reaches hw (\<lambda>M. c = of_nat (i * (i - 1) div 2) \<and> ?W M) (bind_fw (load32 (slot TINYBUS_SDRAM_BASE i)) (\<lambda>v. return_fw (c + v)))
        (\<lambda>c M. c = of_nat (Suc i * (Suc i - 1) div 2) \<and> ?W M)"
      by (rule reaches_value [OF load], rule reaches_return) (simp only: gauss [symmetric] of_nat_add)
  qed simp_all
  then show ?thesis by (rule reaches_mono) simp
qed

text \<open>The bytes of the buffer after \<open>rt_memset\<close>.\<close>

definition all_bytes :: "u32 \<Rightarrow> u8 \<Rightarrow> memory \<Rightarrow> bool" where
  "all_bytes a b M \<longleftrightarrow> (\<forall>i < MEMSET_BYTES. M (a + of_nat i) = b)"

lemma memset_reaches: "reaches hw A (call_memset a v MEMSET_BYTES) (\<lambda>_. all_bytes a (ucast v))"
proof -
  have "all_bytes a (ucast v) (fill_bytes mm a (ucast v) MEMSET_BYTES)" for mm
    unfolding all_bytes_def fill_bytes_def
    using unat_of_nat_small by (auto simp: MEMSET_BYTES_def)
  moreover have "unat (of_nat MEMSET_BYTES :: u32) = MEMSET_BYTES" by (simp add: MEMSET_BYTES_def)
  ultimately show ?thesis by (simp add: reaches_def call_memset_def rt_memset_fills)
qed

lemma bytes_fold_reaches:
  "reaches hw (all_bytes a b) (fold_fw [0..<MEMSET_BYTES] (\<lambda>i s. bind_fw (load8 (a + of_nat i)) (\<lambda>x. return_fw (f i x s))) s)
     (\<lambda>r M. r = fold (\<lambda>i. f i b) [0..<MEMSET_BYTES] s \<and> all_bytes a b M)"
proof (rule reaches_fold [where J = "\<lambda>i r M. r = fold (\<lambda>i. f i b) [0..<i] s \<and> all_bytes a b M"])
  fix i r assume "i < MEMSET_BYTES"
  then have load: "reaches hw (\<lambda>M. r = fold (\<lambda>i. f i b) [0..<i] s \<and> all_bytes a b M) (load8 (a + of_nat i))
      (\<lambda>x M. x = b \<and> r = fold (\<lambda>i. f i b) [0..<i] s \<and> all_bytes a b M)"
    by (intro reaches_load8) (simp add: all_bytes_def)
  show "reaches hw (\<lambda>M. r = fold (\<lambda>i. f i b) [0..<i] s \<and> all_bytes a b M)
      (bind_fw (load8 (a + of_nat i)) (\<lambda>x. return_fw (f i x r))) (\<lambda>r M. r = fold (\<lambda>i. f i b) [0..<Suc i] s \<and> all_bytes a b M)"
    by (rule reaches_value [OF load], rule reaches_return) simp
qed simp_all

text \<open>The checksum of 4096 bytes 0x5a, evaluated.\<close>

definition next_checksum :: "nat \<Rightarrow> bool list \<Rightarrow> bool list" where
  "next_checksum i c = xor_bits (False # False # False # False # False # c) (xor_bits (low_bits 12 i)
     (xor_bits [False, True, False, True, True, False, True] (drop 2 (c @ [False, False]))))"

lemma checksum_step_bits:
  assumes "i < 4096"
  shows "bits32 (checksum_step i 0x5a c) = next_checksum i (bits32 c)"
proof (rule nth_equalityI)
  have const: "list_all (\<lambda>k. bit (0x5a :: u32) k \<longleftrightarrow> k < 7 \<and> [False, True, False, True, True, False, True] ! k) [0..<32]"
    by code_simp
  fix k assume "k < length (bits32 (checksum_step i 0x5a c))"
  then have k: "k < 32" by simp
  have beyond: "\<not> bit i k" if "\<not> k < 12"
  proof -
    have "(2 :: nat) ^ 12 \<le> 2 ^ k" using that by (intro power_increasing) simp_all
    then have "i < 2 ^ k" using assms by simp
    then show ?thesis by (simp add: bit_iff_odd)
  qed
  have "bit (0x5a :: u32) k \<longleftrightarrow> k < 7 \<and> [False, True, False, True, True, False, True] ! k"
    using const k by (simp add: list_all_iff del: upt_rec_numeral)
  moreover have "k - 5 = k - Suc (Suc (Suc (Suc (Suc 0))))" by simp
  ultimately show "bits32 (checksum_step i 0x5a c) ! k = next_checksum i (bits32 c) ! k"
    using k beyond bit_beyond [of "k + 2" c]
    by (auto simp: checksum_step_def next_checksum_def nth_xor_bits nth_append nth_low_bits bit_simps nth_Cons'
       simp del: upt_rec_numeral) (simp_all add: numeral_2_eq_2)
qed (simp add: next_checksum_def)

lemma memset_checksum_bits: "iterate_bits next_checksum 4096 0 (low_bits 32 0x12345678) = low_bits 32 0x3e186a9d"
  by (simp only: next_checksum_def bit_eval)

definition memset_checksum :: u32 where
  "memset_checksum = fold (\<lambda>i. checksum_step i 0x5a) [0..<MEMSET_BYTES] 0x12345678"

lemma memset_checksum_value: "memset_checksum = 0x3e186a9d"
proof -
  have "bits32 memset_checksum = iterate_bits next_checksum 4096 0 (low_bits 32 0x12345678)"
    unfolding memset_checksum_def MEMSET_BYTES_def bits32_numeral [symmetric]
    using iterate_bits_fold [of 0 4096 next_checksum "\<lambda>i. checksum_step i 0x5a" "0x12345678"]
    by (simp add: checksum_step_bits del: upt_rec_numeral)
  then show ?thesis unfolding memset_checksum_bits by (metis bits32_numeral bits32_inject)
qed

section \<open>The programs\<close>

text \<open>The four arrays of the stencil do not overlap.\<close>

definition system_layout :: "u32 \<Rightarrow> u32 \<Rightarrow> u32 \<Rightarrow> u32 \<Rightarrow> bool" where
  "system_layout a b c d \<longleftrightarrow> (\<forall>x \<in> {a, b, c, d}. array_ok x SYSTEM_WORDS) \<and>
     arrays_apart a SYSTEM_WORDS b SYSTEM_WORDS \<and> arrays_apart a SYSTEM_WORDS c SYSTEM_WORDS \<and>
     arrays_apart a SYSTEM_WORDS d SYSTEM_WORDS \<and> arrays_apart b SYSTEM_WORDS c SYSTEM_WORDS \<and>
     arrays_apart b SYSTEM_WORDS d SYSTEM_WORDS \<and> arrays_apart c SYSTEM_WORDS d SYSTEM_WORDS"

context uart_tx
begin

lemma measure_memset_reaches:
  "reaches hw A (measure_memset memory buffer 0x5a sink)
     (\<lambda>r _. r = (memset_checksum, push_bit 5 sink XOR drop_bit 2 sink XOR memset_checksum) \<and> True)"
proof -
  let ?P = "all_bytes buffer 0x5a"
  have memset: "reaches hw A (call_memset buffer 0x5a MEMSET_BYTES) (\<lambda>_. ?P)"
    using memset_reaches [of hw A buffer "0x5a"] by simp
  have zero: "fold (\<lambda>i. (\<lambda>mismatch. if (0x5a :: u8) \<noteq> 0x5a then mismatch + 1 else mismatch)) is s = s" for "is" :: "nat list" and s :: u32
    by (induction "is") simp_all
  have count: "reaches hw ?P (count_mismatch buffer (ucast (0x5a :: u32))) (\<lambda>c M. c = 0 \<and> ?P M)"
    using bytes_fold_reaches [where hw = hw and a = buffer and b = "0x5a" and
        f = "\<lambda>i b mismatch. if b \<noteq> 0x5a then mismatch + 1 else mismatch" and s = "0 :: u32"]
    unfolding count_mismatch_def zero by simp
  have sum: "reaches hw ?P (checksum_buffer buffer) (\<lambda>c M. c = memset_checksum \<and> ?P M)"
    unfolding checksum_buffer_def memset_checksum_def by (rule bytes_fold_reaches)
  show ?thesis
    unfolding measure_memset_def Let_def
    by (rule reaches_bind [OF reaches_perf(1)], rule reaches_then [OF memset], rule reaches_bind [OF reaches_perf(2)],
        rule reaches_value [OF count], rule reaches_then [OF reaches_expect], simp, rule reaches_value [OF sum],
        rule reaches_then [OF reaches_print])
      (auto simp del: uart_puts.simps intro: does_uart reaches_return)
qed

lemma memset_bench_finishes: "finishes hw A (memset_bench_main bram_buf sdram_buf :: 'a fw) {1}"
proof -
  let ?sink1 = "push_bit 5 0 XOR drop_bit 2 0 XOR memset_checksum"
  let ?sink2 = "push_bit 5 ?sink1 XOR drop_bit 2 ?sink1 XOR memset_checksum"
  have sink: "?sink2 \<noteq> 0" unfolding memset_checksum_value by code_simp
  show ?thesis
    unfolding memset_bench_main_def
    by (rule finishes_then [OF reaches_banner], rule finishes_value [OF measure_memset_reaches], unfold prod.case,
        rule finishes_value [OF measure_memset_reaches], unfold prod.case, rule finishes_then [where R = "\<lambda>_. True", OF _ finishes_pass])
      (use sink in \<open>simp add: test_expect_def then_fw_def reaches_return\<close>)
qed

lemma sdram_sum_bench_finishes: "finishes hw A (sdram_sum_bench_main :: 'a fw) {1, 0xdead3002, 0xdead3003}"
proof -
  let ?W = "\<lambda>M. words_at M TINYBUS_SDRAM_BASE BENCH_WORDS = map of_nat [0..<BENCH_WORDS]"
  have ok: "array_ok TINYBUS_SDRAM_BASE BENCH_WORDS" by (simp add: array_ok_def addr_defs BENCH_WORDS_def)
  have fill: "reaches hw A (for_fw [0..<BENCH_WORDS] (\<lambda>i. store32 (slot TINYBUS_SDRAM_BASE i) (of_nat i))) (\<lambda>_. ?W)"
    by (rule reaches_mono [OF reaches_pre [OF fill_reaches [OF ok undisturbed_True]]]) simp_all
  have read: "reaches hw B (mmio_read a) (\<lambda>_. B)" for B a
    by (rule reaches_does, rule does_read) simp
  show ?thesis
    unfolding sdram_sum_bench_main_def Let_def test_read_cycle_def test_read_instret_def
    by (rule finishes_then [OF reaches_banner], rule finishes_then [OF fill], rule finishes_bind [OF read], rule finishes_bind [OF read],
        rule finishes_value [OF sdram_sum_reaches], rule finishes_bind [OF read], rule finishes_bind [OF read],
        rule finishes_then [OF reaches_print])
      (auto simp del: uart_puts.simps seq_fw.simps intro: does_uart intro!: finishes_expects finishes_mono [OF finishes_pass])
qed

lemma measure_stride_reaches:
  assumes "array_ok buffer STRIDE_WORDS"
  shows "reaches hw A (measure_stride memory case_name buffer stride sink)
     (\<lambda>r _. r = (stride_checksum stride (map fill_value [0..<STRIDE_WORDS]),
        push_bit 5 sink XOR drop_bit 2 sink XOR stride_checksum stride (map fill_value [0..<STRIDE_WORDS])) \<and> True)"
proof -
  let ?xs = "map fill_value [0..<STRIDE_WORDS]"
  have fill: "reaches hw A (fill_words buffer) (\<lambda>_ M. words_at M buffer STRIDE_WORDS = ?xs)"
    by (rule reaches_mono [OF reaches_pre [OF fill_words_reaches(1) [OF assms undisturbed_True]]]) simp_all
  have run: "reaches hw (\<lambda>M. words_at M buffer STRIDE_WORDS = ?xs) (run_stride buffer stride) (\<lambda>c _. c = stride_checksum stride ?xs \<and> True)"
    by (rule reaches_mono [OF run_stride_reaches [OF assms]]) simp
  show ?thesis
    unfolding measure_stride_def Let_def
    by (rule reaches_then [OF fill], rule reaches_bind [OF reaches_perf(1)], rule reaches_value [OF run],
        rule reaches_bind [OF reaches_perf(2)], rule reaches_then [OF reaches_print])
      (auto simp del: uart_puts.simps intro: does_uart reaches_return)
qed

lemma measure_pair_reaches:
  assumes "array_ok bram_words STRIDE_WORDS" "array_ok sdram_words STRIDE_WORDS"
  shows "reaches hw A (measure_pair bram_words sdram_words case_name stride error_code sink) (\<lambda>_ _. True)"
  unfolding measure_pair_def
  by (rule reaches_value [OF measure_stride_reaches [OF assms(1)]], unfold prod.case,
      rule reaches_value [OF measure_stride_reaches [OF assms(2)]], unfold prod.case,
      rule reaches_then [OF reaches_expect reaches_return]) simp_all

lemma stride_bench_finishes:
  assumes "array_ok bram_words STRIDE_WORDS" "array_ok sdram_words STRIDE_WORDS"
  shows "finishes hw A (stride_bench_main bram_words sdram_words :: 'a fw) {1, 0xdead8106}"
  unfolding stride_bench_main_def
  by (rule finishes_then [OF reaches_banner], (rule finishes_bind [OF measure_pair_reaches [OF assms]])+,
      rule finishes_expect, rule finishes_mono [OF finishes_pass]) simp_all

lemma measure_stencil_reaches:
  assumes "stencil_layout src dst R"
  shows "reaches hw (\<lambda>M. words_at M src SYSTEM_WORDS = xs \<and> R M) (measure_stencil memory src dst)
    (\<lambda>c M. c = stencil_checksum xs \<and> get32 M (slot dst 127) = stencil_of xs 3 127 \<and> R M)"
  unfolding measure_stencil_def
  by (rule reaches_bind [OF reaches_perf(1)], rule reaches_value [OF run_stencil_reaches [OF assms]],
      rule reaches_bind [OF reaches_perf(2)], rule reaches_then [OF reaches_print])
    (auto simp del: uart_puts.simps intro: does_uart reaches_return)

lemma system_bench_finishes:
  assumes "system_layout bs bd ss sd"
  shows "finishes hw A (system_bench_main bs bd ss sd :: 'a fw) {1}"
proof -
  let ?xs = "map fill_value [0..<SYSTEM_WORDS]"
  let ?S = "\<lambda>M. words_at M ss SYSTEM_WORDS = ?xs" and ?B = "\<lambda>M. words_at M bs SYSTEM_WORDS = ?xs"
  let ?D = "\<lambda>M. get32 M (slot bd 127) = stencil_of ?xs 3 127"
  have ok: "array_ok bs SYSTEM_WORDS" "array_ok bd SYSTEM_WORDS" "array_ok ss SYSTEM_WORDS" "array_ok sd SYSTEM_WORDS"
    using assms by (simp_all add: system_layout_def)
  have apart: "arrays_apart ss SYSTEM_WORDS bs SYSTEM_WORDS" "arrays_apart bd SYSTEM_WORDS bs SYSTEM_WORDS"
      "arrays_apart bd SYSTEM_WORDS ss SYSTEM_WORDS" "arrays_apart sd SYSTEM_WORDS ss SYSTEM_WORDS"
      "arrays_apart sd SYSTEM_WORDS bd SYSTEM_WORDS"
    using assms arrays_apart_sym by (auto simp: system_layout_def)
  have fill1: "reaches hw A (fill_buffer bs) (\<lambda>_. ?B)"
    by (rule reaches_mono [OF reaches_pre [OF fill_words_reaches(2) [OF ok(1) undisturbed_True]]]) simp_all
  have fill2: "reaches hw ?B (fill_buffer ss) (\<lambda>_ M. ?S M \<and> ?B M)"
    by (rule fill_words_reaches(2) [OF ok(3) undisturbed_other [OF ok(3,1) apart(1)]])
  have S: "undisturbed bd SYSTEM_WORDS ?S" by (rule undisturbed_other [OF ok(2,3) apart(3)])
  have run1: "reaches hw (\<lambda>M. ?S M \<and> ?B M) (measure_stencil name bs bd) (\<lambda>c M. c = stencil_checksum ?xs \<and> ?D M \<and> ?S M)" for name
    by (rule reaches_pre [OF measure_stencil_reaches [where xs = ?xs and R = ?S]])
      (simp_all add: stencil_layout_def ok apart S)
  have D: "undisturbed sd SYSTEM_WORDS ?D"
    using undisturbed_other [OF ok(4,2) apart(5), of "\<lambda>xs. xs ! 127 = stencil_of ?xs 3 127"]
    by (simp add: SYSTEM_WORDS_def del: upt_rec_numeral)
  have run2: "reaches hw (\<lambda>M. ?D M \<and> ?S M) (measure_stencil name ss sd)
      (\<lambda>c M. c = stencil_checksum ?xs \<and> get32 M (slot sd 127) = stencil_of ?xs 3 127 \<and> ?D M)" for name
    by (rule reaches_pre [OF measure_stencil_reaches [where xs = ?xs and R = ?D]])
      (simp_all add: stencil_layout_def ok apart D)
  let ?E = "\<lambda>M. get32 M (slot sd 127) = stencil_of ?xs 3 127 \<and> ?D M"
  have load1: "reaches hw ?E (load32 (slot bd 127)) (\<lambda>v M. v = stencil_of ?xs 3 127 \<and> ?E M)"
    by (rule reaches_load32 [OF array_slot_aligned [OF ok(2)]]) simp
  have load2: "reaches hw ?E (load32 (slot sd 127)) (\<lambda>v M. v = stencil_of ?xs 3 127 \<and> ?E M)"
    by (rule reaches_load32 [OF array_slot_aligned [OF ok(4)]]) simp
  show ?thesis
    unfolding system_bench_main_def
    by (rule finishes_then [OF reaches_banner], rule finishes_then [OF fill1], rule finishes_then [OF fill2],
        rule finishes_value [OF run1], rule finishes_value [OF run2], rule finishes_then [OF reaches_expect], simp,
        rule finishes_value [OF load1], rule finishes_value [OF load2], rule finishes_then [OF reaches_expect], simp, rule finishes_pass)
qed

end

section \<open>Properties\<close>

text \<open>C31: With a live UART, memory that works and buffers that are aligned and do not overlap, the
  memory benchmarks never report an error of the memory: \<open>memset_bench\<close> and \<open>system_bench\<close>
  end with success, \<open>stride_bench\<close> can fail only on its sink, \<open>sdram_sum_bench\<close> only on its
  cycle counters. The expected sum is right, and each loop computes the same checksum in
  both memories, wherever its buffers lie.\<close>

theorem memory_benchmarks_pass:
  assumes "uart_tx hw" "array_ok bw STRIDE_WORDS" "array_ok sw STRIDE_WORDS" "system_layout bs bd ss sd"
  shows "(\<exists>m'. (memset_bench_main bb sb :: 'a fw) hw m = Some (Stop m') \<and> stopped_with {1} m') \<and>
    (\<exists>m'. (sdram_sum_bench_main :: 'a fw) hw m = Some (Stop m') \<and> stopped_with {1, 0xdead3002, 0xdead3003} m') \<and>
    (\<exists>m'. (stride_bench_main bw sw :: 'a fw) hw m = Some (Stop m') \<and> stopped_with {1, 0xdead8106} m') \<and>
    (\<exists>m'. (system_bench_main bs bd ss sd :: 'a fw) hw m = Some (Stop m') \<and> stopped_with {1} m')"
proof -
  have run: "\<exists>m'. f hw m = Some (Stop m') \<and> stopped_with C m'" if "finishes hw (\<lambda>_. True) f C" for f :: "'a fw" and C
    using that unfolding finishes_def by blast
  show ?thesis
    by (intro conjI run uart_tx.memset_bench_finishes uart_tx.sdram_sum_bench_finishes uart_tx.stride_bench_finishes
        uart_tx.system_bench_finishes assms)
qed

theorem memory_benchmarks_pass_witness:
  "\<forall>s0 m. \<exists>m'. (system_bench_main 0x2000 0x2400 0x80000000 0x80000400 :: unit fw) (soc_hw board_config s0) m = Some (Stop m') \<and> stopped_with {1} m'"
proof -
  have "array_ok 0x2000 STRIDE_WORDS" "array_ok 0x80000000 STRIDE_WORDS" by (simp_all add: array_ok_def STRIDE_WORDS_def)
  moreover have "system_layout 0x2000 0x2400 0x80000000 0x80000400"
    by (simp add: system_layout_def array_ok_def arrays_apart_def SYSTEM_WORDS_def)
  ultimately show ?thesis using memory_benchmarks_pass [OF soc_uart.uart_tx_axioms] by blast
qed

end
