(* ===== verification/Perf_Mix.thy ===== *)
theory Perf_Mix
  imports Bench_Support Word_Eval
begin

text \<open>
  The instruction mix benchmark \<open>benchmarks/perf_mix.c\<close>. Its four loops are functions of the
  buffer \<open>perf_buf\<close>; the checksums that the program compares with constants are evaluated.
\<close>

section \<open>The loops\<close>

definition MIXED_ROUNDS :: nat where "MIXED_ROUNDS = 32"

definition init_buffer :: "u32 list \<Rightarrow> u32 list option" where
  "init_buffer = fold_option (\<lambda>i perf_buf. array_put perf_buf i (of_nat i * 0x10203 + 0x55AA00FF)) [0..<64]"

definition alu_step :: "nat \<Rightarrow> u32 \<Rightarrow> u32" where
  "alu_step i v = push_bit 3 v XOR drop_bit 5 v XOR (of_nat i * 0x9E37)"

definition run_alu_dep :: u32 where
  "run_alu_dep = fold alu_step [0..<4096] 0x13579BDF"

definition branch_step :: "nat \<Rightarrow> u32 \<Rightarrow> u32" where
  "branch_step i s = (if (of_nat i :: u32) AND 1 = 0 then s + (of_nat i XOR 0x55AA) else s XOR (of_nat i + 0x33CC))"

definition run_branch_alternating :: u32 where
  "run_branch_alternating = fold branch_step [0..<4096] 0"

definition run_bram_load_store :: "u32 list \<Rightarrow> (u32 list \<times> u32) option" where
  "run_bram_load_store buf = fold_option (\<lambda>i (perf_buf, sum). do {
       v \<leftarrow> array_get perf_buf (i mod 64);
       perf_buf' \<leftarrow> array_put perf_buf (i mod 64) (v + of_nat i + 1);
       Some (perf_buf', sum XOR v)
     }) [0..<1024] (buf, 0)"

definition mixed_value :: "nat \<Rightarrow> nat \<Rightarrow> u32 \<Rightarrow> u32" where
  "mixed_value round i v =
     (let v1 = push_bit 1 v XOR (v + 0x9E3779B9 + of_nat round + of_nat i)
      in if v1 AND 1 \<noteq> 0 then v1 XOR 0xA5A5A5A5 else v1 + 0x3C6EF372)"

definition run_mixed :: "u32 list \<Rightarrow> (u32 list \<times> u32) option" where
  "run_mixed buf = fold_option (\<lambda>round. fold_option (\<lambda>i (perf_buf, checksum). do {
       v \<leftarrow> array_get perf_buf i;
       perf_buf' \<leftarrow> array_put perf_buf i (mixed_value round i v);
       Some (perf_buf', checksum XOR drop_bit (i mod 8) (mixed_value round i v))
     }) [0..<64]) [0..<MIXED_ROUNDS] (buf, 0)"

section \<open>The program\<close>

definition report_case :: "string \<Rightarrow> perf_snapshot \<Rightarrow> unit fw" where
  "report_case name snap = seq_fw
     [uart_puts (bytes ''RESULT: benchmark=perf_mix case=''), uart_puts (bytes name),
      uart_puts (bytes '' cycles=''), uart_put_dec (cycle snap), uart_puts (bytes '' instret=''), uart_put_dec (instret snap),
      uart_puts (bytes '' mem_wait=''), uart_put_dec (mem_wait snap), uart_puts [10]]"

text \<open>The counters around a loop and its report.\<close>

definition measured :: "string \<Rightarrow> 'a option \<Rightarrow> ('a \<times> perf_snapshot) fw" where
  "measured name result =
     bind_fw perf_begin (\<lambda>snap0. bind_fw (of_option_fw result) (\<lambda>r. bind_fw (perf_end snap0) (\<lambda>snap.
       then_fw (report_case name snap) (return_fw (r, snap)))))"

definition perf_mix_main :: "u32 list \<Rightarrow> 'a fw" where
  "perf_mix_main perf_buf =
     bind_fw (of_option_fw (init_buffer perf_buf)) (\<lambda>buf0.
     bind_fw (measured ''alu_dep'' (Some run_alu_dep)) (\<lambda>(checksum, snap).
       then_fw (test_expect (checksum \<noteq> 0) 0x41)
     (bind_fw (measured ''branch_alternating'' (Some run_branch_alternating)) (\<lambda>(checksum, snap).
       then_fw (test_expect (checksum \<noteq> 0) 0x42)
     (bind_fw (measured ''bram_load_store'' (run_bram_load_store buf0)) (\<lambda>((buf1, checksum), snap).
       then_fw (test_expect (checksum \<noteq> 0) 0x43)
     (bind_fw (of_option_fw (init_buffer buf1)) (\<lambda>buf2.
      bind_fw (measured ''mixed'' (run_mixed buf2)) (\<lambda>((buf3, checksum), snap).
       then_fw (seq_fw [test_expect (checksum = 0x387C3121) 0x44, test_expect (cycle snap \<noteq> 0) 0x45,
           test_expect (instret snap \<noteq> 0) 0x46, test_expect (mem_wait snap \<noteq> 0) 0x47])
         (then_fw uart_flush test_pass))))))))))"

section \<open>The two loops without memory\<close>

definition alu_bits :: "nat \<Rightarrow> bool list \<Rightarrow> bool list" where
  "alu_bits i c = xor_bits (False # False # False # c)
     (xor_bits (low_bits 32 (40503 * i)) (drop 5 (c @ replicate 5 False)))"

lemma alu_step_bits: "alu_bits i (bits32 c) = bits32 (alu_step i c)"
proof -
  have "(of_nat i * 0x9E37 :: u32) = of_nat (40503 * i)" by (simp add: mult.commute)
  then have "low_bits 32 (40503 * i) = bits32 (of_nat i * 0x9E37)" by (simp only: bits32_of_nat)
  moreover have "drop 5 (bits32 c @ replicate 5 False) = bits32 (drop_bit 5 c)"
    using bits32_drop [of 5 c] by (simp add: numeral_eq_Suc)
  moreover have "xor_bits (False # False # False # bits32 c) (bits32 b) = bits32 (push_bit 3 c XOR b)" for b
    using xor_bits_push [of 3 c b] by (simp add: numeral_eq_Suc)
  moreover have "xor_bits (bits32 a) (bits32 b) = bits32 (a XOR b)" for a b by (simp only: bits32_xor)
  ultimately have "alu_bits i (bits32 c) = bits32 (push_bit 3 c XOR (of_nat i * 0x9E37 XOR drop_bit 5 c))"
    unfolding alu_bits_def by (simp only:)
  then show ?thesis by (simp only: alu_step_def ac_simps)
qed

definition branch_bits :: "nat \<Rightarrow> bool list \<Rightarrow> bool list" where
  "branch_bits i c = (if even i then add_bits False c (xor_bits (low_bits 32 i) (low_bits 32 0x55AA))
     else xor_bits c (low_bits 32 (i + 0x33CC)))"

lemma odd_of_nat: "(of_nat i :: u32) AND 1 = 0 \<longleftrightarrow> even i"
  using and_exp_eq_0_iff_not_bit [of "of_nat i :: u32" 0] by (simp add: bit_0)

lemma branch_step_bits: "branch_bits i (bits32 c) = bits32 (branch_step i c)"
proof -
  have "(of_nat i + 0x33CC :: u32) = of_nat (i + 0x33CC)" by simp
  then have "bits32 (of_nat i + 0x33CC) = low_bits 32 (i + 0x33CC)" by (simp only: bits32_of_nat)
  then show ?thesis
    by (simp add: branch_bits_def branch_step_def odd_of_nat bits32_xor bits32_of_nat bits32_numeral bits32_add del: low_bits.simps)
qed

lemma branch_bits_eval:
  "branch_bits 0 c = add_bits False c (low_bits 32 0x55AA)"
  "branch_bits (numeral Num.One) c = xor_bits c (low_bits 32 (numeral Num.One + 0x33CC))"
  "branch_bits (numeral (Num.Bit0 k)) c = add_bits False c (xor_bits (low_bits 32 (numeral (Num.Bit0 k))) (low_bits 32 0x55AA))"
  "branch_bits (numeral (Num.Bit1 k)) c = xor_bits c (low_bits 32 (numeral (Num.Bit1 k) + 0x33CC))"
proof -
  show "branch_bits (numeral (Num.Bit0 k)) c = add_bits False c (xor_bits (low_bits 32 (numeral (Num.Bit0 k))) (low_bits 32 0x55AA))"
    by (simp add: branch_bits_def del: low_bits.simps)
  have "xor_bits (low_bits 32 0) (low_bits 32 0x55AA) = low_bits 32 0x55AA"
    by (simp only: bit_eval)
  then show "branch_bits 0 c = add_bits False c (low_bits 32 0x55AA)"
    by (simp add: branch_bits_def del: low_bits.simps)
qed (simp_all add: branch_bits_def del: low_bits.simps)

text \<open>Their results, evaluated.\<close>

lemma alu_dep_bits:
  "iterate_bits alu_bits 4096 0 (low_bits 32 0x13579BDF) = low_bits 32 0x705b30bb"
  by (simp only: alu_bits_def bit_eval)

lemma branch_alternating_bits:
  "iterate_bits branch_bits 4096 0 (low_bits 32 0) = low_bits 32 0x2c51000"
  by (simp only: branch_bits_eval bit_eval)

lemma alu_dep_value: "run_alu_dep = 0x705b30bb"
proof -
  have "bits32 run_alu_dep = iterate_bits alu_bits 4096 0 (low_bits 32 0x13579BDF)"
    unfolding run_alu_dep_def bits32_numeral [symmetric]
    using iterate_bits_fold [of 0 4096 alu_bits alu_step "0x13579BDF"] by (simp add: alu_step_bits del: upt_rec_numeral)
  then show ?thesis unfolding alu_dep_bits by (metis bits32_numeral bits32_inject)
qed

lemma branch_alternating_value: "run_branch_alternating = 0x2c51000"
proof -
  have "bits32 run_branch_alternating = iterate_bits branch_bits 4096 0 (low_bits 32 0)"
    unfolding run_branch_alternating_def bits32_of_nat [of 0, symmetric]
    using iterate_bits_fold [of 0 4096 branch_bits branch_step 0] by (simp add: branch_step_bits del: upt_rec_numeral)
  then show ?thesis unfolding branch_alternating_bits by (metis bits32_numeral bits32_inject)
qed

section \<open>The loops over the buffer\<close>

text \<open>A walk over the buffer that replaces each element and folds a result.\<close>

fun walk :: "(nat \<Rightarrow> 'a \<Rightarrow> 'a) \<Rightarrow> (nat \<Rightarrow> 'a \<Rightarrow> 's \<Rightarrow> 's) \<Rightarrow> nat \<Rightarrow> 'a list \<Rightarrow> 'a list \<Rightarrow> 's \<Rightarrow> 'a list \<times> 's" where
  "walk g h i [] ds s = (rev ds, s)"
| "walk g h i (v # vs) ds s = walk g h (Suc i) vs (g i v # ds) (h i v s)"

lemma walk_fold:
  assumes "\<And>i xs s. body i (xs, s) = do {
       v \<leftarrow> array_get xs (i mod 64); xs' \<leftarrow> array_put xs (i mod 64) (g i v); Some (xs', h i v s) }"
    and "length ds + length vs = 64" "i mod 64 = length ds"
  shows "fold_option body [i..<i + length vs] (rev ds @ vs, s) = Some (walk g h i vs ds s)"
  using assms(2,3)
proof (induction vs arbitrary: i ds s)
  case (Cons v vs)
  have range: "[i..<i + length (v # vs)] = i # [Suc i..<Suc i + length vs]" by (simp add: upt_conv_Cons del: upt_Suc)
  have step: "body i (rev ds @ v # vs, s) = Some (rev (g i v # ds) @ vs, h i v s)"
    using Cons.prems by (simp add: assms(1) array_get_def array_put_def nth_append list_update_append)
  show ?case
  proof (cases vs)
    case Nil
    then show ?thesis unfolding range using step by simp
  next
    case (Cons w ws)
    then have "Suc i mod 64 = length (g i v # ds)" using Cons.prems by (simp add: mod_Suc)
    with Cons.IH [of "g i v # ds" "Suc i" "h i v s"] Cons.prems show ?thesis unfolding range using step by simp
  qed
qed simp

lemma walk_map:
  assumes "\<And>i v. g' i (\<phi> v) = \<phi> (g i v)" "\<And>i v s. h' i (\<phi> v) (\<psi> s) = \<psi> (h i v s)"
  shows "walk g' h' i (map \<phi> vs) (map \<phi> ds) (\<psi> s) = map_prod (map \<phi>) \<psi> (walk g h i vs ds s)"
proof (induction vs arbitrary: i ds s)
  case (Cons v vs)
  then show ?case using Cons [of "Suc i" "g i v # ds" "h i v s"] by (simp add: assms)
qed (simp add: rev_map)

lemma walk_eval:
  "walk g h i [] ds s = (rev ds, s)"
  "walk g h 0 (v # vs) ds s = walk g h (numeral Num.One) vs (g 0 v # ds) (h 0 v s)"
  "walk g h (numeral k) (v # vs) ds s = walk g h (numeral (k + Num.One)) vs (g (numeral k) v # ds) (h (numeral k) v s)"
  by (simp_all only: walk.simps One_nat_def [symmetric] numeral_One Suc_numeral)

lemma length_walk: "length (fst (walk g h i vs ds s)) = length ds + length vs"
  by (induction vs arbitrary: i ds s) simp_all

text \<open>Rounds of walks; \<open>start r\<close> is the index at which round \<open>r\<close> begins.\<close>

fun rounds :: "(nat \<Rightarrow> 'a list \<Rightarrow> 's \<Rightarrow> 'a list \<times> 's) \<Rightarrow> nat \<Rightarrow> nat \<Rightarrow> 'a list \<Rightarrow> 's \<Rightarrow> 'a list \<times> 's" where
  "rounds w 0 r vs s = (vs, s)"
| "rounds w (Suc n) r vs s = (case w r vs s of (vs', s') \<Rightarrow> rounds w n (Suc r) vs' s')"

lemma rounds_eval:
  "rounds w 0 r vs s = (vs, s)"
  "rounds w (numeral n) 0 vs s = (case w 0 vs s of (vs', s') \<Rightarrow> rounds w (pred_numeral n) (numeral Num.One) vs' s')"
  "rounds w (numeral n) (numeral k) vs s =
     (case w (numeral k) vs s of (vs', s') \<Rightarrow> rounds w (pred_numeral n) (numeral (k + Num.One)) vs' s')"
  by (simp_all only: numeral_eq_Suc [of n] rounds.simps One_nat_def [symmetric] numeral_One Suc_numeral)

lemma rounds_map:
  assumes "\<And>r vs s. w' r (map \<phi> vs) (\<psi> s) = map_prod (map \<phi>) \<psi> (w r vs s)"
  shows "rounds w' n r (map \<phi> vs) (\<psi> s) = map_prod (map \<phi>) \<psi> (rounds w n r vs s)"
  by (induction n arbitrary: r vs s) (simp_all add: assms split: prod.split)

section \<open>Initialising the buffer\<close>

definition init_value :: "nat \<Rightarrow> u32" where
  "init_value i = of_nat i * 0x10203 + 0x55AA00FF"

lemma init_buffer_value:
  assumes "length buf = 64"
  shows "init_buffer buf = Some (map init_value [0..<64])"
proof -
  have "n \<le> 64 \<Longrightarrow> fold_option (\<lambda>i perf_buf. array_put perf_buf i (init_value i)) [0..<n] buf = Some (map init_value [0..<n] @ drop n buf)" for n
  proof (induction n)
    case (Suc n)
    then have "drop n buf = buf ! n # drop (Suc n) buf" using assms by (simp add: Cons_nth_drop_Suc)
    with Suc assms show ?case by (simp add: fold_option_append array_put_def list_update_append)
  qed simp
  from this [of 64] assms show ?thesis by (simp add: init_buffer_def init_value_def del: upt_rec_numeral)
qed

section \<open>Loads and stores\<close>

definition load_walk :: "nat \<Rightarrow> u32 list \<Rightarrow> u32 \<Rightarrow> u32 list \<times> u32" where
  "load_walk r vs s = walk (\<lambda>i v. v + of_nat i + 1) (\<lambda>i v s. s XOR v) (64 * r) vs [] s"

lemma load_rounds:
  assumes "length buf = 64"
  shows "run_bram_load_store buf = Some (rounds load_walk 16 0 buf 0)"
proof -
  let ?body = "\<lambda>i (perf_buf, s). do {
       v \<leftarrow> array_get perf_buf (i mod 64); perf_buf' \<leftarrow> array_put perf_buf (i mod 64) (v + of_nat i + 1 :: u32);
       Some (perf_buf', s XOR v) }"
  have "length vs = 64 \<Longrightarrow> fold_option ?body [64 * r..<64 * (r + n)] (vs, s) = Some (rounds load_walk n r vs s)" for n r vs s
  proof (induction n arbitrary: r vs s)
    case (Suc n)
    obtain vs' s' where w: "load_walk r vs s = (vs', s')" by (cases "load_walk r vs s")
    have "length vs' = 64"
      using length_walk [of "\<lambda>i v. v + of_nat i + 1" "\<lambda>i v s. s XOR v" "64 * r" vs "[]" s] Suc.prems w by (simp add: load_walk_def)
    moreover have "fold_option ?body [64 * r..<64 * r + length vs] (rev [] @ vs, s) = Some (load_walk r vs s)"
      unfolding load_walk_def using Suc.prems by (intro walk_fold) simp_all
    moreover have "[64 * r..<64 * (r + Suc n)] = [64 * r..<64 * r + 64] @ [64 * Suc r..<64 * (Suc r + n)]"
      using upt_add_eq_append [of "64 * r" "64 * r + 64" "64 * n"] by (simp add: algebra_simps)
    ultimately show ?case using Suc.IH [of vs' "Suc r" s'] Suc.prems by (simp add: fold_option_append w del: upt_rec_numeral)
  qed simp
  from this [OF assms, of 0 16 0] show ?thesis by (simp add: run_bram_load_store_def del: upt_rec_numeral)
qed

definition mixed_walk :: "nat \<Rightarrow> u32 list \<Rightarrow> u32 \<Rightarrow> u32 list \<times> u32" where
  "mixed_walk r vs s = walk (mixed_value r) (\<lambda>i v s. s XOR drop_bit (i mod 8) (mixed_value r i v)) 0 vs [] s"

lemma mixed_rounds:
  assumes "length buf = 64"
  shows "run_mixed buf = Some (rounds mixed_walk MIXED_ROUNDS 0 buf 0)"
proof -
  let ?body = "\<lambda>round i (perf_buf, checksum). do {
       v \<leftarrow> array_get perf_buf i; perf_buf' \<leftarrow> array_put perf_buf i (mixed_value round i v);
       Some (perf_buf', checksum XOR drop_bit (i mod 8) (mixed_value round i v)) }"
  let ?body' = "\<lambda>round i (perf_buf, checksum). do {
       v \<leftarrow> array_get perf_buf (i mod 64); perf_buf' \<leftarrow> array_put perf_buf (i mod 64) (mixed_value round i v);
       Some (perf_buf', checksum XOR drop_bit (i mod 8) (mixed_value round i v)) }"
  have one: "fold_option (?body r) [0..<64] (vs, s) = Some (mixed_walk r vs s)" if "length vs = 64" for r vs s
  proof -
    have "fold_option (?body r) is st = fold_option (?body' r) is st" if "\<forall>i \<in> set is. i < 64" for "is" st
      using that by (induction "is" arbitrary: st) (auto split: prod.split bind_splits)
    then have "fold_option (?body r) [0..<64] (vs, s) = fold_option (?body' r) [0..<64] (vs, s)" by simp
    moreover have "fold_option (?body' r) [0..<0 + length vs] (rev [] @ vs, s) = Some (mixed_walk r vs s)"
      unfolding mixed_walk_def using that by (intro walk_fold) simp_all
    ultimately show ?thesis using that by simp
  qed
  have "length vs = 64 \<Longrightarrow> fold_option (\<lambda>r. fold_option (?body r) [0..<64]) [r..<r + n] (vs, s) = Some (rounds mixed_walk n r vs s)"
    for n r vs s
  proof (induction n arbitrary: r vs s)
    case (Suc n)
    obtain vs' s' where w: "mixed_walk r vs s = (vs', s')" by (cases "mixed_walk r vs s")
    have "length vs' = 64"
      using length_walk [of "mixed_value r" "\<lambda>i v s. s XOR drop_bit (i mod 8) (mixed_value r i v)" 0 vs "[]" s] Suc.prems w
      by (simp add: mixed_walk_def)
    moreover have "[r..<r + Suc n] = r # [Suc r..<Suc r + n]" by (simp add: upt_conv_Cons del: upt_Suc)
    ultimately show ?case using Suc.IH [of vs' "Suc r" s'] one [OF Suc.prems, of r s] by (simp add: w del: upt_rec_numeral upt_Suc)
  qed simp
  from this [OF assms, of 0 MIXED_ROUNDS 0] show ?thesis by (simp add: run_mixed_def del: upt_rec_numeral)
qed

section \<open>Their results\<close>

definition load_bits :: "nat \<Rightarrow> bool list list \<Rightarrow> bool list \<Rightarrow> bool list list \<times> bool list" where
  "load_bits r vs s = walk (\<lambda>i v. add_bits False v (low_bits 32 (i + 1))) (\<lambda>i v s. xor_bits v s) (64 * r) vs [] s"

definition mix_bits :: "nat \<Rightarrow> nat \<Rightarrow> bool list \<Rightarrow> bool list" where
  "mix_bits r i v = xor_bits (False # v) (add_bits False v (low_bits 32 (0x9E3779B9 + r + i)))"

definition choose_bits :: "bool list \<Rightarrow> bool list" where
  "choose_bits v = (if hd v then xor_bits v (low_bits 32 0xA5A5A5A5) else add_bits False v (low_bits 32 0x3C6EF372))"

definition shift_bits :: "nat \<Rightarrow> bool list \<Rightarrow> bool list" where
  "shift_bits i v = drop (i mod 8) (v @ replicate 7 False)"

definition mixed_bits :: "nat \<Rightarrow> bool list list \<Rightarrow> bool list \<Rightarrow> bool list list \<times> bool list" where
  "mixed_bits r vs s = walk (\<lambda>i v. choose_bits (mix_bits r i v)) (\<lambda>i v s. xor_bits (shift_bits i (choose_bits (mix_bits r i v))) s) 0 vs [] s"

lemma load_walk_bits: "load_bits r (map bits32 vs) (bits32 s) = map_prod (map bits32) bits32 (load_walk r vs s)"
proof -
  have "v + of_nat i + 1 = v + of_nat (i + 1)" for v :: u32 and i by simp
  then have "bits32 (v + of_nat i + 1) = add_bits False (bits32 v) (low_bits 32 (i + 1))" for v i
    by (simp only: bits32_add bits32_of_nat)
  then show ?thesis
    unfolding load_bits_def load_walk_def
    by (intro walk_map [where ds = "[]", simplified]) (simp_all add: bits32_xor [symmetric] xor.commute)
qed

lemma choose_mix_bits: "choose_bits (mix_bits r i (bits32 v)) = bits32 (mixed_value r i v)"
proof -
  let ?v = "push_bit 1 v XOR (v + 0x9E3779B9 + of_nat r + of_nat i)"
  have "v + 0x9E3779B9 + of_nat r + of_nat i = v + of_nat (0x9E3779B9 + r + i)" by simp
  then have sum: "bits32 (v + 0x9E3779B9 + of_nat r + of_nat i) = add_bits False (bits32 v) (low_bits 32 (0x9E3779B9 + r + i))"
    by (simp only: bits32_add bits32_of_nat)
  then have mix: "mix_bits r i (bits32 v) = bits32 ?v"
    unfolding mix_bits_def sum [symmetric] using xor_bits_push [of 1 v] by simp
  have "hd (bits32 ?v) \<longleftrightarrow> ?v AND 1 \<noteq> 0" unfolding hd_bits32 using and_exp_eq_0_iff_not_bit [of ?v 0] by simp
  then show ?thesis
    unfolding mix choose_bits_def mixed_value_def Let_def by (simp add: bits32_xor bits32_add bits32_numeral del: low_bits.simps)
qed

lemma shift_bits_xor: "xor_bits (shift_bits i (bits32 v)) (bits32 s) = bits32 (s XOR drop_bit (i mod 8) v)"
proof (rule nth_equalityI)
  fix k assume "k < length (xor_bits (shift_bits i (bits32 v)) (bits32 s))"
  then show "xor_bits (shift_bits i (bits32 v)) (bits32 s) ! k \<longleftrightarrow> bits32 (s XOR drop_bit (i mod 8) v) ! k"
    using bit_beyond [of "i mod 8 + k" v]
    by (auto simp: nth_xor_bits shift_bits_def nth_append bit_xor_iff bit_drop_bit_eq)
qed simp

lemma mixed_walk_bits: "mixed_bits r (map bits32 vs) (bits32 s) = map_prod (map bits32) bits32 (mixed_walk r vs s)"
  unfolding mixed_bits_def mixed_walk_def
  by (intro walk_map [where ds = "[]", simplified]) (simp_all add: choose_mix_bits shift_bits_xor)

text \<open>Rules for evaluation.\<close>

lemma choose_bits_eval:
  "choose_bits (True # v) = xor_bits (True # v) (low_bits 32 0xA5A5A5A5)"
  "choose_bits (False # v) = add_bits False (False # v) (low_bits 32 0x3C6EF372)"
  by (simp_all add: choose_bits_def del: low_bits.simps xor_bits.simps add_bits.simps)

text \<open>The amount of a shift is the number of the lowest three bits.\<close>

fun drop_low :: "bool list \<Rightarrow> bool list \<Rightarrow> bool list" where
  "drop_low [a, b, c] v = drop (of_bool a + 2 * of_bool b + 4 * of_bool c) (v @ replicate 7 False)"
| "drop_low _ v = v"

lemma shift_bits_low: "shift_bits i v = drop_low (low_bits 3 i) v"
proof -
  have "i mod 8 = of_bool (odd i) + 2 * of_bool (odd (i div 2)) + 4 * of_bool (odd (i div 2 div 2))"
    using mod_mult2_eq [of i 2 4] mod_mult2_eq [of "i div 2" 2 2] by (simp add: mod_2_eq_odd)
  moreover have "low_bits 3 i = [odd i, odd (i div 2), odd (i div 2 div 2)]" by (simp add: numeral_3_eq_3)
  ultimately show ?thesis by (simp only: shift_bits_def drop_low.simps)
qed

lemma drop_low_eval:
  "drop_low [False, False, False] v = v @ replicate 7 False"
  "drop_low [True, False, False] v = drop 1 (v @ replicate 7 False)"
  "drop_low [False, True, False] v = drop 2 (v @ replicate 7 False)"
  "drop_low [True, True, False] v = drop 3 (v @ replicate 7 False)"
  "drop_low [False, False, True] v = drop 4 (v @ replicate 7 False)"
  "drop_low [True, False, True] v = drop 5 (v @ replicate 7 False)"
  "drop_low [False, True, True] v = drop 6 (v @ replicate 7 False)"
  "drop_low [True, True, True] v = drop 7 (v @ replicate 7 False)"
  by (simp_all add: numeral_2_eq_2 numeral_3_eq_3)

fun init_bits :: "nat \<Rightarrow> nat \<Rightarrow> bool list list" where
  "init_bits 0 i = []"
| "init_bits (Suc n) i = low_bits 32 (66051 * i + 0x55AA00FF) # init_bits n (Suc i)"

lemma init_bits_map: "init_bits n i = map bits32 (map init_value [i..<i + n])"
proof (induction n arbitrary: i)
  case (Suc n)
  have "init_value i = of_nat (66051 * i + 0x55AA00FF)" by (simp add: init_value_def mult.commute)
  then have "bits32 (init_value i) = low_bits 32 (66051 * i + 0x55AA00FF)" by (simp only: bits32_of_nat)
  moreover have "[i..<i + Suc n] = i # [Suc i..<Suc i + n]" by (simp add: upt_conv_Cons del: upt_Suc)
  ultimately show ?case using Suc by (simp del: upt_Suc low_bits.simps)
qed simp

lemma init_bits_eval:
  "init_bits 0 i = []"
  "init_bits (numeral n) 0 = low_bits 32 0x55AA00FF # init_bits (pred_numeral n) (numeral Num.One)"
  "init_bits (numeral n) (numeral k) = low_bits 32 (66051 * numeral k + 0x55AA00FF) # init_bits (pred_numeral n) (numeral (k + Num.One))"
  by (simp_all only: numeral_eq_Suc [of n] init_bits.simps One_nat_def [symmetric] numeral_One Suc_numeral mult_0_right add_0)

lemmas rounds_bit_eval = rounds_eval walk_eval init_bits_eval load_bits_def mixed_bits_def mix_bits_def choose_bits_eval
  shift_bits_low drop_low_eval rev.simps prod.case snd_conv add_0 add_0_right numeral_One [symmetric] bit_eval

lemma load_store_bits:
  "snd (rounds load_bits 16 0 (init_bits 64 0) (low_bits 32 0)) = low_bits 32 0x6b80"
  by (simp only: rounds_bit_eval cong: prod.case_cong_weak)

lemma mixed_result_bits:
  "snd (rounds mixed_bits 32 0 (init_bits 64 0) (low_bits 32 0)) = low_bits 32 0x387C3121"
  by (simp only: rounds_bit_eval cong: prod.case_cong_weak)

lemma low_bits_0: "low_bits 32 0 = bits32 0"
  using bits32_of_nat [of 0] by simp

lemma rounds_length:
  "(\<And>r vs s. length (fst (w r vs s)) = length vs) \<Longrightarrow> length (fst (rounds w n r vs s)) = length vs"
proof (induction n arbitrary: r vs s)
  case (Suc n)
  obtain vs' s' where "w r vs s = (vs', s')" by (cases "w r vs s")
  then show ?case using Suc.IH [OF Suc.prems, of "Suc r" vs' s'] Suc.prems [of r vs s] by simp
qed simp

lemma load_store_value:
  "\<exists>buf. run_bram_load_store (map init_value [0..<64]) = Some (buf, 0x6b80) \<and> length buf = 64"
proof -
  let ?r = "rounds load_walk 16 0 (map init_value [0..<64]) 0"
  have "snd (rounds load_bits 16 0 (init_bits 64 0) (low_bits 32 0)) = bits32 (snd ?r)"
    unfolding init_bits_map low_bits_0 using rounds_map [of load_bits bits32 bits32 load_walk, OF load_walk_bits, of 16 0 "map init_value [0..<0 + 64]" 0]
    by (simp del: upt_rec_numeral)
  then have "snd ?r = 0x6b80" unfolding load_store_bits by (metis bits32_numeral bits32_inject)
  moreover have "length (fst ?r) = 64" by (subst rounds_length) (simp_all add: load_walk_def length_walk)
  ultimately show ?thesis using load_rounds [of "map init_value [0..<64]"] by (cases ?r) simp
qed

lemma mixed_result_value: "\<exists>buf. run_mixed (map init_value [0..<64]) = Some (buf, 0x387C3121)"
proof -
  let ?r = "rounds mixed_walk MIXED_ROUNDS 0 (map init_value [0..<64]) 0"
  have "snd (rounds mixed_bits 32 0 (init_bits 64 0) (low_bits 32 0)) = bits32 (snd ?r)"
    unfolding init_bits_map low_bits_0 MIXED_ROUNDS_def
    using rounds_map [of mixed_bits bits32 bits32 mixed_walk, OF mixed_walk_bits, of 32 0 "map init_value [0..<0 + 64]" 0]
    by (simp del: upt_rec_numeral)
  then have "snd ?r = 0x387C3121" unfolding mixed_result_bits by (metis bits32_numeral bits32_inject)
  then show ?thesis using mixed_rounds [of "map init_value [0..<64]"] by (cases ?r) simp
qed

section \<open>The whole program\<close>

context uart_tx
begin

lemma reaches_measured:
  "reaches hw A (measured name (Some r)) (\<lambda>x M. fst x = r \<and> A M)"
  unfolding measured_def of_option_bind_fw report_case_def
  by (rule reaches_bind [OF reaches_perf(1)], rule reaches_bind [OF reaches_perf(2)], rule reaches_then [OF reaches_print])
    (auto simp del: uart_puts.simps intro: does_uart reaches_return)

lemma finishes_measured:
  assumes "\<And>snap. finishes hw A (g (r, snap)) C"
  shows "finishes hw A (bind_fw (measured name (Some r)) g) C"
proof (rule finishes_bind [OF reaches_measured], rule finishes_pure)
  fix x :: "'b \<times> perf_snapshot" assume "fst x = r"
  then show "finishes hw A (g x) C" using assms [of "snd x"] by (cases x) simp
qed

lemma perf_mix_finishes:
  assumes "length perf_buf = 64"
  shows "finishes hw A (perf_mix_main perf_buf :: 'a fw) {1, 0x45, 0x46, 0x47}"
proof -
  from load_store_value obtain buf1 where ls: "run_bram_load_store (map init_value [0..<64]) = Some (buf1, 0x6b80)" "length buf1 = 64"
    by blast
  from mixed_result_value obtain buf3 where mix: "run_mixed (map init_value [0..<64]) = Some (buf3, 0x387C3121)" by blast
  note vals = alu_dep_value branch_alternating_value
  have flush: "reaches hw A uart_flush (\<lambda>_. A)" by (rule reaches_does, rule does_uart)
  have last: "finishes hw A (then_fw (seq_fw [test_expect (0x387C3121 = (0x387C3121 :: u32)) 0x44, test_expect (cycle snap \<noteq> 0) 0x45,
      test_expect (instret snap \<noteq> 0) 0x46, test_expect (mem_wait snap \<noteq> 0) 0x47]) (then_fw uart_flush test_pass) :: 'a fw) {1, 0x45, 0x46, 0x47}" for snap
    by (intro finishes_expects finishes_then [OF flush] finishes_mono [OF finishes_pass]) simp_all
  show ?thesis
    unfolding perf_mix_main_def init_buffer_value [OF assms] of_option_bind_fw ls(1) vals
    by (rule finishes_measured, unfold prod.case, rule finishes_then [OF reaches_expect], simp,
        rule finishes_measured, unfold prod.case, rule finishes_then [OF reaches_expect], simp,
        rule finishes_measured, unfold prod.case init_buffer_value [OF ls(2)] of_option_bind_fw mix,
        rule finishes_then [OF reaches_expect], simp, rule finishes_measured, unfold prod.case, rule last)
qed

end

section \<open>Properties\<close>

text \<open>The checks of the instruction mix benchmark are right: with a live UART it always ends, its
  four loops never leave the buffer, and their checksums pass, the constant 0x387C3121 among them; it
  can fail only when a performance counter did not move.\<close>

lemma perf_mix_passes:
  assumes "uart_tx hw" "length perf_buf = 64"
  shows "\<exists>m'. (perf_mix_main perf_buf :: 'a fw) hw m = Some (Stop m') \<and> stopped_with {1, 0x45, 0x46, 0x47} m'"
  using uart_tx.perf_mix_finishes [OF assms, of "\<lambda>_. True"] unfolding finishes_def by blast

theorem perf_mix_passes_witness:
  "\<forall>s0 m. \<exists>m'. (perf_mix_main (replicate 64 0) :: unit fw) (soc_hw board_config s0) m = Some (Stop m') \<and> stopped_with {1, 0x45, 0x46, 0x47} m'"
  by (intro allI perf_mix_passes soc_uart.uart_tx_axioms) simp

end
