(* ===== verification/Riscv_Bench.thy ===== *)
theory Riscv_Bench
  imports Bench_Support Rt_Alloc
begin

text \<open>
  The platform layer of two benchmarks of riscv-tests, \<open>riscv_bench_memcpy.c\<close> and
  \<open>riscv_bench_median.c\<close>. The suite is a submodule that is not part of the repository: the data
  sets are the words at the addresses \<open>input_data\<close> and \<open>verify_data\<close>, and \<open>median\<close> is a parameter.
  The allocator, the memory routines and the reports are the firmware's.
\<close>

section \<open>The programs\<close>

definition call_memcpy :: "u32 \<Rightarrow> u32 \<Rightarrow> u32 \<Rightarrow> unit fw" where
  "call_memcpy dest src n hw m =
     (case std_memcpy (mem m) dest src n of
        None \<Rightarrow> Some Fault
      | Some (_, mm) \<Rightarrow> Some (Ret () (m\<lparr>mem := mm\<rparr>)))"

definition call_rt_memcpy :: "u32 \<Rightarrow> u32 \<Rightarrow> u32 \<Rightarrow> unit fw" where
  "call_rt_memcpy dest src n hw m =
     (case rt_memcpy (mem m) dest src n of
        None \<Rightarrow> Some Fault
      | Some (_, mm) \<Rightarrow> Some (Ret () (m\<lparr>mem := mm\<rparr>)))"

definition verify_copy :: "nat \<Rightarrow> u32 \<Rightarrow> u32 \<Rightarrow> u32 \<Rightarrow> unit fw" where
  "verify_copy DATA_SIZE input_data result error_base = for_fw [0..<DATA_SIZE] (\<lambda>i.
     bind_fw (load32 (slot result i)) (\<lambda>r. bind_fw (load32 (slot input_data i)) (\<lambda>d.
       test_expect (r = d) (error_base + of_nat i))))"

definition report_copy :: "nat \<Rightarrow> string \<Rightarrow> perf_snapshot \<Rightarrow> unit fw" where
  "report_copy DATA_SIZE path snap = seq_fw
     [uart_puts (bytes ''RESULT: benchmark=riscv_tests_memcpy path=''), uart_puts (bytes path),
      uart_puts (bytes '' bytes=''), uart_put_dec (of_nat (4 * DATA_SIZE)),
      uart_puts (bytes '' cycles=''), uart_put_dec (cycle snap), uart_puts (bytes '' instret=''), uart_put_dec (instret snap),
      uart_puts (bytes '' mem_wait=''), uart_put_dec (mem_wait snap), uart_puts [10]]"

definition riscv_memcpy_main :: "nat \<Rightarrow> heap_bounds \<Rightarrow> u32 \<Rightarrow> u32 \<Rightarrow> 'a fw" where
  "riscv_memcpy_main DATA_SIZE heap input_data bram_result =
     (let len = of_nat (4 * DATA_SIZE)
      in then_fw (test_banner ''riscv_tests_memcpy'')
     (bind_fw perf_begin (\<lambda>s0. then_fw (call_memcpy bram_result input_data len) (bind_fw (perf_end s0) (\<lambda>snap.
       then_fw (verify_copy DATA_SIZE input_data bram_result 0xdead6000)
     (then_fw (report_copy DATA_SIZE ''bram_to_bram'' snap)
     (case bump_alloc heap (heap_init heap) len 4 of (sdram_input, cursor) \<Rightarrow>
      case bump_alloc heap cursor len 4 of (sdram_result, cursor') \<Rightarrow>
       then_fw (test_expect (sdram_input \<noteq> 0 \<and> sdram_result \<noteq> 0) 0xdead6100)
      (then_fw (call_rt_memcpy sdram_input input_data len)
      (bind_fw perf_begin (\<lambda>s1. then_fw (call_memcpy sdram_result sdram_input len) (bind_fw (perf_end s1) (\<lambda>snap1.
       then_fw (verify_copy DATA_SIZE input_data sdram_result 0xdead6200)
        (then_fw (report_copy DATA_SIZE ''sdram_to_sdram'' snap1) test_pass)))))))))))))"

definition verify_result :: "nat \<Rightarrow> u32 \<Rightarrow> u32 \<Rightarrow> u32 \<Rightarrow> unit fw" where
  "verify_result DATA_SIZE verify_data result error_base = for_fw [0..<DATA_SIZE] (\<lambda>i.
     bind_fw (load32 (slot result i)) (\<lambda>r. bind_fw (load32 (slot verify_data i)) (\<lambda>d.
       test_expect (r = d) (error_base + of_nat i))))"

definition report_median :: "nat \<Rightarrow> string \<Rightarrow> perf_snapshot \<Rightarrow> unit fw" where
  "report_median DATA_SIZE memory snap = seq_fw
     [uart_puts (bytes ''RESULT: benchmark=riscv_tests_median memory=''), uart_puts (bytes memory),
      uart_puts (bytes '' elements=''), uart_put_dec (of_nat DATA_SIZE),
      uart_puts (bytes '' cycles=''), uart_put_dec (cycle snap), uart_puts (bytes '' instret=''), uart_put_dec (instret snap),
      uart_puts (bytes '' mem_wait=''), uart_put_dec (mem_wait snap), uart_puts [10]]"

definition riscv_median_main ::
    "(nat \<Rightarrow> u32 \<Rightarrow> u32 \<Rightarrow> unit fw) \<Rightarrow> nat \<Rightarrow> heap_bounds \<Rightarrow> u32 \<Rightarrow> u32 \<Rightarrow> u32 \<Rightarrow> u32 \<Rightarrow> 'a fw" where
  "riscv_median_main median DATA_SIZE heap input_data verify_data bram_input bram_result =
     (let len = of_nat (4 * DATA_SIZE)
      in then_fw (test_banner ''riscv_tests_median'')
     (then_fw (call_rt_memcpy bram_input input_data len)
     (bind_fw perf_begin (\<lambda>s0. then_fw (median DATA_SIZE bram_input bram_result) (bind_fw (perf_end s0) (\<lambda>snap.
       then_fw (verify_result DATA_SIZE verify_data bram_result 0xdead5000)
     (then_fw (report_median DATA_SIZE ''bram'' snap)
     (case bump_alloc heap (heap_init heap) len 4 of (sdram_input, cursor) \<Rightarrow>
      case bump_alloc heap cursor len 4 of (sdram_result, cursor') \<Rightarrow>
       then_fw (test_expect (sdram_input \<noteq> 0 \<and> sdram_result \<noteq> 0) 0xdead5100)
      (then_fw (call_rt_memcpy sdram_input input_data len)
      (bind_fw perf_begin (\<lambda>s1. then_fw (median DATA_SIZE sdram_input sdram_result) (bind_fw (perf_end s1) (\<lambda>snap1.
       then_fw (verify_result DATA_SIZE verify_data sdram_result 0xdead5200)
        (then_fw (report_median DATA_SIZE ''sdram'' snap1) test_pass))))))))))))))"

section \<open>Copies of arrays\<close>

lemma unat_slot_byte:
  fixes a :: u32
  assumes "4 * n \<le> 2 ^ 32" "i < n" "k < 4"
  shows "unat (slot a i + of_nat k - a) = 4 * i + k"
proof -
  have "slot a i + of_nat k - a = of_nat (4 * i + k)" by (simp add: slot_def)
  moreover have "4 * i + k < 2 ^ 32" using assms by linarith
  ultimately show ?thesis by (simp only: unat_of_nat_small)
qed

lemma get32_bytes: "get32 mm a = word_of_bytes (mm (a + of_nat 0)) (mm (a + of_nat 1)) (mm (a + of_nat 2)) (mm (a + of_nat 3))"
  by (simp add: get32_def)

lemma words_copy:
  assumes "array_ok d n"
  shows "words_at (copy_bytes mm d s (4 * n)) d n = words_at mm s n"
proof (rule nth_equalityI)
  fix i assume "i < length (words_at (copy_bytes mm d s (4 * n)) d n)"
  then have i: "i < n" by simp
  have "copy_bytes mm d s (4 * n) (slot d i + of_nat k) = mm (slot s i + of_nat k)" if k: "k < 4" for k
  proof -
    have "4 * n \<le> 2 ^ 32" using assms by (simp add: array_ok_def)
    from unat_slot_byte [OF this i k] have "unat (slot d i + of_nat k - d) < 4 * n" using i k by simp
    moreover have "s + (slot d i + of_nat k - d) = slot s i + of_nat k" by (simp add: slot_def)
    ultimately show ?thesis by (simp only: copy_bytes_def if_True)
  qed
  then show "words_at (copy_bytes mm d s (4 * n)) d n ! i = words_at mm s n ! i"
    using i by (simp only: nth_words_at get32_bytes)
qed simp

lemma words_copy_other:
  assumes "array_ok b n" "arrays_apart d n b n"
  shows "words_at (copy_bytes mm d s (4 * n)) b n = words_at mm b n"
proof (rule nth_equalityI)
  fix i assume "i < length (words_at (copy_bytes mm d s (4 * n)) b n)"
  then have i: "i < n" by simp
  have dis: "disjoint_regions b d (4 * n)"
    using assms(2) by (intro disjoint_apart) (simp_all add: arrays_apart_def)
  have "copy_bytes mm d s (4 * n) (slot b i + of_nat k) = mm (slot b i + of_nat k)" if k: "k < 4" for k
  proof -
    have "4 * n \<le> 2 ^ 32" using assms by (simp add: array_ok_def)
    from unat_slot_byte [OF this i k] have "unat (slot b i + of_nat k - b) < 4 * n" using i k by simp
    then have "\<not> unat (slot b i + of_nat k - d) < 4 * n" using dis by (auto simp: disjoint_regions_def)
    then show ?thesis by (simp only: copy_bytes_def if_False)
  qed
  then show "words_at (copy_bytes mm d s (4 * n)) b n ! i = words_at mm b n ! i"
    using i by (simp only: nth_words_at get32_bytes)
qed simp

lemma copy_reaches:
  assumes "array_ok d n" "arrays_apart d n s n" "\<And>M. A M \<Longrightarrow> words_at M s n = xs \<and> P M"
    and "\<And>M. P M \<Longrightarrow> P (copy_bytes M d s (4 * n))"
  shows "reaches hw A (call_rt_memcpy d s (of_nat (4 * n))) (\<lambda>_ M. words_at M d n = xs \<and> P M)"
    and "reaches hw A (call_memcpy d s (of_nat (4 * n))) (\<lambda>_ M. words_at M d n = xs \<and> P M)"
proof -
  have "4 * n < 2 ^ 32 \<or> 4 * n = 2 ^ 32" using assms(1) by (auto simp: array_ok_def)
  moreover have "unat (s - d) < 2 ^ 32" using unsigned_less [of "s - d", where 'a = nat] by simp
  ultimately have "4 * n < 2 ^ 32" using assms(2) by (auto simp: arrays_apart_def)
  then have len: "unat (of_nat (4 * n) :: u32) = 4 * n" by (rule unat_of_nat_small)
  have "disjoint_regions d s (4 * n)" using assms(2) by (intro disjoint_apart) (simp_all add: arrays_apart_def)
  then have copy: "rt_memcpy M d s (of_nat (4 * n)) = Some (d, copy_bytes M d s (4 * n))" for M
    using rt_memcpy_copies [of d s "of_nat (4 * n)" M] unfolding len by simp
  have post: "words_at (copy_bytes M d s (4 * n)) d n = xs \<and> P (copy_bytes M d s (4 * n))" if "A M" for M
    using assms(3) [OF that] assms(4) words_copy [OF assms(1)] by simp
  show "reaches hw A (call_rt_memcpy d s (of_nat (4 * n))) (\<lambda>_ M. words_at M d n = xs \<and> P M)"
    using post by (simp add: reaches_def call_rt_memcpy_def copy del: of_nat_mult)
  show "reaches hw A (call_memcpy d s (of_nat (4 * n))) (\<lambda>_ M. words_at M d n = xs \<and> P M)"
    using post by (simp add: reaches_def call_memcpy_def std_memcpy_def copy del: of_nat_mult)
qed

text \<open>Two arrays with the same words pass the comparison.\<close>

lemma verify_reaches:
  assumes "array_ok a n" "array_ok b n" "\<And>M. A M \<Longrightarrow> words_at M a n = words_at M b n"
  shows "reaches hw A (for_fw [0..<n] (\<lambda>i. bind_fw (load32 (slot a i)) (\<lambda>r. bind_fw (load32 (slot b i)) (\<lambda>d.
     test_expect (r = d) (error_base + of_nat i))))) (\<lambda>_. A)"
proof (rule reaches_for [where J = "\<lambda>_. A"])
  fix i assume i: "i < n"
  have same: "get32 M (slot a i) = get32 M (slot b i)" if "A M" for M
    using assms(3) [OF that] i nth_words_at by metis
  have "reaches hw A (load32 (slot a i)) (\<lambda>r M. r = get32 M (slot b i) \<and> A M)"
    by (rule reaches_load32 [OF array_slot_aligned [OF assms(1)]]) (simp add: same)
  moreover have "reaches hw (\<lambda>M. r = get32 M (slot b i) \<and> A M) (load32 (slot b i)) (\<lambda>d M. r = d \<and> A M)" for r
    by (rule reaches_load32 [OF array_slot_aligned [OF assms(2)]]) simp
  moreover have "reaches hw (\<lambda>M. r = d \<and> A M) (test_expect (r = d) c) (\<lambda>_. A)" for r d :: u32 and c
    by (rule reaches_pure) (simp add: reaches_expect)
  ultimately show "reaches hw A (bind_fw (load32 (slot a i)) (\<lambda>r. bind_fw (load32 (slot b i)) (\<lambda>d.
      test_expect (r = d) (error_base + of_nat i)))) (\<lambda>_. A)"
    by (blast intro: reaches_bind)
qed simp_all

section \<open>The heap\<close>

text \<open>An array that lies below the heap is apart from the blocks in it.\<close>

lemma below_apart:
  fixes a b :: u32
  assumes "unat a + 4 * n \<le> unat b" "unat b + 4 * n \<le> 2 ^ 32"
  shows "arrays_apart a n b n"
proof -
  have "unat (b - a) = unat b - unat a" using assms(1) by (simp add: unat_sub word_le_nat_alt)
  moreover have "unat (a - b) = 2 ^ 32 - (unat b - unat a)" if "0 < n"
    using assms(1) that by (simp add: unat_sub_if' word_le_nat_alt)
  ultimately show ?thesis using assms by (cases n) (auto simp: arrays_apart_def)
qed

lemma two_blocks:
  assumes "heap_ok h" "unat (heap_end h) + 4 \<le> 2 ^ 32" "4 * n < 2 ^ 32"
    and "bump_alloc h (heap_init h) (of_nat (4 * n)) 4 = (p, c)" "bump_alloc h c (of_nat (4 * n)) 4 = (q, c')" "p \<noteq> 0" "q \<noteq> 0"
  shows "unat (heap_start h) \<le> unat p" "unat p + 4 * n \<le> unat q" "unat q + 4 * n \<le> 2 ^ 32"
    "p AND 3 = 0" "q AND 3 = 0"
proof -
  have len: "unat (of_nat (4 * n) :: u32) = 4 * n" using assms(3) by (rule unat_of_nat_small)
  have align: "align_ok h 4" using assms(2) by (intro align_ok_pow2 [where k = 2]) (simp_all add: effective_align_def)
  have start: "alloc_ok h (heap_init h) 4" using assms(1) align by (simp add: alloc_ok_def cursor_ok_def heap_init_def heap_ok_def)
  have p: "block_fits h (heap_init h) (of_nat (4 * n)) 4 (unat p)" "unat c = unat p + 4 * n"
    using alloc_served [OF start, of "of_nat (4 * n)"] alloc_refused [OF start, of "of_nat (4 * n)"] assms(4,6) len
    by (fastforce simp del: of_nat_mult)+
  then have c: "heap_start h \<le> c" "c \<le> heap_end h" "c \<noteq> 0"
    using assms(1) len by (auto simp: block_fits_def heap_init_def current_def heap_ok_def word_le_nat_alt word_less_nat_alt
        simp del: of_nat_mult split: if_splits)
  then have "alloc_ok h c 4" using assms(1) align by (simp add: alloc_ok_def cursor_ok_def)
  then have q: "block_fits h c (of_nat (4 * n)) 4 (unat q)"
    using alloc_served [of h c 4 "of_nat (4 * n)"] alloc_refused [of h c 4 "of_nat (4 * n)"] assms(5,7)
    by (fastforce simp del: of_nat_mult)
  have al: "x AND 3 = 0" if "4 dvd unat x" for x :: u32
    using that unat_mod4 [of x] by (simp add: dvd_eq_mod_eq_0 unat_eq_zero)
  show "unat (heap_start h) \<le> unat p" "unat p + 4 * n \<le> unat q" "unat q + 4 * n \<le> 2 ^ 32" "p AND 3 = 0" "q AND 3 = 0"
    using p q c assms(1,2) len
    by (auto simp: block_fits_def heap_init_def current_def heap_ok_def effective_align_def word_le_nat_alt intro!: al
        simp del: of_nat_mult split: if_splits)
qed

section \<open>The runs\<close>

definition blocks_fit :: "heap_bounds \<Rightarrow> nat \<Rightarrow> bool" where
  "blocks_fit h n \<longleftrightarrow> (case bump_alloc h (heap_init h) (of_nat (4 * n)) 4 of (p, c) \<Rightarrow>
     p \<noteq> 0 \<and> fst (bump_alloc h c (of_nat (4 * n)) 4) \<noteq> 0)"

text \<open>The heap lies in the address space, above the read-only data.\<close>

definition heap_above :: "heap_bounds \<Rightarrow> nat \<Rightarrow> u32 \<Rightarrow> bool" where
  "heap_above h n a \<longleftrightarrow> heap_ok h \<and> unat (heap_end h) + 4 \<le> 2 ^ 32 \<and> array_ok a n \<and>
     unat a + 4 * n \<le> unat (heap_start h)"

text \<open>The two blocks: words can be copied there without changing the data below the heap.\<close>

lemma heap_copies:
  assumes "heap_above h n inp" "heap_above h n b"
    and "bump_alloc h (heap_init h) (of_nat (4 * n)) 4 = (p, c)" "bump_alloc h c (of_nat (4 * n)) 4 = (q, c')" "p \<noteq> 0" "q \<noteq> 0"
  shows "array_ok p n" "array_ok q n" "arrays_apart p n b n" "arrays_apart q n b n" "arrays_apart q n p n"
proof -
  have small: "4 * n < 2 ^ 32" and heap: "heap_ok h" "unat (heap_end h) + 4 \<le> 2 ^ 32"
    using assms(1) unsigned_less [of "heap_start h", where 'a = nat] by (simp_all add: heap_above_def)
  note blocks = two_blocks [OF heap small assms(3-6)]
  show "array_ok p n" "array_ok q n" using blocks(4,5) small by (simp_all add: array_ok_def)
  have "unat b + 4 * n \<le> unat p" "unat b + 4 * n \<le> unat q" using assms(2) blocks(1,2) by (simp_all add: heap_above_def)
  then show "arrays_apart p n b n" "arrays_apart q n b n" "arrays_apart q n p n"
    using blocks by (auto intro!: arrays_apart_sym [OF below_apart])
qed

context uart_tx
begin

lemma riscv_memcpy_finishes:
  assumes "heap_above h n inp" "array_ok res n" "arrays_apart res n inp n"
  shows "finishes hw (\<lambda>M. words_at M inp n = xs) (riscv_memcpy_main n h inp res :: 'a fw) (if blocks_fit h n then {1} else {0xdead6100})"
proof -
  obtain p c where p: "bump_alloc h (heap_init h) (of_nat (4 * n)) 4 = (p, c)" by fastforce
  obtain q c' where q: "bump_alloc h c (of_nat (4 * n)) 4 = (q, c')" by fastforce
  let ?I = "\<lambda>M. words_at M inp n = xs"
  have inp: "array_ok inp n" using assms(1) by (simp add: heap_above_def)
  have copy1: "reaches hw ?I (call_memcpy res inp (of_nat (4 * n))) (\<lambda>_ M. words_at M res n = xs \<and> ?I M)"
    by (rule copy_reaches(2) [OF assms(2,3)]) (simp_all add: words_copy_other [OF inp assms(3)])
  have verify1: "reaches hw (\<lambda>M. words_at M res n = xs \<and> ?I M) (verify_copy n inp res code) (\<lambda>_. ?I)" for code
    unfolding verify_copy_def by (rule reaches_mono [OF verify_reaches [OF assms(2) inp]]) simp_all
  have print: "reaches hw A (report_copy n name snap) (\<lambda>_. A)" for A name snap
    unfolding report_copy_def by (rule reaches_print) (auto simp del: uart_puts.simps intro: does_uart)
  have rest: "finishes hw ?I (then_fw (call_rt_memcpy p inp (of_nat (4 * n)))
      (bind_fw perf_begin (\<lambda>s1. then_fw (call_memcpy q p (of_nat (4 * n))) (bind_fw (perf_end s1) (\<lambda>snap1.
       then_fw (verify_copy n inp q 0xdead6200) (then_fw (report_copy n name snap1) test_pass))))) :: 'a fw) {1}"
    if "p \<noteq> 0" "q \<noteq> 0" for name
  proof -
    note h = heap_copies [OF assms(1,1) p q that]
    have copy2: "reaches hw ?I (call_rt_memcpy p inp (of_nat (4 * n))) (\<lambda>_ M. words_at M p n = xs \<and> ?I M)"
      by (rule copy_reaches(1) [OF h(1,3)]) (simp_all add: words_copy_other [OF inp h(3)])
    have copy3: "reaches hw (\<lambda>M. words_at M p n = xs \<and> ?I M) (call_memcpy q p (of_nat (4 * n))) (\<lambda>_ M. words_at M q n = xs \<and> ?I M)"
      by (rule copy_reaches(2) [OF h(2,5)]) (simp_all add: words_copy_other [OF inp h(4)])
    have verify2: "reaches hw (\<lambda>M. words_at M q n = xs \<and> ?I M) (verify_copy n inp q code) (\<lambda>_. ?I)" for code
      unfolding verify_copy_def by (rule reaches_mono [OF verify_reaches [OF h(2) inp]]) simp_all
    show ?thesis
      by (rule finishes_then [OF copy2], rule finishes_bind [OF reaches_perf(1)], rule finishes_then [OF copy3],
          rule finishes_bind [OF reaches_perf(2)], rule finishes_then [OF verify2], rule finishes_then [OF print], rule finishes_pass)
  qed
  have fit: "blocks_fit h n \<longleftrightarrow> p \<noteq> 0 \<and> q \<noteq> 0" by (simp add: blocks_fit_def p q del: of_nat_mult)
  have heap: "finishes hw ?I (then_fw (test_expect (p \<noteq> 0 \<and> q \<noteq> 0) 0xdead6100) (then_fw (call_rt_memcpy p inp (of_nat (4 * n)))
      (bind_fw perf_begin (\<lambda>s1. then_fw (call_memcpy q p (of_nat (4 * n))) (bind_fw (perf_end s1) (\<lambda>snap1.
       then_fw (verify_copy n inp q 0xdead6200) (then_fw (report_copy n name snap1) test_pass)))))) :: 'a fw)
      (if blocks_fit h n then {1} else {0xdead6100})" for name
    using rest finishes_fail by (auto simp: fit test_expect_def then_fw_def simp del: of_nat_mult)
  show ?thesis
    unfolding riscv_memcpy_main_def Let_def p q prod.case
    by (rule finishes_then [OF reaches_banner], rule finishes_bind [OF reaches_perf(1)], rule finishes_then [OF copy1],
        rule finishes_bind [OF reaches_perf(2)], rule finishes_then [OF verify1], rule finishes_then [OF print], rule heap)
qed

end

text \<open>What is asked of \<open>median\<close>: on the data set it writes the expected result, and nothing else.\<close>

definition median_ok :: "hw \<Rightarrow> (nat \<Rightarrow> u32 \<Rightarrow> u32 \<Rightarrow> unit fw) \<Rightarrow> nat \<Rightarrow> u32 list \<Rightarrow> u32 list \<Rightarrow> bool" where
  "median_ok hw median n xs ys \<longleftrightarrow>
     (\<forall>inp res R. array_ok inp n \<longrightarrow> array_ok res n \<longrightarrow> arrays_apart res n inp n \<longrightarrow> undisturbed res n R \<longrightarrow>
        reaches hw (\<lambda>M. words_at M inp n = xs \<and> R M) (median n inp res) (\<lambda>_ M. words_at M res n = ys \<and> R M))"

definition median_layout :: "heap_bounds \<Rightarrow> nat \<Rightarrow> u32 \<Rightarrow> u32 \<Rightarrow> u32 \<Rightarrow> u32 \<Rightarrow> bool" where
  "median_layout h n inp ver bi br \<longleftrightarrow> heap_above h n inp \<and> heap_above h n ver \<and> array_ok bi n \<and> array_ok br n \<and>
     arrays_apart bi n inp n \<and> arrays_apart bi n ver n \<and>
     arrays_apart br n bi n \<and> arrays_apart br n inp n \<and> arrays_apart br n ver n"

context uart_tx
begin

lemma riscv_median_finishes:
  assumes layout: "median_layout h n inp ver bi br" and median: "median_ok hw median n xs ys"
  shows "finishes hw (\<lambda>M. words_at M inp n = xs \<and> words_at M ver n = ys) (riscv_median_main median n h inp ver bi br :: 'a fw)
    (if blocks_fit h n then {1} else {0xdead5100})"
proof -
  obtain p c where p: "bump_alloc h (heap_init h) (of_nat (4 * n)) 4 = (p, c)" by fastforce
  obtain q c' where q: "bump_alloc h c (of_nat (4 * n)) 4 = (q, c')" by fastforce
  let ?I = "\<lambda>M. words_at M inp n = xs \<and> words_at M ver n = ys"
  have above: "heap_above h n inp" "heap_above h n ver" and ok: "array_ok bi n" "array_ok br n"
    and apart: "arrays_apart bi n inp n" "arrays_apart bi n ver n" "arrays_apart br n bi n" "arrays_apart br n inp n" "arrays_apart br n ver n"
    using layout by (simp_all add: median_layout_def)
  then have inp: "array_ok inp n" "array_ok ver n" by (simp_all add: heap_above_def)
  have copy: "reaches hw ?I (call_rt_memcpy d inp (of_nat (4 * n))) (\<lambda>_ M. words_at M d n = xs \<and> ?I M)"
    if "array_ok d n" "arrays_apart d n inp n" "arrays_apart d n ver n" for d
    by (rule copy_reaches(1) [OF that(1,2)]) (simp_all add: words_copy_other [OF inp(1) that(2)] words_copy_other [OF inp(2) that(3)])
  have run: "reaches hw (\<lambda>M. words_at M a n = xs \<and> ?I M) (median n a r) (\<lambda>_ M. words_at M r n = ys \<and> ?I M)"
    if "array_ok a n" "array_ok r n" "arrays_apart r n a n" "arrays_apart r n inp n" "arrays_apart r n ver n" for a r
  proof -
    have "undisturbed r n ?I"
      by (rule undisturbed_conj [OF undisturbed_other [OF that(2) inp(1) that(4)] undisturbed_other [OF that(2) inp(2) that(5)]])
    then show ?thesis by (rule median [unfolded median_ok_def, rule_format, OF that(1,2,3)])
  qed
  have verify: "reaches hw (\<lambda>M. words_at M r n = ys \<and> ?I M) (verify_result n ver r code) (\<lambda>_. ?I)" if "array_ok r n" for r code
    unfolding verify_result_def by (rule reaches_mono [OF verify_reaches [OF that inp(2)]]) simp_all
  have print: "reaches hw A (report_median n name snap) (\<lambda>_. A)" for A name snap
    unfolding report_median_def by (rule reaches_print) (auto simp del: uart_puts.simps intro: does_uart)
  have rest: "finishes hw ?I (then_fw (call_rt_memcpy p inp (of_nat (4 * n)))
      (bind_fw perf_begin (\<lambda>s1. then_fw (median n p q) (bind_fw (perf_end s1) (\<lambda>snap1.
       then_fw (verify_result n ver q 0xdead5200) (then_fw (report_median n name snap1) test_pass))))) :: 'a fw) {1}"
    if "p \<noteq> 0" "q \<noteq> 0" for name
  proof -
    note h = heap_copies [OF above(1) above(1) p q that] and v = heap_copies [OF above(1) above(2) p q that]
    show ?thesis
      by (rule finishes_then [OF copy [OF h(1,3) v(3)]], rule finishes_bind [OF reaches_perf(1)],
          rule finishes_then [OF run [OF h(1,2,5,4) v(4)]], rule finishes_bind [OF reaches_perf(2)],
          rule finishes_then [OF verify [OF h(2)]], rule finishes_then [OF print], rule finishes_pass)
  qed
  have fit: "blocks_fit h n \<longleftrightarrow> p \<noteq> 0 \<and> q \<noteq> 0" by (simp add: blocks_fit_def p q del: of_nat_mult)
  have heap: "finishes hw ?I (then_fw (test_expect (p \<noteq> 0 \<and> q \<noteq> 0) 0xdead5100) (then_fw (call_rt_memcpy p inp (of_nat (4 * n)))
      (bind_fw perf_begin (\<lambda>s1. then_fw (median n p q) (bind_fw (perf_end s1) (\<lambda>snap1.
       then_fw (verify_result n ver q 0xdead5200) (then_fw (report_median n name snap1) test_pass)))))) :: 'a fw)
      (if blocks_fit h n then {1} else {0xdead5100})" for name
    using rest finishes_fail by (auto simp: fit test_expect_def then_fw_def simp del: of_nat_mult)
  show ?thesis
    unfolding riscv_median_main_def Let_def p q prod.case
    by (rule finishes_then [OF reaches_banner], rule finishes_then [OF copy [OF ok(1) apart(1,2)]], rule finishes_bind [OF reaches_perf(1)],
        rule finishes_then [OF run [OF ok apart(3,4,5)]], rule finishes_bind [OF reaches_perf(2)],
        rule finishes_then [OF verify [OF ok(2)]], rule finishes_then [OF print], rule heap)
qed

end

section \<open>Properties\<close>

text \<open>The platform layer of the two riscv-tests benchmarks is right for every data set: with a live
  UART and objects that do not overlap, both programs end, with success exactly if the heap has
  room for two blocks of the size of the data, and else with the code for a failed allocation.
  The copies in BRAM and in the blocks of the allocator are faithful; for the median, if the
  kernel of the suite computes the expected result on the data set.\<close>

lemma riscv_benchmarks_pass:
  assumes "uart_tx hw" "median_layout h n inp ver bi br" "median_ok hw median n (words_at (mem m) inp n) (words_at (mem m) ver n)"
  shows "(\<exists>m'. (riscv_memcpy_main n h inp br :: 'a fw) hw m = Some (Stop m') \<and>
      stopped_with (if blocks_fit h n then {1} else {0xdead6100}) m') \<and>
    (\<exists>m'. (riscv_median_main median n h inp ver bi br :: 'a fw) hw m = Some (Stop m') \<and>
      stopped_with (if blocks_fit h n then {1} else {0xdead5100}) m')"
proof
  have "heap_above h n inp" "array_ok br n" "arrays_apart br n inp n" using assms(2) by (simp_all add: median_layout_def)
  from uart_tx.riscv_memcpy_finishes [OF assms(1) this, of "words_at (mem m) inp n"]
  show "\<exists>m'. (riscv_memcpy_main n h inp br :: 'a fw) hw m = Some (Stop m') \<and>
      stopped_with (if blocks_fit h n then {1} else {0xdead6100}) m'"
    unfolding finishes_def by blast
  from uart_tx.riscv_median_finishes [OF assms]
  show "\<exists>m'. (riscv_median_main median n h inp ver bi br :: 'a fw) hw m = Some (Stop m') \<and>
      stopped_with (if blocks_fit h n then {1} else {0xdead5100}) m'"
    unfolding finishes_def by blast
qed

text \<open>Four words, and a function that stores the expected result.\<close>

theorem riscv_benchmarks_pass_witness:
  "\<forall>s0. \<exists>m'. (riscv_median_main (\<lambda>n inp res. for_fw [0..<n] (\<lambda>i. store32 (slot res i) 0)) 4 \<lparr>heap_start = 0x8000, heap_end = 0x9000\<rparr>
      0x1000 0x1100 0x1200 0x1300 :: unit fw) (soc_hw board_config s0) \<lparr>mem = \<lambda>_. 0, trace = []\<rparr> = Some (Stop m') \<and> stopped_with {1} m'"
proof
  fix s0
  let ?h = "\<lparr>heap_start = 0x8000, heap_end = 0x9000\<rparr>" and ?m = "\<lparr>mem = \<lambda>_. 0 :: u8, trace = []\<rparr>"
  let ?median = "\<lambda>n inp res. for_fw [0..<n] (\<lambda>i. store32 (slot res i) 0)" and ?hw = "soc_hw board_config s0"
  have layout: "median_layout ?h 4 0x1000 0x1100 0x1200 0x1300"
    by (simp add: median_layout_def heap_above_def heap_ok_def array_ok_def arrays_apart_def)
  have words: "words_at (mem ?m) a 4 = map (\<lambda>_. 0) [0..<4]" for a
    by (rule words_at_eq) (simp add: get32_def word_of_bytes_def)
  have median: "median_ok ?hw ?median 4 (words_at (mem ?m) 0x1000 4) (words_at (mem ?m) 0x1100 4)"
    unfolding median_ok_def words
    by (intro allI impI) (rule reaches_pre [OF fill_reaches], simp_all)
  have fit: "blocks_fit ?h 4" by code_simp
  show "\<exists>m'. (riscv_median_main ?median 4 ?h 0x1000 0x1100 0x1200 0x1300 :: unit fw) ?hw ?m = Some (Stop m') \<and> stopped_with {1} m'"
    using riscv_benchmarks_pass [OF soc_uart.uart_tx_axioms layout median] unfolding if_P [OF fit] by blast
qed

end
