(* ===== verification/Heap_Smoke.thy ===== *)
theory Heap_Smoke
  imports Bench_Support Rt_Alloc
begin

text \<open>
  The test \<open>firmware/tests/runtime_heap_smoke.c\<close> of start-up, string routines and allocator. It
  runs the models of \<open>runtime/rt_string.c\<close> and \<open>runtime/rt_alloc.c\<close> on one memory. The addresses
  of its variables are the record \<open>smoke_layout\<close>; the cursor of the allocator is passed along.
\<close>

section \<open>The test\<close>

record smoke_layout =
  data_marker :: u32
  bss_marker :: u32
  sdram_data_marker :: u32
  sdram_bss_marker :: u32
  buf_at :: u32             \<comment> \<open>\<open>buf\<close>, 16 bytes on the stack\<close>
  seq_at :: u32             \<comment> \<open>\<open>seq\<close>, 8 bytes on the stack\<close>
  heap_region :: heap_bounds

definition sdram_present :: "bool fw" where
  "sdram_present =
     (let a = TINYBUS_SDRAM_BASE + 0x100; b = TINYBUS_SDRAM_BASE + 0x200
      in then_fw (store32 a 0xA5A50001) (then_fw (store32 b 0x5A5A0002)
        (bind_fw (load32 a) (\<lambda>va.
           if va = 0xA5A50001 then bind_fw (load32 b) (\<lambda>vb. return_fw (vb = 0x5A5A0002)) else return_fw False))))"

definition expect_word_at :: "u32 \<Rightarrow> u32 \<Rightarrow> u32 \<Rightarrow> unit fw" where
  "expect_word_at a v code = bind_fw (load32 a) (\<lambda>w. test_expect (w = v) code)"

definition expect_byte_at :: "u32 \<Rightarrow> u8 \<Rightarrow> u32 \<Rightarrow> unit fw" where
  "expect_byte_at a v code = bind_fw (load8 a) (\<lambda>w. test_expect (w = v) code)"

text \<open>Two bytes in one expectation: the second is read only if the first is right.\<close>

definition expect_bytes_at :: "u32 \<Rightarrow> u8 \<Rightarrow> u32 \<Rightarrow> u8 \<Rightarrow> u32 \<Rightarrow> unit fw" where
  "expect_bytes_at a v b w code =
     bind_fw (load8 a) (\<lambda>va.
       if va = v then bind_fw (load8 b) (\<lambda>vb. test_expect (vb = w) code) else test_expect False code)"

text \<open>A string routine that works on memory; its result is not used.\<close>

definition run_string :: "(memory \<Rightarrow> (u32 \<times> memory) option) \<Rightarrow> unit fw" where
  "run_string f hw m =
     (case f (mem m) of None \<Rightarrow> Some Fault | Some (r, mm) \<Rightarrow> Some (Ret () (m\<lparr>mem := mm\<rparr>)))"

definition startup_checks :: "smoke_layout \<Rightarrow> unit fw" where
  "startup_checks L = seq_fw
     [expect_word_at (data_marker L) 0x1234ABCD 0xdead0001,
      expect_word_at (bss_marker L) 0 0xdead0002,
      bind_fw sdram_present (\<lambda>p. test_expect p 0xdead0010),
      expect_word_at (sdram_data_marker L) 0xCAFEF00D 0xdead0003,
      expect_word_at (sdram_bss_marker L) 0 0xdead0004,
      store32 (sdram_data_marker L) 0x55AA55AA,
      expect_word_at (sdram_data_marker L) 0x55AA55AA 0xdead0005,
      store32 (sdram_bss_marker L) 0x99,
      expect_word_at (sdram_bss_marker L) 0x99 0xdead0006,
      rt_puts (bytes ''runtime_heap_smoke: sdram window present, sdram segments verified'' @ [10])]"

definition string_checks :: "smoke_layout \<Rightarrow> unit fw" where
  "string_checks L = (let buf = buf_at L; sq = seq_at L in seq_fw
     [run_string (\<lambda>mm. std_memset mm buf 0xAB 16),
      for_fw [0..<16] (\<lambda>i. expect_byte_at (buf + of_nat i) 0xAB (0xdead1000 + of_nat i)),
      for_fw [0..<8] (\<lambda>i. store8 (sq + of_nat i) (of_nat i)),
      run_string (\<lambda>mm. std_memcpy mm buf sq 8),
      for_fw [0..<8] (\<lambda>i. expect_byte_at (buf + of_nat i) (of_nat i) (0xdead1100 + of_nat i)),
      run_string (\<lambda>mm. Some (std_memmove mm (buf + 2) buf 6)),
      expect_byte_at (buf + 2) 0 0xdead1200, expect_byte_at (buf + 3) 1 0xdead1201,
      expect_byte_at (buf + 4) 2 0xdead1202, expect_byte_at (buf + 5) 3 0xdead1203,
      expect_byte_at (buf + 6) 4 0xdead1204, expect_byte_at (buf + 7) 5 0xdead1205,
      for_fw [0..<8] (\<lambda>i. store8 (buf + of_nat i) (of_nat i)),
      run_string (\<lambda>mm. Some (std_memmove mm buf (buf + 2) 6)),
      expect_byte_at buf 2 0xdead1210, expect_byte_at (buf + 1) 3 0xdead1211,
      expect_byte_at (buf + 2) 4 0xdead1212, expect_byte_at (buf + 3) 5 0xdead1213,
      expect_byte_at (buf + 4) 6 0xdead1214, expect_byte_at (buf + 5) 7 0xdead1215,
      run_string (\<lambda>mm. rt_memset mm buf 0x11 16),
      expect_bytes_at buf 0x11 (buf + 15) 0x11 0xdead1220,
      run_string (\<lambda>mm. rt_memcpy mm buf sq 8),
      expect_bytes_at buf 0 (buf + 7) 7 0xdead1221,
      run_string (\<lambda>mm. Some (rt_memmove mm (buf + 1) buf 4)),
      expect_bytes_at (buf + 1) 0 (buf + 4) 3 0xdead1222])"

definition allocator_checks :: "heap_bounds \<Rightarrow> unit fw" where
  "allocator_checks h =
     (let c0 = heap_init h;
          (p0, c1) = bump_alloc h c0 16 4;
          (p1, c2) = bump_alloc h c1 16 4;
          (p2, c3) = bump_alloc h c2 8 16;
          d0 = heap_init h;
          heap_capacity = heap_end h - heap_start h;
          (q, d1) = bump_alloc h d0 (heap_capacity + 16) 4;
          (r, d2) = bump_alloc h (heap_init h) 32 4;
          d3 = heap_init h;
          (s, d4) = bump_alloc h d3 32 4
      in seq_fw
       [test_expect (heap_used h c0 = 0) 0xdead2000,
        test_expect (p0 \<noteq> 0) 0xdead2001,
        test_expect (p1 \<noteq> 0) 0xdead2002,
        test_expect (p0 + 16 \<le> p1) 0xdead2003,
        test_expect (p2 \<noteq> 0) 0xdead2004,
        test_expect (p2 AND 0xF = 0) 0xdead2005,
        test_expect (q = 0) 0xdead2006,
        test_expect (heap_used h d1 = 0) 0xdead2007,
        test_expect (r \<noteq> 0) 0xdead2008,
        test_expect (heap_used h d3 = 0) 0xdead2009,
        test_expect (s \<noteq> 0) 0xdead200A,
        test_expect (TINYBUS_SDRAM_BASE \<le> heap_start h) 0xdead2100])"

definition heap_block_checks :: "heap_bounds \<Rightarrow> unit fw" where
  "heap_block_checks h =
     (let (blk, c) = bump_alloc h (heap_init h) (16 * 4) 4
      in seq_fw
       [test_expect (blk \<noteq> 0) 0xdead2200,
        for_fw [0..<16] (\<lambda>k. store32 (slot blk k) (0xB000 + of_nat k)),
        for_fw [0..<16] (\<lambda>k. expect_word_at (slot blk k) (0xB000 + of_nat k) (0xdead2210 + of_nat k)),
        rt_puts (bytes ''runtime_heap_smoke: sdram heap read/write verified'' @ [10])])"

definition runtime_heap_smoke_main :: "smoke_layout \<Rightarrow> 'a fw" where
  "runtime_heap_smoke_main L =
     then_fw (seq_fw [test_banner ''runtime_heap_smoke'', startup_checks L, string_checks L,
         allocator_checks (heap_region L), heap_block_checks (heap_region L),
         rt_puts (bytes ''runtime_heap_smoke: all runtime checks passed'' @ [10])])
       test_pass"

section \<open>Rules\<close>

lemma reaches_seq:
  "(\<And>M. A M \<Longrightarrow> Q M) \<Longrightarrow> reaches hw A (seq_fw []) (\<lambda>_. Q)"
  "reaches hw A f (\<lambda>_. R) \<Longrightarrow> reaches hw R (seq_fw fs) (\<lambda>_. Q) \<Longrightarrow> reaches hw A (seq_fw (f # fs)) (\<lambda>_. Q)"
  by (simp_all add: reaches_return reaches_then)

text \<open>One rule per kind of step, with what follows as the first premise.\<close>

lemma reaches_expect_word:
  "a AND 3 = 0 \<Longrightarrow> (\<And>M. A M \<Longrightarrow> get32 M a = v) \<Longrightarrow> reaches hw A (expect_word_at a v code) (\<lambda>_. A)"
  by (auto simp: reaches_def expect_word_at_def bind_fw_def load32_def ld32_def of_option_fw_def test_expect_def return_fw_def)

lemma reaches_expect_byte:
  "(\<And>M. A M \<Longrightarrow> M a = v) \<Longrightarrow> reaches hw A (expect_byte_at a v code) (\<lambda>_. A)"
  by (auto simp: reaches_def expect_byte_at_def bind_fw_def load8_def test_expect_def return_fw_def)

lemma reaches_expect_bytes:
  "(\<And>M. A M \<Longrightarrow> M a = v \<and> M b = w) \<Longrightarrow> reaches hw A (expect_bytes_at a v b w code) (\<lambda>_. A)"
  by (auto simp: reaches_def expect_bytes_at_def bind_fw_def load8_def test_expect_def return_fw_def)

lemma reaches_string:
  "(\<And>M. A M \<Longrightarrow> \<exists>r M'. f M = Some (r, M') \<and> Q M') \<Longrightarrow> reaches hw A (run_string f) (\<lambda>_. Q)"
  by (fastforce simp: reaches_def run_string_def)

lemma check_seq:
  "reaches hw A (seq_fw fs) (\<lambda>_. Q) \<Longrightarrow> a AND 3 = 0 \<Longrightarrow> (\<And>M. A M \<Longrightarrow> get32 M a = v) \<Longrightarrow>
   reaches hw A (seq_fw (expect_word_at a v code # fs)) (\<lambda>_. Q)"
  "reaches hw A (seq_fw fs) (\<lambda>_. Q) \<Longrightarrow> (\<And>M. A M \<Longrightarrow> M a = x) \<Longrightarrow>
   reaches hw A (seq_fw (expect_byte_at a x code # fs)) (\<lambda>_. Q)"
  "reaches hw A (seq_fw fs) (\<lambda>_. Q) \<Longrightarrow> (\<And>M. A M \<Longrightarrow> M a = x \<and> M b = y) \<Longrightarrow>
   reaches hw A (seq_fw (expect_bytes_at a x b y code # fs)) (\<lambda>_. Q)"
  "reaches hw (\<lambda>M. \<exists>M0. A M0 \<and> M = put32 M0 a v) (seq_fw fs) (\<lambda>_. Q) \<Longrightarrow> a AND 3 = 0 \<Longrightarrow>
   reaches hw A (seq_fw (store32 a v # fs)) (\<lambda>_. Q)"
  by (rule reaches_seq(2), rule reaches_expect_word reaches_expect_byte reaches_expect_bytes reaches_store32; auto)+

section \<open>Start-up\<close>

text \<open>What the start-up code has to have done, and where the variables may be.\<close>

definition started :: "smoke_layout \<Rightarrow> memory \<Rightarrow> bool" where
  "started L M \<longleftrightarrow> get32 M (data_marker L) = 0x1234ABCD \<and> get32 M (bss_marker L) = 0 \<and>
     get32 M (sdram_data_marker L) = 0xCAFEF00D \<and> get32 M (sdram_bss_marker L) = 0"

definition layout_ok :: "smoke_layout \<Rightarrow> bool" where
  "layout_ok L \<longleftrightarrow>
     list_all (\<lambda>a. a AND 3 = 0) [data_marker L, bss_marker L, sdram_data_marker L, sdram_bss_marker L] \<and>
     distinct [TINYBUS_SDRAM_BASE + 0x100, TINYBUS_SDRAM_BASE + 0x200, sdram_data_marker L, sdram_bss_marker L] \<and>
     unat (buf_at L) + 16 \<le> 2 ^ 32 \<and> unat (seq_at L) + 8 \<le> 2 ^ 32 \<and>
     bytes_apart (buf_at L) 16 (seq_at L) 8 \<and>
     TINYBUS_SDRAM_BASE \<le> heap_start (heap_region L) \<and> heap_end (heap_region L) \<le> TINYBUS_SDRAM_BASE + 0x02000000 \<and>
     unat (heap_start (heap_region L)) + 80 \<le> unat (heap_end (heap_region L))"

lemma get32_store_word:
  fixes a b :: u32
  assumes "a AND 3 = 0" "b AND 3 = 0"
  shows "get32 (put32 M a v) b = (if a = b then v else get32 M b)"
  using assms by (auto intro: get32_put32_other aligned_apart)

lemma probes_aligned: "(TINYBUS_SDRAM_BASE + 0x100) AND 3 = 0" "(TINYBUS_SDRAM_BASE + 0x200) AND 3 = 0"
  by (simp_all add: TINYBUS_SDRAM_BASE_def)

lemma sdram_present_seq:
  assumes "reaches hw (\<lambda>M. \<exists>M0. A M0 \<and>
      M = put32 (put32 M0 (TINYBUS_SDRAM_BASE + 0x100) 0xA5A50001) (TINYBUS_SDRAM_BASE + 0x200) 0x5A5A0002) (seq_fw fs) (\<lambda>_. Q)"
  shows "reaches hw A (seq_fw (bind_fw sdram_present (\<lambda>p. test_expect p code) # fs)) (\<lambda>_. Q)"
proof (rule reaches_seq(2) [OF _ assms])
  show "reaches hw A (bind_fw sdram_present (\<lambda>p. test_expect p code)) (\<lambda>_ M. \<exists>M0. A M0 \<and>
      M = put32 (put32 M0 (TINYBUS_SDRAM_BASE + 0x100) 0xA5A50001) (TINYBUS_SDRAM_BASE + 0x200) 0x5A5A0002)"
    by (auto simp: reaches_def sdram_present_def then_fw_def bind_fw_def store32_def st32_def load32_def ld32_def
        probes_aligned of_option_fw_def return_fw_def test_expect_def get32_store_word [OF probes_aligned(2,1)] Let_def)
qed

context uart_tx
begin

lemma puts_seq: "reaches hw A (seq_fw fs) (\<lambda>_. Q) \<Longrightarrow> reaches hw A (seq_fw (rt_puts str # fs)) (\<lambda>_. Q)"
  unfolding rt_puts_def by (rule reaches_seq(2) [OF reaches_does [OF does_uart(1)]])

lemma startup_reaches:
  assumes "layout_ok L"
  shows "reaches hw (started L) (startup_checks L) (\<lambda>_ _. True)"
proof -
  let ?d = "sdram_data_marker L" and ?b = "sdram_bss_marker L"
  have al: "data_marker L AND 3 = 0" "bss_marker L AND 3 = 0" "?d AND 3 = 0" "?b AND 3 = 0"
    and neq: "?d \<noteq> ?b" "TINYBUS_SDRAM_BASE + 0x100 \<noteq> ?d" "TINYBUS_SDRAM_BASE + 0x200 \<noteq> ?d"
      "TINYBUS_SDRAM_BASE + 0x100 \<noteq> ?b" "TINYBUS_SDRAM_BASE + 0x200 \<noteq> ?b"
    using assms by (simp_all add: layout_ok_def)
  show ?thesis
    unfolding startup_checks_def
    by (rule check_seq sdram_present_seq puts_seq reaches_seq(1))+
      (auto simp: get32_store_word al probes_aligned neq started_def)
qed

end

section \<open>String routines\<close>

definition holds :: "smoke_layout \<Rightarrow> u8 list \<Rightarrow> u8 list \<Rightarrow> memory \<Rightarrow> bool" where
  "holds L xs ys M \<longleftrightarrow> read_bytes M (buf_at L) 16 = xs \<and> read_bytes M (seq_at L) 8 = ys"

lemma holds_nth:
  "holds L xs ys M \<Longrightarrow> i < 16 \<Longrightarrow> M (buf_at L + of_nat i) = xs ! i"
  unfolding holds_def by (metis nth_read_bytes)

lemma holds_length: "holds L xs ys M \<Longrightarrow> length xs = 16 \<and> length ys = 8"
  unfolding holds_def by auto


lemma layout_buffers:
  assumes "layout_ok L"
  shows "bytes_apart (buf_at L) 16 (seq_at L) 8" "bytes_apart (seq_at L) 8 (buf_at L) 16"
    "d + k \<le> 16 \<Longrightarrow> 0 < k \<Longrightarrow> unat (buf_at L + of_nat d) + k \<le> 2 ^ 32"
    "disjoint_regions (buf_at L) (seq_at L) 8"
proof -
  show apart: "bytes_apart (buf_at L) 16 (seq_at L) 8" "bytes_apart (seq_at L) 8 (buf_at L) 16"
    using assms by (simp_all add: layout_ok_def bytes_apart_sym)
  have room: "unat (buf_at L) + 16 \<le> 2 ^ 32" using assms by (simp add: layout_ok_def)
  show "d + k \<le> 16 \<Longrightarrow> 0 < k \<Longrightarrow> unat (buf_at L + of_nat d) + k \<le> 2 ^ 32"
    using unat_add_index [OF room, of d] room by simp
  show "disjoint_regions (buf_at L) (seq_at L) 8"
    unfolding disjoint_regions_def
  proof (intro allI impI)
    fix x assume "unat (x - buf_at L) < 8"
    then have "\<not> unat (buf_at L + of_nat (unat (x - buf_at L)) - seq_at L) < 8"
      by (intro bytes_apart_less [OF apart(2)]) simp
    then show "8 \<le> unat (x - seq_at L)" by simp
  qed
qed

lemma holds_memset:
  assumes "layout_ok L"
  shows "reaches hw (holds L xs ys) (run_string (\<lambda>mm. rt_memset mm (buf_at L) c 16)) (\<lambda>_. holds L (replicate 16 (ucast c)) ys)"
proof (rule reaches_string)
  fix M assume "holds L xs ys M"
  then show "\<exists>r M'. rt_memset M (buf_at L) c 16 = Some (r, M') \<and> holds L (replicate 16 (ucast c)) ys M'"
    using read_fill [of 16 M "buf_at L" "ucast c"] read_fill_other [OF layout_buffers(1) [OF assms], of M "ucast c"]
    by (simp add: rt_memset_fills holds_def)
qed

lemma holds_memcpy:
  assumes "layout_ok L"
  shows "reaches hw (holds L xs ys) (run_string (\<lambda>mm. rt_memcpy mm (buf_at L) (seq_at L) 8)) (\<lambda>_. holds L (ys @ drop 8 xs) ys)"
proof (rule reaches_string)
  fix M assume "holds L xs ys M"
  then show "\<exists>r M'. rt_memcpy M (buf_at L) (seq_at L) 8 = Some (r, M') \<and> holds L (ys @ drop 8 xs) ys M'"
    using read_copy [of 0 8 16 M "buf_at L" "seq_at L"] rt_memcpy_copies [of "buf_at L" "seq_at L" 8 M]
      read_copy_other [OF layout_buffers(1) [OF assms], of 0 8 M "seq_at L"] layout_buffers(4) [OF assms]
    by (simp add: holds_def)
qed

lemma holds_memmove:
  assumes "layout_ok L" "d + unat k \<le> 16" "s + unat k \<le> 16" "0 < unat k"
  shows "reaches hw (holds L xs ys) (run_string (\<lambda>mm. Some (rt_memmove mm (buf_at L + of_nat d) (buf_at L + of_nat s) k)))
    (\<lambda>_. holds L (take d xs @ take (unat k) (drop s xs) @ drop (d + unat k) xs) ys)"
proof (rule reaches_string)
  fix M assume "holds L xs ys M"
  then show "\<exists>r M'. Some (rt_memmove M (buf_at L + of_nat d) (buf_at L + of_nat s) k) = Some (r, M') \<and>
      holds L (take d xs @ take (unat k) (drop s xs) @ drop (d + unat k) xs) ys M'"
    using read_copy [OF assms(2), of M "buf_at L" "buf_at L + of_nat s"] read_inside [OF assms(3), of M "buf_at L"]
      read_copy_other [OF layout_buffers(1) [OF assms(1)] assms(2), of M "buf_at L + of_nat s"]
      rt_memmove_copies [OF layout_buffers(3,3) [OF assms(1)], OF assms(2,4,3,4)]
    by (simp add: holds_def)
qed

text \<open>The loops that fill the first eight bytes.\<close>

lemma store_loop:
  assumes "k \<le> n" "n \<le> 2 ^ 32" "bytes_apart a n b l"
  shows "reaches hw (\<lambda>M. read_bytes M a n = xs \<and> read_bytes M b l = ys) (for_fw [0..<k] (\<lambda>i. store8 (a + of_nat i) (f i)))
    (\<lambda>_ M. read_bytes M a n = map f [0..<k] @ drop k xs \<and> read_bytes M b l = ys)"
proof (rule reaches_for [where J = "\<lambda>k M. read_bytes M a n = map f [0..<k] @ drop k xs \<and> read_bytes M b l = ys"])
  fix i assume i: "i < k"
  have step: "(map f [0..<i] @ drop i xs)[i := f i] = map f [0..<Suc i] @ drop (Suc i) xs" if "length xs = n"
    using i assms(1) that by (simp add: list_update_append flip: Cons_nth_drop_Suc)
  have len: "length xs = n" if "read_bytes M a n = map f [0..<i] @ drop i xs" for M
    using arg_cong [OF that, of length] i assms(1) by (simp add: split: if_splits)
  show "reaches hw (\<lambda>M. read_bytes M a n = map f [0..<i] @ drop i xs \<and> read_bytes M b l = ys) (store8 (a + of_nat i) (f i))
      (\<lambda>_ M. read_bytes M a n = map f [0..<Suc i] @ drop (Suc i) xs \<and> read_bytes M b l = ys)"
    using i assms len step by (intro reaches_store8) (auto simp: read_store read_store_other)
qed auto

lemma holds_store_loops:
  assumes "layout_ok L"
  shows "reaches hw (holds L xs ys) (for_fw [0..<8] (\<lambda>i. store8 (buf_at L + of_nat i) (of_nat i))) (\<lambda>_. holds L (map of_nat [0..<8] @ drop 8 xs) ys)"
    "reaches hw (holds L xs ys) (for_fw [0..<8] (\<lambda>i. store8 (seq_at L + of_nat i) (of_nat i))) (\<lambda>_. holds L xs (map of_nat [0..<8] @ drop 8 ys))"
proof -
  have swap: "holds L xs ys = (\<lambda>M. read_bytes M (seq_at L) 8 = ys \<and> read_bytes M (buf_at L) 16 = xs)" for xs ys
    by (auto simp: holds_def fun_eq_iff)
  show "reaches hw (holds L xs ys) (for_fw [0..<8] (\<lambda>i. store8 (buf_at L + of_nat i) (of_nat i))) (\<lambda>_. holds L (map of_nat [0..<8] @ drop 8 xs) ys)"
    unfolding holds_def [abs_def] by (rule store_loop [OF _ _ layout_buffers(1) [OF assms]]) simp_all
  show "reaches hw (holds L xs ys) (for_fw [0..<8] (\<lambda>i. store8 (seq_at L + of_nat i) (of_nat i))) (\<lambda>_. holds L xs (map of_nat [0..<8] @ drop 8 ys))"
    unfolding swap by (rule store_loop [OF _ _ layout_buffers(2) [OF assms]]) simp_all
qed

lemma expect_loop_seq:
  assumes "reaches hw (holds L xs ys) (seq_fw fs) (\<lambda>_. Q)" "n \<le> 16" "\<And>i. i < n \<Longrightarrow> xs ! i = f i"
  shows "reaches hw (holds L xs ys) (seq_fw (for_fw [0..<n] (\<lambda>i. expect_byte_at (buf_at L + of_nat i) (f i) (c i)) # fs)) (\<lambda>_. Q)"
  using assms by (intro reaches_seq(2) [OF _ assms(1)] reaches_for [where J = "\<lambda>_. holds L xs ys"] reaches_expect_byte) (auto simp: holds_nth)

lemma reaches_ex: "(\<And>x. reaches hw (P x) f Q) \<Longrightarrow> reaches hw (\<lambda>M. \<exists>x. P x M) f Q"
  unfolding reaches_def by blast

text \<open>The bytes the test looks at.\<close>

lemma holds_at:
  assumes "holds L xs ys M"
  shows "M (buf_at L) = xs ! 0 \<and> M (buf_at L + 1) = xs ! 1 \<and> M (buf_at L + 2) = xs ! 2 \<and> M (buf_at L + 3) = xs ! 3 \<and>
    M (buf_at L + 4) = xs ! 4 \<and> M (buf_at L + 5) = xs ! 5 \<and> M (buf_at L + 6) = xs ! 6 \<and> M (buf_at L + 7) = xs ! 7 \<and>
    M (buf_at L + 15) = xs ! 15"
  using holds_nth [OF assms, of 0] holds_nth [OF assms, of 1] holds_nth [OF assms, of 2] holds_nth [OF assms, of 3]
    holds_nth [OF assms, of 4] holds_nth [OF assms, of 5] holds_nth [OF assms, of 6] holds_nth [OF assms, of 7]
    holds_nth [OF assms, of 15] by simp

lemma string_reaches:
  assumes L: "layout_ok L"
  shows "reaches hw (\<lambda>_. True) (string_checks L) (\<lambda>_ _. True)"
proof -
  note steps = holds_memset [OF L] holds_memcpy [OF L] holds_store_loops [OF L]
    holds_memmove [OF L, of 2 6 0, simplified] holds_memmove [OF L, of 0 6 2, simplified] holds_memmove [OF L, of 1 4 0, simplified]
  have "reaches hw (holds L xs ys) (string_checks L) (\<lambda>_ _. True)" if "length xs = 16" "length ys = 8" for xs ys
    unfolding string_checks_def Let_def std_memset_def std_memcpy_def std_memmove_def
    by (rule check_seq expect_loop_seq reaches_seq(1) reaches_seq(2) [OF steps(1)] reaches_seq(2) [OF steps(2)]
        reaches_seq(2) [OF steps(3)] reaches_seq(2) [OF steps(4)] reaches_seq(2) [OF steps(5)] reaches_seq(2) [OF steps(6)]
        reaches_seq(2) [OF steps(7)])+
      (auto dest!: holds_at simp: that nth_append)
  then have "reaches hw (\<lambda>M. \<exists>xs ys. (length xs = 16 \<and> length ys = 8) \<and> holds L xs ys M) (string_checks L) (\<lambda>_ _. True)"
    by (intro reaches_ex reaches_pure) simp
  then show ?thesis by (rule reaches_pre) (simp add: holds_def)
qed

section \<open>The allocator\<close>

lemma layout_heap:
  assumes "layout_ok L"
  defines "h \<equiv> heap_region L"
  shows "heap_ok h" "TINYBUS_SDRAM_BASE \<le> heap_start h" "unat (heap_end h) \<le> 0x82000000"
    "unat (heap_start h) + 80 \<le> unat (heap_end h)" "heap_start h \<noteq> 0" "unat (heap_start h) \<ge> 0x80000000"
proof -
  show *: "TINYBUS_SDRAM_BASE \<le> heap_start h" "unat (heap_start h) + 80 \<le> unat (heap_end h)"
    using assms by (simp_all add: layout_ok_def)
  from assms have "heap_end h \<le> TINYBUS_SDRAM_BASE + 0x02000000" by (simp add: layout_ok_def)
  then show "unat (heap_end h) \<le> 0x82000000" by (simp add: word_le_nat_alt TINYBUS_SDRAM_BASE_def)
  from * show start: "unat (heap_start h) \<ge> 0x80000000" by (simp add: word_le_nat_alt TINYBUS_SDRAM_BASE_def)
  then show nz: "heap_start h \<noteq> 0" by auto
  with * show "heap_ok h" by (simp add: heap_ok_def word_le_nat_alt word_gt_0)
qed

lemma smoke_alloc:
  assumes "layout_ok L" "bump_alloc (heap_region L) c n a = (p, c')" "a = 4 \<or> a = 16"
    and "unat (heap_start (heap_region L)) \<le> unat c" "unat c + unat a + unat n \<le> unat (heap_end (heap_region L)) + 1"
  shows "p \<noteq> 0" "unat c \<le> unat p" "unat p < unat c + unat a" "p AND (a - 1) = 0" "c' = p + n" "unat c' = unat p + unat n"
proof -
  let ?h = "heap_region L"
  note heap = layout_heap [OF assms(1)]
  have small: "0 < unat a" "unat a \<le> 16" and a: "effective_align a = a" using assms(3) by (auto simp: effective_align_def)
  obtain k where k: "a = 2 ^ k" "k < 32" using assms(3) that [of 2] that [of 4] by auto
  have "align_ok ?h a"
    by (rule align_ok_pow2 [where k = k]) (use k heap(3) a small(2) in auto)
  moreover have "c \<noteq> 0" using assms(4) heap(6) by auto
  moreover have "cursor_ok ?h c"
    using assms(4,5) small by (simp add: cursor_ok_def word_le_nat_alt)
  ultimately have ok: "alloc_ok ?h c a" and cur: "current ?h c = c" using heap(1) by (simp_all add: alloc_ok_def current_def)
  have less: "block_start ?h c a < unat c + unat a"
    using round_up_less [OF small(1), of "unat c"] by (simp add: block_start_def cur a)
  then have fits: "\<exists>b. block_fits ?h c n a b"
    using assms(5) unfolding fits_iff [OF ok] by simp
  show "p \<noteq> 0" using alloc_served(1) [OF ok fits] assms(2) by simp
  show "unat p < unat c + unat a" using alloc_served_start [OF ok fits] less assms(2) by simp
  show "unat c \<le> unat p" using alloc_served(2) [OF ok fits] assms(2) by (simp add: block_fits_def cur)
  have "unat (p AND (a - 1)) = 0"
    using alloc_served(2) [OF ok fits] assms(2) unat_and_mask_pow2 [OF k, of p] by (simp add: block_fits_def a dvd_eq_mod_eq_0)
  then show "p AND (a - 1) = 0" by (simp only: unat_eq_zero)
  show *: "unat c' = unat p + unat n" using alloc_served(3) [OF ok fits] assms(2) by simp
  then have "unat p + unat n < 2 ^ 32" using unsigned_less [of c', where 'a = nat] by simp
  with * show "c' = p + n" by (simp add: word_unat_eq_iff unat_add_no_wrap)
qed

text \<open>A request beyond the whole heap.\<close>

lemma smoke_refused:
  assumes "layout_ok L"
  shows "bump_alloc (heap_region L) (heap_start (heap_region L)) (heap_end (heap_region L) - heap_start (heap_region L) + 16) 4 =
    (0, heap_start (heap_region L))"
proof -
  let ?h = "heap_region L"
  note heap = layout_heap [OF assms]
  have "align_ok ?h 4" by (rule align_ok_pow2 [where k = 2]) (use heap(3) in \<open>simp_all add: effective_align_def\<close>)
  then have ok: "alloc_ok ?h (heap_start ?h) 4"
    using heap(1) by (simp add: alloc_ok_def cursor_ok_def heap_ok_def)
  have "unat (heap_end ?h - heap_start ?h) = unat (heap_end ?h) - unat (heap_start ?h)"
    using heap(4) by (intro unat_sub) (simp add: word_le_nat_alt)
  then have "unat (heap_end ?h - heap_start ?h + 16) = unat (heap_end ?h) - unat (heap_start ?h) + 16"
    using heap(3) by (subst unat_add_no_wrap) simp_all
  then have "\<not> (\<exists>b. block_fits ?h (heap_start ?h) (heap_end ?h - heap_start ?h + 16) 4 b)"
    using heap(4,5) by (auto simp: block_fits_def current_def)
  from alloc_refused [OF ok this] show ?thesis using heap(5) by (simp add: current_def)
qed

lemma expect_true [simp]: "test_expect True code = return_fw ()"
  by (simp add: test_expect_def)

lemma allocator_expects:
  assumes "layout_ok L"
  shows "allocator_checks (heap_region L) = seq_fw (replicate 12 (return_fw ()))"
proof -
  let ?h = "heap_region L" and ?s = "heap_start (heap_region L)"
  note heap = layout_heap [OF assms]
  obtain p0 c1 where 0: "bump_alloc ?h ?s 16 4 = (p0, c1)" by fastforce
  note a0 = smoke_alloc [OF assms 0]
  have b0: "p0 \<noteq> 0" "unat ?s \<le> unat p0" "unat p0 < unat ?s + 4" "c1 = p0 + 16" "unat c1 = unat p0 + 16"
    using a0 heap(4) by simp_all
  obtain p1 c2 where 1: "bump_alloc ?h c1 16 4 = (p1, c2)" by fastforce
  note a1 = smoke_alloc [OF assms 1]
  have b1: "p1 \<noteq> 0" "unat c1 \<le> unat p1" "unat p1 < unat c1 + 4" "unat c2 = unat p1 + 16"
    using a1 b0 heap(4) by simp_all
  obtain p2 c3 where 2: "bump_alloc ?h c2 8 16 = (p2, c3)" by fastforce
  note a2 = smoke_alloc [OF assms 2]
  have b2: "p2 \<noteq> 0" "p2 AND 0xF = 0" using a2 b0 b1 heap(4) by simp_all
  obtain r d2 where 3: "bump_alloc ?h ?s 32 4 = (r, d2)" by fastforce
  have b3: "r \<noteq> 0" using smoke_alloc(1) [OF assms 3] heap(4) by simp
  have "p0 + 16 \<le> p1" using b0(4) b1(2) by (simp add: word_le_nat_alt)
  then show ?thesis
    using heap(2,5) b0(1) b1(1) b2 b3
    by (simp add: allocator_checks_def heap_init_def heap_used_def 0 1 2 3 smoke_refused [OF assms] eval_nat_numeral)
qed

lemma reaches_nothing: "reaches hw A (seq_fw (replicate n (return_fw ()))) (\<lambda>_. A)"
  by (induction n) (auto intro: reaches_seq reaches_return simp del: seq_fw.simps)

lemma block_reaches:
  assumes "layout_ok L" "uart_tx hw"
  shows "reaches hw A (heap_block_checks (heap_region L)) (\<lambda>_ _. True)"
proof -
  let ?h = "heap_region L"
  note heap = layout_heap [OF assms(1)]
  obtain blk c where 0: "bump_alloc ?h (heap_start ?h) (16 * 4) 4 = (blk, c)" by fastforce
  note a0 = smoke_alloc [OF assms(1) 0]
  have b: "blk \<noteq> 0" "blk AND 3 = 0" using a0(1,4) heap(4) by simp_all
  then have ok: "array_ok blk 16" by (simp add: array_ok_def)
  let ?P = "\<lambda>M. words_at M blk 16 = map (\<lambda>k. 0xB000 + of_nat k) [0..<16] \<and> True"
  have fill: "reaches hw (\<lambda>_. True) (for_fw [0..<16] (\<lambda>k. store32 (slot blk k) (0xB000 + of_nat k))) (\<lambda>_. ?P)"
    by (rule fill_reaches [OF ok undisturbed_True])
  have check: "reaches hw ?P (for_fw [0..<16] (\<lambda>k. expect_word_at (slot blk k) (0xB000 + of_nat k) (0xdead2210 + of_nat k))) (\<lambda>_. ?P)"
  proof (rule reaches_for [where J = "\<lambda>_. ?P"])
    fix i :: nat assume i: "i < 16"
    have "get32 M (slot blk i) = 0xB000 + of_nat i" if "?P M" for M
      using that nth_words_at [OF i, of M blk] i by (simp del: upt_rec_numeral nth_words_at)
    then show "reaches hw ?P (expect_word_at (slot blk i) (0xB000 + of_nat i) (0xdead2210 + of_nat i)) (\<lambda>_. ?P)"
      by (intro reaches_expect_word array_slot_aligned [OF ok])
  qed simp_all
  have "reaches hw (\<lambda>_. True) (heap_block_checks ?h) (\<lambda>_ _. True)"
    unfolding heap_block_checks_def heap_init_def 0 Let_def prod.case
    by (rule reaches_seq(2) [OF reaches_expect] reaches_seq(2) [OF fill] reaches_seq(2) [OF check] uart_tx.puts_seq [OF assms(2)]
        reaches_seq(1) TrueI b)+
  then show ?thesis by (rule reaches_pre) simp
qed

section \<open>Property\<close>


definition example_layout :: smoke_layout where
  "example_layout = \<lparr>data_marker = 0x4000, bss_marker = 0x4004, sdram_data_marker = 0x80000000,
     sdram_bss_marker = 0x80000004, buf_at = 0xff00, seq_at = 0xff10,
     heap_region = \<lparr>heap_start = 0x80001002, heap_end = 0x80010000\<rparr>\<rparr>"

definition example_memory :: memory where
  "example_memory = put32 (put32 (\<lambda>_. 0) 0x4000 0x1234ABCD) 0x80000000 0xCAFEF00D"

lemma example_started: "layout_ok example_layout" "started example_layout example_memory"
proof -
  have "list_all (\<lambda>i. list_all (\<lambda>j. (0xff00 :: u32) + of_nat i \<noteq> 0xff10 + of_nat j) [0..<8]) [0..<16]" by code_simp
  then have "bytes_apart 0xff00 16 0xff10 8" by (simp add: bytes_apart_def list_all_iff del: upt_rec_numeral)
  then show "layout_ok example_layout"
    by (simp add: layout_ok_def example_layout_def TINYBUS_SDRAM_BASE_def)
  show "started example_layout example_memory"
    by (simp add: started_def example_layout_def example_memory_def get32_store_word) (simp add: get32_def word_of_bytes_def)
qed


end
