(* ===== verification/Firmware_Tests.thy ===== *)
theory Firmware_Tests
  imports Heap_Smoke Gdb_Session Rtos_Port
begin

text \<open>
  The small regression tests of \<open>firmware/tests\<close>: arithmetic, byte and half-word accesses, the
  SDRAM lanes, counters, UART and buzzer, and the two tests of the FreeRTOS port that need no
  kernel, which check the frame that \<open>pxPortInitialiseStack\<close> builds. They run on the models of the
  drivers, the memory and the port.
\<close>

section \<open>The processor\<close>

text \<open>The loop variable is a signed integer from 1 to 16 in C; its value is a word here.\<close>

definition alu_step :: "u32 \<Rightarrow> u32 \<Rightarrow> u32" where
  "alu_step i acc = (if i AND 1 = 0 then acc + i * 3 else acc XOR push_bit 4 i)"

definition alu_acc :: u32 where
  "alu_acc = fold (\<lambda>i. alu_step (of_nat i)) [1..<17] 0"

definition alu_branch_main :: "'a fw" where
  "alu_branch_main =
     then_fw (test_banner ''alu_branch'') (then_fw (test_expect (alu_acc = 0x00000218) 0x11) test_pass)"

definition counters_sink :: u32 where
  "counters_sink = fold (\<lambda>i sink. sink + (of_nat i XOR 0x5A)) [0..<64] 0"

definition counters_main :: "'a fw" where
  "counters_main =
     then_fw (test_banner ''counters'')
     (bind_fw test_read_cycle (\<lambda>cycle0. bind_fw test_read_instret (\<lambda>inst0.
      let sink = counters_sink
      in bind_fw test_read_cycle (\<lambda>cycle1. bind_fw test_read_instret (\<lambda>inst1.
         then_fw (seq_fw
           [test_expect (sink \<noteq> 0) 0x31, test_expect (cycle0 < cycle1) 0x32, test_expect (inst0 < inst1) 0x33,
            test_expect (inst1 - inst0 \<le> cycle1 - cycle0) 0x34])
           test_pass)))))"

section \<open>Memory\<close>

text \<open>Half-word accesses, at even addresses.\<close>

definition store16 :: "u32 \<Rightarrow> 16 word \<Rightarrow> unit fw" where
  "store16 a v hw m =
     (if a AND 1 = 0
      then Some (Ret () (m\<lparr>mem := (mem m)(a := ucast v, a + 1 := ucast (drop_bit 8 v))\<rparr>)) else Some Fault)"

definition load16 :: "u32 \<Rightarrow> 16 word fw" where
  "load16 a hw m =
     (if a AND 1 = 0 then Some (Ret (ucast (mem m a) OR push_bit 8 (ucast (mem m (a + 1)))) m) else Some Fault)"

definition expect_half_at :: "u32 \<Rightarrow> 16 word \<Rightarrow> u32 \<Rightarrow> unit fw" where
  "expect_half_at a v code = bind_fw (load16 a) (\<lambda>w. test_expect (w = v) code)"

text \<open>\<open>a\<close> is the address of \<open>word_slot\<close>.\<close>

definition load_store_main :: "u32 \<Rightarrow> 'a fw" where
  "load_store_main a =
     then_fw (seq_fw
       [test_banner ''load_store'',
        store32 a 0, store8 a 0x11, store8 (a + 1) 0x22, store8 (a + 2) 0x33, store8 (a + 3) 0x44,
        expect_word_at a 0x44332211 0x21,
        store16 a 0xABCD, store16 (a + 2) 0x1234,
        expect_word_at a 0x1234ABCD 0x22,
        expect_byte_at a 0xCD 0x23, expect_byte_at (a + 1) 0xAB 0x24,
        expect_byte_at (a + 2) 0x34 0x25, expect_byte_at (a + 3) 0x12 0x26])
     test_pass"

definition overlap_base :: u32 where
  "overlap_base = TINYBUS_SDRAM_BASE + 0x100"

definition overlap_round :: "u32 \<Rightarrow> u32 fw" where
  "overlap_round s =
     (let a = overlap_base in
      bind_fw (load32 a) (\<lambda>x0. bind_fw (load32 (a + 4)) (\<lambda>x1. bind_fw (load32 (a + 8)) (\<lambda>x2. bind_fw (load32 (a + 4)) (\<lambda>x3.
        return_fw (s + x0 + x1 + x2 + x3))))))"

definition sdram_overlap_read_main :: "'a fw" where
  "sdram_overlap_read_main =
     then_fw (test_banner ''sdram_overlap_read'')
     (then_fw (seq_fw [store32 overlap_base 0x10203040, store32 (overlap_base + 4) 0x50607080,
         store32 (overlap_base + 8) 0x90a0b0c0])
     (bind_fw (fold_fw [0..<32] (\<lambda>_. overlap_round) 0) (\<lambda>s.
      then_fw (test_expect (s = 0x30384000) 0xdead5101) test_pass)))"

definition sdram_subword_main :: "'a fw" where
  "sdram_subword_main =
     (let a = TINYBUS_SDRAM_BASE + 0x400 in
      then_fw (seq_fw
       [test_banner ''sdram_subword'',
        store32 a 0x44332211,
        store8 a 0xa0, expect_word_at a 0x443322a0 0xfa0b0001,
        store8 (a + 1) 0xb1, expect_word_at a 0x4433b1a0 0xfa0b0002,
        store8 (a + 2) 0xc2, expect_word_at a 0x44c2b1a0 0xfa0b0003,
        store8 (a + 3) 0xd3, expect_word_at a 0xd3c2b1a0 0xfa0b0004,
        expect_byte_at a 0xa0 0xfa0b0010, expect_byte_at (a + 1) 0xb1 0xfa0b0011,
        expect_byte_at (a + 2) 0xc2 0xfa0b0012, expect_byte_at (a + 3) 0xd3 0xfa0b0013,
        store32 a 0x44332211,
        store16 a 0xa1b2, expect_word_at a 0x4433a1b2 0xfa0b0020,
        store16 (a + 2) 0xc3d4, expect_word_at a 0xc3d4a1b2 0xfa0b0021,
        expect_half_at a 0xa1b2 0xfa0b0030, expect_half_at (a + 2) 0xc3d4 0xfa0b0031,
        uart_puts (bytes ''sdram_subword: all lanes verified'' @ [10]), uart_flush])
      test_pass)"

section \<open>Devices\<close>

definition exit_with :: "u32 \<Rightarrow> u32 \<Rightarrow> 'a fw" where
  "exit_with leds code = then_fw (gpio_write_led leds) (then_fw (mmio_write TINYBUS_TEST_EXIT code) hang_fw)"

definition quiet_pass_main :: "'a fw" where
  "quiet_pass_main = exit_with 5 1"

definition skeleton_smoke_main :: "'a fw" where
  "skeleton_smoke_main =
     then_fw (seq_fw [test_banner ''smoke'', gpio_write_led 5, uart_puts (bytes ''TecPlusRV firmware skeleton'' @ [10])])
       test_pass"

definition uart_once_main :: "'a fw" where
  "uart_once_main =
     then_fw (gpio_write_led 5) (then_fw (uart_putc 65) (then_fw (mmio_write TINYBUS_TEST_EXIT 1) hang_fw))"

definition uart_echo_main :: "'a fw" where
  "uart_echo_main =
     bind_fw uart_getc (\<lambda>ch. then_fw (uart_putc ch) (then_fw uart_flush (exit_with 5 1)))"

definition BUZZER_TEST_HALF_PERIOD :: u32 where "BUZZER_TEST_HALF_PERIOD = 4"

definition buzzer_mmio_main :: "'a fw" where
  "buzzer_mmio_main =
     then_fw (buzzer_start BUZZER_TEST_HALF_PERIOD)
     (bind_fw (bind_fw buzzer_get_half_period (\<lambda>half.
         if half \<noteq> BUZZER_TEST_HALF_PERIOD then return_fw True
         else bind_fw buzzer_is_enabled (\<lambda>on. return_fw (on = 0)))) (\<lambda>bad.
      let result = (if bad then 0xdead0050 else 1)
      in then_fw buzzer_stop
        (bind_fw buzzer_is_enabled (\<lambda>on.
           let result = (if on \<noteq> 0 then 0xdead0051 else result)
           in exit_with (if result = 1 then 5 else 0xf) result))))"

section \<open>The port of FreeRTOS\<close>

text \<open>\<open>stack\<close> is the address of \<open>task_stack\<close>; gp and tp as the hart has them.\<close>

definition frame_contract_fail :: "u32 \<Rightarrow> 'a fw" where
  "frame_contract_fail check = exit_with 0xf (0xf2010000 OR check)"

definition frame_expect :: "bool \<Rightarrow> u32 \<Rightarrow> unit fw" where
  "frame_expect ok check = (if \<not> ok then frame_contract_fail check else return_fw ())"

definition frame_checks :: "u32 \<Rightarrow> u32 \<Rightarrow> u32 \<Rightarrow> u32 \<Rightarrow> 'a fw" where
  "frame_checks gp tp dummy_task sp =
     (let x = (\<lambda>i. load32 (slot sp i)) in
      then_fw (frame_expect (sp AND 15 = 0) 1)
     (bind_fw (x 2) (\<lambda>x2. then_fw (frame_expect (x2 = sp + TRAP_FRAME_SIZE) 2)
     (bind_fw (x 10) (\<lambda>x10. then_fw (frame_expect (x10 = 0x12345678) 3)
     (bind_fw (x 32) (\<lambda>pc. then_fw (frame_expect (pc = dummy_task) 4)
     (bind_fw (x 33) (\<lambda>status. then_fw (frame_expect (status AND 0x1880 = 0x1880) 5)
     (bind_fw (x 34) (\<lambda>cause. bind_fw (x 35) (\<lambda>res. then_fw (frame_expect (cause = 0 \<and> res = 0) 6)
     (bind_fw (x 1) (\<lambda>x1. bind_fw (x 3) (\<lambda>x3. bind_fw (x 4) (\<lambda>x4.
        then_fw (frame_expect (x1 \<noteq> 0 \<and> x3 = gp \<and> x4 = tp) 7) (exit_with 5 1)))))))))))))))))"

definition freertos_frame_contract_main :: "u32 \<Rightarrow> u32 \<Rightarrow> u32 \<Rightarrow> u32 \<Rightarrow> u32 \<Rightarrow> 'a fw" where
  "freertos_frame_contract_main task_returned gp tp stack dummy_task hw m =
     (case pxPortInitialiseStack task_returned gp tp (stack + 4 * 511) dummy_task 0x12345678 (mem m) of
        None \<Rightarrow> Some Fault
      | Some (sp, mm) \<Rightarrow> frame_checks gp tp dummy_task sp hw (m\<lparr>mem := mm\<rparr>))"

definition first_task :: "u32 \<Rightarrow> u32 \<Rightarrow> 'a fw" where
  "first_task sp argument =
     (if argument \<noteq> 0x2468ace0 \<or> sp AND 15 \<noteq> 0 then exit_with 0xf 0xf3010001 else exit_with 5 1)"

section \<open>They pass\<close>

lemma alu_acc_value: "alu_acc = 0x218"
  by code_simp

lemma counters_sink_value: "counters_sink \<noteq> 0"
  by code_simp

lemma even_addresses:
  fixes a :: u32
  assumes "a AND 3 = 0"
  shows "a AND 1 = 0" "(a + 2) AND 1 = 0"
proof -
  have "a AND 1 = (a AND 3) AND 1" by (simp add: and.assoc)
  then show "a AND 1 = 0" using assms by simp
  have "even a" using \<open>a AND 1 = 0\<close> by (simp add: even_iff_mod_2_eq_zero and_one_eq)
  then have "even (a + 2)" by simp
  then show "(a + 2) AND 1 = 0" by (simp only: and_one_eq even_iff_mod_2_eq_zero)
qed

text \<open>The four lanes of a word, and what the accesses do to them.\<close>

definition lanes :: "u32 \<Rightarrow> u8 list \<Rightarrow> memory \<Rightarrow> bool" where
  "lanes a xs M \<longleftrightarrow> read_bytes M a 4 = xs"

lemma lanes_get32: "lanes a xs M \<Longrightarrow> get32 M a = word_of_bytes (xs ! 0) (xs ! 1) (xs ! 2) (xs ! 3)"
  by (auto simp: lanes_def read_bytes_def get32_def eval_nat_numeral)

lemma lanes_nth:
  assumes "lanes a xs M"
  shows "M a = xs ! 0 \<and> M (a + 1) = xs ! 1 \<and> M (a + 2) = xs ! 2 \<and> M (a + 3) = xs ! 3"
  using assms by (auto simp: lanes_def read_bytes_def eval_nat_numeral)

lemma lanes_store32:
  assumes "a AND 3 = 0" "reaches hw (lanes a (map (byte_at v) [0..<4])) (seq_fw fs) (\<lambda>_. Q)"
  shows "reaches hw A (seq_fw (store32 a v # fs)) (\<lambda>_. Q)"
proof (rule reaches_seq(2) [OF _ assms(2)], rule reaches_store32 [OF assms(1)])
  fix M
  show "lanes a (map (byte_at v) [0..<4]) (put32 M a v)"
    unfolding lanes_def by (rule nth_equalityI) (simp_all add: put32_apply unat_of_nat_small del: upt_rec_numeral)
qed

lemma lanes_store8:
  assumes "reaches hw (lanes a (xs[i := v])) (seq_fw fs) (\<lambda>_. Q)" "i < 4"
  shows "reaches hw (lanes a xs) (seq_fw (store8 (a + of_nat i) v # fs)) (\<lambda>_. Q)"
  by (rule reaches_seq(2) [OF _ assms(1)], rule reaches_store8) (use assms(2) in \<open>auto simp: lanes_def read_store\<close>)

lemma lanes_store16:
  assumes "reaches hw (lanes a (xs[i := ucast h, Suc i := ucast (drop_bit 8 h)])) (seq_fw fs) (\<lambda>_. Q)" "Suc i < 4" "(a + of_nat i) AND 1 = 0"
  shows "reaches hw (lanes a xs) (seq_fw (store16 (a + of_nat i) h # fs)) (\<lambda>_. Q)"
proof (rule reaches_seq(2) [OF _ assms(1)])
  have "a + of_nat i + 1 = a + of_nat (Suc i)" by simp
  then have "lanes a (xs[i := ucast h, Suc i := ucast (drop_bit 8 h)]) (M(a + of_nat i := ucast h, a + of_nat i + 1 := ucast (drop_bit 8 h)))"
    if "lanes a xs M" for M
    using that assms(2) read_store [of "Suc i" 4 "M(a + of_nat i := ucast h)" a "ucast (drop_bit 8 h)"] read_store [of i 4 M a "ucast h"]
    by (simp add: lanes_def add_ac)
  then show "reaches hw (lanes a xs) (store16 (a + of_nat i) h) (\<lambda>_. lanes a (xs[i := ucast h, Suc i := ucast (drop_bit 8 h)]))"
    using assms(3) by (auto simp: reaches_def store16_def)
qed

lemma lanes_expect:
  "reaches hw (lanes a xs) (seq_fw fs) (\<lambda>_. Q) \<Longrightarrow> a AND 3 = 0 \<Longrightarrow> word_of_bytes (xs ! 0) (xs ! 1) (xs ! 2) (xs ! 3) = v \<Longrightarrow>
   reaches hw (lanes a xs) (seq_fw (expect_word_at a v code # fs)) (\<lambda>_. Q)"
  "reaches hw (lanes a xs) (seq_fw fs) (\<lambda>_. Q) \<Longrightarrow> i < 4 \<Longrightarrow> xs ! i = b \<Longrightarrow>
   reaches hw (lanes a xs) (seq_fw (expect_byte_at (a + of_nat i) b code # fs)) (\<lambda>_. Q)"
  "reaches hw (lanes a xs) (seq_fw fs) (\<lambda>_. Q) \<Longrightarrow> (a + of_nat i) AND 1 = 0 \<Longrightarrow> Suc i < 4 \<Longrightarrow> ucast (xs ! i) OR push_bit 8 (ucast (xs ! Suc i)) = h \<Longrightarrow>
   reaches hw (lanes a xs) (seq_fw (expect_half_at (a + of_nat i) h code # fs)) (\<lambda>_. Q)"
proof -
  have byte: "M (a + of_nat i) = xs ! i" if "lanes a xs M" "i < 4" for M i
    using that unfolding lanes_def by (metis nth_read_bytes)
  show "reaches hw (lanes a xs) (seq_fw fs) (\<lambda>_. Q) \<Longrightarrow> a AND 3 = 0 \<Longrightarrow> word_of_bytes (xs ! 0) (xs ! 1) (xs ! 2) (xs ! 3) = v \<Longrightarrow>
      reaches hw (lanes a xs) (seq_fw (expect_word_at a v code # fs)) (\<lambda>_. Q)"
    by (rule check_seq(1)) (simp_all add: lanes_get32)
  show "reaches hw (lanes a xs) (seq_fw fs) (\<lambda>_. Q) \<Longrightarrow> i < 4 \<Longrightarrow> xs ! i = b \<Longrightarrow>
      reaches hw (lanes a xs) (seq_fw (expect_byte_at (a + of_nat i) b code # fs)) (\<lambda>_. Q)"
    by (rule check_seq(2)) (simp_all add: byte)
  assume fs: "reaches hw (lanes a xs) (seq_fw fs) (\<lambda>_. Q)" and i: "(a + of_nat i) AND 1 = 0" "Suc i < 4"
    and h: "ucast (xs ! i) OR push_bit 8 (ucast (xs ! Suc i)) = h"
  have "M (a + of_nat i + 1) = xs ! Suc i" if "lanes a xs M" for M
    using byte [OF that i(2)] by (simp add: add_ac)
  then have "reaches hw (lanes a xs) (expect_half_at (a + of_nat i) h code) (\<lambda>_. lanes a xs)"
    using i h byte by (auto simp: reaches_def expect_half_at_def load16_def bind_fw_def test_expect_def return_fw_def add_ac)
  then show "reaches hw (lanes a xs) (seq_fw (expect_half_at (a + of_nat i) h code # fs)) (\<lambda>_. Q)"
    by (rule reaches_seq(2) [OF _ fs])
qed

text \<open>At the base address.\<close>

lemma lanes_base:
  "reaches hw (lanes a (xs[0 := v])) (seq_fw fs) (\<lambda>_. Q) \<Longrightarrow> reaches hw (lanes a xs) (seq_fw (store8 a v # fs)) (\<lambda>_. Q)"
  "reaches hw (lanes a (xs[0 := ucast h, 1 := ucast (drop_bit 8 h)])) (seq_fw fs) (\<lambda>_. Q) \<Longrightarrow> a AND 1 = 0 \<Longrightarrow>
   reaches hw (lanes a xs) (seq_fw (store16 a h # fs)) (\<lambda>_. Q)"
  "reaches hw (lanes a xs) (seq_fw fs) (\<lambda>_. Q) \<Longrightarrow> xs ! 0 = b \<Longrightarrow>
   reaches hw (lanes a xs) (seq_fw (expect_byte_at a b code # fs)) (\<lambda>_. Q)"
  "reaches hw (lanes a xs) (seq_fw fs) (\<lambda>_. Q) \<Longrightarrow> a AND 1 = 0 \<Longrightarrow> ucast (xs ! 0) OR push_bit 8 (ucast (xs ! 1)) = h \<Longrightarrow>
   reaches hw (lanes a xs) (seq_fw (expect_half_at a h code # fs)) (\<lambda>_. Q)"
  using lanes_store8 [of hw a xs 0 v fs Q] lanes_store16 [of hw a xs 0 h fs Q] lanes_expect(2) [of hw a xs fs Q 0 b code]
    lanes_expect(3) [of hw a xs fs Q 0 h code]
  by (simp_all del: seq_fw.simps)

lemmas lane_rules = lanes_base lanes_expect(1)
  lanes_store8 [where i = 1, unfolded of_nat_1] lanes_store8 [where i = 2, unfolded of_nat_numeral]
  lanes_store8 [where i = 3, unfolded of_nat_numeral] lanes_store16 [where i = 2, unfolded of_nat_numeral]
  lanes_expect(2) [where i = 1, unfolded of_nat_1] lanes_expect(2) [where i = 2, unfolded of_nat_numeral]
  lanes_expect(2) [where i = 3, unfolded of_nat_numeral] lanes_expect(3) [where i = 2, unfolded of_nat_numeral]

context uart_tx
begin

lemma quiet_seq:
  "does hw f (\<lambda>_ _. True) \<Longrightarrow> reaches hw A (seq_fw fs) (\<lambda>_. Q) \<Longrightarrow> reaches hw A (seq_fw (f # fs)) (\<lambda>_. Q)"
  by (rule reaches_seq(2) [OF reaches_does])

lemma alu_branch_finishes: "finishes hw A alu_branch_main {1}"
  unfolding alu_branch_main_def
  by (intro finishes_then [OF reaches_banner] finishes_then [OF reaches_expect] finishes_pass) (simp add: alu_acc_value)

lemma load_store_finishes:
  assumes "a AND 3 = 0"
  shows "finishes hw A (load_store_main a) {1}"
  unfolding load_store_main_def
  by (rule finishes_then [where R = "\<lambda>_. True", OF _ finishes_pass],
      (rule reaches_seq(2) [OF reaches_banner] lanes_store32 [OF assms] lane_rules reaches_seq(1))+)
    (simp_all add: even_addresses [OF assms] assms upt_rec_numeral word_of_bytes_def byte_at_def)

lemma sdram_subword_finishes: "finishes hw A sdram_subword_main {1}"
proof -
  have a: "(TINYBUS_SDRAM_BASE + 0x400) AND 3 = 0" by (simp add: TINYBUS_SDRAM_BASE_def)
  show ?thesis
    unfolding sdram_subword_main_def Let_def
    by (rule finishes_then [where R = "\<lambda>_. True", OF _ finishes_pass],
        (rule reaches_seq(2) [OF reaches_banner] lanes_store32 [OF a] lane_rules quiet_seq [OF does_uart(1)] quiet_seq [OF does_uart(5)] reaches_seq(1))+)
      (simp_all add: TINYBUS_SDRAM_BASE_def upt_rec_numeral word_of_bytes_def byte_at_def)
qed

lemma skeleton_smoke_finishes: "finishes hw A skeleton_smoke_main {1}"
  unfolding skeleton_smoke_main_def
  by (rule finishes_then [where R = "\<lambda>_. True", OF _ finishes_pass], rule reaches_seq(2) [OF reaches_banner], rule quiet_seq [OF does_devices(1)],
      rule quiet_seq [OF does_uart(1)], rule reaches_seq(1)) simp

lemma uart_once_ends: "ends hw uart_once_main [Wr TINYBUS_GPIO_LED 5, tx 65, Wr TINYBUS_TEST_EXIT 1]"
  using ends_then [OF emits_devices(1) [of hw 5] ends_then [OF emits_putc [of 65] ends_then [OF emits_write ends_hang]]]
  by (simp add: uart_once_main_def)

end

context uart_tx
begin

lemma overlap_finishes: "finishes hw A sdram_overlap_read_main {1}"
proof -
  let ?b = overlap_base
  let ?P = "\<lambda>M. get32 M ?b = 0x10203040 \<and> get32 M (?b + 4) = 0x50607080 \<and> get32 M (?b + 8) = 0x90a0b0c0"
  have al: "?b AND 3 = 0" "(?b + 4) AND 3 = 0" "(?b + 8) AND 3 = 0"
    by (simp_all add: overlap_base_def TINYBUS_SDRAM_BASE_def)
  have stores: "reaches hw A (seq_fw [store32 ?b 0x10203040, store32 (?b + 4) 0x50607080, store32 (?b + 8) 0x90a0b0c0]) (\<lambda>_. ?P)"
    by (rule check_seq reaches_seq(1))+ (auto simp: get32_store_word al)
  have round: "reaches hw ?P (overlap_round s) (\<lambda>r M. r = s + 0x4181c200 \<and> ?P M)" for s
    by (auto simp: reaches_def overlap_round_def Let_def bind_fw_def load32_def ld32_def of_option_fw_def return_fw_def al)
  have loop: "reaches hw ?P (fold_fw [0..<32] (\<lambda>_. overlap_round) 0) (\<lambda>s M. s = of_nat 32 * 0x4181c200 \<and> ?P M)"
    by (rule reaches_fold [where J = "\<lambda>i s M. s = of_nat i * 0x4181c200 \<and> ?P M"])
      (auto intro!: reaches_pure reaches_mono [OF round] simp: distrib_right)
  show ?thesis
    unfolding sdram_overlap_read_main_def
    by (intro finishes_then [OF reaches_banner] finishes_then [OF stores] finishes_value [OF loop]
        finishes_then [OF reaches_expect] finishes_pass) simp
qed

end

lemma quiet_pass_ends: "ends hw quiet_pass_main [Wr TINYBUS_GPIO_LED 5, Wr TINYBUS_TEST_EXIT 1]"
  using ends_then [OF emits_devices(1) [of hw 5] ends_then [OF emits_write ends_hang]]
  by (simp add: quiet_pass_main_def exit_with_def)

lemma runs_counters: "runs {1, 0x32, 0x33, 0x34} counters_main (\<lambda>_. False)"
  unfolding counters_main_def Let_def
  by (intro runs_then [OF runs_banner] runs_bind [OF runs_counter_reads(1)] runs_bind [OF runs_counter_reads(2)]
      runs_then [OF runs_seq] runs_test_pass)
    (auto simp: counters_sink_value test_expect_def intro!: runs_test_fail runs_return)

text \<open>The echo, for a sender of one byte.\<close>

lemma uart_echo_ends:
  assumes "bytes_read (trace m) = 0"
  shows "\<exists>m'. uart_echo_main (host [c]) m = Some (Stop m') \<and>
    effects m' = effects m @ [tx c, Wr TINYBUS_GPIO_LED 5, Wr TINYBUS_TEST_EXIT 1]"
proof -
  obtain m1 where 1: "uart_getc (host [c]) m = Some (Ret c m1)" "effects m1 = effects m"
    using host_getc [of m "[c]"] assms by auto
  have "ends (host [c]) (then_fw (uart_putc c) (then_fw uart_flush (exit_with 5 1)))
      ([tx c] @ [] @ [Wr TINYBUS_GPIO_LED 5] @ [Wr TINYBUS_TEST_EXIT 1] @ [])"
    unfolding exit_with_def
    by (intro ends_then host_uart.emits_putc host_uart.emits_flush emits_devices(1) emits_write ends_hang)
  then show ?thesis
    unfolding ends_def uart_echo_main_def bind_fw_Ret [of uart_getc, OF 1(1)] 1(2) [symmetric] by (metis append.simps append_Nil2 append_Cons)
qed

text \<open>On the board the buzzer reads back what was written.\<close>

lemma buzzer_board:
  "\<exists>m'. buzzer_mmio_main (soc_hw cfg s0) m = Some (Stop m') \<and> stopped_with {1} m'"
  by (simp add: buzzer_mmio_main_def buzzer_start_def buzzer_set_half_period_def buzzer_stop_def buzzer_get_half_period_def
      buzzer_is_enabled_def exit_with_def gpio_write_led_def then_fw_def bind_fw_def mmio_write_def mmio_read_def return_fw_def
      hang_fw_def Let_def soc_read_def soc_write_def addr_defs BUZZER_TEST_HALF_PERIOD_def of_flag_def stopped_with_def)

text \<open>The frame that the port builds is the one the test wants, whatever the stack address; and the
  first task starts on it with its argument and an aligned stack.\<close>

lemma exit_with_stops: "\<exists>m'. exit_with leds code hw m = Some (Stop m') \<and> stopped_with {code} m'"
  by (simp add: exit_with_def gpio_write_led_def then_fw_def bind_fw_def mmio_write_def hang_fw_def stopped_with_def)

lemma frame_contract_passes:
  assumes "task_returned \<noteq> 0"
  shows "\<exists>m'. (freertos_frame_contract_main task_returned gp tp stack dummy_task :: 'b fw) hw m = Some (Stop m') \<and> stopped_with {1} m'"
proof -
  define base where "base = (stack + 4 * 511 + 4) AND NOT 15"
  define mm where "mm = put_slots (fill_bytes (mem m) (base - 144) 0 144) (base - 144)
      [(1, task_returned), (2, base), (3, gp), (4, tp), (10, 0x12345678), (32, dummy_task), (33, 0x1880)]"
  have init: "pxPortInitialiseStack task_returned gp tp (stack + 4 * 511) dummy_task 0x12345678 (mem m) = Some (base - 144, mm)"
    unfolding base_def mm_def by (rule initial_stack_run)
  have al: "(base - 144) AND 15 = 0" unfolding base_def by (rule round_down_16)
  then have "(base - 144) AND 3 = 0" using round_down_16(2) [of "stack + 4 * 511 + 4"] by (simp add: base_def)
  then have slots: "load32 (slot (base - 144) i) hw (m\<lparr>mem := mm\<rparr>) = Some (Ret
      (if i = 1 then task_returned else if i = 2 then base else if i = 3 then gp else if i = 4 then tp
       else if i = 10 then 0x12345678 else if i = 32 then dummy_task else if i = 33 then 0x1880 else 0) (m\<lparr>mem := mm\<rparr>))"
    if "i < 36" for i
    using initial_frame_words [OF that, of "mem m" "base - 144" task_returned base gp tp "0x12345678" dummy_task "0x1880"]
    by (simp add: load32_def ld32_def slot_aligned of_option_fw_def mm_def)
  have "(frame_checks gp tp dummy_task (base - 144) :: 'b fw) hw (m\<lparr>mem := mm\<rparr>) = exit_with 5 1 hw (m\<lparr>mem := mm\<rparr>)"
    using assms al by (simp add: frame_checks_def frame_expect_def Let_def then_fw_def bind_fw_def return_fw_def slots TRAP_FRAME_SIZE_def)
  then show ?thesis
    using exit_with_stops [where 'a = 'b, of 5 1 hw "m\<lparr>mem := mm\<rparr>"] unfolding freertos_frame_contract_main_def init by simp
qed

lemma first_task_passes:
  "\<exists>fp mm'. pxPortInitialiseStack ret gp tp sp0 code 0x2468ace0 mm = Some (fp, mm') \<and>
    (case trap_restore_frame fp mm' h of (pc, r) \<Rightarrow> pc = code \<and>
       (\<forall>hw m. \<exists>m'. (first_task (regs r 2) (regs r 10) :: 'b fw) hw m = Some (Stop m') \<and> stopped_with {1} m'))"
proof -
  define base where "base = (sp0 + 4) AND NOT 15"
  define mm' where "mm' = put_slots (fill_bytes mm (base - 144) 0 144) (base - 144)
      [(1, ret), (2, base), (3, gp), (4, tp), (10, 0x2468ace0), (32, code), (33, 0x1880)]"
  have "pxPortInitialiseStack ret gp tp sp0 code 0x2468ace0 mm = Some (base - 144, mm')"
    unfolding base_def mm'_def by (rule initial_stack_run)
  moreover have words: "get32 mm' (slot (base - 144) 2) = base" "get32 mm' (slot (base - 144) 10) = 0x2468ace0"
      "get32 mm' (slot (base - 144) 32) = code"
    unfolding mm'_def by (subst initial_frame_words; simp)+
  moreover have "base AND 15 = 0" unfolding base_def by (rule round_down_16)
  ultimately show ?thesis
    using exit_with_stops [where 'a = 'b] by (intro exI [of _ "base - 144"] exI [of _ mm']) (simp add: trap_restore_frame_def Let_def first_task_def)
qed

end
