(* ===== verification/Spec2Isabelle.thy ===== *)
theory Spec2Isabelle
  imports Devices Rt_String Rt_Alloc Gdb_Stub Rtos_Port Bam2_Valid Sdram_Memtest Boot_Verify Bad_Apple_Minimal
    Heap_Test Yield_Workers Screen Timer_Irq Freertos_Smoke Soc_Selftest Demo_Apps Gdb_Session Gdb_Smoke Context_Switch Dot4
    Crc32_Bench Memory_Bench Perf_Mix Riscv_Bench Heap_Smoke Firmware_Tests
begin

text \<open>
  TecPlusRV Insight is a RISC-V system on chip for an FPGA board, with the firmware that runs on
  it. This development models the C firmware under \<open>src/firmware\<close>, its two assembly files \<open>trap_entry.S\<close>
  and \<open>dot4.S\<close>, and the accelerator \<open>src/rtl/accel/dot4_int8.v\<close> behind the latter, and proves what
  its parts promise.

  \<^bold>\<open>The program.\<close> The drivers (\<open>drivers/\<close>) access the peripherals through two volatile accessors
  of \<open>mmio.h\<close>. The runtime (\<open>runtime/\<close>) has string routines, a bump allocator, printing and the
  trap entry. The GDB stub (\<open>gdb/\<close>) takes over the trap handler and talks the remote protocol over
  the UART. The FreeRTOS port (\<open>freertos/\<close>) puts the kernel, a git submodule that is not in the
  tree, on the trap entry and the machine timer. The applications (\<open>apps/\<close>) use all of them; the
  tests share \<open>tests/testlib.h\<close>, which reports through the UART and an exit register.

  \<^bold>\<open>The machine\<close> (theory \<open>Machine\<close>). A C function is a shallow computation \<open>'a fw\<close>: it takes the
  answers \<open>hw\<close> of the environment and a machine (byte memory and the trace of all volatile
  accesses and external calls so far) and returns (\<open>Ret\<close>), reaches a deliberate endless loop
  (\<open>Stop\<close>), does something undefined such as an access outside of an array (\<open>Fault\<close>), or never
  ends (\<open>None\<close>). \<open>hw\<close> maps the trace to the next answer, so a theorem for all \<open>hw\<close> covers every
  behaviour of devices, kernel and other tasks. Machine integers are words of their width and wrap
  as in C; array accesses are checked (\<open>array_get\<close>, \<open>array_put\<close>); strings are lists of bytes.

  \<^bold>\<open>Loops.\<close> Counted loops are \<open>for_fw\<close> and \<open>fold_fw\<close> over the list of the index values; loops with
  a growing cursor are functions with a measure; polling loops (\<open>poll_until\<close>) and endless or waiting
  loops (\<open>loop_fw\<close>, \<open>forever\<close>) are partial functions whose value is \<open>None\<close> when they never end. There
  is no fuel; that a polling function returns is proved where the device has to make progress.

  \<^bold>\<open>Interfaces.\<close> Drivers rely on devices through locales: \<open>uart_tx\<close> (the transmitter becomes ready
  again), \<open>machine_clock\<close> (time only advances), \<open>ticking_clock\<close> (every read of the timer takes time)
  and, for the allocator, \<open>region_allocator\<close> (a block lies between cursor and end). They are
  interpreted on \<open>soc_hw\<close>, the register behaviour of the peripherals (theory \<open>Tinybus\<close>, after
  \<open>src/rtl\<close>), on the memories of the board tests (\<open>ram_uart\<close> and others), on the serial line of a
  debugger (\<open>host_uart\<close>), on the timer beside a kernel (\<open>kernel_clock\<close>), and on \<open>bump_alloc\<close>.

  \<^bold>\<open>Theories and sources.\<close>
  \<^item> \<open>Firmware_Prelude\<close>, \<open>Machine\<close>: lists, options, words; computations, their effects (\<open>does\<close>,
    \<open>emits\<close>), frame and fault-freedom rules.
  \<^item> \<open>Tinybus\<close>: \<open>drivers/mmio.h\<close> and the devices. \<open>Uart\<close>: \<open>drivers/uart.c\<close>, \<open>runtime/rt_print.c\<close>.
    \<open>Devices\<close>: the other drivers.
  \<^item> \<open>Rt_String\<close>, \<open>Rt_Alloc\<close>: \<open>runtime/rt_string.c\<close> on byte memory with alignment faults,
    \<open>runtime/rt_alloc.c\<close> with its cursor passed along.
  \<^item> \<open>Gdb_Packet\<close>, \<open>Gdb_Stub\<close>: \<open>gdb/gdb_packet.c\<close>, a parser with its record of buffers and counters,
    and \<open>gdb/gdb_stub.c\<close>, the trap handler with its static buffers in the record \<open>stub\<close>.
  \<^item> \<open>Trap_Frame\<close>, \<open>Rtos_Port\<close>: \<open>runtime/trap_entry.S\<close>, \<open>runtime/trap.c\<close>, and \<open>freertos/port.c\<close>,
    \<open>portmacro.h\<close>, \<open>freertos_hooks.c\<close>, \<open>freertos_heap.c\<close>; the record \<open>port\<close> holds the static
    variables, the record \<open>kernel\<close> the kernel functions that the port calls.
  \<^item> \<open>Freertos_Task\<close>: how tasks are modelled. A kernel call is an external call; a variable shared
    between tasks is read and written through the environment, so that whatever the other tasks do
    between two accesses is covered. \<open>safely_in H P f Q\<close> says that under answers \<open>H\<close> the function
    does nothing undefined, returns only \<open>Q\<close> and stops only in \<open>P\<close>; it has a rule per construct.
  \<^item> \<open>Context_Switch\<close>: trap entry, dispatcher, initial stack and exit as one step relation of a hart with
    many tasks, and its abstraction, one processor per task.
  \<^item> \<open>Gdb_Session\<close>: a stop of the program in the debugger against the abstract monitor \<open>serve\<close>, and
    \<open>gdb/gdb_bootstrap.c\<close>. \<open>Gdb_Smoke\<close>: \<open>apps/baremetal/gdb_stub_smoke.c\<close> over its three stops.
  \<^item> \<open>Testlib\<close>: \<open>tests/testlib.h\<close>.
  \<^item> \<open>Bad_Apple\<close>, \<open>Bam2_Valid\<close>: the player \<open>apps/freertos/bad_apple_full.c\<close> and what its validation of a
    file guarantees. \<open>Screen\<close>: the abstract movie that drawing refines. \<open>Bad_Apple_Minimal\<close>: its predecessor without an operating system.
  \<^item> \<open>Sdram_Memtest\<close>, \<open>Boot_Verify\<close>: the memory test and the image verifier.
  \<^item> \<open>Freertos_Acceptance\<close>, \<open>Heap_Test\<close>, \<open>Yield_Workers\<close>: the acceptance test of the port; the last
    theory is the step relation of two tasks that share an array.
  \<^item> \<open>Busy_Wait\<close>, \<open>Freertos_Smoke\<close>: waiting on the machine timer; \<open>apps/freertos/freertos_smoke.c\<close> (two
    counting tasks as a step relation, then the timed part) and \<open>queue_demo.c\<close>. \<open>Timer_Irq\<close>: \<open>apps/irq\<close>,
    with the loop of the interrupt test one instruction at a time.
  \<^item> \<open>Board_Demo\<close>, \<open>Soc_Selftest\<close>, \<open>Demo_Apps\<close>: \<open>apps/baremetal/board_demo.c\<close>, \<open>tests/selftest.c\<close> with
    \<open>soc_selftest.c\<close>, and the small applications.
  \<^item> \<open>Bench_Support\<close>, \<open>Word_Eval\<close>: triples for programs on memory (\<open>reaches\<close>, \<open>finishes\<close>), arrays in
    memory, and kernel evaluation of word loops on lists of bits. \<open>Dot4\<close>, \<open>Crc32_Bench\<close>,
    \<open>Memory_Bench\<close>, \<open>Perf_Mix\<close>, \<open>Riscv_Bench\<close>: \<open>accel/dot4.S\<close> with its unit, and
    \<open>apps/baremetal/benchmarks\<close>.
  \<^item> \<open>Heap_Smoke\<close>, \<open>Firmware_Tests\<close>: \<open>tests/runtime_heap_smoke.c\<close> and the other tests in C that need no
    kernel, on the models of runtime, drivers and port.

  \<^bold>\<open>What is shown.\<close> Memory safety of the GDB stub and of the players for all inputs; the packet
  parser accepts exactly the well-formed frames; memory reads and writes of the debugger touch
  exactly the allowed region; the string routines agree with their references and make aligned
  accesses; the allocator meets its contract; a trap entry followed by a restore changes nothing;
  ticks stay on their grid and task switches happen exactly when the kernel asks for one; validation
  accepts exactly the valid files, and a validated file never trips a check while playing; a pass
  of a board test means what it should. Larger compositions: a debugger session is a run of the
  abstract monitor, reply by reply; every task has a processor of its own, and a task switched out
  goes on where it was; a timer interrupt between any two instructions of a loop is not noticed; no
  interleaving of the counting tasks fails their signatures; the DOT4 unit computes the dot product
  over every sequence of clocks; the CRC loop is division of polynomials and detects every burst of
  32 bits; benchmarks and tests end with success on every placement of their buffers, their
  constants evaluated in the kernel. Where the code does not do what it means to do, a theorem
  exhibits it: an alignment that wraps, a counter product that overflows, a tone that validation
  lets through, an increment that loses an update.

  \<^bold>\<open>Assumptions.\<close> The static buffers of the stub are not in the memory a debugger may write. The
  asset of a player is a constant sequence of words in the SDRAM. The kernel keeps its hands off
  memory it has handed out, and off the frames and control blocks of tasks that are switched out; the
  tasks it creates are the ones it returns. A critical section is one step of the task that is in
  it: no tick comes in between. Instructions are at aligned addresses. The dispatcher runs on the
  interrupt stack and keeps the frame it is given; the compiled loop of the interrupt test has the
  registers its \<open>asm\<close> constraints name. The processor holds the operands of the DOT4 instruction until
  it is acknowledged. The buffers of benchmarks and tests are aligned and do not overlap. Each
  assumption is a hypothesis of the theorem that needs it, or a parameter (addresses, data sets and
  the median kernel of riscv-tests, code outside of the tree a debugger may jump to).

  \<^bold>\<open>Not modelled.\<close> The Verilog sources apart from \<open>dot4_int8.v\<close>, the simulation benches and the host
  scripts (other languages; the registers the firmware sees are abstracted in \<open>Tinybus\<close>), the
  FreeRTOS kernel (not in the tree) and with it the kernel tests that exchange messages or yield,
  the test sequences for the processor core in assembly, start-up code and linker scripts (their
  symbols are parameters, and what start-up leaves in memory is a hypothesis). Stack use and timing
  of the compiled code are outside of the model.
\<close>

end
